(* ===== verification/Prelude.thy ===== *)
theory Prelude
  imports Complex_Main "HOL-Library.Sublist"
begin

text \<open>
  Shared vocabulary of the development: results of fallible Python code as sums
  (\<open>Inl\<close> is the raised exception, \<open>Inr\<close> the returned value), the sequencing of such code,
  Python's \<open>sorted\<close> of a set of integers, \<open>range\<close>, dictionaries as association lists, and the
  ASCII string operations (\<open>strip\<close>, \<open>split\<close>, \<open>int\<close>) the configuration parsers use.
  The collections declared here carry the component proofs.
\<close>

named_theorems result_simps \<open>equations that evaluate the sequencing of fallible code\<close>
named_theorems result_elims \<open>inversion of successful runs of fallible code\<close>

subsection \<open>Fallible code\<close>

definition bindE :: "'e + 'a \<Rightarrow> ('a \<Rightarrow> 'e + 'b) \<Rightarrow> 'e + 'b" where
  "bindE m f = (case m of Inl e \<Rightarrow> Inl e | Inr x \<Rightarrow> f x)"

text \<open>\<open>raiseIf c e\<close> is the statement \<^verbatim>\<open>if c: raise e\<close>.\<close>

definition raiseIf :: "bool \<Rightarrow> 'e \<Rightarrow> 'e + unit" where
  "raiseIf c e = (if c then Inl e else Inr ())"

text \<open>A list comprehension whose element expression may raise.\<close>

fun mapE :: "('a \<Rightarrow> 'e + 'b) \<Rightarrow> 'a list \<Rightarrow> 'e + 'b list" where
  "mapE f [] = Inr []"
| "mapE f (x # xs) = bindE (f x) (\<lambda>y. bindE (mapE f xs) (\<lambda>ys. Inr (y # ys)))"

text \<open>A \<^verbatim>\<open>for\<close> loop that threads a state and may raise.\<close>

fun foldE :: "('a \<Rightarrow> 's \<Rightarrow> 'e + 's) \<Rightarrow> 'a list \<Rightarrow> 's \<Rightarrow> 'e + 's" where
  "foldE f [] s = Inr s"
| "foldE f (x # xs) s = bindE (f x s) (foldE f xs)"

lemma bindE_Inl [simp, result_simps]: "bindE (Inl e) f = Inl e"
  by (simp add: bindE_def)

lemma bindE_Inr [simp, result_simps]: "bindE (Inr x) f = f x"
  by (simp add: bindE_def)

lemma bindE_eq_Inr [result_elims]: "bindE m f = Inr y \<longleftrightarrow> (\<exists>x. m = Inr x \<and> f x = Inr y)"
  by (cases m) auto

lemma bindE_InrE: "bindE m f = Inr y \<Longrightarrow> (\<And>x. m = Inr x \<Longrightarrow> f x = Inr y \<Longrightarrow> P) \<Longrightarrow> P"
  by (cases m) simp_all

lemma bindE_eq_Inl: "bindE m f = Inl e \<longleftrightarrow> m = Inl e \<or> (\<exists>x. m = Inr x \<and> f x = Inl e)"
  by (cases m) auto

lemma bindE_assoc: "bindE (bindE m f) g = bindE m (\<lambda>x. bindE (f x) g)"
  by (cases m) auto

lemma bindE_cong [fundef_cong]:
  "m = m' \<Longrightarrow> (\<And>x. m' = Inr x \<Longrightarrow> f x = f' x) \<Longrightarrow> bindE m f = bindE m' f'"
  by (cases m') auto

lemma raiseIf_eq_Inr [simp, result_simps]: "raiseIf c e = Inr u \<longleftrightarrow> \<not> c"
  by (simp add: raiseIf_def)

lemma raiseIf_eq_Inl [simp, result_simps]: "raiseIf c e = Inl e' \<longleftrightarrow> c \<and> e' = e"
  by (auto simp: raiseIf_def)

lemma raiseIf_True [simp]: "raiseIf True e = Inl e"
  by (simp add: raiseIf_def)

lemma raiseIf_False [simp]: "raiseIf False e = Inr ()"
  by (simp add: raiseIf_def)

lemma bindE_raiseIf: "bindE (raiseIf c e) f = (if c then Inl e else f ())"
  by (simp add: raiseIf_def)

lemma mapE_eq_Inr: "mapE f xs = Inr ys \<longleftrightarrow> list_all2 (\<lambda>x y. f x = Inr y) xs ys"
  by (induction xs arbitrary: ys) (auto simp: bindE_eq_Inr list_all2_Cons1)

lemma mapE_mem: "mapE f xs = Inr ys \<Longrightarrow> y \<in> set ys \<Longrightarrow> \<exists>x \<in> set xs. f x = Inr y"
  by (induction xs arbitrary: ys) (auto simp: bindE_eq_Inr)

lemma mapE_mem_arg: "mapE f xs = Inr ys \<Longrightarrow> x \<in> set xs \<Longrightarrow> \<exists>y \<in> set ys. f x = Inr y"
  by (induction xs arbitrary: ys) (auto simp: bindE_eq_Inr)

lemma mapE_replay:
  "mapE f xs = Inr ys \<Longrightarrow> (\<And>x y. x \<in> set xs \<Longrightarrow> y \<in> set ys \<Longrightarrow> f x = Inr y \<Longrightarrow> g x = Inr y)
     \<Longrightarrow> mapE g xs = Inr ys"
  by (induction xs arbitrary: ys) (auto simp: bindE_eq_Inr)

lemma mapE_total: "(\<And>x. x \<in> set xs \<Longrightarrow> f x = Inr (g x)) \<Longrightarrow> mapE f xs = Inr (map g xs)"
  by (induction xs) auto

lemma mapE_cong [fundef_cong]:
  "xs = ys \<Longrightarrow> (\<And>x. x \<in> set ys \<Longrightarrow> f x = g x) \<Longrightarrow> mapE f xs = mapE g ys"
  by (induction ys arbitrary: xs) (auto intro!: bindE_cong)

lemma mapE_length: "mapE f xs = Inr ys \<Longrightarrow> length ys = length xs"
  by (auto simp: mapE_eq_Inr dest: list_all2_lengthD)

lemma foldE_append: "foldE f (xs @ ys) s = bindE (foldE f xs s) (foldE f ys)"
  by (induction xs arbitrary: s) (auto simp: bindE_assoc intro: bindE_cong)

lemma foldE_invariant:
  assumes "foldE f xs s = Inr t" and "I s"
    and "\<And>x s t. x \<in> set xs \<Longrightarrow> I s \<Longrightarrow> f x s = Inr t \<Longrightarrow> I t"
  shows "I t"
  using assms
proof (induction xs arbitrary: s)
  case (Cons x xs)
  then obtain u where u: "f x s = Inr u" and rest: "foldE f xs u = Inr t"
    by (auto simp: bindE_eq_Inr)
  have "I u" using Cons.prems(2,3) u by (metis list.set_intros(1))
  then show ?case using Cons.IH [OF rest] Cons.prems(3) by (meson list.set_intros(2))
qed simp

text \<open>A fallible step that keeps a property of the state; loops over it keep the property too.\<close>

locale preserved_step =
  fixes step :: "'a \<Rightarrow> 's \<Rightarrow> 'e + 's" and keeps :: "'s \<Rightarrow> bool"
  assumes step_keeps: "keeps s \<Longrightarrow> step x s = Inr t \<Longrightarrow> keeps t"
begin

lemma loop_keeps: "foldE step xs s = Inr t \<Longrightarrow> keeps s \<Longrightarrow> keeps t"
  using foldE_invariant [of step xs s t keeps] step_keeps by blast

end

subsection \<open>Sorted sets of integers and ranges\<close>

text \<open>\<^verbatim>\<open>sorted({...})\<close>: the strictly increasing list of the elements.\<close>

definition sorted_set :: "int list \<Rightarrow> int list" where
  "sorted_set xs = sort (remdups xs)"

lemma set_sorted_set [simp]: "set (sorted_set xs) = set xs"
  by (simp add: sorted_set_def)

lemma sorted_sorted_set [simp]: "sorted (sorted_set xs)"
  by (simp add: sorted_set_def)

lemma distinct_sorted_set [simp]: "distinct (sorted_set xs)"
  by (simp add: sorted_set_def)

lemma sorted_set_Nil_iff [simp]: "sorted_set xs = [] \<longleftrightarrow> xs = []"
  by (metis set_sorted_set set_empty)

lemma sorted_set_unique:
  "sorted xs \<Longrightarrow> distinct xs \<Longrightarrow> set xs = set ys \<Longrightarrow> xs = sorted_set ys"
  by (metis distinct_sorted_set set_sorted_set sorted_distinct_set_unique sorted_sorted_set)

lemma sorted_set_idem: "sorted xs \<Longrightarrow> distinct xs \<Longrightarrow> sorted_set xs = xs"
  by (simp add: sorted_set_unique [symmetric])

lemma sorted_last_ge: "sorted xs \<Longrightarrow> x \<in> set xs \<Longrightarrow> x \<le> last xs" for x :: "'a::linorder"
  by (induction xs) auto

lemma sorted_hd_le: "sorted xs \<Longrightarrow> x \<in> set xs \<Longrightarrow> hd xs \<le> x" for x :: "'a::linorder"
  by (cases xs) auto

text \<open>\<^verbatim>\<open>range(a, b)\<close>.\<close>

definition py_range :: "int \<Rightarrow> int \<Rightarrow> int list" where
  "py_range a b = [a..b - 1]"

lemma set_py_range [simp]: "set (py_range a b) = {a..<b}"
  by (auto simp: py_range_def)

lemma distinct_py_range [simp]: "distinct (py_range a b)"
  by (simp add: py_range_def)

lemma length_py_range [simp]: "length (py_range a b) = nat (b - a)"
  by (simp add: py_range_def)

subsection \<open>Slices\<close>

text \<open>\<^verbatim>\<open>xs[:k]\<close>: a negative bound counts from the end.\<close>

definition py_take :: "int \<Rightarrow> 'a list \<Rightarrow> 'a list" where
  "py_take k xs = (if 0 \<le> k then take (nat k) xs else take (nat (int (length xs) + k)) xs)"

lemma py_take_nonneg [simp]: "0 \<le> k \<Longrightarrow> py_take k xs = take (nat k) xs"
  by (simp add: py_take_def)

lemma set_py_take_subset: "set (py_take k xs) \<subseteq> set xs"
  by (auto simp: py_take_def dest: in_set_takeD)

subsection \<open>Dictionaries\<close>

text \<open>
  A Python dictionary is an association list in insertion order; \<open>dict_set\<close> overwrites in
  place or appends, \<open>dict_eq\<close> is Python's order-insensitive equality.
\<close>

type_synonym ('k, 'v) dict = "('k \<times> 'v) list"

fun dict_set :: "'k \<Rightarrow> 'v \<Rightarrow> ('k, 'v) dict \<Rightarrow> ('k, 'v) dict" where
  "dict_set k v [] = [(k, v)]"
| "dict_set k v ((k', v') # d) = (if k = k' then (k, v) # d else (k', v') # dict_set k v d)"

definition dict_keys :: "('k, 'v) dict \<Rightarrow> 'k list" where
  "dict_keys d = map fst d"

definition dict_get :: "('k, 'v) dict \<Rightarrow> 'k \<Rightarrow> 'v option" where
  "dict_get d k = map_of d k"

definition dict_eq :: "('k, 'v) dict \<Rightarrow> ('k, 'v) dict \<Rightarrow> bool" where
  "dict_eq a b \<longleftrightarrow> (\<forall>k \<in> set (dict_keys a @ dict_keys b). dict_get a k = dict_get b k)"

lemma dict_get_set: "dict_get (dict_set k v d) k' = (if k' = k then Some v else dict_get d k')"
  by (induction k v d rule: dict_set.induct) (auto simp: dict_get_def)

lemma dict_get_Nil [simp]: "dict_get [] k = None"
  by (simp add: dict_get_def)

lemma set_dict_keys_set [simp]: "set (dict_keys (dict_set k v d)) = insert k (set (dict_keys d))"
  by (induction k v d rule: dict_set.induct) (auto simp: dict_keys_def)

lemma dict_set_distinct: "distinct (dict_keys d) \<Longrightarrow> distinct (dict_keys (dict_set k v d))"
proof (induction d)
  case (Cons p d)
  have "fst ` set (dict_set k v d) = insert k (fst ` set d)" using set_dict_keys_set [of k v d] by (simp add: dict_keys_def)
  with Cons show ?case by (cases p) (auto simp: dict_keys_def)
qed (simp add: dict_keys_def)

lemma dict_set_fresh: "k \<notin> set (dict_keys d) \<Longrightarrow> dict_set k v d = d @ [(k, v)]"
  by (induction k v d rule: dict_set.induct) (auto simp: dict_keys_def)

lemma dict_get_eq_None: "dict_get d k = None \<longleftrightarrow> k \<notin> set (dict_keys d)"
  by (simp add: dict_get_def dict_keys_def map_of_eq_None_iff)

lemma dict_eq_iff: "dict_eq a b \<longleftrightarrow> dict_get a = dict_get b"
proof
  assume "dict_eq a b"
  then have "dict_get a k = dict_get b k" for k
    unfolding dict_eq_def by (metis UnCI dict_get_eq_None set_append)
  then show "dict_get a = dict_get b" by blast
qed (simp add: dict_eq_def)

lemma dict_eq_refl [simp]: "dict_eq a a"
  by (simp add: dict_eq_iff)

lemma dict_eq_sym: "dict_eq a b \<longleftrightarrow> dict_eq b a"
  by (auto simp: dict_eq_iff)

lemma dict_eq_trans: "dict_eq a b \<Longrightarrow> dict_eq b c \<Longrightarrow> dict_eq a c"
  by (simp add: dict_eq_iff)

subsection \<open>ASCII strings\<close>

text \<open>
  \<^verbatim>\<open>str.strip\<close> removes the ASCII characters for which \<^verbatim>\<open>str.isspace\<close> holds; \<^verbatim>\<open>int\<close> itself
  skips the narrower C set. Strings are ASCII: environment values outside ASCII are not
  modelled.
\<close>

definition is_strip_space :: "char \<Rightarrow> bool" where
  "is_strip_space c \<longleftrightarrow> (let n = (of_char c :: nat) in 9 \<le> n \<and> n \<le> 13 \<or> 28 \<le> n \<and> n \<le> 32)"

definition is_c_space :: "char \<Rightarrow> bool" where
  "is_c_space c \<longleftrightarrow> (let n = (of_char c :: nat) in 9 \<le> n \<and> n \<le> 13 \<or> n = 32)"

definition strip_by :: "(char \<Rightarrow> bool) \<Rightarrow> string \<Rightarrow> string" where
  "strip_by p s = rev (dropWhile p (rev (dropWhile p s)))"

abbreviation py_strip :: "string \<Rightarrow> string" where
  "py_strip \<equiv> strip_by is_strip_space"

fun py_split :: "char \<Rightarrow> string \<Rightarrow> string list" where
  "py_split c [] = [[]]"
| "py_split c (x # xs) =
     (if x = c then [] # py_split c xs
      else case py_split c xs of [] \<Rightarrow> [[x]] | t # ts \<Rightarrow> (x # t) # ts)"

definition is_digit :: "char \<Rightarrow> bool" where
  "is_digit c \<longleftrightarrow> (let n = (of_char c :: nat) in 48 \<le> n \<and> n \<le> 57)"

definition digit_val :: "char \<Rightarrow> int" where
  "digit_val c = int (of_char c :: nat) - 48"

definition ascii_lower :: "char \<Rightarrow> char" where
  "ascii_lower c = (let n = (of_char c :: nat) in if 65 \<le> n \<and> n \<le> 90 then char_of (n + 32) else c)"

text \<open>
  The digit string of \<^verbatim>\<open>int(s, 10)\<close>: digits with single underscores between digits.
  The accumulator is \<open>None\<close> where a digit is required next.
\<close>

fun int_digits :: "bool \<Rightarrow> int \<Rightarrow> string \<Rightarrow> int option" where
  "int_digits need acc [] = (if need then None else Some acc)"
| "int_digits need acc (c # cs) =
     (if is_digit c then int_digits False (10 * acc + digit_val c) cs
      else if c = CHR ''_'' \<and> \<not> need then int_digits True acc cs
      else None)"

text \<open>\<^verbatim>\<open>int(s)\<close> for ASCII \<open>s\<close>; \<open>None\<close> is \<^verbatim>\<open>ValueError\<close>, including the 4300-digit limit.\<close>

definition py_int :: "string \<Rightarrow> int option" where
  "py_int s =
     (let t = strip_by is_c_space s;
          neg = (case t of [] \<Rightarrow> False | c # _ \<Rightarrow> c = CHR ''-'');
          body = (case t of [] \<Rightarrow> [] | c # cs \<Rightarrow> if c = CHR ''-'' \<or> c = CHR ''+'' then cs else t)
      in if 4300 < length (filter is_digit body) then None
         else map_option (\<lambda>n. if neg then - n else n) (int_digits True 0 body))"

lemma py_split_nonempty [simp]: "py_split c s \<noteq> []"
  by (induction s) (auto split: list.splits)

lemma int_digits_nonneg: "0 \<le> acc \<Longrightarrow> int_digits need acc s = Some n \<Longrightarrow> 0 \<le> n"
  by (induction need acc s rule: int_digits.induct)
    (auto simp: is_digit_def digit_val_def Let_def split: if_splits)

lemma strip_by_id_iff: "strip_by p s = s \<longleftrightarrow> s = [] \<or> (\<not> p (hd s) \<and> \<not> p (last s))"
proof
  assume id: "strip_by p s = s"
  show "s = [] \<or> (\<not> p (hd s) \<and> \<not> p (last s))"
  proof (rule disjCI)
    assume neg: "\<not> (\<not> p (hd s) \<and> \<not> p (last s))"
    show "s = []"
    proof (rule ccontr)
      assume ne: "s \<noteq> []"
      have le: "length (dropWhile p xs) \<le> length xs" for xs by (rule length_dropWhile_le)
      have less: "length (dropWhile p xs) < length xs" if "xs \<noteq> []" "p (hd xs)" for xs
        using that by (cases xs) (auto simp: le_imp_less_Suc length_dropWhile_le)
      have len: "length (strip_by p s) \<le> length (dropWhile p s)"
        using le [of "rev (dropWhile p s)"] by (simp add: strip_by_def)
      show False
      proof (cases "p (hd s)")
        case True
        with less [OF ne] len id show False by simp
      next
        case False
        with ne have "dropWhile p s = s" by (cases s) auto
        moreover have "p (hd (rev s))" using neg False ne by (simp add: hd_rev)
        ultimately show False using less [of "rev s"] ne id
          by (metis length_rev less_irrefl rev_is_Nil_conv strip_by_def)
      qed
    qed
  qed
next
  assume "s = [] \<or> (\<not> p (hd s) \<and> \<not> p (last s))"
  then show "strip_by p s = s"
  proof
    assume s: "\<not> p (hd s) \<and> \<not> p (last s)"
    then have "dropWhile p s = s" by (cases s) auto
    moreover have "dropWhile p (rev s) = rev s"
      using s by (cases "rev s") (auto simp: hd_rev [symmetric])
    ultimately show ?thesis by (simp add: strip_by_def)
  qed (simp add: strip_by_def)
qed

text \<open>The value of a plain digit string.\<close>

definition dec_val :: "int \<Rightarrow> string \<Rightarrow> int" where
  "dec_val acc s = foldl (\<lambda>n c. 10 * n + digit_val c) acc s"

lemma int_digits_plain:
  assumes "CHR ''_'' \<notin> set s"
  shows "int_digits need acc s = Some n \<longleftrightarrow>
    (need \<longrightarrow> s \<noteq> []) \<and> (\<forall>c \<in> set s. is_digit c) \<and> n = dec_val acc s"
  using assms
  by (induction need acc s rule: int_digits.induct) (auto simp: dec_val_def)

lemma dec_val_nonneg: "\<forall>c \<in> set s. is_digit c \<Longrightarrow> 0 \<le> acc \<Longrightarrow> 0 \<le> dec_val acc s"
  unfolding dec_val_def
  by (induction s arbitrary: acc) (auto simp: is_digit_def digit_val_def Let_def)

end
