(* ===== verification/DepthLadder.thy ===== *)
theory DepthLadder
  imports Prelude
begin

text \<open>
  \<^verbatim>\<open>v1/spec_decode/dynamic/depth_ladder.py\<close>: the one parser of \<^verbatim>\<open>VLLM_ADAPTIVE_SPEC_DEPTHS\<close>,
  shared by the scheduler and the CUDA-graph capture. \<open>parse_adaptive_spec_depth_ladder\<close> takes
  the value of the environment variable as an argument; logging is not modelled.
\<close>

datatype ladder_error = LadderValueError

definition ADAPTIVE_SPEC_DEPTHS_DEFAULT :: string where
  "ADAPTIVE_SPEC_DEPTHS_DEFAULT = ''2,4,5''"

definition parse_tokens :: "string \<Rightarrow> int list option" where
  "parse_tokens text =
     (let toks = filter (\<lambda>tok. py_strip tok \<noteq> []) (py_split CHR '','' text);
          ints = map py_int toks
      in if None \<in> set ints then None else Some (sorted_set (map the ints)))"

text \<open>\<open>raw\<close> is the explicit argument, \<open>env\<close> the environment variable (\<open>None\<close> when unset).\<close>

definition parse_adaptive_spec_depth_ladder ::
  "string option \<Rightarrow> int \<Rightarrow> string option \<Rightarrow> ladder_error + int list" where
  "parse_adaptive_spec_depth_ladder env max_num_spec_tokens raw =
     bindE (raiseIf (max_num_spec_tokens \<le> 0) LadderValueError) (\<lambda>_.
       let text = (case raw of Some r \<Rightarrow> r
                   | None \<Rightarrow> (case env of Some e \<Rightarrow> e | None \<Rightarrow> ADAPTIVE_SPEC_DEPTHS_DEFAULT));
           depths = (case parse_tokens text of Some ds \<Rightarrow> ds
                     | None \<Rightarrow> (case parse_tokens ADAPTIVE_SPEC_DEPTHS_DEFAULT of
                                 Some ds \<Rightarrow> ds | None \<Rightarrow> []));
           valid = filter (\<lambda>depth. 1 \<le> depth \<and> depth \<le> max_num_spec_tokens) depths
       in Inr (sorted_set (valid @ [max_num_spec_tokens])))"

subsection \<open>Well-formed ladders\<close>

text \<open>What every consumer of a ladder relies on.\<close>

definition ladder_ok :: "int \<Rightarrow> int list \<Rightarrow> bool" where
  "ladder_ok k ladder \<longleftrightarrow> sorted ladder \<and> distinct ladder \<and> k \<in> set ladder
     \<and> (\<forall>d \<in> set ladder. 1 \<le> d \<and> d \<le> k)"

lemma ladder_okD:
  assumes "ladder_ok k ladder"
  shows "ladder \<noteq> []" "last ladder = k" "hd ladder \<in> set ladder" "1 \<le> hd ladder" "hd ladder \<le> k"
proof -
  from assms show ne: "ladder \<noteq> []" by (auto simp: ladder_ok_def)
  then show hd: "hd ladder \<in> set ladder" by simp
  with assms show "1 \<le> hd ladder" "hd ladder \<le> k" by (auto simp: ladder_ok_def)
  have "k \<le> last ladder" using assms by (simp add: ladder_ok_def sorted_last_ge)
  moreover have "last ladder \<le> k" using assms ne by (auto simp: ladder_ok_def)
  ultimately show "last ladder = k" by simp
qed

lemma ladder_ok_sorted_set:
  assumes "1 \<le> k" and "\<forall>d \<in> set ds. 1 \<le> d \<and> d \<le> k"
  shows "ladder_ok k (sorted_set (ds @ [k]))"
  using assms by (auto simp: ladder_ok_def)

lemma parse_tokens_default: "parse_tokens ADAPTIVE_SPEC_DEPTHS_DEFAULT = Some [2, 4, 5]"
  by code_simp

lemma parse_ladder_shape:
  assumes "parse_adaptive_spec_depth_ladder env k raw = Inr ladder"
  obtains ds where "1 \<le> k" and "ladder = sorted_set (filter (\<lambda>d. 1 \<le> d \<and> d \<le> k) ds @ [k])"
  using assms by (auto simp: parse_adaptive_spec_depth_ladder_def bindE_raiseIf Let_def split: if_splits)

lemma parse_ladder_ok: "parse_adaptive_spec_depth_ladder env k raw = Inr ladder \<Longrightarrow> ladder_ok k ladder"
  by (erule parse_ladder_shape) (auto intro: ladder_ok_sorted_set)

text \<open>
  C28: whatever the environment variable holds, the parser returns a usable ladder: strictly
  increasing depths inside \<open>[1, K]\<close> with the configured maximum \<open>K\<close> as a rung. It raises
  exactly when \<open>K\<close> is not positive.
\<close>

theorem parse_ladder_correct:
  "case parse_adaptive_spec_depth_ladder env k raw of
     Inl e \<Rightarrow> k \<le> 0
   | Inr ladder \<Rightarrow> 0 < k \<and> ladder_ok k ladder"
proof (cases "parse_adaptive_spec_depth_ladder env k raw")
  case (Inl e)
  then show ?thesis
    by (auto simp: parse_adaptive_spec_depth_ladder_def bindE_raiseIf Let_def split: if_splits)
next
  case (Inr ladder)
  then have "0 < k" by (auto elim: parse_ladder_shape)
  with parse_ladder_ok [OF Inr] Inr show ?thesis by simp
qed

text \<open>The rungs are exactly the in-range configured depths and the maximum; a value that does
  not parse falls back to the default ladder.\<close>

lemma parse_ladder_set:
  assumes "0 < k" and "parse_tokens text = Some ds"
  shows "\<exists>ladder. parse_adaptive_spec_depth_ladder env k (Some text) = Inr ladder
           \<and> set ladder = insert k {d \<in> set ds. 1 \<le> d \<and> d \<le> k}"
  using assms by (auto simp: parse_adaptive_spec_depth_ladder_def)

lemma parse_ladder_fallback:
  assumes "parse_tokens text = None"
  shows "parse_adaptive_spec_depth_ladder env k (Some text)
           = parse_adaptive_spec_depth_ladder env k (Some ADAPTIVE_SPEC_DEPTHS_DEFAULT)"
  using assms by (simp add: parse_adaptive_spec_depth_ladder_def parse_tokens_default)

end
