(* ===== verification/Float64.thy ===== *)
theory Float64
  imports Prelude "HOL-Library.Log_Nat"
begin

text \<open>
  Python's \<open>float\<close>: IEEE 754 binary64 with round-to-nearest-even, as far as the runtime uses it.
  A finite float is the rational number it denotes; \<open>fl\<close> rounds a rational to the nearest
  float (52 fraction bits, least exponent \<open>-1022\<close>, subnormals included). Overflow to infinity
  is outside the model: every quantity rounded by the runtime is a byte count below \<open>2 ^ 63\<close>,
  a token count, or a ratio of such.
  The lemmas give the monotonicity of rounding, exactness on integers up to \<open>2 ^ 53\<close>, the
  relative error bound and the comparison of rounded quotients.
\<close>

named_theorems float_simps \<open>exact values and bounds of rounded quantities\<close>

subsection \<open>Rounding\<close>

definition ilog2 :: "rat \<Rightarrow> int" where
  "ilog2 x = (case quotient_of x of (p, q) \<Rightarrow>
     let k = bitlen p - bitlen q in if 2 powi k \<le> x then k else k - 1)"

definition round_half_even :: "rat \<Rightarrow> int" where
  "round_half_even x =
     (let f = \<lfloor>x\<rfloor>; d = x - of_int f
      in if d < 1 / 2 then f else if 1 / 2 < d then f + 1 else if even f then f else f + 1)"

definition ulp :: "rat \<Rightarrow> rat" where
  "ulp x = 2 powi (max (ilog2 \<bar>x\<bar>) (- 1022) - 52)"

definition fl :: "rat \<Rightarrow> rat" where
  "fl x = (if x = 0 then 0 else of_int (round_half_even (x / ulp x)) * ulp x)"

text \<open>\<^verbatim>\<open>int / int\<close> is correctly rounded; \<^verbatim>\<open>float / float\<close> and \<^verbatim>\<open>float * float\<close> round the exact
  result; an \<^verbatim>\<open>int\<close> operand of a float operation is first converted. The source guards every
  division against a zero divisor.\<close>

definition int_truediv :: "int \<Rightarrow> int \<Rightarrow> rat" where
  "int_truediv a b = fl (of_int a / of_int b)"

definition float_div :: "rat \<Rightarrow> rat \<Rightarrow> rat" where
  "float_div a b = fl (a / b)"

definition float_mul_int :: "rat \<Rightarrow> int \<Rightarrow> rat" where
  "float_mul_int a n = fl (a * fl (of_int n))"

text \<open>\<^verbatim>\<open>math.nextafter(x, 0.0)\<close>: the neighbouring float towards zero.\<close>

definition nextafter0 :: "rat \<Rightarrow> rat" where
  "nextafter0 x =
     (if x = 0 then 0
      else let e = ilog2 \<bar>x\<bar>;
               u = (if \<bar>x\<bar> = 2 powi e \<and> - 1022 < e then ulp x / 2 else ulp x)
           in if 0 < x then x - u else x + u)"

subsection \<open>The binary exponent\<close>

lemma bitlen_powi:
  assumes "0 < p"
  shows "2 powi (bitlen p - 1) \<le> (of_int p :: rat)" and "(of_int p :: rat) < 2 powi bitlen p"
proof -
  from assms have b: "1 \<le> bitlen p"
    using bitlen_eq_zero_iff [of p] bitlen_nonneg [of p] by linarith
  have "(of_int (2 ^ nat (bitlen p - 1)) :: rat) \<le> of_int p"
    using bitlen_bounds [OF assms] by (simp only: of_int_le_iff)
  then show "2 powi (bitlen p - 1) \<le> (of_int p :: rat)"
    using b by (simp add: power_int_def)
  have "(of_int p :: rat) < of_int (2 ^ nat (bitlen p))"
    using bitlen_bounds [OF assms] by (simp only: of_int_less_iff)
  then show "(of_int p :: rat) < 2 powi bitlen p"
    using b by (simp add: power_int_def)
qed

lemma ilog2_bounds:
  assumes "0 < x"
  shows "2 powi ilog2 x \<le> x" and "x < 2 powi (ilog2 x + 1)"
proof -
  obtain p q where pq: "quotient_of x = (p, q)" by fastforce
  then have q: "0 < q" and x: "x = of_int p / of_int q"
    using quotient_of_denom_pos quotient_of_div by auto
  with assms have p: "0 < p" by (simp add: zero_less_divide_iff)
  let ?k = "bitlen p - bitlen q"
  have "x < 2 powi bitlen p / 2 powi (bitlen q - 1)"
    unfolding x using bitlen_powi(2) [OF p] bitlen_powi(1) [OF q] p q
    by (intro frac_less) auto
  also have "\<dots> = 2 powi (?k + 1)"
    by (simp add: power_int_diff [symmetric] algebra_simps)
  finally have up: "x < 2 powi (?k + 1)" .
  have "2 powi (?k - 1) = 2 powi (bitlen p - 1) / (2 powi bitlen q :: rat)"
    by (simp add: power_int_diff [symmetric] algebra_simps)
  also have "\<dots> \<le> x"
    unfolding x using bitlen_powi(1) [OF p] bitlen_powi(2) [OF q] p q
    by (intro frac_le) auto
  finally have lo: "2 powi (?k - 1) \<le> x" .
  show "2 powi ilog2 x \<le> x" and "x < 2 powi (ilog2 x + 1)"
    using up lo by (auto simp: ilog2_def pq Let_def)
qed

lemma powi2_pos: "0 < (2 :: rat) powi k"
  by simp

lemma powi2_mono: "a \<le> b \<Longrightarrow> (2 :: rat) powi a \<le> 2 powi b"
  by (simp add: power_int_increasing)

lemma powi2_less_iff: "(2 :: rat) powi a < 2 powi b \<longleftrightarrow> a < b"
  by (metis linorder_not_less power_int_increasing power_int_strict_increasing one_le_numeral one_less_numeral_iff semiring_norm(76))

lemma powi2_Suc: "(2 :: rat) powi (k + 1) = 2 * 2 powi k"
  by (simp add: power_int_add)

lemma ilog2_unique: "2 powi k \<le> x \<Longrightarrow> x < 2 powi (k + 1) \<Longrightarrow> ilog2 x = k"
proof -
  assume k: "2 powi k \<le> x" "x < 2 powi (k + 1)"
  then have "0 < x" by (meson order_less_le_trans zero_less_numeral zero_less_power_int)
  from ilog2_bounds [OF this] k have "2 powi k < (2 :: rat) powi (ilog2 x + 1)"
    "2 powi ilog2 x < (2 :: rat) powi (k + 1)" by linarith+
  then show ?thesis by (simp only: powi2_less_iff) 
qed

lemma ilog2_mono: "0 < x \<Longrightarrow> x \<le> y \<Longrightarrow> ilog2 x \<le> ilog2 y"
proof -
  assume "0 < x" "x \<le> y"
  then have "2 powi ilog2 x < (2 :: rat) powi (ilog2 y + 1)"
    using ilog2_bounds [of x] ilog2_bounds [of y] by linarith
  then show ?thesis by (simp only: powi2_less_iff)
qed

lemma ilog2_double: "0 < x \<Longrightarrow> ilog2 (2 * x) = ilog2 x + 1"
  using ilog2_bounds [of x] powi2_Suc [of "ilog2 x + 1"] powi2_Suc [of "ilog2 x"]
  by (intro ilog2_unique) auto

subsection \<open>Rounding to an integer\<close>

lemma round_half_even_error: "\<bar>of_int (round_half_even x) - x\<bar> \<le> 1 / 2"
proof -
  have "of_int \<lfloor>x\<rfloor> \<le> x" "x < of_int \<lfloor>x\<rfloor> + 1" using floor_correct [of x] by auto
  then show ?thesis by (auto simp: round_half_even_def Let_def abs_le_iff)
qed

lemma round_half_even_int [simp]: "round_half_even (of_int n) = n"
  by (simp add: round_half_even_def)

lemma round_half_even_mono: "x \<le> y \<Longrightarrow> round_half_even x \<le> round_half_even y"
proof -
  assume xy: "x \<le> y"
  then have fl: "\<lfloor>x\<rfloor> \<le> \<lfloor>y\<rfloor>" by (rule floor_mono)
  show ?thesis
  proof (cases "\<lfloor>x\<rfloor> = \<lfloor>y\<rfloor>")
    case True
    with xy show ?thesis by (auto simp: round_half_even_def Let_def)
  next
    case False
    with fl have "\<lfloor>x\<rfloor> + 1 \<le> \<lfloor>y\<rfloor>" by linarith
    then show ?thesis by (auto simp: round_half_even_def Let_def)
  qed
qed

lemma round_half_even_ge: "of_int n \<le> x \<Longrightarrow> n \<le> round_half_even x"
  using round_half_even_mono [of "of_int n" x] by simp

lemma round_half_even_le: "x \<le> of_int n \<Longrightarrow> round_half_even x \<le> n"
  using round_half_even_mono [of x "of_int n"] by simp

subsection \<open>Rounding to a float\<close>

lemma round_half_even_uminus: "round_half_even (- x) = - round_half_even x"
proof (cases "x = of_int \<lfloor>x\<rfloor>")
  case True
  then show ?thesis by (metis of_int_minus round_half_even_int)
next
  case False
  then have "\<lfloor>- x\<rfloor> = - \<lfloor>x\<rfloor> - 1" by (simp add: floor_eq_iff) linarith
  then show ?thesis by (auto simp: round_half_even_def Let_def)
qed

lemma ulp_pos [simp]: "0 < ulp x"
  by (simp add: ulp_def)

lemma fl_0 [simp, float_simps]: "fl 0 = 0"
  by (simp add: fl_def)

lemma fl_uminus: "fl (- x) = - fl x"
  by (simp add: fl_def ulp_def round_half_even_uminus)

lemma fl_nonneg: "0 \<le> x \<Longrightarrow> 0 \<le> fl x"
proof -
  assume "0 \<le> x"
  then have "0 \<le> round_half_even (x / ulp x)"
    using round_half_even_ge [of 0 "x / ulp x"] ulp_pos [of x] by simp
  then show ?thesis using less_imp_le [OF ulp_pos [of x]] by (simp add: fl_def)
qed

lemma fl_error: "\<bar>fl x - x\<bar> \<le> ulp x / 2"
proof (cases "x = 0")
  case False
  have "\<bar>fl x - x\<bar> = \<bar>of_int (round_half_even (x / ulp x)) - x / ulp x\<bar> * ulp x"
    using False abs_mult [of "of_int (round_half_even (x / ulp x)) - x / ulp x" "ulp x"]
      ulp_pos [of x] by (simp add: fl_def left_diff_distrib)
  also have "\<dots> \<le> 1 / 2 * ulp x"
    by (intro mult_right_mono round_half_even_error) (simp add: less_imp_le)
  finally show ?thesis by simp
qed (simp add: less_imp_le)

lemma ulp_eq_powi: "ulp x = 2 powi (max (ilog2 \<bar>x\<bar>) (- 1022) - 52)"
  by (rule ulp_def)

lemma powi_div_ulp:
  assumes "max (ilog2 x) (- 1022) - 52 \<le> k" and "0 < x"
  shows "2 powi k / ulp x = of_int (2 ^ nat (k - (max (ilog2 x) (- 1022) - 52)))"
proof -
  have "2 powi k / ulp x = 2 powi (k - (max (ilog2 x) (- 1022) - 52))"
    using assms(2) power_int_diff [of "2 :: rat" k "max (ilog2 x) (- 1022) - 52"]
    by (simp add: ulp_def)
  also have "\<dots> = of_int (2 ^ nat (k - (max (ilog2 x) (- 1022) - 52)))"
    using assms(1) by (simp add: power_int_def del: diff_diff_eq2)
  finally show ?thesis .
qed

lemma fl_le_powi:
  assumes "0 \<le> x" and "x \<le> 2 powi k" and "- 1074 \<le> k"
  shows "fl x \<le> 2 powi k"
proof (cases "x = 0")
  case False
  with assms(1) have x: "0 < x" by simp
  have "ilog2 x \<le> k"
    using ilog2_bounds(1) [OF x] assms(2) powi2_less_iff [of k "ilog2 x"] by linarith
  then have k: "max (ilog2 x) (- 1022) - 52 \<le> k" using assms(3) by simp
  have "x / ulp x \<le> of_int (2 ^ nat (k - (max (ilog2 x) (- 1022) - 52)))"
    using divide_right_mono [OF assms(2), of "ulp x"] powi_div_ulp [OF k x] by (simp add: less_imp_le)
  then have "round_half_even (x / ulp x) \<le> 2 ^ nat (k - (max (ilog2 x) (- 1022) - 52))"
    by (rule round_half_even_le)
  then have "of_int (round_half_even (x / ulp x)) * ulp x
      \<le> of_int (2 ^ nat (k - (max (ilog2 x) (- 1022) - 52))) * ulp x"
    by (intro mult_right_mono) (auto simp only: of_int_le_iff ulp_pos less_imp_le)
  also have "\<dots> = 2 powi k"
    using powi_div_ulp [OF k x] ulp_pos [of x] by (simp add: field_simps)
  finally show ?thesis using False by (simp add: fl_def)
qed simp

lemma fl_ge_grid:
  assumes "2 powi k \<le> x" and "max (ilog2 x) (- 1022) - 52 \<le> k"
  shows "2 powi k \<le> fl x"
proof -
  from assms(1) have x: "0 < x" by (meson order_less_le_trans powi2_pos)
  let ?n = "2 ^ nat (k - (max (ilog2 x) (- 1022) - 52)) :: int"
  have "of_int ?n \<le> x / ulp x"
    using divide_right_mono [OF assms(1), of "ulp x"] powi_div_ulp [OF assms(2) x]
    by (simp add: less_imp_le)
  then have "?n \<le> round_half_even (x / ulp x)"
    by (rule round_half_even_ge)
  then have "of_int ?n * ulp x \<le> of_int (round_half_even (x / ulp x)) * ulp x"
    by (intro mult_right_mono) (auto simp only: of_int_le_iff ulp_pos less_imp_le)
  moreover have "of_int ?n * ulp x = 2 powi k"
    using powi_div_ulp [OF assms(2) x] ulp_pos [of x] by (simp add: field_simps)
  moreover have "fl x = of_int (round_half_even (x / ulp x)) * ulp x"
    using x by (simp add: fl_def)
  ultimately show ?thesis by linarith
qed

lemma fl_mono: "0 \<le> x \<Longrightarrow> x \<le> y \<Longrightarrow> fl x \<le> fl y"
proof -
  assume x0: "0 \<le> x" and xy: "x \<le> y"
  show ?thesis
  proof (cases "x = 0")
    case True
    with xy show ?thesis by (simp add: fl_nonneg)
  next
    case False
    with x0 have x: "0 < x" by simp
    with xy have y: "0 < y" by simp
    have log: "ilog2 x \<le> ilog2 y" using x xy by (rule ilog2_mono)
    show ?thesis
    proof (cases "max (ilog2 x) (- 1022) = max (ilog2 y) (- 1022)")
      case True
      then have u: "ulp x = ulp y" using x y by (simp add: ulp_def)
      then have "round_half_even (x / ulp x) \<le> round_half_even (y / ulp y)"
        using xy by (intro round_half_even_mono) (simp add: divide_right_mono less_imp_le)
      then show ?thesis using u x y by (simp add: fl_def)
    next
      case False
      with log have big: "ilog2 x + 1 \<le> ilog2 y" "- 1022 < ilog2 y" by auto
      have "x \<le> 2 powi ilog2 y"
        using ilog2_bounds(2) [OF x] powi2_mono [OF big(1)] by linarith
      then have "fl x \<le> 2 powi ilog2 y"
        using x0 big(2) by (intro fl_le_powi) auto
      also have "\<dots> \<le> fl y"
        using ilog2_bounds(1) [OF y] big(2) by (intro fl_ge_grid) auto
      finally show ?thesis .
    qed
  qed
qed

lemma ilog2_ge: "2 powi k \<le> x \<Longrightarrow> k \<le> ilog2 x"
proof -
  assume k: "2 powi k \<le> x"
  then have "0 < x" by (meson order_less_le_trans powi2_pos)
  from ilog2_bounds(2) [OF this] k have "2 powi k < (2 :: rat) powi (ilog2 x + 1)" by linarith
  then show ?thesis by (simp only: powi2_less_iff)
qed

lemma ulp_normal:
  assumes "2 powi (- 1022) \<le> x"
  shows "ulp x = 2 powi (ilog2 x - 52)"
proof -
  from assms have "0 < x" by (meson order_less_le_trans powi2_pos)
  with ilog2_ge [OF assms] show ?thesis by (simp add: ulp_def max_def)
qed

lemma fl_rel_error:
  assumes "2 powi (- 1022) \<le> x"
  shows "\<bar>fl x - x\<bar> \<le> x * 2 powi (- 53)"
proof -
  from assms have x: "0 < x" by (meson order_less_le_trans powi2_pos)
  have "ulp x / 2 = 2 powi ilog2 x * 2 powi (- 53)"
    using powi2_Suc [of "ilog2 x - 53"] power_int_add [of "2 :: rat" "ilog2 x" "- 53"]
    by (simp add: ulp_normal [OF assms] algebra_simps)
  also have "\<dots> \<le> x * 2 powi (- 53)"
    using ilog2_bounds(1) [OF x] by (intro mult_right_mono) auto
  finally show ?thesis using fl_error [of x] by linarith
qed

lemma fl_grid: "x = of_int m * ulp x \<Longrightarrow> fl x = x"
proof -
  assume x: "x = of_int m * ulp x"
  then have "x / ulp x = of_int m"
    using ulp_pos [of x] by (metis less_irrefl nonzero_mult_div_cancel_right)
  then show ?thesis using x by (simp add: fl_def)
qed

lemma fl_of_int [float_simps]:
  assumes "\<bar>n\<bar> \<le> 2 ^ 53"
  shows "fl (of_int n) = of_int n"
proof (cases "n = 0")
  case False
  let ?x = "of_int n :: rat" and ?e = "ilog2 \<bar>of_int n :: rat\<bar>"
  from False have pos: "0 < \<bar>?x\<bar>" by simp
  have "2 powi 0 \<le> \<bar>?x\<bar>" using False by (simp flip: of_int_abs)
  then have e0: "0 \<le> ?e" by (rule ilog2_ge)
  then have u: "ulp ?x = 2 powi (?e - 52)" by (simp add: ulp_def max_def)
  show ?thesis
  proof (cases "?e \<le> 52")
    case True
    then have "ulp ?x * 2 ^ nat (52 - ?e) = 1"
      unfolding u by (simp add: power_int_def flip: power_mult_distrib)
    then have "?x = of_int (n * 2 ^ nat (52 - ?e)) * ulp ?x"
      by (simp add: algebra_simps)
    then show ?thesis by (rule fl_grid)
  next
    case False
    have "2 powi ?e \<le> \<bar>?x\<bar>" using ilog2_bounds(1) [OF pos] .
    moreover have "\<bar>?x\<bar> \<le> of_int (2 ^ 53)" using assms by (simp only: of_int_abs [symmetric] of_int_le_iff)
    moreover have "(2 :: rat) powi 53 \<le> 2 powi ?e" using False by (intro powi2_mono) simp
    ultimately have x: "\<bar>?x\<bar> = 2 ^ 53" and p: "(2 :: rat) powi ?e = 2 powi 53"
      by (simp_all add: power_int_def)
    from p have e: "?e = 53" using powi2_less_iff [of ?e 53] powi2_less_iff [of 53 ?e] by linarith
    from x have "\<bar>n\<bar> = 2 ^ 53" by (simp flip: of_int_abs of_int_power)
    then have "even n" by (metis dvd_abs_iff even_numeral even_power zero_less_numeral)
    then have "n = n div 2 * 2" by simp
    then have "?x = of_int (n div 2 * 2)" by simp
    then have "?x = of_int (n div 2) * ulp ?x"
      unfolding u e by (simp add: power_int_def)
    then show ?thesis by (rule fl_grid)
  qed
qed simp

lemma fl_idem:
  assumes "2 powi (- 1022) \<le> x"
  shows "fl (fl x) = fl x"
proof -
  from assms have x: "0 < x" by (meson order_less_le_trans powi2_pos)
  let ?e = "ilog2 x"
  have u: "ulp x = 2 powi (?e - 52)" using ulp_normal [OF assms] .
  have e: "- 1022 \<le> ?e" using ilog2_ge [OF assms] .
  have lo: "2 powi ?e \<le> fl x" using ilog2_bounds(1) [OF x] e by (intro fl_ge_grid) auto
  have hi: "fl x \<le> 2 powi (?e + 1)"
    using ilog2_bounds(2) [OF x] x e by (intro fl_le_powi) (auto simp: less_imp_le)
  have m: "fl x = of_int (round_half_even (x / ulp x)) * ulp x" using x by (simp add: fl_def)
  show ?thesis
  proof (cases "fl x < 2 powi (?e + 1)")
    case True
    with lo have "ilog2 (fl x) = ?e" by (rule ilog2_unique)
    moreover have "0 < fl x" using lo powi2_pos by (meson order_less_le_trans)
    ultimately have "ulp (fl x) = ulp x" using x by (simp add: ulp_def)
    then show ?thesis using m by (metis fl_grid)
  next
    case False
    with hi have eq: "fl x = 2 powi (?e + 1)" by simp
    have "ilog2 (2 powi (?e + 1)) = ?e + 1"
      by (intro ilog2_unique) (auto simp: powi2_less_iff)
    then have "ulp (2 powi (?e + 1)) = 2 powi (?e + 1 - 52)" using e by (simp add: ulp_def max_def)
    moreover have "(2 :: rat) powi 52 = of_int (2 ^ 52)" by (simp add: power_int_def)
    ultimately have "2 powi (?e + 1) = of_int (2 ^ 52) * ulp (2 powi (?e + 1))"
      using power_int_add [of "2 :: rat" "?e + 1 - 52" 52]
      by (simp add: mult.commute add.commute)
    then show ?thesis unfolding eq by (rule fl_grid)
  qed
qed

lemma fl_powi [float_simps]:
  assumes "- 1022 \<le> k"
  shows "fl (2 powi k) = 2 powi k"
proof -
  have "2 powi k \<le> fl (2 powi k)"
  proof (rule fl_ge_grid)
    have "ilog2 (2 powi k) = k" by (intro ilog2_unique) (auto simp: powi2_less_iff)
    then show "max (ilog2 (2 powi k)) (- 1022) - 52 \<le> k" using assms by simp
  qed simp
  moreover have "fl (2 powi k) \<le> 2 powi k" using assms by (intro fl_le_powi) auto
  ultimately show ?thesis by simp
qed

lemma fl_double:
  assumes "2 powi (- 1022) \<le> x"
  shows "fl (2 * x) = 2 * fl x"
proof -
  from assms have x: "0 < x" by (meson order_less_le_trans powi2_pos)
  with assms have "2 powi (- 1022) \<le> 2 * x" by linarith
  from ulp_normal [OF this] ulp_normal [OF assms] ilog2_double [OF x]
  have "ulp (2 * x) = 2 * ulp x"
    using powi2_Suc [of "ilog2 x - 52"] by (simp add: algebra_simps)
  then show ?thesis using x by (simp add: fl_def)
qed

lemma fl_half:
  assumes "2 powi (- 1021) \<le> x" and "fl x = x"
  shows "fl (x / 2) = x / 2"
proof -
  have "(2 :: rat) powi (- 1021) = 2 * 2 powi (- 1022)" using powi2_Suc [of "- 1022"] by simp
  then have "2 powi (- 1022) \<le> x / 2" using assms(1) by linarith
  from fl_double [OF this] assms(2) show ?thesis by simp
qed

lemma fl_error_bounds:
  assumes "2 powi (- 1022) \<le> x"
  shows "x - x * 2 powi (- 53) \<le> fl x" and "fl x \<le> x + x * 2 powi (- 53)"
  using fl_rel_error [OF assms] by (auto simp only: abs_le_iff)

subsection \<open>Comparing rounded quotients\<close>

text \<open>
  A rounded quotient of small integers is compared with a rounded threshold exactly as the
  rationals are: two different quotients \<open>a / b\<close> and \<open>c / d\<close> are at least \<open>1 / (b * d)\<close> apart,
  which exceeds the two rounding errors.
\<close>

lemma inverse_ge_powi: "0 < b \<Longrightarrow> b \<le> 2 ^ 60 \<Longrightarrow> 1 \<le> a \<Longrightarrow> 2 powi (- 1022) \<le> (of_int a / of_int b :: rat)"
proof -
  assume b: "0 < b" "b \<le> 2 ^ 60" and a: "1 \<le> a"
  have "(2 :: rat) powi (- 1022) \<le> 2 powi (- 60)" by (rule powi2_mono) simp
  also have "\<dots> = 1 / of_int (2 ^ 60)" by (simp add: power_int_def power_one_over)
  also have "\<dots> \<le> of_int a / of_int b"
    using a b by (intro frac_le) (simp_all only: of_int_le_iff of_int_1_le_iff of_int_0_less_iff of_int_0_le_iff)
  finally show ?thesis .
qed

lemma fl_quotient_less:
  assumes ab: "0 \<le> a" "0 < b" and cd: "0 < c" "0 < d"
    and less: "a * d < c * b" and small: "2 * c * b < 2 ^ 53"
    and rng: "b \<le> 2 ^ 60" "d \<le> 2 ^ 60"
  shows "fl (of_int a / of_int b) < fl (of_int c / of_int d)"
proof -
  let ?A = "of_int a / of_int b :: rat" and ?C = "of_int c / of_int d :: rat"
  let ?u = "2 powi (- 53) :: rat" and ?gap = "1 / (of_int b * of_int d) :: rat"
  have C: "?C - ?C * ?u \<le> fl ?C"
    by (rule fl_error_bounds(1) [OF inverse_ge_powi]) (use cd rng in auto)
  have A: "fl ?A \<le> ?A + ?A * ?u"
  proof (cases "a = 0")
    case False
    with ab rng(1) show ?thesis by (intro fl_error_bounds(2) [OF inverse_ge_powi]) auto
  qed simp
  have "1 \<le> c * b - a * d" using less by simp
  then have "(1 :: rat) \<le> of_int (c * b - a * d)" by (simp only: of_int_1_le_iff)
  then have "?gap \<le> of_int (c * b - a * d) / (of_int b * of_int d)"
    using ab cd by (intro divide_right_mono) auto
  also have "\<dots> = ?C - ?A" using ab cd by (simp add: diff_frac_eq)
  finally have gap: "?A + ?gap \<le> ?C" by linarith
  have "(of_int (2 * c * b) :: rat) < of_int (2 ^ 53)" using small by (simp only: of_int_less_iff)
  then have err: "2 * ?C * ?u < ?gap"
    using ab cd by (simp add: field_simps power_int_def)
  have "0 < ?gap" using ab cd by simp
  with gap have "?A \<le> ?C" by linarith
  then have "?A * ?u \<le> ?C * ?u" by (intro mult_right_mono) auto
  moreover have "x < y"
    if "x \<le> A + Au" "C - Cu \<le> y" "A + g \<le> C" "2 * Cu < g" "Au \<le> Cu"
    for x y A C Au Cu g :: rat using that by linarith
  note this [OF A C gap]
  ultimately show ?thesis using err by (simp only: mult.assoc)
qed

lemma fl_quotient_ge_iff:
  assumes "0 \<le> a" "0 < b" "0 < c" "0 < d" "2 * c * b < 2 ^ 53" "b \<le> 2 ^ 60" "d \<le> 2 ^ 60"
  shows "fl (of_int c / of_int d) \<le> fl (of_int a / of_int b) \<longleftrightarrow> c * b \<le> a * d"
proof
  assume "fl (of_int c / of_int d) \<le> fl (of_int a / of_int b)"
  then show "c * b \<le> a * d" using fl_quotient_less [OF assms(1-4)] assms(5-7) by force
next
  assume "c * b \<le> a * d"
  then have "(of_int (c * b) :: rat) \<le> of_int (a * d)" by (simp only: of_int_le_iff)
  then have "(of_int c / of_int d :: rat) \<le> of_int a / of_int b"
    using assms by (simp add: field_simps)
  then show "fl (of_int c / of_int d) \<le> fl (of_int a / of_int b)"
    using assms by (intro fl_mono) auto
qed

end
