(* ===== verification/AcceptanceLength.thy ===== *)
theory AcceptanceLength
  imports DepthLadder Float64
begin

text \<open>
  \<^verbatim>\<open>v1/spec_decode/dynamic/acceptance_length.py\<close>: the controller that moves the speculative
  depth along the ladder from observed draft acceptance. \<open>acl\<close> is the controller object;
  \<open>observe_batch\<close> returns the result of the call (an exception, no decision, or an update)
  together with the object after the call, because the Python method mutates \<^verbatim>\<open>self\<close> before
  some of its checks raise. Floats are the binary64 values of theory \<^verbatim>\<open>Float64\<close>.
\<close>

subsection \<open>State and results\<close>

datatype acl_error =
    MaxNotPositive | WindowNotPositive | NegativeCount | AcceptedExceedsDrafted
  | TokensWithoutDraft | PositionsNotTogether | PositionLengths | PositionsTooLong
  | InvalidPositionCount | PositionIndexError

record acl =
  max_num_spec_tokens :: int
  observation_window :: int
  depth_ladder :: "int list"
  num_spec_tokens :: int
  num_observation_steps :: int
  num_drafts :: int
  num_draft_tokens :: int
  num_accepted_tokens :: int
  position_eligible :: "int list"
  position_accepted :: "int list"

datatype decision_reason =
    ProbeK4 | K2Baseline | ProbeK5 | K4Hold | K4TailReject
  | K5Hold | K5P4Reject | K5TailReject | Formula

record acl_update =
  upd_previous :: int
  upd_num_spec_tokens :: int
  upd_mean_accepted :: rat
  upd_mean_draft :: rat
  upd_raw_target :: int
  upd_ratchet :: bool
  upd_reason :: decision_reason
  upd_position_rates :: "rat list"
  upd_window :: int
  upd_tail_gain_23 :: rat
  upd_position_4_gain :: rat

subsection \<open>Construction and window reset\<close>

definition normalize_ladder :: "int \<Rightarrow> int list \<Rightarrow> int list" where
  "normalize_ladder k given =
     (let l0 = sorted_set (filter (\<lambda>d. 1 \<le> d \<and> d \<le> k) given);
          l1 = (if l0 = [] then py_range 1 (k + 1) else l0)
      in if last l1 \<noteq> k then l1 @ [k] else l1)"

definition acl_init :: "int \<Rightarrow> int \<Rightarrow> int list option \<Rightarrow> acl_error + acl" where
  "acl_init k window ladder_arg =
     bindE (raiseIf (k \<le> 0) MaxNotPositive) (\<lambda>_.
     bindE (raiseIf (window \<le> 0) WindowNotPositive) (\<lambda>_.
       let ladder = normalize_ladder k (case ladder_arg of None \<Rightarrow> [] | Some l \<Rightarrow> l)
       in Inr \<lparr>max_num_spec_tokens = k, observation_window = window, depth_ladder = ladder,
               num_spec_tokens = hd ladder, num_observation_steps = 0, num_drafts = 0,
               num_draft_tokens = 0, num_accepted_tokens = 0,
               position_eligible = replicate (nat k) 0,
               position_accepted = replicate (nat k) 0\<rparr>))"

definition reset_window :: "acl \<Rightarrow> acl" where
  "reset_window c = c\<lparr>num_observation_steps := 0, num_drafts := 0, num_draft_tokens := 0,
     num_accepted_tokens := 0, position_eligible := replicate (nat (max_num_spec_tokens c)) 0,
     position_accepted := replicate (nat (max_num_spec_tokens c)) 0\<rparr>"

subsection \<open>Accumulating one observation\<close>

text \<open>The loop over the zipped position vectors, from index \<open>i\<close>.\<close>

fun add_positions :: "nat \<Rightarrow> (int \<times> int) list \<Rightarrow> acl \<Rightarrow> (acl_error + unit) \<times> acl" where
  "add_positions i [] c = (Inr (), c)"
| "add_positions i ((eligible, accepted) # rest) c =
     (if eligible < 0 \<or> accepted < 0 \<or> accepted > eligible then (Inl InvalidPositionCount, c)
      else if length (position_eligible c) \<le> i then (Inl PositionIndexError, c)
      else let c1 = c\<lparr>position_eligible :=
                        (position_eligible c)[i := position_eligible c ! i + eligible]\<rparr>
           in if length (position_accepted c1) \<le> i then (Inl PositionIndexError, c1)
              else add_positions (Suc i) rest
                     (c1\<lparr>position_accepted :=
                           (position_accepted c1)[i := position_accepted c1 ! i + accepted]\<rparr>))"

definition observe_positions ::
  "int list option \<Rightarrow> int list option \<Rightarrow> acl \<Rightarrow> (acl_error + unit) \<times> acl" where
  "observe_positions el ac c =
     (case (el, ac) of
        (None, None) \<Rightarrow> (Inr (), c)
      | (Some es, Some as) \<Rightarrow>
          if length es \<noteq> length as then (Inl PositionLengths, c)
          else if max_num_spec_tokens c < int (length es) then (Inl PositionsTooLong, c)
          else add_positions 0 (zip es as) c
      | _ \<Rightarrow> (Inl PositionsNotTogether, c))"

subsection \<open>The decision\<close>

definition effective_observation_window :: "acl \<Rightarrow> int" where
  "effective_observation_window c =
     (if num_spec_tokens c = hd (depth_ladder c) then observation_window c
      else max 1 (observation_window c div 2))"

definition tail_gain_23 :: "acl \<Rightarrow> rat" where
  "tail_gain_23 c =
     (if num_drafts c \<noteq> 0 \<and> 4 \<le> length (position_accepted c)
      then int_truediv (position_accepted c ! 2 + position_accepted c ! 3) (num_drafts c) else 0)"

definition position_4_gain :: "acl \<Rightarrow> rat" where
  "position_4_gain c =
     (if num_drafts c \<noteq> 0 \<and> 5 \<le> length (position_accepted c)
      then int_truediv (position_accepted c ! 4) (num_drafts c) else 0)"

definition mean_accepted :: "acl \<Rightarrow> rat" where
  "mean_accepted c = int_truediv (num_accepted_tokens c) (num_drafts c)"

definition mean_draft :: "acl \<Rightarrow> rat" where
  "mean_draft c = int_truediv (num_draft_tokens c) (num_drafts c)"

definition head_ratio :: "acl \<Rightarrow> rat" where
  "head_ratio c = (if mean_draft c \<noteq> 0 then float_div (mean_accepted c) (mean_draft c) else 0)"

definition formula_target :: "acl \<Rightarrow> int" where
  "formula_target c =
     (let f = min (max_num_spec_tokens c) (max 1 \<lfloor>fl (mean_accepted c + 3 / 2)\<rfloor>);
          below = filter (\<lambda>d. d \<le> f) (depth_ladder c)
      in if below = [] then hd (depth_ladder c) else Max (set below))"

text \<open>The target depth, whether the step is a ratchet, and the recorded reason.\<close>

definition decide_depth :: "acl \<Rightarrow> int \<times> bool \<times> decision_reason" where
  "decide_depth c =
     (if depth_ladder c = [2, 4] \<or> depth_ladder c = [2, 4, 5] then
        (if num_spec_tokens c = 2 then
           (let target = (if fl (85 / 100) \<le> head_ratio c then 4 else 2)
            in (target, num_spec_tokens c < target, if target = 4 then ProbeK4 else K2Baseline))
         else if num_spec_tokens c = 4 then
           (if depth_ladder c = [2, 4, 5] \<and> fl (70 / 100) \<le> tail_gain_23 c then (5, True, ProbeK5)
            else if fl (35 / 100) \<le> tail_gain_23 c then (4, False, K4Hold)
            else (2, False, K4TailReject))
         else
           (if fl (15 / 100) \<le> position_4_gain c then (5, False, K5Hold)
            else if fl (35 / 100) \<le> tail_gain_23 c then (4, False, K5P4Reject)
            else (2, False, K5TailReject)))
      else (formula_target c, False, Formula))"

definition position_rates :: "acl \<Rightarrow> rat list" where
  "position_rates c =
     map (\<lambda>(eligible, accepted). if eligible \<noteq> 0 then int_truediv accepted eligible else 0)
       (zip (position_eligible c) (position_accepted c))"

text \<open>The end of \<^verbatim>\<open>observe_batch\<close>: decide once the window is full, then reset it.\<close>

definition conclude_window :: "acl \<Rightarrow> acl_update option \<times> acl" where
  "conclude_window c =
     (if num_observation_steps c < effective_observation_window c then (None, c)
      else case decide_depth c of (target, ratchet, reason) \<Rightarrow>
        (Some \<lparr>upd_previous = num_spec_tokens c, upd_num_spec_tokens = target,
               upd_mean_accepted = mean_accepted c, upd_mean_draft = mean_draft c,
               upd_raw_target = target, upd_ratchet = ratchet, upd_reason = reason,
               upd_position_rates = position_rates c,
               upd_window = effective_observation_window c,
               upd_tail_gain_23 = tail_gain_23 c, upd_position_4_gain = position_4_gain c\<rparr>,
         reset_window (c\<lparr>num_spec_tokens := target\<rparr>)))"

definition observe_batch ::
  "int \<Rightarrow> int \<Rightarrow> int \<Rightarrow> int list option \<Rightarrow> int list option \<Rightarrow> acl
     \<Rightarrow> (acl_error + acl_update option) \<times> acl" where
  "observe_batch nd ndt nat' el ac c =
     (if nd < 0 \<or> ndt < 0 \<or> nat' < 0 then (Inl NegativeCount, c)
      else if nat' > ndt then (Inl AcceptedExceedsDrafted, c)
      else if nd = 0 then
        (if ndt \<noteq> 0 \<or> nat' \<noteq> 0 then (Inl TokensWithoutDraft, c) else (Inr None, c))
      else
        let c1 = c\<lparr>num_observation_steps := num_observation_steps c + 1,
                   num_drafts := num_drafts c + nd,
                   num_draft_tokens := num_draft_tokens c + ndt,
                   num_accepted_tokens := num_accepted_tokens c + nat'\<rparr>
        in case observe_positions el ac c1 of
             (Inl e, c2) \<Rightarrow> (Inl e, c2)
           | (Inr _, c2) \<Rightarrow> (case conclude_window c2 of (u, c3) \<Rightarrow> (Inr u, c3)))"

subsection \<open>The invariant of the controller\<close>

definition positions_ok :: "int \<Rightarrow> int list \<Rightarrow> int list \<Rightarrow> bool" where
  "positions_ok k es as \<longleftrightarrow> length es = nat k \<and> length as = nat k
     \<and> list_all2 (\<lambda>e a. 0 \<le> a \<and> a \<le> e) es as"

definition acl_inv :: "acl \<Rightarrow> bool" where
  "acl_inv c \<longleftrightarrow> 0 < max_num_spec_tokens c \<and> 0 < observation_window c
     \<and> ladder_ok (max_num_spec_tokens c) (depth_ladder c)
     \<and> num_spec_tokens c \<in> set (depth_ladder c)
     \<and> 0 \<le> num_observation_steps c \<and> num_observation_steps c \<le> num_drafts c
     \<and> 0 \<le> num_accepted_tokens c \<and> num_accepted_tokens c \<le> num_draft_tokens c
     \<and> positions_ok (max_num_spec_tokens c) (position_eligible c) (position_accepted c)"

lemma positions_ok_replicate [simp]: "positions_ok k (replicate (nat k) 0) (replicate (nat k) 0)"
  by (simp add: positions_ok_def list_all2_conv_all_nth)

lemma positions_ok_update:
  assumes "positions_ok k es as" and "0 \<le> a" and "a \<le> e"
  shows "positions_ok k (es[i := es ! i + e]) (as[i := as ! i + a])"
  using assms
  by (cases "i < length es")
    (auto simp: positions_ok_def list_all2_conv_all_nth nth_list_update list_update_beyond add_mono)

lemma normalize_ladder_ok:
  assumes "0 < k"
  shows "ladder_ok k (normalize_ladder k given)"
proof -
  define l0 where "l0 = sorted_set (filter (\<lambda>d. 1 \<le> d \<and> d \<le> k) given)"
  define l1 where "l1 = (if l0 = [] then py_range 1 (k + 1) else l0)"
  have l1: "sorted l1" "distinct l1" "\<forall>d \<in> set l1. 1 \<le> d \<and> d \<le> k"
    using assms by (auto simp: l1_def l0_def py_range_def)
  have ne: "l1 \<noteq> []" using assms by (simp add: l1_def py_range_def)
  have "ladder_ok k (if last l1 \<noteq> k then l1 @ [k] else l1)"
  proof (cases "last l1 = k")
    case True
    with l1 ne show ?thesis by (simp add: ladder_ok_def) (metis last_in_set)
  next
    case False
    have "last l1 \<le> k" using l1(3) ne by simp
    with False have "last l1 < k" by simp
    then have "k \<notin> set l1" using l1(1) sorted_last_ge [of l1 k] by auto
    with False l1 assms show ?thesis by (simp add: ladder_ok_def sorted_append)
  qed
  then show ?thesis unfolding normalize_ladder_def Let_def l1_def l0_def .
qed

text \<open>A ladder that is already well-formed is kept as it is.\<close>

lemma normalize_ladder_id: "ladder_ok k ladder \<Longrightarrow> normalize_ladder k ladder = ladder"
proof -
  assume ok: "ladder_ok k ladder"
  then have "filter (\<lambda>d. 1 \<le> d \<and> d \<le> k) ladder = ladder"
    by (simp add: ladder_ok_def)
  moreover have "sorted_set ladder = ladder" using ok by (simp add: ladder_ok_def sorted_set_idem)
  ultimately show ?thesis using ladder_okD(1,2) [OF ok] by (simp add: normalize_ladder_def)
qed

lemma acl_init_inv: "acl_init k w l = Inr c \<Longrightarrow> acl_inv c"
  using normalize_ladder_ok [of k] ladder_okD(3) [of k]
  by (auto simp: acl_init_def bindE_raiseIf acl_inv_def Let_def split: if_splits)

lemma reset_window_inv:
  "acl_inv c \<Longrightarrow> d \<in> set (depth_ladder c) \<Longrightarrow> acl_inv (reset_window (c\<lparr>num_spec_tokens := d\<rparr>))"
  by (simp add: acl_inv_def reset_window_def)

lemma add_positions_inv: "add_positions i ps c = (r, c') \<Longrightarrow> acl_inv c \<Longrightarrow> acl_inv c'"
proof (induction i ps c rule: add_positions.induct)
  case (2 i e a rest c)
  show ?case
    using "2.IH" "2.prems" positions_ok_update
    by (auto simp: acl_inv_def Let_def positions_ok_def split: if_splits)
qed auto

lemma observe_positions_inv: "observe_positions el ac c = (r, c') \<Longrightarrow> acl_inv c \<Longrightarrow> acl_inv c'"
  by (auto simp: observe_positions_def split: option.splits if_splits dest: add_positions_inv)

lemma formula_target_in_ladder: "acl_inv c \<Longrightarrow> formula_target c \<in> set (depth_ladder c)"
proof -
  assume "acl_inv c"
  then have "hd (depth_ladder c) \<in> set (depth_ladder c)" by (auto simp: acl_inv_def intro: ladder_okD(3))
  moreover have "Max (set (filter p xs)) \<in> set xs" if "filter p xs \<noteq> []" for p and xs :: "int list"
    using Max_in [of "set (filter p xs)"] that by (metis List.finite_set filter_is_subset set_empty subsetD)
  ultimately show ?thesis by (auto simp: formula_target_def Let_def)
qed

lemma decide_depth_in_ladder: "acl_inv c \<Longrightarrow> fst (decide_depth c) \<in> set (depth_ladder c)"
  using formula_target_in_ladder [of c]
  by (auto simp: decide_depth_def Let_def acl_inv_def split: if_splits)

lemma conclude_window_inv: "conclude_window c = (u, c') \<Longrightarrow> acl_inv c \<Longrightarrow> acl_inv c'"
  using decide_depth_in_ladder [of c]
  by (auto simp: conclude_window_def split: if_splits prod.splits intro: reset_window_inv)

lemma accumulate_inv:
  assumes "acl_inv c" "0 < nd" "0 \<le> na" "na \<le> ndt"
  shows "acl_inv (c\<lparr>num_observation_steps := num_observation_steps c + 1,
            num_drafts := num_drafts c + nd, num_draft_tokens := num_draft_tokens c + ndt,
            num_accepted_tokens := num_accepted_tokens c + na\<rparr>)"
  using assms by (simp add: acl_inv_def)

lemma observe_batch_inv: "acl_inv c \<Longrightarrow> acl_inv (snd (observe_batch nd ndt na el ac c))"
  using accumulate_inv [of c nd na ndt]
  by (auto simp: observe_batch_def Let_def split: prod.splits sum.splits
      dest: observe_positions_inv conclude_window_inv)

subsection \<open>The production policy\<close>

text \<open>
  On the production ladders the decision is a function of the window counters: the rounded
  quotients are compared exactly as the rationals are, as long as a window holds fewer than
  \<open>2 ^ 40\<close> drafts.
\<close>

lemma gain_ge_iff:
  assumes "0 \<le> a" "0 < b" "b \<le> 2 ^ 40" "0 < c" "c \<le> 100" "0 < d" "d \<le> 100"
  shows "fl (of_int c / of_int d) \<le> int_truediv a b \<longleftrightarrow> c * b \<le> a * d"
proof -
  have "c * b \<le> 100 * 2 ^ 40" using assms by (intro mult_mono) auto
  then have "2 * c * b < 2 ^ 53" by (simp add: mult.commute)
  then show ?thesis unfolding int_truediv_def using assms by (intro fl_quotient_ge_iff) auto
qed

lemma acl_inv_positions:
  assumes "acl_inv c" and "int i < max_num_spec_tokens c"
  shows "0 \<le> position_accepted c ! i"
  using assms by (auto simp: acl_inv_def positions_ok_def list_all2_conv_all_nth)

lemma acl_inv_length: "acl_inv c \<Longrightarrow> length (position_accepted c) = nat (max_num_spec_tokens c)"
  by (simp add: acl_inv_def positions_ok_def)

lemma max_of_245: "acl_inv c \<Longrightarrow> depth_ladder c = [2, 4, 5] \<Longrightarrow> max_num_spec_tokens c = 5"
  using ladder_okD(2) [of "max_num_spec_tokens c" "depth_ladder c"] by (simp add: acl_inv_def)

text \<open>
  C27: at depth 4 of the production ladder 2/4/5 the controller goes to 5 exactly when positions
  2 and 3 together earn at least 0.7 accepted tokens per draft, stays at 4 down to 0.35, and
  falls back to 2 below: the floating-point comparisons of the code decide the exact rational
  inequalities.
\<close>

theorem decide_depth4_exact:
  assumes "acl_inv c" and "depth_ladder c = [2, 4, 5]" and "num_spec_tokens c = 4"
    and "0 < num_drafts c" and "num_drafts c \<le> 2 ^ 40"
  shows "fst (decide_depth c) =
     (let gain = position_accepted c ! 2 + position_accepted c ! 3
      in if 7 * num_drafts c \<le> 10 * gain then 5 else if 7 * num_drafts c \<le> 20 * gain then 4 else 2)"
proof -
  define g where "g = position_accepted c ! 2 + position_accepted c ! 3"
  have k: "max_num_spec_tokens c = 5" using max_of_245 assms(1,2) .
  have g0: "0 \<le> g"
    using acl_inv_positions [OF assms(1), of 2] acl_inv_positions [OF assms(1), of 3] k
    by (simp add: g_def)
  have tail: "tail_gain_23 c = int_truediv g (num_drafts c)"
    using acl_inv_length [OF assms(1)] k assms(4) by (simp add: tail_gain_23_def g_def)
  have "fl (70 / 100) \<le> tail_gain_23 c \<longleftrightarrow> 70 * num_drafts c \<le> g * 100"
    using gain_ge_iff [of g "num_drafts c" 70 100] g0 assms(4,5) by (simp add: tail)
  moreover have "fl (35 / 100) \<le> tail_gain_23 c \<longleftrightarrow> 35 * num_drafts c \<le> g * 100"
    using gain_ge_iff [of g "num_drafts c" 35 100] g0 assms(4,5) by (simp add: tail)
  ultimately show ?thesis
    using assms(2,3) by (auto simp: decide_depth_def Let_def g_def)
qed

theorem decide_depth4_exact_witness:
  "fst (decide_depth \<lparr>max_num_spec_tokens = 5, observation_window = 8, depth_ladder = [2, 4, 5],
      num_spec_tokens = 4, num_observation_steps = 4, num_drafts = 4, num_draft_tokens = 16,
      num_accepted_tokens = 11, position_eligible = [4, 4, 4, 4, 0],
      position_accepted = [4, 4, 2, 1, 0]\<rparr>) = 5"
proof -
  let ?c = "\<lparr>max_num_spec_tokens = 5, observation_window = 8, depth_ladder = [2, 4, 5],
      num_spec_tokens = 4, num_observation_steps = 4, num_drafts = 4, num_draft_tokens = 16,
      num_accepted_tokens = 11, position_eligible = [4, 4, 4, 4, 0],
      position_accepted = [4, 4, 2, 1, 0]\<rparr> :: acl"
  have "acl_inv ?c" by (simp add: acl_inv_def ladder_ok_def positions_ok_def)
  from decide_depth4_exact [OF this] show ?thesis by (simp add: eval_nat_numeral)
qed

lemma position_4_gain_exact:
  assumes "acl_inv c" and "depth_ladder c = [2, 4, 5]" and "0 < num_drafts c" and "num_drafts c \<le> 2 ^ 40"
  shows "fl (15 / 100) \<le> position_4_gain c \<longleftrightarrow> 3 * num_drafts c \<le> 20 * position_accepted c ! 4"
proof -
  have k: "max_num_spec_tokens c = 5" using max_of_245 assms(1,2) .
  have "0 \<le> position_accepted c ! 4"
    using acl_inv_positions [OF assms(1), of 4] k by simp
  moreover have "position_4_gain c = int_truediv (position_accepted c ! 4) (num_drafts c)"
    using acl_inv_length [OF assms(1)] k assms(3) by (simp add: position_4_gain_def)
  ultimately show ?thesis
    using gain_ge_iff [of "position_accepted c ! 4" "num_drafts c" 15 100] assms(3,4) by simp
qed

lemma head_ratio_half:
  assumes "0 \<le> num_accepted_tokens c" and "0 < num_drafts c" and "num_drafts c \<le> 2 ^ 40"
    and "num_draft_tokens c = 2 * num_drafts c"
  shows "head_ratio c = mean_accepted c / 2"
proof -
  have "of_int (num_draft_tokens c) / of_int (num_drafts c) = (of_int 2 :: rat)"
    using assms(2,4) by simp
  then have d: "mean_draft c = 2" using fl_of_int [of 2] by (simp add: mean_draft_def int_truediv_def)
  show ?thesis
  proof (cases "num_accepted_tokens c = 0")
    case True
    then show ?thesis by (simp add: head_ratio_def mean_accepted_def int_truediv_def float_div_def)
  next
    case False
    define x where "x = (of_int (num_accepted_tokens c) / of_int (num_drafts c) :: rat)"
    have "(of_int 1 / of_int (2 ^ 40) :: rat) \<le> x"
      unfolding x_def using False assms by (intro frac_le) (auto simp only: of_int_le_iff of_int_0_le_iff of_int_0_less_iff)
    then have x40: "2 powi (- 40) \<le> x" by (simp add: power_int_def power_one_over)
    have "(2 :: rat) powi (- 1022) \<le> 2 powi (- 40)" by (rule powi2_mono) simp
    with x40 have x: "2 powi (- 1022) \<le> x" by linarith
    have "2 powi (- 40) \<le> fl x"
      using fl_mono [OF _ x40] fl_powi [of "- 40"] by simp
    then have "fl (fl x / 2) = fl x / 2"
      using fl_idem [OF x] powi2_mono [of "- 1021" "- 40"] by (intro fl_half) auto
    then show ?thesis
      by (simp add: head_ratio_def d float_div_def mean_accepted_def int_truediv_def x_def)
  qed
qed

text \<open>
  At the baseline depth 2, when every draft of the window proposed two tokens, the controller
  probes depth 4 exactly when at least 85 percent of the drafted tokens were accepted; the
  three roundings of the code (two means and their ratio) do not move the threshold.
\<close>

theorem decide_depth2_exact:
  assumes "acl_inv c" and "depth_ladder c = [2, 4] \<or> depth_ladder c = [2, 4, 5]"
    and "num_spec_tokens c = 2" and "0 < num_drafts c" and "num_drafts c \<le> 2 ^ 40"
    and "num_draft_tokens c = 2 * num_drafts c"
  shows "fst (decide_depth c) = (if 17 * num_draft_tokens c \<le> 20 * num_accepted_tokens c then 4 else 2)"
proof -
  have a: "0 \<le> num_accepted_tokens c" using assms(1) by (simp add: acl_inv_def)
  have "(2 :: rat) powi (- 1022) \<le> 2 powi (- 1)" by (rule powi2_mono) simp
  then have "(2 :: rat) powi (- 1022) \<le> 85 / 100" by (simp add: power_int_def)
  from fl_double [OF this] have "fl (85 / 100) \<le> mean_accepted c / 2 \<longleftrightarrow> fl (170 / 100) \<le> mean_accepted c"
    by auto
  also have "\<dots> \<longleftrightarrow> 17 * num_drafts c \<le> num_accepted_tokens c * 10"
    using gain_ge_iff [of "num_accepted_tokens c" "num_drafts c" 17 10] a assms(4,5)
    by (simp add: mean_accepted_def)
  finally have "fl (85 / 100) \<le> head_ratio c \<longleftrightarrow> 17 * num_draft_tokens c \<le> 20 * num_accepted_tokens c"
    unfolding head_ratio_half [OF a assms(4,5,6)] assms(6) by linarith
  then show ?thesis using assms(2,3) by (auto simp: decide_depth_def Let_def)
qed

theorem decide_depth2_exact_witness:
  "fst (decide_depth \<lparr>max_num_spec_tokens = 5, observation_window = 8, depth_ladder = [2, 4, 5],
      num_spec_tokens = 2, num_observation_steps = 8, num_drafts = 10, num_draft_tokens = 20,
      num_accepted_tokens = 17, position_eligible = [10, 10, 0, 0, 0],
      position_accepted = [10, 7, 0, 0, 0]\<rparr>) = 4"
proof -
  let ?c = "\<lparr>max_num_spec_tokens = 5, observation_window = 8, depth_ladder = [2, 4, 5],
      num_spec_tokens = 2, num_observation_steps = 8, num_drafts = 10, num_draft_tokens = 20,
      num_accepted_tokens = 17, position_eligible = [10, 10, 0, 0, 0],
      position_accepted = [10, 7, 0, 0, 0]\<rparr> :: acl"
  have "acl_inv ?c" by (simp add: acl_inv_def ladder_ok_def positions_ok_def)
  from decide_depth2_exact [OF this] show ?thesis by simp
qed

subsection \<open>Runs of the controller\<close>

text \<open>One call of \<^verbatim>\<open>observe_batch\<close> with any arguments, and the controllers reachable from a
  constructed one.\<close>

inductive acl_step :: "acl \<Rightarrow> acl \<Rightarrow> bool" where
  observe: "observe_batch nd ndt na el ac c = (r, c') \<Longrightarrow> acl_step c c'"

inductive acl_reach :: "int \<Rightarrow> int \<Rightarrow> int list option \<Rightarrow> acl \<Rightarrow> bool"
  for k w l where
  init: "acl_init k w l = Inr c \<Longrightarrow> acl_reach k w l c"
| step: "acl_reach k w l c \<Longrightarrow> acl_step c c' \<Longrightarrow> acl_reach k w l c'"

inductive_cases acl_stepE: "acl_step c c'"

lemma acl_step_inv: "acl_step c c' \<Longrightarrow> acl_inv c \<Longrightarrow> acl_inv c'"
  by (metis acl_stepE observe_batch_inv snd_conv)

lemma add_positions_frame:
  "add_positions i ps c = (r, c') \<Longrightarrow>
     max_num_spec_tokens c' = max_num_spec_tokens c \<and> depth_ladder c' = depth_ladder c
     \<and> observation_window c' = observation_window c \<and> num_spec_tokens c' = num_spec_tokens c
     \<and> num_observation_steps c' = num_observation_steps c \<and> num_drafts c' = num_drafts c"
  by (induction i ps c rule: add_positions.induct) (auto simp: Let_def split: if_splits)

lemma observe_positions_frame:
  "observe_positions el ac c = (r, c') \<Longrightarrow>
     max_num_spec_tokens c' = max_num_spec_tokens c \<and> depth_ladder c' = depth_ladder c
     \<and> observation_window c' = observation_window c \<and> num_spec_tokens c' = num_spec_tokens c
     \<and> num_observation_steps c' = num_observation_steps c \<and> num_drafts c' = num_drafts c"
  by (auto simp: observe_positions_def split: option.splits if_splits dest: add_positions_frame)

lemma acl_step_config:
  assumes "acl_step c c'"
  shows "max_num_spec_tokens c' = max_num_spec_tokens c \<and> depth_ladder c' = depth_ladder c
     \<and> observation_window c' = observation_window c"
  using assms
  by (auto elim!: acl_stepE simp: observe_batch_def conclude_window_def reset_window_def Let_def
      split: if_splits sum.splits prod.splits dest!: observe_positions_frame)

lemma acl_reach_inv: "acl_reach k w l c \<Longrightarrow> acl_inv c"
  by (induction rule: acl_reach.induct) (auto intro: acl_init_inv acl_step_inv)

lemma acl_init_config:
  "acl_init k w l = Inr c \<Longrightarrow> max_num_spec_tokens c = k \<and> observation_window c = w
     \<and> depth_ladder c = normalize_ladder k (case l of None \<Rightarrow> [] | Some l \<Rightarrow> l)"
  by (auto simp: acl_init_def bindE_raiseIf Let_def split: if_splits)

lemma acl_reach_config:
  "acl_reach k w l c \<Longrightarrow> max_num_spec_tokens c = k \<and> observation_window c = w
     \<and> depth_ladder c = normalize_ladder k (case l of None \<Rightarrow> [] | Some l \<Rightarrow> l)"
  by (induction rule: acl_reach.induct) (auto dest: acl_init_config acl_step_config)

text \<open>
  C25: a controller built from a parsed ladder only ever selects depths of that ladder. In every
  reachable state, whatever batches were observed and whichever of them raised, the ladder is
  unchanged, the current depth is one of its rungs and lies in \<open>[1, K]\<close>, and the window
  counters are consistent.
\<close>

theorem reachable_depth_on_ladder:
  assumes "parse_adaptive_spec_depth_ladder env k raw = Inr ladder"
    and "acl_reach k w (Some ladder) c"
  shows "depth_ladder c = ladder \<and> num_spec_tokens c \<in> set ladder
    \<and> 1 \<le> num_spec_tokens c \<and> num_spec_tokens c \<le> k \<and> acl_inv c"
proof -
  have ok: "ladder_ok k ladder" using parse_ladder_ok [OF assms(1)] .
  have l: "depth_ladder c = ladder"
    using acl_reach_config [OF assms(2)] normalize_ladder_id [OF ok] by simp
  have inv: "acl_inv c" using acl_reach_inv [OF assms(2)] .
  then have "num_spec_tokens c \<in> set ladder" by (simp add: acl_inv_def l)
  with ok l inv show ?thesis by (auto simp: ladder_ok_def)
qed

theorem reachable_depth_on_ladder_witness:
  "\<exists>c. acl_reach 5 4 (Some [2, 4, 5]) c \<and> num_spec_tokens c \<in> set [2, 4, 5] \<and> acl_inv c"
proof -
  have p: "parse_adaptive_spec_depth_ladder None 5 (Some ''4, 2,9'') = Inr [2, 4, 5]"
    by code_simp
  obtain c where "acl_init 5 4 (Some [2, 4, 5]) = Inr c"
    by (auto simp: acl_init_def Let_def)
  then have r: "acl_reach 5 4 (Some [2, 4, 5]) c" by (rule acl_reach.init)
  with reachable_depth_on_ladder [OF p r] show ?thesis by blast
qed

subsection \<open>Progress of the observation window\<close>

text \<open>Arguments with which \<^verbatim>\<open>observe_batch\<close> does not raise: consistent counts, at least one
  draft, and position vectors that are absent or both present, equally long, within the
  maximum depth and pointwise consistent.\<close>

record observation =
  obs_drafts :: int
  obs_draft_tokens :: int
  obs_accepted_tokens :: int
  obs_eligible :: "int list option"
  obs_accepted :: "int list option"

definition valid_observation :: "int \<Rightarrow> observation \<Rightarrow> bool" where
  "valid_observation k x \<longleftrightarrow> 0 < obs_drafts x \<and> 0 \<le> obs_accepted_tokens x
     \<and> obs_accepted_tokens x \<le> obs_draft_tokens x
     \<and> (case (obs_eligible x, obs_accepted x) of
          (None, None) \<Rightarrow> True
        | (Some es, Some as) \<Rightarrow> length es = length as \<and> int (length es) \<le> k
            \<and> (\<forall>(e, a) \<in> set (zip es as). 0 \<le> a \<and> a \<le> e)
        | _ \<Rightarrow> False)"

abbreviation observe :: "observation \<Rightarrow> acl \<Rightarrow> (acl_error + acl_update option) \<times> acl" where
  "observe x \<equiv> observe_batch (obs_drafts x) (obs_draft_tokens x) (obs_accepted_tokens x)
     (obs_eligible x) (obs_accepted x)"

fun observe_many :: "observation list \<Rightarrow> acl \<Rightarrow> (acl_error + acl_update option) list \<times> acl" where
  "observe_many [] c = ([], c)"
| "observe_many (x # xs) c =
     (case observe x c of (r, c') \<Rightarrow> case observe_many xs c' of (rs, c'') \<Rightarrow> (r # rs, c''))"

lemma add_positions_ok:
  assumes "\<forall>(e, a) \<in> set ps. 0 \<le> a \<and> a \<le> e"
    and "i + length ps \<le> length (position_eligible c)"
    and "i + length ps \<le> length (position_accepted c)"
  shows "fst (add_positions i ps c) = Inr ()"
  using assms by (induction i ps c rule: add_positions.induct) (auto simp: Let_def)

lemma observe_positions_ok:
  assumes "valid_observation (max_num_spec_tokens c) x" and "acl_inv c"
  shows "fst (observe_positions (obs_eligible x) (obs_accepted x) c) = Inr ()"
  using assms add_positions_ok [of _ 0 c]
  by (fastforce simp: valid_observation_def observe_positions_def acl_inv_def positions_ok_def
      split: option.splits)

lemma observe_valid:
  assumes "acl_inv c" and "valid_observation (max_num_spec_tokens c) x"
  shows "\<exists>u c'. observe x c = (Inr u, c')
     \<and> (u = None \<longleftrightarrow> num_observation_steps c + 1 < effective_observation_window c)
     \<and> (u = None \<longrightarrow> num_observation_steps c' = num_observation_steps c + 1
          \<and> effective_observation_window c' = effective_observation_window c
          \<and> max_num_spec_tokens c' = max_num_spec_tokens c)
     \<and> (u \<noteq> None \<longrightarrow> num_observation_steps c' = 0)"
proof -
  let ?c1 = "c\<lparr>num_observation_steps := num_observation_steps c + 1,
     num_drafts := num_drafts c + obs_drafts x,
     num_draft_tokens := num_draft_tokens c + obs_draft_tokens x,
     num_accepted_tokens := num_accepted_tokens c + obs_accepted_tokens x\<rparr>"
  have v: "0 < obs_drafts x" "0 \<le> obs_accepted_tokens x" "obs_accepted_tokens x \<le> obs_draft_tokens x"
    using assms(2) by (auto simp: valid_observation_def)
  have inv: "acl_inv ?c1" using accumulate_inv [OF assms(1) v] .
  obtain r c2 where c2: "observe_positions (obs_eligible x) (obs_accepted x) ?c1 = (r, c2)" by fastforce
  have r: "r = Inr ()" using observe_positions_ok [OF _ inv, of x] assms(2) c2 by simp
  note frame = observe_positions_frame [OF c2]
  then have eff: "effective_observation_window c2 = effective_observation_window c"
    by (simp add: effective_observation_window_def)
  have steps: "num_observation_steps c2 = num_observation_steps c + 1"
    and maxk: "max_num_spec_tokens c2 = max_num_spec_tokens c" using frame by simp_all
  have o: "observe x c = (Inr (fst (conclude_window c2)), snd (conclude_window c2))"
    using v c2 r by (simp add: observe_batch_def Let_def split: prod.splits)
  show ?thesis
  proof (cases "num_observation_steps c + 1 < effective_observation_window c")
    case True
    then have "conclude_window c2 = (None, c2)" by (simp add: conclude_window_def steps eff)
    with o True show ?thesis by (simp add: steps eff maxk)
  next
    case False
    then have "fst (conclude_window c2) \<noteq> None \<and> num_observation_steps (snd (conclude_window c2)) = 0"
      by (simp add: conclude_window_def steps eff reset_window_def split: prod.splits)
    with o False show ?thesis by auto
  qed
qed

text \<open>
  C26: the controller always decides. From any consistent state in the middle of a window, the
  first observation that fills the window returns an update and every earlier one returns no
  decision; the window is then empty again.
\<close>

theorem window_decides:
  assumes "acl_inv c" and "num_observation_steps c < effective_observation_window c"
    and "int (length xs) = effective_observation_window c - num_observation_steps c"
    and "\<forall>x \<in> set xs. valid_observation (max_num_spec_tokens c) x"
  shows "\<exists>u c'. observe_many xs c = (replicate (length xs - 1) (Inr None) @ [Inr (Some u)], c')
     \<and> num_observation_steps c' = 0"
  using assms
proof (induction xs arbitrary: c)
  case Nil
  then show ?case by simp
next
  case (Cons x xs)
  from Cons.prems(4) have "valid_observation (max_num_spec_tokens c) x" by simp
  from observe_valid [OF Cons.prems(1) this] obtain u c1 where
    o: "observe x c = (Inr u, c1)"
    and none: "u = None \<longleftrightarrow> num_observation_steps c + 1 < effective_observation_window c"
    and keep: "u = None \<Longrightarrow> num_observation_steps c1 = num_observation_steps c + 1
        \<and> effective_observation_window c1 = effective_observation_window c
        \<and> max_num_spec_tokens c1 = max_num_spec_tokens c"
    and fin: "u \<noteq> None \<Longrightarrow> num_observation_steps c1 = 0" by blast
  have inv1: "acl_inv c1"
    using observe_batch_inv [OF Cons.prems(1)] o by (metis snd_conv)
  show ?case
  proof (cases "u = None")
    case True
    with none keep have k: "num_observation_steps c1 < effective_observation_window c1"
      "int (length xs) = effective_observation_window c1 - num_observation_steps c1"
      "\<forall>x \<in> set xs. valid_observation (max_num_spec_tokens c1) x"
      using Cons.prems(3,4) by auto
    then have "xs \<noteq> []" by auto
    with Cons.IH [OF inv1 k] True o show ?thesis
      by (cases xs) auto
  next
    case False
    with none have "effective_observation_window c \<le> num_observation_steps c + 1" by simp
    moreover have "int (length xs) + 1 = effective_observation_window c - num_observation_steps c"
      using Cons.prems(3) by simp
    ultimately have "length xs = 0" by linarith
    then have "xs = []" by simp
    with False fin o show ?thesis by auto
  qed
qed

theorem window_decides_witness:
  "\<exists>u c'. observe_many (replicate 2 \<lparr>obs_drafts = 4, obs_draft_tokens = 8, obs_accepted_tokens = 7,
       obs_eligible = Some [4, 4], obs_accepted = Some [4, 3]\<rparr>)
       \<lparr>max_num_spec_tokens = 5, observation_window = 2, depth_ladder = [2, 4, 5],
        num_spec_tokens = 2, num_observation_steps = 0, num_drafts = 0, num_draft_tokens = 0,
        num_accepted_tokens = 0, position_eligible = [0, 0, 0, 0, 0],
        position_accepted = [0, 0, 0, 0, 0]\<rparr>
     = ([Inr None, Inr (Some u)], c') \<and> num_observation_steps c' = 0"
proof -
  let ?x = "\<lparr>obs_drafts = 4, obs_draft_tokens = 8, obs_accepted_tokens = 7,
       obs_eligible = Some [4, 4], obs_accepted = Some [4, 3]\<rparr> :: observation"
  let ?c = "\<lparr>max_num_spec_tokens = 5, observation_window = 2, depth_ladder = [2, 4, 5],
        num_spec_tokens = 2, num_observation_steps = 0, num_drafts = 0, num_draft_tokens = 0,
        num_accepted_tokens = 0, position_eligible = [0, 0, 0, 0, 0],
        position_accepted = [0, 0, 0, 0, 0]\<rparr> :: acl"
  have "acl_inv ?c" by (simp add: acl_inv_def ladder_ok_def positions_ok_def)
  moreover have "effective_observation_window ?c = 2" by (simp add: effective_observation_window_def)
  moreover have "valid_observation 5 ?x" by (simp add: valid_observation_def)
  ultimately have "\<exists>u c'. observe_many (replicate 2 ?x) ?c
      = (replicate (length (replicate 2 ?x) - 1) (Inr None) @ [Inr (Some u)], c')
      \<and> num_observation_steps c' = 0"
    by (intro window_decides) auto
  then show ?thesis by (simp only: length_replicate) simp
qed

text \<open>
  On the production ladder the depth never jumps from 2 to 5: an update out of depth 2 keeps
  2 or probes 4, depth 5 is entered from 4 only, and the controller stands at the depth the
  update reports.
\<close>

theorem production_transitions:
  assumes "acl_inv c" and "depth_ladder c = [2, 4, 5]"
    and "observe_batch nd ndt na el ac c = (Inr (Some u), c')"
  shows "upd_previous u = num_spec_tokens c \<and> num_spec_tokens c' = upd_num_spec_tokens u
     \<and> (upd_previous u, upd_num_spec_tokens u) \<in> {(2, 2), (2, 4), (4, 2), (4, 4), (4, 5), (5, 2), (5, 4), (5, 5)}"
proof -
  obtain c1 c2 where c2: "observe_positions el ac c1 = (Inr (), c2)"
    and keep: "depth_ladder c1 = depth_ladder c" "num_spec_tokens c1 = num_spec_tokens c"
    and concl: "conclude_window c2 = (Some u, c')"
    using assms(3) by (auto simp: observe_batch_def Let_def split: if_splits prod.splits sum.splits)
  have c2': "depth_ladder c2 = [2, 4, 5]" "num_spec_tokens c2 = num_spec_tokens c"
    using observe_positions_frame [OF c2] keep assms(2) by simp_all
  obtain t r w where d: "decide_depth c2 = (t, r, w)" by (metis prod_cases3)
  have "num_spec_tokens c \<in> {2, 4, 5}" using assms(1,2) by (simp add: acl_inv_def)
  then have "(num_spec_tokens c, t) \<in> {(2, 2), (2, 4), (4, 2), (4, 4), (4, 5), (5, 2), (5, 4), (5, 5)}"
    using d c2' by (auto simp: decide_depth_def Let_def split: if_splits)
  moreover have "upd_previous u = num_spec_tokens c" "upd_num_spec_tokens u = t" "num_spec_tokens c' = t"
    using concl d c2' by (auto simp: conclude_window_def reset_window_def split: if_splits)
  ultimately show ?thesis by simp
qed

theorem production_transitions_witness:
  "\<exists>u c'. observe_batch 1 2 2 None None \<lparr>max_num_spec_tokens = 5, observation_window = 1,
        depth_ladder = [2, 4, 5], num_spec_tokens = 2, num_observation_steps = 0, num_drafts = 0,
        num_draft_tokens = 0, num_accepted_tokens = 0, position_eligible = [0, 0, 0, 0, 0],
        position_accepted = [0, 0, 0, 0, 0]\<rparr> = (Inr (Some u), c') \<and> upd_num_spec_tokens u \<noteq> 5"
proof -
  let ?c = "\<lparr>max_num_spec_tokens = 5, observation_window = 1,
        depth_ladder = [2, 4, 5], num_spec_tokens = 2, num_observation_steps = 0, num_drafts = 0,
        num_draft_tokens = 0, num_accepted_tokens = 0, position_eligible = [0, 0, 0, 0, 0],
        position_accepted = [0, 0, 0, 0, 0]\<rparr> :: acl"
  have inv: "acl_inv ?c" by (simp add: acl_inv_def ladder_ok_def positions_ok_def)
  obtain u c' where u: "observe_batch 1 2 2 None None ?c = (Inr (Some u), c')"
    using observe_valid [OF inv, of "\<lparr>obs_drafts = 1, obs_draft_tokens = 2,
        obs_accepted_tokens = 2, obs_eligible = None, obs_accepted = None\<rparr>"]
    by (auto simp: valid_observation_def effective_observation_window_def)
  from production_transitions [OF inv _ u] u show ?thesis by auto
qed

end
