(* ===== verification/UnifiedMemory.thy ===== *)
theory UnifiedMemory
  imports Float64
begin

text \<open>
  The integrated-GPU allocator budget: \<^verbatim>\<open>utils/mem_utils.py\<close> (memory snapshots, the profiling
  result, the allocator ceiling and its conversion to a float fraction), the strict byte parsers
  of \<^verbatim>\<open>envs.py\<close> and the worker methods of \<^verbatim>\<open>v1/worker/gpu_worker.py\<close> that apply the ceiling.
  Samples of torch, CUDA and psutil are arguments; logging and garbage collection are not
  modelled.
\<close>

subsection \<open>The strict byte parsers\<close>

datatype env_error =
    EnvEmpty | EnvWhitespace | EnvSigned | EnvNotPlain | EnvNegative | EnvTooLarge

definition parse_strict_bytes_value :: "string \<Rightarrow> env_error + int" where
  "parse_strict_bytes_value raw =
     bindE (raiseIf (raw = []) EnvEmpty) (\<lambda>_.
     bindE (raiseIf (raw \<noteq> py_strip raw) EnvWhitespace) (\<lambda>_.
     bindE (raiseIf (raw \<noteq> [] \<and> (hd raw = CHR ''+'' \<or> hd raw = CHR ''-'')) EnvSigned) (\<lambda>_.
     bindE (raiseIf (\<exists>c \<in> set ''.eE _,''. c \<in> set raw) EnvNotPlain) (\<lambda>_.
     bindE (raiseIf (map ascii_lower raw \<in> set [''nan'', ''inf'', ''+inf'', ''-inf'', ''infinity'',
                       ''+infinity'', ''-infinity'', ''true'', ''false'']) EnvNotPlain) (\<lambda>_.
       case py_int raw of
         None \<Rightarrow> Inl EnvNotPlain
       | Some value \<Rightarrow>
           if value < 0 then Inl EnvNegative
           else if value > 2 ^ 63 - 1 then Inl EnvTooLarge
           else Inr value)))))"

definition parse_strict_bytes_env :: "string option \<Rightarrow> string \<Rightarrow> env_error + int" where
  "parse_strict_bytes_env env dflt =
     parse_strict_bytes_value (case env of None \<Rightarrow> dflt | Some raw \<Rightarrow> raw)"

definition parse_optional_bytes_env :: "string option \<Rightarrow> env_error + int option" where
  "parse_optional_bytes_env env =
     (case env of
        None \<Rightarrow> Inr None
      | Some raw \<Rightarrow>
          if py_strip raw = [] then Inr None
          else bindE (parse_strict_bytes_value raw) (\<lambda>v. Inr (Some v)))"

subsection \<open>Memory snapshots and the profiling result\<close>

record snapshot =
  torch_peak :: int
  torch_allocated :: int
  free_memory :: int
  total_memory :: int
  cuda_memory :: int
  torch_memory :: int
  non_torch_memory :: int
  timestamp :: rat
  snap_device :: nat

text \<open>What one call of \<^verbatim>\<open>measure\<close> reads: allocator statistics, device memory, host memory.\<close>

record device_sample =
  stat_peak :: "int option"
  stat_current :: "int option"
  dev_free :: int
  dev_total :: int
  dev_integrated :: bool
  host_available :: int
  dev_reserved :: int
  wall_clock :: rat

definition blank_snapshot :: "nat \<Rightarrow> snapshot" where
  "blank_snapshot dev = \<lparr>torch_peak = 0, torch_allocated = 0, free_memory = 0, total_memory = 0,
     cuda_memory = 0, torch_memory = 0, non_torch_memory = 0, timestamp = 0, snap_device = dev\<rparr>"

definition measure_snapshot :: "device_sample \<Rightarrow> snapshot \<Rightarrow> snapshot" where
  "measure_snapshot d s =
     (let free = (if dev_integrated d then host_available d else dev_free d);
          cuda = dev_total d - free
      in s\<lparr>torch_peak := (case stat_peak d of None \<Rightarrow> 0 | Some v \<Rightarrow> v),
           torch_allocated := (case stat_current d of None \<Rightarrow> 0 | Some v \<Rightarrow> v),
           free_memory := free, total_memory := dev_total d, cuda_memory := cuda,
           torch_memory := dev_reserved d, non_torch_memory := cuda - dev_reserved d,
           timestamp := wall_clock d\<rparr>)"

datatype snapshot_error = DifferentDevices

definition snapshot_sub :: "snapshot \<Rightarrow> snapshot \<Rightarrow> snapshot_error + snapshot" where
  "snapshot_sub a b =
     (if snap_device a \<noteq> snap_device b then Inl DifferentDevices
      else Inr \<lparr>torch_peak = torch_peak a - torch_peak b,
                torch_allocated = torch_allocated a - torch_allocated b,
                free_memory = free_memory a - free_memory b,
                total_memory = total_memory a - total_memory b,
                cuda_memory = cuda_memory a - cuda_memory b,
                torch_memory = torch_memory a - torch_memory b,
                non_torch_memory = non_torch_memory a - non_torch_memory b,
                timestamp = timestamp a - timestamp b, snap_device = snap_device a\<rparr>)"

record profiling_result =
  non_kv_cache_memory :: int
  torch_peak_increase :: int
  non_torch_increase :: int
  total_consumed :: int
  transient_peak_headroom :: int
  weights_memory :: int
  before_create :: snapshot
  before_profile :: snapshot
  after_profile :: snapshot
  profile_time :: rat

text \<open>The context manager: a sample is taken before the profiled body runs and one after it.\<close>

definition memory_profiling ::
  "snapshot \<Rightarrow> int \<Rightarrow> device_sample \<Rightarrow> device_sample \<Rightarrow> snapshot_error + profiling_result" where
  "memory_profiling baseline weights pre post =
     (let dev = snap_device baseline;
          before = measure_snapshot pre (blank_snapshot dev);
          after = measure_snapshot post (blank_snapshot dev)
      in bindE (snapshot_sub after before) (\<lambda>diff_profile.
         bindE (snapshot_sub after baseline) (\<lambda>diff_from_create.
           let consumed = free_memory baseline - free_memory after;
               headroom = torch_peak after - torch_allocated after
           in Inr \<lparr>non_kv_cache_memory = consumed + headroom,
                   torch_peak_increase = torch_peak diff_profile,
                   non_torch_increase = non_torch_memory diff_from_create,
                   total_consumed = consumed, transient_peak_headroom = headroom,
                   weights_memory = weights, before_create = baseline, before_profile = before,
                   after_profile = after, profile_time = timestamp diff_profile\<rparr>)))"

text \<open>\<^verbatim>\<open>release_device_memory_under_pressure\<close>: whether the cached memory is released, given the
  device kind and the sampled sizes (\<open>0.8\<close> and \<open>512\<close> MiB are the module constants).\<close>

definition release_under_pressure :: "bool \<Rightarrow> bool \<Rightarrow> int \<Rightarrow> int \<Rightarrow> int \<Rightarrow> int \<Rightarrow> bool" where
  "release_under_pressure is_cuda integrated reserved allocated available total_bytes =
     (if \<not> is_cuda \<or> \<not> integrated then False
      else if reserved - allocated < 512 * 1048576 then False
      else if of_int available > float_mul_int (fl (1 - fl (8 / 10))) total_bytes then False
      else True)"

subsection \<open>The allocator ceiling\<close>

datatype budget_error =
    UnknownPhase | NotAnInteger | NegativeBytes | ExceedsInt64 | PoolTotalZero
  | ReserveOutOfRange | NoHeadroom | BaselineInconsistent | PoolCeilingNonPositive
  | BaselineExceedsPool | RequestedBelowBaseline | RequestedExceedsBudget
  | GrowthExceedsAllowance | CapBelowResidency | FixedKvInfeasible | ProfileOutOfMemory
  | BudgetZeroDivision

text \<open>A Python argument as the type checks of \<^verbatim>\<open>_check_nonneg\<close> see it.\<close>

datatype py_value = VInt int | VBool bool | VOther

fun check_nonneg :: "py_value \<Rightarrow> budget_error + int" where
  "check_nonneg (VInt value) =
     (if value < 0 then Inl NegativeBytes
      else if value > 2 ^ 63 - 1 then Inl ExceedsInt64
      else Inr value)"
| "check_nonneg _ = Inl NotAnInteger"

record receipt =
  r_phase :: string
  r_integrated_gpu :: bool
  r_total_cuda :: int
  r_total_host :: int
  r_pool_total :: int
  r_available :: int
  r_reserve :: int
  r_allocated :: int
  r_reserved :: int
  r_baseline :: int
  r_phase_budget :: int
  r_requested :: int
  r_applied_fraction :: rat
  r_applied :: int

text \<open>An unset budget keeps the conservative formula; an explicit one may raise it up to the pool.\<close>

definition requested_ceiling :: "py_value option \<Rightarrow> int \<Rightarrow> int \<Rightarrow> int \<Rightarrow> int" where
  "requested_ceiling budget_arg pool_ceiling growth_limit budget =
     (case budget_arg of
        None \<Rightarrow> min pool_ceiling (min growth_limit budget)
      | Some _ \<Rightarrow> min pool_ceiling (max growth_limit budget))"

text \<open>The arithmetic after the argument checks, up to the requested ceiling.\<close>

definition ceiling_of_checked ::
  "string \<Rightarrow> int \<Rightarrow> int \<Rightarrow> int \<Rightarrow> int \<Rightarrow> int \<Rightarrow> int \<Rightarrow> py_value option \<Rightarrow> budget_error + receipt" where
  "ceiling_of_checked phase total_cuda total_host available reserve allocated reserved budget_arg =
     (let pool_total = min total_cuda total_host in
      bindE (raiseIf (pool_total = 0) PoolTotalZero) (\<lambda>_.
      bindE (raiseIf (\<not> (0 < reserve \<and> reserve < pool_total)) ReserveOutOfRange) (\<lambda>_.
      bindE (raiseIf (available \<le> reserve) NoHeadroom) (\<lambda>_.
      let baseline = max allocated reserved in
      bindE (raiseIf (allocated > baseline \<or> reserved > baseline) BaselineInconsistent) (\<lambda>_.
      let incremental = max 0 (available - reserve); pool_ceiling = pool_total - reserve in
      bindE (raiseIf (pool_ceiling \<le> 0) PoolCeilingNonPositive) (\<lambda>_.
      bindE (case budget_arg of None \<Rightarrow> Inr pool_ceiling | Some b \<Rightarrow> check_nonneg b) (\<lambda>budget.
      let requested = requested_ceiling budget_arg pool_ceiling (baseline + incremental) budget in
      bindE (raiseIf (baseline > pool_ceiling) BaselineExceedsPool) (\<lambda>_.
      bindE (raiseIf (requested < baseline) RequestedBelowBaseline) (\<lambda>_.
      bindE (raiseIf (budget_arg = None \<and> requested > budget) RequestedExceedsBudget) (\<lambda>_.
      bindE (raiseIf (budget_arg = None \<and> requested - baseline > incremental)
               GrowthExceedsAllowance) (\<lambda>_.
        Inr \<lparr>r_phase = phase, r_integrated_gpu = True, r_total_cuda = total_cuda,
             r_total_host = total_host, r_pool_total = pool_total, r_available = available,
             r_reserve = reserve, r_allocated = allocated, r_reserved = reserved,
             r_baseline = baseline, r_phase_budget = budget, r_requested = requested,
             r_applied_fraction = 0, r_applied = 0\<rparr>)))))))))))"

definition compute_ceiling ::
  "string \<Rightarrow> py_value \<Rightarrow> py_value \<Rightarrow> py_value \<Rightarrow> py_value \<Rightarrow> py_value \<Rightarrow> py_value
     \<Rightarrow> py_value option \<Rightarrow> budget_error + receipt" where
  "compute_ceiling phase total_cuda total_host available reserve allocated reserved budget_arg =
     bindE (raiseIf (phase \<notin> set [''load'', ''profile'', ''kv'', ''graphs'', ''auto'']) UnknownPhase) (\<lambda>_.
     bindE (check_nonneg total_cuda) (\<lambda>tc.
     bindE (check_nonneg total_host) (\<lambda>th.
     bindE (check_nonneg available) (\<lambda>av.
     bindE (check_nonneg reserve) (\<lambda>re.
     bindE (check_nonneg allocated) (\<lambda>al.
     bindE (check_nonneg reserved) (\<lambda>rs.
       ceiling_of_checked phase tc th av re al rs budget_arg)))))))"

subsection \<open>Applying the ceiling\<close>

text \<open>The rounding-down loop; \<open>None\<close> would be a loop that never stops.\<close>

definition fraction_bytes :: "rat \<Rightarrow> int \<Rightarrow> int" where
  "fraction_bytes fraction pool_total = \<lfloor>float_mul_int fraction pool_total\<rfloor>"

partial_function (option) shrink_fraction :: "rat \<Rightarrow> int \<Rightarrow> int \<Rightarrow> rat option" where
  "shrink_fraction fraction pool_total requested =
     (if fraction_bytes fraction pool_total > requested
      then shrink_fraction (nextafter0 fraction) pool_total requested
      else Some fraction)"

declare shrink_fraction.simps [code]

definition apply_ceiling :: "receipt \<Rightarrow> (budget_error + rat \<times> int) option" where
  "apply_ceiling r =
     (if r_pool_total r = 0 then Some (Inl BudgetZeroDivision)
      else case shrink_fraction (int_truediv (r_requested r) (r_pool_total r)) (r_pool_total r)
                  (r_requested r) of
             None \<Rightarrow> None
           | Some fraction \<Rightarrow>
               let applied = fraction_bytes fraction (r_pool_total r)
               in if applied < r_baseline r then Some (Inl CapBelowResidency)
                  else Some (Inr (fraction, applied)))"

subsection \<open>The worker's use of the ceiling\<close>

text \<open>
  \<^verbatim>\<open>_refresh_unified_memory_limit\<close>: \<open>stat\<close> is the allocator statistic (absent means 0), the
  totals and the host's available memory are fresh samples, \<open>reserve\<close> and \<open>budget\<close> come from the
  environment parsers. The outer option is the termination of the rounding loop.
\<close>

record uma_sample =
  u_stat_allocated :: "int option"
  u_reserved :: int
  u_total_cuda :: int
  u_host_total :: int
  u_host_available :: int

definition refresh_unified_memory_limit ::
  "int \<Rightarrow> int option \<Rightarrow> string \<Rightarrow> uma_sample \<Rightarrow> (budget_error + receipt) option" where
  "refresh_unified_memory_limit reserve budget phase u =
     (case compute_ceiling phase (VInt (u_total_cuda u)) (VInt (u_host_total u))
             (VInt (u_host_available u)) (VInt reserve)
             (VInt (case u_stat_allocated u of None \<Rightarrow> 0 | Some v \<Rightarrow> v)) (VInt (u_reserved u))
             (map_option VInt budget) of
        Inl e \<Rightarrow> Some (Inl e)
      | Inr r \<Rightarrow>
          (case apply_ceiling r of
             None \<Rightarrow> None
           | Some (Inl e) \<Rightarrow> Some (Inl e)
           | Some (Inr (fraction, applied)) \<Rightarrow>
               Some (Inr (r\<lparr>r_integrated_gpu := True, r_applied_fraction := fraction,
                            r_applied := applied\<rparr>))))"

text \<open>Exceptions a worker start-up step can end with, and the observable order of its effects.\<close>

datatype worker_error =
    Budget budget_error | MarkerUndelivered string | TorchOutOfMemory | RunError
  | ProfilingAssertion | SnapshotError snapshot_error

datatype worker_event =
    Refresh string | Marker string | ProfileRun | EnsureKvTransfer | InitKvCache
  | InitRoutedExperts | InitKvZeroMeta

datatype run_outcome = RunOk | RunOOM | RunFailed

type_synonym 'a worker_run = "(worker_error + 'a) \<times> worker_event list"

text \<open>\<open>emit ok phase\<close> is \<^verbatim>\<open>emit_startup_phase\<close>; \<open>ok\<close> says whether the guard socket took the marker
  (always, when no socket is configured).\<close>

definition emit_startup_phase :: "(string \<Rightarrow> bool) \<Rightarrow> string \<Rightarrow> unit worker_run" where
  "emit_startup_phase ok phase =
     (if ok phase then (Inr (), [Marker phase]) else (Inl (MarkerUndelivered phase), []))"

definition initialize_from_config ::
  "(string \<Rightarrow> bool) \<Rightarrow> bool \<Rightarrow> int option \<Rightarrow> (budget_error + receipt) \<Rightarrow> int option \<Rightarrow> bool \<Rightarrow> bool
     \<Rightarrow> unit worker_run" where
  "initialize_from_config ok integrated fixed_kv refreshed stat_allocated routed zero_meta =
     (let guarded = (fixed_kv \<noteq> None \<and> integrated);
          tail = [InitKvCache]
            @ (if guarded then (if ok ''kv_allocated'' then [Marker ''kv_allocated''] else []) else []);
          rest = (if routed then [InitRoutedExperts] else []) @ (if zero_meta then [InitKvZeroMeta] else [])
      in if \<not> guarded then (Inr (), [EnsureKvTransfer] @ tail @ rest)
         else case refreshed of
                Inl e \<Rightarrow> (Inl (Budget e), [EnsureKvTransfer])
              | Inr r \<Rightarrow>
                  (let allocated = (case stat_allocated of None \<Rightarrow> 0 | Some v \<Rightarrow> v)
                   in if allocated + the fixed_kv > r_applied r
                      then (Inl (Budget FixedKvInfeasible), [EnsureKvTransfer, Refresh ''kv''])
                      else if \<not> ok ''kv_start''
                      then (Inl (MarkerUndelivered ''kv_start''), [EnsureKvTransfer, Refresh ''kv''])
                      else if \<not> ok ''kv_allocated''
                      then (Inl (MarkerUndelivered ''kv_allocated''),
                            [EnsureKvTransfer, Refresh ''kv'', Marker ''kv_start''] @ tail)
                      else (Inr (), [EnsureKvTransfer, Refresh ''kv'', Marker ''kv_start''] @ tail @ rest)))"

text \<open>The branch of \<^verbatim>\<open>determine_available_memory\<close> taken for a configured KV size: the profile run
  between its two markers, the second one in a \<^verbatim>\<open>finally\<close> clause.\<close>

definition determine_fixed_memory ::
  "(string \<Rightarrow> bool) \<Rightarrow> bool \<Rightarrow> (budget_error + receipt) \<Rightarrow> run_outcome \<Rightarrow> (int \<Rightarrow> int) \<Rightarrow> int
     \<Rightarrow> int worker_run" where
  "determine_fixed_memory ok integrated refreshed outcome reserve_mm kv_bytes =
     (let start = (if integrated then
                     (case refreshed of Inl e \<Rightarrow> (Inl (Budget e), []) | Inr _ \<Rightarrow> (Inr (), [Refresh ''profile'']))
                   else (Inr (), []))
      in case start of
           (Inl e, evs) \<Rightarrow> (Inl e, evs)
         | (Inr _, evs) \<Rightarrow>
             if \<not> ok ''profile_start'' then (Inl (MarkerUndelivered ''profile_start''), evs)
             else let body = (case outcome of
                          RunOk \<Rightarrow> Inr ()
                        | RunOOM \<Rightarrow> Inl (if integrated then Budget ProfileOutOfMemory else TorchOutOfMemory)
                        | RunFailed \<Rightarrow> Inl RunError);
                      evs' = evs @ [Marker ''profile_start'', ProfileRun]
                  in if \<not> ok ''profile_end'' then (Inl (MarkerUndelivered ''profile_end''), evs')
                     else (case body of
                             Inl e \<Rightarrow> (Inl e, evs' @ [Marker ''profile_end''])
                           | Inr _ \<Rightarrow> (Inr (reserve_mm kv_bytes), evs' @ [Marker ''profile_end''])))"

text \<open>The profiling branch and the fields it stores: \<open>estimate\<close> is the graph-memory estimate (0
  when graphs are off), applied only when \<^verbatim>\<open>VLLM_MEMORY_PROFILER_ESTIMATE_CUDAGRAPHS\<close> is set;
  \<open>reserve_mm\<close> is \<^verbatim>\<open>reserve_mm_ipc_gpu_memory\<close> at the configured arguments.\<close>

record kv_memory_plan =
  plan_total_consumed :: int
  plan_peak_activation :: int
  plan_graph_estimate :: int
  plan_available :: int
  plan_result :: int

definition available_kv_cache_memory ::
  "int \<Rightarrow> snapshot \<Rightarrow> profiling_result \<Rightarrow> bool \<Rightarrow> int \<Rightarrow> (int \<Rightarrow> int) \<Rightarrow> worker_error + kv_memory_plan" where
  "available_kv_cache_memory requested_memory init_snapshot pr estimate_graphs estimate reserve_mm =
     (let applied = (if estimate_graphs then estimate else 0);
          available = requested_memory - non_kv_cache_memory pr - applied
      in bindE (raiseIf (\<not> free_memory init_snapshot \<ge> free_memory (after_profile pr)) ProfilingAssertion) (\<lambda>_.
           Inr \<lparr>plan_total_consumed = total_consumed pr,
                plan_peak_activation = transient_peak_headroom pr + applied,
                plan_graph_estimate = estimate, plan_available = available,
                plan_result = reserve_mm available\<rparr>))"

definition determine_profiled_memory ::
  "bool \<Rightarrow> (budget_error + receipt) \<Rightarrow> int \<Rightarrow> snapshot \<Rightarrow> int \<Rightarrow> device_sample \<Rightarrow> device_sample
     \<Rightarrow> bool \<Rightarrow> int \<Rightarrow> (int \<Rightarrow> int) \<Rightarrow> worker_error + kv_memory_plan" where
  "determine_profiled_memory integrated refreshed requested_memory init_snapshot weights pre post
      estimate_graphs estimate reserve_mm =
     bindE (if integrated then (case refreshed of Inl e \<Rightarrow> Inl (Budget e) | Inr _ \<Rightarrow> Inr ()) else Inr ()) (\<lambda>_.
     case memory_profiling init_snapshot weights pre post of
        Inl e \<Rightarrow> Inl (SnapshotError e)
      | Inr pr \<Rightarrow>
          available_kv_cache_memory requested_memory init_snapshot pr estimate_graphs estimate reserve_mm)"

subsection \<open>Properties of the computed ceiling\<close>

lemma check_nonneg_Inr [simp]:
  "check_nonneg v = Inr n \<longleftrightarrow> v = VInt n \<and> 0 \<le> n \<and> n \<le> 2 ^ 63 - 1"
  by (cases v) auto

text \<open>What a successful computation has established.\<close>

definition receipt_ok :: "receipt \<Rightarrow> bool" where
  "receipt_ok r \<longleftrightarrow> r_pool_total r = min (r_total_cuda r) (r_total_host r)
     \<and> 0 < r_reserve r \<and> r_reserve r < r_pool_total r \<and> r_pool_total r \<le> 2 ^ 63 - 1
     \<and> r_reserve r < r_available r
     \<and> r_baseline r = max (r_allocated r) (r_reserved r) \<and> 0 \<le> r_baseline r
     \<and> r_baseline r \<le> r_requested r \<and> r_requested r \<le> r_pool_total r - r_reserve r"

lemma ceiling_of_checked_iff:
  assumes "0 \<le> al"
  shows "ceiling_of_checked phase tc th av re al rs b = Inr r \<longleftrightarrow>
    (0 < re \<and> re < min tc th \<and> re < av \<and> max al rs \<le> min tc th - re
     \<and> (\<exists>budget. (case b of None \<Rightarrow> Inr (min tc th - re) | Some v \<Rightarrow> check_nonneg v) = Inr budget
          \<and> r = \<lparr>r_phase = phase, r_integrated_gpu = True, r_total_cuda = tc,
             r_total_host = th, r_pool_total = min tc th, r_available = av,
             r_reserve = re, r_allocated = al, r_reserved = rs,
             r_baseline = max al rs, r_phase_budget = budget,
             r_requested = requested_ceiling b (min tc th - re) (max al rs + (av - re)) budget,
             r_applied_fraction = 0, r_applied = 0\<rparr>))" (is "?L \<longleftrightarrow> ?R")
proof -
  let ?C = "max al rs" and ?P = "min tc th - re" and ?G = "max al rs + (av - re)"
  have reqs: "requested_ceiling b ?P ?G budget \<ge> ?C \<and> requested_ceiling b ?P ?G budget \<le> ?P
      \<and> (b = None \<longrightarrow> requested_ceiling b ?P ?G budget \<le> budget
           \<and> requested_ceiling b ?P ?G budget - ?C \<le> av - re)"
    if "re < av" "?C \<le> ?P" "b = None \<Longrightarrow> budget = ?P" for budget
    using that by (simp add: requested_ceiling_def split: option.split) linarith
  show ?thesis
  proof
    assume ?L
    then show ?R
      by (auto simp: ceiling_of_checked_def Let_def bindE_eq_Inr not_less not_le max_absorb2)
  next
    assume R: ?R
    then obtain budget where
      b: "(case b of None \<Rightarrow> Inr (min tc th - re) | Some v \<Rightarrow> check_nonneg v) = Inr budget"
      and r: "r = \<lparr>r_phase = phase, r_integrated_gpu = True, r_total_cuda = tc,
             r_total_host = th, r_pool_total = min tc th, r_available = av,
             r_reserve = re, r_allocated = al, r_reserved = rs,
             r_baseline = max al rs, r_phase_budget = budget,
             r_requested = requested_ceiling b ?P ?G budget,
             r_applied_fraction = 0, r_applied = 0\<rparr>" by blast
    have "b = None \<Longrightarrow> budget = ?P" using b by simp
    then have rq: "?C \<le> requested_ceiling b ?P ?G budget"
      "b = None \<Longrightarrow> requested_ceiling b ?P ?G budget \<le> budget"
      "b = None \<Longrightarrow> requested_ceiling b ?P ?G budget - ?C \<le> av - re"
      using reqs [of budget] R by blast+
    have "max 0 (av - re) = av - re" "min tc th \<noteq> 0" "\<not> min tc th \<le> re" using R by auto
    with b r rq R show ?L
      by (cases "b = None") (simp_all add: ceiling_of_checked_def Let_def bindE_raiseIf not_less)
  qed
qed

lemma check_nonneg_VInt: "0 \<le> n \<Longrightarrow> n \<le> 2 ^ 63 - 1 \<Longrightarrow> check_nonneg (VInt n) = Inr n"
  by simp

lemma compute_ceiling_iff:
  "compute_ceiling phase (VInt tc) (VInt th) (VInt av) (VInt re) (VInt al) (VInt rs) b = Inr r \<longleftrightarrow>
     phase \<in> set [''load'', ''profile'', ''kv'', ''graphs'', ''auto'']
     \<and> set [tc, th, av, re, al, rs] \<subseteq> {0 .. 2 ^ 63 - 1}
     \<and> ceiling_of_checked phase tc th av re al rs b = Inr r"
  by (auto simp: compute_ceiling_def bindE_eq_Inr)

lemma compute_ceiling_success:
  assumes "compute_ceiling phase (VInt tc) (VInt th) (VInt av) (VInt re) (VInt al) (VInt rs) b = Inr r"
  shows "0 < re \<and> re < min tc th \<and> re < av \<and> max al rs \<le> min tc th - re \<and> 0 \<le> al
     \<and> min tc th \<le> 2 ^ 63 - 1"
    and "r_requested r =
       (case b of
          Some (VInt n) \<Rightarrow> min (min tc th - re) (max (max al rs + (av - re)) n)
        | _ \<Rightarrow> min (min tc th - re) (max al rs + (av - re)))"
    and "r_pool_total r = min tc th" and "r_baseline r = max al rs"
proof -
  from assms have al: "0 \<le> al" "tc \<le> 2 ^ 63 - 1" by (auto simp: compute_ceiling_iff)
  from assms have c: "ceiling_of_checked phase tc th av re al rs b = Inr r"
    by (simp add: compute_ceiling_iff)
  note r = c [unfolded ceiling_of_checked_iff [OF al(1)]]
  from r al show "0 < re \<and> re < min tc th \<and> re < av \<and> max al rs \<le> min tc th - re \<and> 0 \<le> al
     \<and> min tc th \<le> 2 ^ 63 - 1" by simp
  from r show "r_pool_total r = min tc th" "r_baseline r = max al rs" by auto
  from r show "r_requested r =
       (case b of
          Some (VInt n) \<Rightarrow> min (min tc th - re) (max (max al rs + (av - re)) n)
        | _ \<Rightarrow> min (min tc th - re) (max al rs + (av - re)))"
    by (cases b) (auto simp: requested_ceiling_def min.commute min.left_commute)
qed




subsection \<open>Properties of the applied fraction\<close>

lemma fl_nonpos: "x \<le> 0 \<Longrightarrow> fl x \<le> 0"
proof -
  assume "x \<le> 0"
  then have "round_half_even (x / ulp x) \<le> 0"
    using round_half_even_le [of "x / ulp x" 0] ulp_pos [of x] by (simp add: divide_nonpos_pos)
  then show ?thesis by (simp add: fl_def mult_nonpos_nonneg less_imp_le)
qed

lemma fraction_bytes_nonpos: "f \<le> 0 \<Longrightarrow> 0 \<le> t \<Longrightarrow> fraction_bytes f t \<le> 0"
proof -
  assume "f \<le> 0" "0 \<le> t"
  then have "f * fl (of_int t) \<le> 0" by (simp add: mult_nonpos_nonneg fl_nonneg)
  then show ?thesis using fl_nonpos by (simp add: fraction_bytes_def float_mul_int_def floor_le_iff)
      (meson less_le_trans order_le_less_trans zero_less_one)
qed

lemma nextafter0_decreases:
  assumes "0 < f"
  shows "nextafter0 f \<le> f - 2 powi (- 1074)"
proof -
  have "(2 :: rat) powi (- 1074) \<le> 2 powi (max (ilog2 f) (- 1022) - 52)"
    by (rule powi2_mono) simp
  then have u: "2 powi (- 1074) \<le> ulp f" using assms by (simp only: ulp_def abs_of_pos)
  have h: "2 powi (- 1074) \<le> ulp f / 2" if "- 1022 < ilog2 f"
  proof -
    have "(2 :: rat) powi (- 1074 + 1) \<le> 2 powi (max (ilog2 f) (- 1022) - 52)"
      using that by (intro powi2_mono) simp
    then have "2 * 2 powi (- 1074) \<le> ulp f"
      using assms by (simp only: ulp_def abs_of_pos powi2_Suc)
    then show ?thesis by linarith
  qed
  have eq: "nextafter0 f = f - (if f = 2 powi ilog2 f \<and> - 1022 < ilog2 f then ulp f / 2 else ulp f)"
    using assms by (simp add: nextafter0_def Let_def)
  show ?thesis
  proof (cases "f = 2 powi ilog2 f \<and> - 1022 < ilog2 f")
    case True
    then have "nextafter0 f = f - ulp f / 2" using eq by presburger
    with h True show ?thesis by linarith
  next
    case False
    then have "nextafter0 f = f - ulp f" using eq by presburger
    with u show ?thesis by linarith
  qed
qed

lemma shrink_fraction_terminates:
  assumes "0 \<le> t" and "0 \<le> e"
  shows "\<exists>f'. shrink_fraction f t e = Some f' \<and> fraction_bytes f' t \<le> e"
proof (induction "nat \<lceil>f / 2 powi (- 1074)\<rceil>" arbitrary: f rule: less_induct)
  case less
  show ?case
  proof (cases "fraction_bytes f t \<le> e")
    case True
    then show ?thesis by (subst shrink_fraction.simps) simp
  next
    case False
    then have f: "0 < f" using fraction_bytes_nonpos [of f t] assms by force
    let ?q = "2 powi (- 1074) :: rat"
    have q: "0 < ?q" by (rule powi2_pos)
    have "nextafter0 f / ?q \<le> (f - ?q) / ?q"
      using nextafter0_decreases [OF f] q by (intro divide_right_mono) auto
    also have "\<dots> = f / ?q - 1" using q by (simp only: diff_divide_distrib) simp
    finally have "\<lceil>nextafter0 f / ?q\<rceil> \<le> \<lceil>f / ?q\<rceil> - 1"
      using ceiling_mono ceiling_diff_one by metis
    moreover have "0 < \<lceil>f / ?q\<rceil>" using f q by (simp only: zero_less_ceiling zero_less_divide_iff) simp
    ultimately have "nat \<lceil>nextafter0 f / ?q\<rceil> < nat \<lceil>f / ?q\<rceil>" by linarith
    from less [OF this] False show ?thesis by (subst shrink_fraction.simps) simp
  qed
qed

lemma fraction_bytes_close:
  assumes "0 \<le> e" and "e \<le> t" and "0 < t" and "t \<le> 2 ^ 51"
  shows "e - 1 \<le> fraction_bytes (int_truediv e t) t" and "fraction_bytes (int_truediv e t) t \<le> e"
proof -
  let ?u = "2 powi (- 53) :: rat" and ?x = "of_int e / of_int t :: rat" and ?E = "of_int e :: rat"
  have T: "fl (of_int t) = of_int t" using assms by (intro fl_of_int) auto
  define p where "p = fl ?x * of_int t"
  have bytes: "fraction_bytes (int_truediv e t) t = \<lfloor>fl p\<rfloor>"
    by (simp add: fraction_bytes_def float_mul_int_def int_truediv_def p_def T)
  have "?E - 1 \<le> fl p \<and> fl p < ?E + 1"
  proof (cases "e = 0")
    case True
    then show ?thesis by (simp add: p_def)
  next
    case False
    have x: "2 powi (- 1022) \<le> ?x" using False assms by (intro inverse_ge_powi) auto
    have tpos: "0 < (of_int t :: rat)" using assms by simp
    have xt: "?x * of_int t = ?E" using tpos by simp
    have p1: "?E - ?E * ?u \<le> p" "p \<le> ?E + ?E * ?u"
      using mult_right_mono [OF fl_error_bounds(1) [OF x], of "of_int t"]
        mult_right_mono [OF fl_error_bounds(2) [OF x], of "of_int t"] tpos xt
      unfolding p_def by (simp_all only: left_diff_distrib distrib_right mult.assoc mult.commute [of ?u]
          less_imp_le) (metis mult.assoc mult.commute)+
    have E1: "1 \<le> ?E" using False assms by simp
    have "?E \<le> of_int (2 ^ 51)" using assms by (simp only: of_int_le_iff)
    then have "?E * ?u \<le> of_int (2 ^ 51) * ?u" by (intro mult_right_mono) auto
    also have "of_int (2 ^ 51) * ?u = 1 / 4" by (simp add: power_int_def power_one_over)
    finally have small: "?E * ?u \<le> 1 / 4" .
    have "1 / 2 \<le> p" using p1(1) small E1 by linarith
    moreover have "(2 :: rat) powi (- 1022) \<le> 2 powi (- 1)" by (rule powi2_mono) simp
    then have "(2 :: rat) powi (- 1022) \<le> 1 / 2" by (simp only: power_int_minus power_int_1_right) simp
    ultimately have pn: "2 powi (- 1022) \<le> p" by linarith
    have "p * ?u \<le> 1 / 2"
    proof -
      have "p \<le> 2 * ?E" using p1(2) small E1 by linarith
      then have "p * ?u \<le> 2 * ?E * ?u" by (intro mult_right_mono) auto
      with small show ?thesis by linarith
    qed
    with fl_error_bounds [OF pn] p1 small show ?thesis by linarith
  qed
  then show "e - 1 \<le> fraction_bytes (int_truediv e t) t" and "fraction_bytes (int_truediv e t) t \<le> e"
    unfolding bytes by (simp_all add: le_floor_iff floor_le_iff)
qed

lemma apply_ceiling_cases:
  assumes "0 < r_pool_total r" and "0 \<le> r_requested r"
  obtains (low) "apply_ceiling r = Some (Inl CapBelowResidency)"
  | (ok) f where "apply_ceiling r = Some (Inr (f, fraction_bytes f (r_pool_total r)))"
      "r_baseline r \<le> fraction_bytes f (r_pool_total r)"
      "fraction_bytes f (r_pool_total r) \<le> r_requested r"
proof -
  obtain f where "shrink_fraction (int_truediv (r_requested r) (r_pool_total r)) (r_pool_total r) (r_requested r)
      = Some f" "fraction_bytes f (r_pool_total r) \<le> r_requested r"
    using shrink_fraction_terminates [of "r_pool_total r" "r_requested r"] assms by auto
  then show thesis using assms low ok [of f]
    by (cases "fraction_bytes f (r_pool_total r) < r_baseline r") (simp_all add: apply_ceiling_def Let_def)
qed

text \<open>
  C24: applying a computed ceiling always terminates, and the byte count it hands to the allocator
  lies between the current residency and the request; the only other outcome is the documented
  refusal that the representable cap fell below the residency.
\<close>

theorem apply_ceiling_sound:
  assumes "compute_ceiling phase (VInt tc) (VInt th) (VInt av) (VInt re) (VInt al) (VInt rs) b = Inr r"
  shows "\<exists>res. apply_ceiling r = Some res \<and>
     (case res of Inl err \<Rightarrow> err = CapBelowResidency
      | Inr (fraction, applied) \<Rightarrow> applied = fraction_bytes fraction (r_pool_total r)
          \<and> r_baseline r \<le> applied \<and> applied \<le> r_requested r)"
proof -
  note s = compute_ceiling_success [OF assms]
  have "0 \<le> max al rs" using s(1) by linarith
  moreover have "max al rs \<le> r_requested r"
    unfolding s(2) using s(1) by (auto split: option.split py_value.split)
  ultimately have E: "0 \<le> r_requested r" by linarith
  have "0 < r_pool_total r" using s(1,3) by simp
  then show ?thesis using E by (rule apply_ceiling_cases) auto
qed

text \<open>
  On pools up to 2 PiB the rounding loop never runs: the fraction is the rounded quotient,
  and the applied bytes are the request or one byte less. The cap can then fall below the
  residency only when the request leaves no room for growth at all.
\<close>

theorem apply_ceiling_exact:
  assumes "compute_ceiling phase (VInt tc) (VInt th) (VInt av) (VInt re) (VInt al) (VInt rs) b = Inr r"
    and "min tc th \<le> 2 ^ 51"
  shows "\<exists>res. apply_ceiling r = Some res \<and>
     (case res of Inl err \<Rightarrow> r_requested r = r_baseline r
      | Inr (fraction, applied) \<Rightarrow> fraction = int_truediv (r_requested r) (r_pool_total r)
          \<and> (applied = r_requested r \<or> applied = r_requested r - 1))"
proof -
  note s = compute_ceiling_success [OF assms(1)]
  let ?E = "r_requested r" and ?T = "r_pool_total r" and ?f = "int_truediv (r_requested r) (r_pool_total r)"
  have "max al rs \<le> ?E" "?E \<le> min tc th - re"
    unfolding s(2) using s(1) by (auto split: option.split py_value.split)
  then have E: "0 \<le> ?E" "?E \<le> ?T" "r_baseline r \<le> ?E" and T: "0 < ?T" "?T \<le> 2 ^ 51"
    using s(1,3,4) assms(2) by auto
  note close = fraction_bytes_close [OF E(1,2) T]
  then have "shrink_fraction ?f ?T ?E = Some ?f" by (subst shrink_fraction.simps) simp
  with close T E(3) show ?thesis
    by (cases "fraction_bytes ?f ?T < r_baseline r") (auto simp: apply_ceiling_def Let_def)
qed

theorem apply_ceiling_sound_witness:
  "\<exists>r res. compute_ceiling ''auto'' (VInt 49) (VInt 60) (VInt 30) (VInt 8) (VInt 5) (VInt 7) None = Inr r
     \<and> apply_ceiling r = Some res \<and> res \<noteq> Inl BudgetZeroDivision"
proof -
  obtain r where r: "compute_ceiling ''auto'' (VInt 49) (VInt 60) (VInt 30) (VInt 8) (VInt 5) (VInt 7) None = Inr r"
    by (simp add: compute_ceiling_iff ceiling_of_checked_iff)
  from apply_ceiling_sound [OF r] obtain res where res: "apply_ceiling r = Some res"
    and out: "case res of Inl err \<Rightarrow> err = CapBelowResidency
      | Inr (fraction, applied) \<Rightarrow> applied = fraction_bytes fraction (r_pool_total r)
          \<and> r_baseline r \<le> applied \<and> applied \<le> r_requested r" by blast
  from out have "res \<noteq> Inl BudgetZeroDivision" by auto
  with r res show ?thesis by blast
qed

theorem apply_ceiling_exact_witness:
  "\<exists>r res. compute_ceiling ''kv'' (VInt 128000000000) (VInt 127000000000) (VInt 18183303168)
      (VInt 4294967296) (VInt 104000000000) (VInt 104014544896) (Some (VInt 119605592064)) = Inr r
     \<and> apply_ceiling r = Some res
     \<and> (case res of Inl _ \<Rightarrow> False | Inr (_, applied) \<Rightarrow> 119605592063 \<le> applied)"
proof -
  obtain r where r: "compute_ceiling ''kv'' (VInt 128000000000) (VInt 127000000000) (VInt 18183303168)
      (VInt 4294967296) (VInt 104000000000) (VInt 104014544896) (Some (VInt 119605592064)) = Inr r"
    by (simp add: compute_ceiling_iff ceiling_of_checked_iff)
  have "r_requested r = 119605592064" "r_baseline r = 104014544896"
    using compute_ceiling_success [OF r] by simp_all
  note vals = this
  from apply_ceiling_exact [OF r] obtain res where res: "apply_ceiling r = Some res"
    and out: "case res of Inl err \<Rightarrow> r_requested r = r_baseline r
      | Inr (fraction, applied) \<Rightarrow> fraction = int_truediv (r_requested r) (r_pool_total r)
          \<and> (applied = r_requested r \<or> applied = r_requested r - 1)" by auto
  from out vals have "case res of Inl _ \<Rightarrow> False | Inr (_, applied) \<Rightarrow> 119605592063 \<le> applied"
    by (cases res) auto
  with r res show ?thesis by blast
qed

text \<open>
  C37: the KV cache is allocated only under the ceiling. With a configured KV size on an integrated
  GPU, \<^verbatim>\<open>initialize_from_config\<close> reaches the allocation only after the refresh succeeded, the
  start marker was delivered, and the allocated bytes plus the KV bytes fit the applied ceiling.
\<close>

theorem kv_allocation_guarded:
  assumes "InitKvCache \<in> set (snd (initialize_from_config ok True (Some kv) refreshed stat routed zm))"
  shows "\<exists>r. refreshed = Inr r \<and> (case stat of None \<Rightarrow> 0 | Some v \<Rightarrow> v) + kv \<le> r_applied r
     \<and> ok ''kv_start''
     \<and> (\<exists>rest. snd (initialize_from_config ok True (Some kv) refreshed stat routed zm)
          = [EnsureKvTransfer, Refresh ''kv'', Marker ''kv_start'', InitKvCache] @ rest)"
  using assms
  by (auto simp: initialize_from_config_def Let_def not_less split: sum.splits if_splits)

theorem kv_allocation_guarded_witness:
  "\<exists>r. refresh_unified_memory_limit 8 None ''kv'' \<lparr>u_stat_allocated = Some 5, u_reserved = 7,
      u_total_cuda = 64, u_host_total = 64, u_host_available = 40\<rparr> = Some (Inr r)
    \<and> 5 + 30 \<le> r_applied r"
proof -
  obtain r where r: "refresh_unified_memory_limit 8 None ''kv'' \<lparr>u_stat_allocated = Some 5,
      u_reserved = 7, u_total_cuda = 64, u_host_total = 64, u_host_available = 40\<rparr> = Some (Inr r)"
    and applied: "r_applied r = 39"
  proof -
    have "(case refresh_unified_memory_limit 8 None ''kv'' \<lparr>u_stat_allocated = Some 5,
      u_reserved = 7, u_total_cuda = 64, u_host_total = 64, u_host_available = 40\<rparr> of
        Some (Inr r) \<Rightarrow> r_applied r | _ \<Rightarrow> 0) = 39" by code_simp
    then show thesis using that by (auto split: option.splits sum.splits)
  qed
  have "InitKvCache \<in> set (snd (initialize_from_config (\<lambda>_. True) True (Some 30) (Inr r) (Some 5) False False))"
    using applied by (simp add: initialize_from_config_def Let_def)
  from kv_allocation_guarded [OF this] r show ?thesis by auto
qed

subsection \<open>Properties of the byte parsers\<close>

lemma digit_not_space: "is_digit c \<Longrightarrow> \<not> is_strip_space c" and c_space_strip: "is_c_space c \<Longrightarrow> is_strip_space c"
  by (auto simp: is_digit_def is_strip_space_def is_c_space_def Let_def)

lemma not_digit_chars: "\<not> is_digit CHR ''.'' \<and> \<not> is_digit CHR ''e'' \<and> \<not> is_digit CHR ''E''
    \<and> \<not> is_digit CHR '' '' \<and> \<not> is_digit CHR ''_'' \<and> \<not> is_digit CHR '',''
    \<and> \<not> is_digit CHR ''+'' \<and> \<not> is_digit CHR ''-'' \<and> \<not> is_digit CHR ''n'' \<and> \<not> is_digit CHR ''i''
    \<and> \<not> is_digit CHR ''t'' \<and> \<not> is_digit CHR ''f''"
  by (simp add: is_digit_def)

lemma ascii_lower_digit: "is_digit c \<Longrightarrow> ascii_lower c = c"
  by (auto simp: is_digit_def ascii_lower_def Let_def)

text \<open>Once whitespace, signs and separators are excluded, \<^verbatim>\<open>int\<close> reads plain digits.\<close>

lemma py_int_plain:
  assumes "s \<noteq> []" and "\<not> is_strip_space (hd s)" and "\<not> is_strip_space (last s)"
    and "hd s \<noteq> CHR ''+''" and "hd s \<noteq> CHR ''-''" and "CHR ''_'' \<notin> set s"
  shows "py_int s = Some n \<longleftrightarrow> (\<forall>c \<in> set s. is_digit c) \<and> length s \<le> 4300 \<and> n = dec_val 0 s"
proof -
  have strip: "strip_by is_c_space s = s"
    using assms c_space_strip by (auto simp: strip_by_id_iff)
  obtain c cs where s: "s = c # cs" using assms(1) by (cases s) auto
  have "py_int s = (if 4300 < length (filter is_digit s) then None else int_digits True 0 s)"
    unfolding py_int_def strip Let_def using assms(4,5) s
    by (simp add: option.map_id [unfolded id_def])
  moreover have "filter is_digit s = s" if "\<forall>c \<in> set s. is_digit c" using that by simp
  ultimately show ?thesis using int_digits_plain [OF assms(6), of True 0 n] assms(1)
    by (auto simp: not_less)
qed

text \<open>
  The strict byte parser accepts exactly the plain decimal digit strings whose value fits a
  signed 64-bit integer (and Python's digit limit), and returns that value: signs, whitespace,
  separators, exponents and words are all refused, so a malformed setting cannot weaken the
  reserve.
\<close>

theorem parse_strict_bytes_accepts:
  "parse_strict_bytes_value raw = Inr v \<longleftrightarrow>
     raw \<noteq> [] \<and> list_all is_digit raw \<and> length raw \<le> 4300
       \<and> v = dec_val 0 raw \<and> v \<le> 2 ^ 63 - 1"
proof (cases "raw = []")
  case False
  show ?thesis
  proof (cases "\<forall>c \<in> set raw. is_digit c")
    case True
    then have hd: "is_digit (hd raw)" "is_digit (last raw)" using False by auto
    then have ends: "\<not> is_strip_space (hd raw)" "\<not> is_strip_space (last raw)"
      "hd raw \<noteq> CHR ''+''" "hd raw \<noteq> CHR ''-''" "CHR ''_'' \<notin> set raw"
      using digit_not_space True not_digit_chars by metis+
    then have strip: "py_strip raw = raw" by (simp add: strip_by_id_iff)
    have "map ascii_lower raw = raw" using True ascii_lower_digit by (simp add: map_idI)
    moreover have "hd raw \<noteq> CHR ''n''" "hd raw \<noteq> CHR ''i''" "hd raw \<noteq> CHR ''t''" "hd raw \<noteq> CHR ''f''"
      using hd(1) not_digit_chars by metis+
    ultimately have words: "map ascii_lower raw \<notin> set [''nan'', ''inf'', ''+inf'', ''-inf'', ''infinity'',
                       ''+infinity'', ''-infinity'', ''true'', ''false'']"
      using ends(3,4) by auto
    have chars: "\<not> (\<exists>c \<in> set ''.eE _,''. c \<in> set raw)" using True not_digit_chars by auto
    have "parse_strict_bytes_value raw =
        (case py_int raw of None \<Rightarrow> Inl EnvNotPlain
         | Some value \<Rightarrow> if value < 0 then Inl EnvNegative
             else if value > 2 ^ 63 - 1 then Inl EnvTooLarge else Inr value)"
      unfolding parse_strict_bytes_value_def using False strip ends words chars
      by (simp only: bindE_raiseIf if_False simp_thms)
    then show ?thesis
      using py_int_plain [OF False ends] dec_val_nonneg [OF True, of 0] True False
      by (auto simp: list_all_iff split: option.splits if_splits)
  next
    case False
    have "parse_strict_bytes_value raw \<noteq> Inr v"
    proof
      assume ok: "parse_strict_bytes_value raw = Inr v"
      then have ne: "raw \<noteq> []" and strip: "raw = py_strip raw"
        and sgn: "hd raw \<noteq> CHR ''+''" "hd raw \<noteq> CHR ''-''" and us: "CHR ''_'' \<notin> set raw"
        and int: "py_int raw = Some v"
        by (auto simp: parse_strict_bytes_value_def bindE_eq_Inr split: option.splits if_splits)
      from strip ne have "\<not> is_strip_space (hd raw)" "\<not> is_strip_space (last raw)"
        by (metis strip_by_id_iff)+
      from py_int_plain [OF ne this sgn us, of v] int False show False by simp
    qed
    with False show ?thesis by (auto simp: list_all_iff)
  qed
qed (simp add: parse_strict_bytes_value_def)

subsection \<open>Properties of the profiling arithmetic\<close>

text \<open>
  The memory handed to the KV cache is what the request leaves after everything profiling saw:
  requested bytes equal the available bytes plus the bytes consumed since worker start, the
  transient peak above the resident allocations, and the graph estimate when it is enabled. The
  call refuses (assertion) exactly when free memory grew during profiling.
\<close>

theorem profiled_memory_balance:
  "case determine_profiled_memory integrated refreshed requested init weights pre post est estimate mm of
     Inr plan \<Rightarrow>
       plan_available plan + (free_memory init - (if dev_integrated post then host_available post else dev_free post))
         + (case stat_peak post of None \<Rightarrow> 0 | Some p \<Rightarrow> p) - (case stat_current post of None \<Rightarrow> 0 | Some a \<Rightarrow> a)
         + (if est then estimate else 0) = requested
       \<and> 0 \<le> plan_total_consumed plan \<and> plan_result plan = mm (plan_available plan)
   | Inl e \<Rightarrow> (e = ProfilingAssertion \<and>
         free_memory init < (if dev_integrated post then host_available post else dev_free post))
       \<or> (\<exists>b. e = Budget b \<and> integrated \<and> refreshed = Inl b)"
  by (auto simp: determine_profiled_memory_def available_kv_cache_memory_def memory_profiling_def
      snapshot_sub_def measure_snapshot_def blank_snapshot_def Let_def bindE_raiseIf
      split: sum.splits option.splits if_splits)

text \<open>
  C39: an explicit operator budget is a floor, not a cap: there are inputs for which the requested
  ceiling exceeds the budget that was set, although the function's documentation promises
  \<^verbatim>\<open>E <= B when B is set\<close> and \<^verbatim>\<open>E = min(P, C + I, B)\<close>.
\<close>

theorem budget_not_an_upper_bound:
  "\<exists>r. compute_ceiling ''kv'' (VInt 1000) (VInt 1000) (VInt 500) (VInt 100) (VInt 200) (VInt 200)
        (Some (VInt 50)) = Inr r \<and> r_phase_budget r = 50 \<and> r_requested r = 600"
  by (simp add: compute_ceiling_iff ceiling_of_checked_iff requested_ceiling_def)

end
