(* ===== verification/Json.thy ===== *)
theory Json
  imports Prelude
begin

text \<open>
  JSON documents as Python reads them with \<^verbatim>\<open>json.loads\<close>: objects are dictionaries in document order,
  numbers are unbounded integers or floats. A finite float is its exact rational value; the
  three non-finite floats the decoder accepts are NaN and the infinities.
\<close>

datatype nonfinite = NaN | PosInf | NegInf

datatype json =
    JNull
  | JBool bool
  | JInt int
  | JFloat rat
  | JNonFinite nonfinite
  | JStr string
  | JArr "json list"
  | JObj "(string \<times> json) list"

type_synonym jobject = "(string, json) dict"

text \<open>\<^verbatim>\<open>bool(value)\<close>.\<close>

definition truthy :: "json \<Rightarrow> bool" where
  "truthy j = (case j of
      JNull \<Rightarrow> False | JBool b \<Rightarrow> b | JInt n \<Rightarrow> n \<noteq> 0 | JFloat x \<Rightarrow> x \<noteq> 0 | JNonFinite k \<Rightarrow> True
    | JStr s \<Rightarrow> s \<noteq> [] | JArr js \<Rightarrow> js \<noteq> [] | JObj d \<Rightarrow> d \<noteq> [])"

text \<open>\<^verbatim>\<open>isinstance(value, int)\<close> holds of booleans too, with values 0 and 1.\<close>

fun json_int :: "json \<Rightarrow> int option" where
  "json_int (JInt n) = Some n"
| "json_int (JBool b) = Some (if b then 1 else 0)"
| "json_int _ = None"

text \<open>\<^verbatim>\<open>value is True\<close> and \<^verbatim>\<open>value == text\<close> on the result of a \<^verbatim>\<open>dict.get\<close>.\<close>

definition is_true :: "json option \<Rightarrow> bool" where
  "is_true v \<longleftrightarrow> v = Some (JBool True)"

definition is_str :: "json option \<Rightarrow> string \<Rightarrow> bool" where
  "is_str v s \<longleftrightarrow> v = Some (JStr s)"

end
