(* ===== verification/GateStatus.thy ===== *)
theory GateStatus
  imports Json "HOL-Library.Multiset" "HOL-Library.List_Lexorder" "HOL-Library.Char_ord"
begin

text \<open>
  The publication gate of \<^verbatim>\<open>scripts/gate_status.py\<close>: verified evidence receipts, the derivation
  of each publication claim from a pool of receipts, and the promotion of one claim of the
  status document. A receipt that reaches the gate has passed the receipt schema, so its
  required members are record fields; its metadata stays a JSON object. Every \<^verbatim>\<open>GateError\<close> is
  a constructor of \<open>gate_error\<close>.
\<close>

subsection \<open>Receipts, claims and errors\<close>

type_synonym subject = "(string, string) dict"

record receipt =
  receipt_id :: string
  receipt_type :: string
  result :: string
  subject :: subject
  metadata :: jobject

text \<open>An element of the iterable given to \<^verbatim>\<open>promote\<close>: an attested receipt, or anything else.\<close>

datatype candidate = VerifiedReceipt receipt | NotVerified

record claim_entry =
  ce_claim :: string
  ce_profile :: "string option"
  ce_status :: string
  ce_subject :: subject
  ce_receipt_ids :: "string list"
  ce_reason :: "string option"

record status =
  claims :: "claim_entry list"
  updated_at :: string

datatype gate_error =
    NotAttested
  | DuplicateReceipt
  | ExpectedOne string nat
  | DidNotPass string
  | EmptyChain
  | MissingIdentities "string list"
  | SubjectMismatch
  | UnknownRights
  | LicenseSubjectMissing string
  | BuildSourceMismatch
  | UnknownProfile string
  | ExpectedOnePassing string string
  | LiveBuildMismatch
  | LiveModelMismatch
  | BatterySubjectMismatch
  | TooManyAttempts
  | BadAttemptNumber
  | DuplicateAttempt
  | ValidAttempts nat
  | ThresholdFailed
  | MedianThresholdFailed
  | SuiteSubjectMismatch
  | SourceEquivalentOnly
  | TwoBuildsRequired
  | BuildLacksReceipt string string
  | BitSourceMismatch
  | BitBuildMismatch
  | ComparisonSubjectMismatch
  | AnonymousSubjectMismatch
  | RegistryNotCleared
  | PublicationSubjectMismatch
  | RegistryDigestMismatch
  | ReadbackSubjectMismatch
  | UnknownClaim string
  | MissingEvidence
  | UnsupportedPassed gate_error
  | StalePassed
  | NotOneEntry

definition PROFILES :: "string list" where
  "PROFILES = [''fast-320k'', ''balanced-650k'', ''large-1m'']"

definition SOURCE_TYPES :: "string list" where
  "SOURCE_TYPES = [''source-closure'', ''provenance-license'', ''source-component-license'',
     ''source-secret-scan'', ''large-file-scan'']"

definition BUILD_TYPES :: "string list" where
  "BUILD_TYPES = [''build-produced'', ''verify-image'', ''sbom'', ''container-license'',
     ''image-secret-scan'']"

definition LIVE_TYPES :: "string list" where
  "LIVE_TYPES = [''launch'', ''verify-runtime'', ''correctness'', ''stability'']"

definition SOURCE_KEYS :: "string list" where
  "SOURCE_KEYS = [''source_release_id'']"

definition BUILD_KEYS :: "string list" where
  "BUILD_KEYS = [''source_release_id'', ''build_subject_id'', ''build_lock_id'',
     ''source_manifest_id'', ''image_digest'']"

definition LIVE_KEYS :: "string list" where
  "LIVE_KEYS = BUILD_KEYS @ [''model_id'', ''sidecar_id'', ''preset_id'', ''run_id'']"

subsection \<open>Selecting receipts\<close>

fun verified_items :: "candidate list \<Rightarrow> receipt list option" where
  "verified_items [] = Some []"
| "verified_items (VerifiedReceipt r # cs) = map_option ((#) r) (verified_items cs)"
| "verified_items (NotVerified # cs) = None"

definition pool_of :: "candidate list \<Rightarrow> gate_error + receipt list" where
  "pool_of receipts =
    (case verified_items receipts of
       None \<Rightarrow> Inl NotAttested
     | Some items \<Rightarrow>
         bindE (raiseIf (\<not> distinct (map receipt_id items)) DuplicateReceipt) (\<lambda>_. Inr items))"

definition of_type :: "receipt list \<Rightarrow> string \<Rightarrow> receipt list" where
  "of_type pool kind = [r \<leftarrow> pool. receipt_type r = kind]"

definition one_pass :: "receipt list \<Rightarrow> string \<Rightarrow> gate_error + receipt" where
  "one_pass pool kind =
    (let matches = of_type pool kind in
     bindE (raiseIf (length matches \<noteq> 1) (ExpectedOne kind (length matches))) (\<lambda>_.
     bindE (raiseIf (result (hd matches) \<noteq> ''PASS'') (DidNotPass kind)) (\<lambda>_.
     Inr (hd matches))))"

text \<open>\<open>agrees s d\<close>: no item of \<open>s\<close> differs from what \<^verbatim>\<open>d.get(key)\<close> returns.\<close>

definition agrees :: "subject \<Rightarrow> subject \<Rightarrow> bool" where
  "agrees s d \<longleftrightarrow> (\<forall>(k, v) \<in> set s. dict_get d k = Some v)"

definition project :: "subject \<Rightarrow> string list \<Rightarrow> subject" where
  "project d keys = map (\<lambda>k. (k, the (dict_get d k))) keys"

definition common_subject :: "receipt list \<Rightarrow> string list \<Rightarrow> gate_error + subject" where
  "common_subject items keys =
    (case items of
       [] \<Rightarrow> Inl EmptyChain
     | item # rest \<Rightarrow>
         (let missing = [k \<leftarrow> keys. dict_get (subject item) k = None];
              s = project (subject item) keys in
          bindE (raiseIf (missing \<noteq> []) (MissingIdentities missing)) (\<lambda>_.
          bindE (raiseIf (\<exists>r \<in> set rest. \<not> agrees s (subject r)) SubjectMismatch) (\<lambda>_.
          Inr s))))"

definition has_profile :: "receipt \<Rightarrow> string \<Rightarrow> bool" where
  "has_profile r profile \<longleftrightarrow> is_str (dict_get (metadata r) ''profile'') profile"

subsection \<open>Derivation of each claim\<close>

type_synonym derivation = "gate_error + (subject \<times> string list)"

definition derive_source :: "receipt list \<Rightarrow> derivation" where
  "derive_source pool =
    bindE (mapE (one_pass pool) SOURCE_TYPES) (\<lambda>items.
    bindE (common_subject items SOURCE_KEYS) (\<lambda>s.
    Inr (s, map receipt_id items)))"

definition derive_model :: "receipt list \<Rightarrow> derivation" where
  "derive_model pool =
    bindE (one_pass pool ''checkpoint-license'') (\<lambda>checkpoint.
    bindE (one_pass pool ''sidecar-license'') (\<lambda>sidecar.
    bindE (raiseIf (\<exists>r \<in> set [checkpoint, sidecar].
                      \<not> is_str (dict_get (metadata r) ''rights_status'') ''verified'')
             UnknownRights) (\<lambda>_.
    (case dict_get (subject checkpoint) ''model_id'' of
       None \<Rightarrow> Inl (LicenseSubjectMissing ''model_id'')
     | Some model_id \<Rightarrow>
        (case dict_get (subject sidecar) ''sidecar_id'' of
           None \<Rightarrow> Inl (LicenseSubjectMissing ''sidecar_id'')
         | Some sidecar_id \<Rightarrow>
             Inr ([(''model_id'', model_id), (''sidecar_id'', sidecar_id)],
                  [receipt_id checkpoint, receipt_id sidecar]))))))"

text \<open>
  The lookups \<^verbatim>\<open>subject[key]\<close> of a derived subject cannot raise: the keys are those it was built
  from. They are \<open>dict_get\<close> here.
\<close>

definition derive_clean :: "receipt list \<Rightarrow> derivation" where
  "derive_clean pool =
    bindE (derive_source pool) (\<lambda>(source, source_ids).
    bindE (mapE (one_pass pool) BUILD_TYPES) (\<lambda>items.
    bindE (common_subject items BUILD_KEYS) (\<lambda>s.
    bindE (raiseIf (dict_get s ''source_release_id'' \<noteq> dict_get source ''source_release_id'')
             BuildSourceMismatch) (\<lambda>_.
    Inr (s, source_ids @ map receipt_id items)))))"

definition live_one :: "receipt list \<Rightarrow> string \<Rightarrow> string \<Rightarrow> gate_error + receipt" where
  "live_one pool profile kind =
    (let matches = [r \<leftarrow> of_type pool kind. has_profile r profile] in
     bindE (raiseIf (length matches \<noteq> 1 \<or> result (hd matches) \<noteq> ''PASS'')
              (ExpectedOnePassing profile kind)) (\<lambda>_.
     Inr (hd matches)))"

definition live_kinds :: "string \<Rightarrow> string list" where
  "live_kinds profile = LIVE_TYPES @ (if profile = ''fast-320k'' then [''pin-state''] else [])"

definition live_subject_keys :: "string \<Rightarrow> string list" where
  "live_subject_keys profile = LIVE_KEYS @ (if profile = ''fast-320k'' then [''pin_id''] else [])"

definition derive_live :: "receipt list \<Rightarrow> string \<Rightarrow> derivation" where
  "derive_live pool profile =
    bindE (raiseIf (profile \<notin> set PROFILES) (UnknownProfile profile)) (\<lambda>_.
    bindE (derive_clean pool) (\<lambda>(clean, clean_ids).
    bindE (derive_model pool) (\<lambda>(model, model_ids).
    bindE (mapE (live_one pool profile) (live_kinds profile)) (\<lambda>items.
    bindE (common_subject items (live_subject_keys profile)) (\<lambda>s.
    bindE (raiseIf (\<not> agrees clean s) LiveBuildMismatch) (\<lambda>_.
    bindE (raiseIf (\<not> agrees model s) LiveModelMismatch) (\<lambda>_.
    Inr (s, clean_ids @ model_ids @ map receipt_id items))))))))"

definition profile_attempts :: "receipt list \<Rightarrow> string \<Rightarrow> receipt list" where
  "profile_attempts pool profile = [r \<leftarrow> of_type pool ''battery''. has_profile r profile]"

definition attempt_number :: "receipt \<Rightarrow> int option" where
  "attempt_number r = Option.bind (dict_get (metadata r) ''attempt'') json_int"

definition bad_attempt :: "receipt \<Rightarrow> bool" where
  "bad_attempt r \<longleftrightarrow>
    (case attempt_number r of None \<Rightarrow> True | Some n \<Rightarrow> \<not> (1 \<le> n \<and> n \<le> 5))"

definition valid_attempts :: "receipt list \<Rightarrow> receipt list" where
  "valid_attempts attempts = [r \<leftarrow> attempts. is_true (dict_get (metadata r) ''valid'')]"

text \<open>The loop over the valid attempts raises at the first one with a failed threshold.\<close>

fun check_valid :: "receipt list \<Rightarrow> gate_error + unit" where
  "check_valid [] = Inr ()"
| "check_valid (r # rs) =
    bindE (raiseIf (result r \<noteq> ''PASS'' \<or> \<not> is_true (dict_get (metadata r) ''thresholds_passed''))
             ThresholdFailed) (\<lambda>_.
    bindE (raiseIf (\<not> is_true (dict_get (metadata r) ''median_threshold_passed''))
             MedianThresholdFailed) (\<lambda>_.
    check_valid rs))"

definition derive_benchmark :: "receipt list \<Rightarrow> string \<Rightarrow> derivation" where
  "derive_benchmark pool profile =
    bindE (derive_live pool profile) (\<lambda>(live, live_ids).
    (let attempts = profile_attempts pool profile;
         numbers = map attempt_number attempts;
         valid = valid_attempts attempts in
     bindE (raiseIf (\<exists>r \<in> set attempts. \<not> agrees live (subject r)) BatterySubjectMismatch) (\<lambda>_.
     bindE (raiseIf (length attempts > 5) TooManyAttempts) (\<lambda>_.
     bindE (raiseIf (\<exists>r \<in> set attempts. bad_attempt r) BadAttemptNumber) (\<lambda>_.
     bindE (raiseIf (\<not> distinct numbers) DuplicateAttempt) (\<lambda>_.
     bindE (raiseIf (length valid \<noteq> 3) (ValidAttempts (length valid))) (\<lambda>_.
     bindE (check_valid valid) (\<lambda>_.
     Inr (live, live_ids @ map receipt_id attempts)))))))))"

definition derive_suite :: "receipt list \<Rightarrow> derivation" where
  "derive_suite pool =
    bindE (mapE (derive_benchmark pool) PROFILES) (\<lambda>results.
    (let subjects = map fst results;
         shared = project (hd subjects) (BUILD_KEYS @ [''model_id'', ''sidecar_id'']) in
     bindE (raiseIf (\<exists>s \<in> set (tl subjects). \<not> agrees shared s) SuiteSubjectMismatch) (\<lambda>_.
     Inr (shared, concat (map snd results)))))"

definition build_digests :: "receipt list \<Rightarrow> string option list" where
  "build_digests pool =
    remdups (map (\<lambda>r. dict_get (subject r) ''image_digest'') (of_type pool ''build-produced''))"

definition digest_one :: "receipt list \<Rightarrow> string \<Rightarrow> string \<Rightarrow> gate_error + receipt" where
  "digest_one pool digest kind =
    (let matches = [r \<leftarrow> of_type pool kind. dict_get (subject r) ''image_digest'' = Some digest] in
     bindE (raiseIf (length matches \<noteq> 1 \<or> result (hd matches) \<noteq> ''PASS'')
              (BuildLacksReceipt digest kind)) (\<lambda>_.
     Inr (hd matches)))"

definition digest_chain ::
    "receipt list \<Rightarrow> subject \<Rightarrow> string \<Rightarrow> gate_error + (subject \<times> receipt list)" where
  "digest_chain pool source digest =
    bindE (mapE (digest_one pool digest) BUILD_TYPES) (\<lambda>items.
    bindE (common_subject items BUILD_KEYS) (\<lambda>s.
    bindE (raiseIf (dict_get s ''source_release_id'' \<noteq> dict_get source ''source_release_id'')
             BitSourceMismatch) (\<lambda>_.
    Inr (s, items))))"

definition bit_stable :: "receipt \<Rightarrow> (subject \<times> receipt list) list \<Rightarrow> gate_error + subject" where
  "bit_stable comparison builds =
    (let subjects = map fst builds;
         stable = project (hd subjects) (butlast BUILD_KEYS) in
     bindE (raiseIf (\<exists>s \<in> set (tl subjects). \<not> agrees stable s) BitBuildMismatch) (\<lambda>_.
     bindE (raiseIf (\<not> agrees stable (subject comparison)) ComparisonSubjectMismatch) (\<lambda>_.
     Inr stable)))"

definition derive_bit_reproducible :: "receipt list \<Rightarrow> derivation" where
  "derive_bit_reproducible pool =
    bindE (one_pass pool ''build-comparison'') (\<lambda>comparison.
    bindE (raiseIf (\<not> is_true (dict_get (metadata comparison) ''normalized_outputs_equal''))
             SourceEquivalentOnly) (\<lambda>_.
    bindE (derive_source pool) (\<lambda>(source, source_ids).
    (let digests = build_digests pool in
     bindE (raiseIf (length digests \<noteq> 2 \<or> None \<in> set digests) TwoBuildsRequired) (\<lambda>_.
     bindE (mapE (digest_chain pool source) (sort (map the digests))) (\<lambda>builds.
     bindE (bit_stable comparison builds) (\<lambda>stable.
     Inr (stable, source_ids @ map receipt_id (concat (map snd builds))
                    @ [receipt_id comparison]))))))))"

definition ANONYMOUS_TYPES :: "string list" where
  "ANONYMOUS_TYPES =
     [''anonymous-configure'', ''anonymous-build'', ''anonymous-verify'', ''anonymous-live-fast'']"

definition derive_anonymous :: "receipt list \<Rightarrow> derivation" where
  "derive_anonymous pool =
    bindE (derive_live pool ''fast-320k'') (\<lambda>(live, live_ids).
    bindE (mapE (one_pass pool) ANONYMOUS_TYPES) (\<lambda>items.
    bindE (common_subject items BUILD_KEYS) (\<lambda>s.
    bindE (raiseIf (\<exists>k \<in> set BUILD_KEYS. dict_get s k \<noteq> dict_get live k)
             AnonymousSubjectMismatch) (\<lambda>_.
    Inr (s, live_ids @ map receipt_id items)))))"

definition derive_published :: "receipt list \<Rightarrow> derivation" where
  "derive_published pool =
    bindE (derive_clean pool) (\<lambda>(clean, clean_ids).
    bindE (one_pass pool ''registry-license'') (\<lambda>license.
    bindE (one_pass pool ''registry-publish'') (\<lambda>publication.
    bindE (raiseIf (\<not> is_true (dict_get (metadata license) ''registry_license_cleared''))
             RegistryNotCleared) (\<lambda>_.
    bindE (common_subject [license, publication] BUILD_KEYS) (\<lambda>s.
    bindE (raiseIf (\<not> dict_eq s clean) PublicationSubjectMismatch) (\<lambda>_.
    bindE (raiseIf (\<exists>r \<in> set [license, publication].
                      dict_get (metadata r) ''registry_digest''
                        \<noteq> map_option JStr (dict_get s ''image_digest''))
             RegistryDigestMismatch) (\<lambda>_.
    Inr (s, clean_ids @ [receipt_id license, receipt_id publication]))))))))"

definition derive_readback :: "receipt list \<Rightarrow> derivation" where
  "derive_readback pool =
    bindE (derive_published pool) (\<lambda>(published, ids).
    bindE (one_pass pool ''registry-readback'') (\<lambda>readback.
    bindE (common_subject [readback] BUILD_KEYS) (\<lambda>s.
    bindE (raiseIf (\<not> dict_eq s published) ReadbackSubjectMismatch) (\<lambda>_.
    Inr (s, ids @ [receipt_id readback])))))"

definition or_empty :: "string option \<Rightarrow> string" where
  "or_empty p = (case p of None \<Rightarrow> [] | Some s \<Rightarrow> s)"

definition derive :: "string \<Rightarrow> receipt list \<Rightarrow> string option \<Rightarrow> derivation" where
  "derive cl pool profile =
    (if cl = ''source-complete'' then derive_source pool
     else if cl = ''model-license'' then derive_model pool
     else if cl = ''clean-build'' then derive_clean pool
     else if cl = ''live-launch'' then derive_live pool (or_empty profile)
     else if cl = ''benchmark-reproduced'' then derive_benchmark pool (or_empty profile)
     else if cl = ''three-profile-suite'' then derive_suite pool
     else if cl = ''bit-reproducible'' then derive_bit_reproducible pool
     else if cl = ''anonymous-readback'' then derive_anonymous pool
     else if cl = ''convenience-image-published'' then derive_published pool
     else if cl = ''convenience-image-readback'' then derive_readback pool
     else Inl (UnknownClaim cl))"

subsection \<open>Promotion\<close>

definition claim_key :: "claim_entry \<Rightarrow> string \<times> string option" where
  "claim_key e = (ce_claim e, ce_profile e)"

text \<open>
  The loop over the passed claims takes the derivation as an argument, so that what promotion
  guarantees can be proved from the laws of derivation alone.
\<close>

type_synonym deriver = "string \<Rightarrow> receipt list \<Rightarrow> string option \<Rightarrow> derivation"

definition cited_pool :: "receipt list \<Rightarrow> string list \<Rightarrow> receipt list" where
  "cited_pool pool ids = [r \<leftarrow> pool. receipt_id r \<in> set ids]"

definition check_existing :: "deriver \<Rightarrow> receipt list \<Rightarrow> claim_entry \<Rightarrow> gate_error + unit" where
  "check_existing drv pool existing =
    (if ce_status existing = ''passed'' then
       (let existing_pool = cited_pool pool (ce_receipt_ids existing) in
        bindE (raiseIf (set (map receipt_id existing_pool) \<noteq> set (ce_receipt_ids existing))
                 MissingEvidence) (\<lambda>_.
        (case drv (ce_claim existing) existing_pool (ce_profile existing) of
           Inl e \<Rightarrow> Inl (UnsupportedPassed e)
         | Inr (s, ids) \<Rightarrow>
             raiseIf (\<not> dict_eq (ce_subject existing) s \<or> set (ce_receipt_ids existing) \<noteq> set ids)
               StalePassed)))
     else Inr ())"

fun check_claims :: "deriver \<Rightarrow> receipt list \<Rightarrow> claim_entry list \<Rightarrow> gate_error + unit" where
  "check_claims drv pool [] = Inr ()"
| "check_claims drv pool (e # es) =
    bindE (check_existing drv pool e) (\<lambda>_. check_claims drv pool es)"

fun update_first :: "('a \<Rightarrow> bool) \<Rightarrow> ('a \<Rightarrow> 'a) \<Rightarrow> 'a list \<Rightarrow> 'a list" where
  "update_first P f [] = []"
| "update_first P f (x # xs) = (if P x then f x # xs else x # update_first P f xs)"

text \<open>\<^verbatim>\<open>list(dict.fromkeys(ids))\<close> keeps the first occurrence of each identifier.\<close>

fun fromkeys :: "string list \<Rightarrow> string list" where
  "fromkeys [] = []"
| "fromkeys (x # xs) = x # filter (\<lambda>y. y \<noteq> x) (fromkeys xs)"

definition promote_with ::
    "deriver \<Rightarrow> status \<Rightarrow> string \<Rightarrow> candidate list \<Rightarrow> string option \<Rightarrow> string option \<Rightarrow> string
      \<Rightarrow> gate_error + status" where
  "promote_with drv st cl receipts profile now clock =
    bindE (pool_of receipts) (\<lambda>pool.
    bindE (check_claims drv pool (claims st)) (\<lambda>_.
    bindE (drv cl pool profile) (\<lambda>(s, ids).
    (let wanted = (cl, profile) in
     bindE (raiseIf (length [e \<leftarrow> claims st. claim_key e = wanted] \<noteq> 1) NotOneEntry) (\<lambda>_.
     Inr (st\<lparr>claims := update_first (\<lambda>e. claim_key e = wanted)
               (\<lambda>e. e\<lparr>ce_status := ''passed'', ce_subject := s, ce_receipt_ids := fromkeys ids,
                       ce_reason := None\<rparr>) (claims st),
             updated_at := (case now of Some t \<Rightarrow> if t = [] then clock else t
                            | None \<Rightarrow> clock)\<rparr>))))))"

definition promote ::
    "status \<Rightarrow> string \<Rightarrow> candidate list \<Rightarrow> string option \<Rightarrow> string option \<Rightarrow> string
      \<Rightarrow> gate_error + status" where
  "promote = promote_with derive"

subsection \<open>Replaying a derivation on fewer receipts\<close>

text \<open>
  \<open>subview pool pool'\<close>: \<open>pool'\<close> holds receipts of \<open>pool\<close>, in any order, none twice, and
  \<open>pool\<close> names each receipt once. \<open>keeps\<close>: the receipts cited by \<open>ids\<close> survive.
\<close>

definition subview :: "receipt list \<Rightarrow> receipt list \<Rightarrow> bool" where
  "subview pool pool' \<longleftrightarrow>
     distinct (map receipt_id pool) \<and> distinct pool' \<and> set pool' \<subseteq> set pool"

definition keeps :: "receipt list \<Rightarrow> receipt list \<Rightarrow> string list \<Rightarrow> bool" where
  "keeps pool pool' ids \<longleftrightarrow> (\<forall>r \<in> set pool. receipt_id r \<in> set ids \<longrightarrow> r \<in> set pool')"

lemma keeps_append [simp]: "keeps p q (xs @ ys) \<longleftrightarrow> keeps p q xs \<and> keeps p q ys"
  by (auto simp: keeps_def)

lemma keeps_Cons [simp]: "keeps p q (x # y # ys) \<longleftrightarrow> keeps p q [x] \<and> keeps p q (y # ys)"
  by (auto simp: keeps_def)

lemma keeps_Nil [simp]: "keeps p q []"
  by (auto simp: keeps_def)

lemma keeps_concat [simp]: "keeps p q (concat xss) \<longleftrightarrow> (\<forall>xs \<in> set xss. keeps p q xs)"
  by (auto simp: keeps_def)

lemma keeps_ids: "keeps p q (map receipt_id rs) \<Longrightarrow> set rs \<subseteq> set p \<Longrightarrow> set rs \<subseteq> set q"
  by (auto simp: keeps_def)

lemma filter_single_subview:
  assumes "subview pool pool'" and "filter P pool = [r]" and "r \<in> set pool'"
  shows "filter P pool' = [r]"
proof -
  have "set (filter P pool) = {r}" using assms(2) by simp
  then have "set (filter P pool') = {r}" using assms(1,3) by (auto simp: subview_def)
  moreover have "distinct (filter P pool')" using assms(1) by (simp add: subview_def)
  ultimately show ?thesis
    by (cases "filter P pool'"; cases "tl (filter P pool')") auto
qed

text \<open>
  The three selections have one shape: exactly one receipt satisfies a test, and it passed.
  \<open>selects pool f P k\<close> states it, so that replay and soundness are proved once.
\<close>

definition selects ::
    "(receipt list \<Rightarrow> string \<Rightarrow> gate_error + receipt) \<Rightarrow> (string \<Rightarrow> receipt \<Rightarrow> bool) \<Rightarrow> bool" where
  "selects f P \<longleftrightarrow> (\<forall>pool k r. f pool k = Inr r \<longleftrightarrow> filter (P k) pool = [r] \<and> result r = ''PASS'')"

lemma length_one_hd: "length xs = 1 \<and> hd xs = r \<longleftrightarrow> xs = [r]"
  by (cases xs) auto

lemma selects_one_pass: "selects one_pass (\<lambda>k r. receipt_type r = k)"
  by (auto simp: selects_def one_pass_def of_type_def bindE_eq_Inr Let_def length_one_hd [symmetric])

lemma selects_live_one:
  "selects (\<lambda>pool. live_one pool profile) (\<lambda>k r. receipt_type r = k \<and> has_profile r profile)"
  by (auto simp: selects_def live_one_def of_type_def bindE_eq_Inr Let_def conj_commute
      length_one_hd [symmetric])

lemma selects_digest_one:
  "selects (\<lambda>pool. digest_one pool d)
     (\<lambda>k r. receipt_type r = k \<and> dict_get (subject r) ''image_digest'' = Some d)"
  by (auto simp: selects_def digest_one_def of_type_def bindE_eq_Inr Let_def conj_commute
      length_one_hd [symmetric])

lemma selects_sound:
  assumes "selects f P" and "f pool k = Inr r"
  shows "r \<in> set pool" and "P k r" and "result r = ''PASS''"
    and "\<And>r'. r' \<in> set pool \<Longrightarrow> P k r' \<Longrightarrow> r' = r"
proof -
  from assms have eq: "filter (P k) pool = [r]" and "result r = ''PASS''"
    by (auto simp: selects_def)
  then show "result r = ''PASS''" by simp
  from eq have "set (filter (P k) pool) = {r}" by simp
  then show "r \<in> set pool" "P k r" "\<And>r'. r' \<in> set pool \<Longrightarrow> P k r' \<Longrightarrow> r' = r" by auto
qed

lemma selects_replay:
  "selects f P \<Longrightarrow> subview pool pool' \<Longrightarrow> f pool k = Inr r \<Longrightarrow> r \<in> set pool' \<Longrightarrow> f pool' k = Inr r"
  by (auto simp: selects_def filter_single_subview)

lemma selects_mapE_sound:
  assumes "selects f P" and "mapE (f pool) ks = Inr items" and "r \<in> set items"
  shows "r \<in> set pool" and "result r = ''PASS''" and "\<exists>k \<in> set ks. P k r"
proof -
  from assms(2,3) obtain k where k: "k \<in> set ks" "f pool k = Inr r"
    using mapE_mem [of "f pool" ks items r] by blast
  from selects_sound(1-3) [OF assms(1) k(2)] k(1)
  show "r \<in> set pool" "result r = ''PASS''" "\<exists>k \<in> set ks. P k r" by auto
qed

lemma selects_mapE_replay:
  assumes "selects f P" and "subview pool pool'" and "mapE (f pool) ks = Inr items"
    and "keeps pool pool' (map receipt_id items)"
  shows "mapE (f pool') ks = Inr items"
proof -
  have "set items \<subseteq> set pool" using selects_mapE_sound(1) [OF assms(1,3)] by auto
  with assms(4) have "set items \<subseteq> set pool'" by (rule keeps_ids)
  then show ?thesis using assms(3) selects_replay [OF assms(1,2)] by (blast intro: mapE_replay)
qed

lemma keeps_one: "keeps pool pool' [receipt_id r] \<Longrightarrow> r \<in> set pool \<Longrightarrow> r \<in> set pool'"
  by (auto simp: keeps_def)

lemma one_pass_sound:
  "one_pass pool k = Inr r \<Longrightarrow> r \<in> set pool \<and> receipt_type r = k \<and> result r = ''PASS''"
  using selects_sound [OF selects_one_pass] by blast

lemma one_pass_replay:
  "subview pool pool' \<Longrightarrow> one_pass pool k = Inr r \<Longrightarrow> keeps pool pool' [receipt_id r]
     \<Longrightarrow> one_pass pool' k = Inr r"
  using selects_replay [OF selects_one_pass] selects_sound(1) [OF selects_one_pass] keeps_one
  by blast

lemmas one_passes_replay = selects_mapE_replay [OF selects_one_pass]
lemmas live_ones_replay = selects_mapE_replay [OF selects_live_one]
lemmas digest_ones_replay = selects_mapE_replay [OF selects_digest_one]

lemma derive_source_replay:
  assumes "subview pool pool'" and "derive_source pool = Inr (s, ids)" and "keeps pool pool' ids"
  shows "derive_source pool' = Inr (s, ids)"
  using assms one_passes_replay [OF assms(1)]
  by (fastforce simp: derive_source_def bindE_eq_Inr)

lemma derive_model_eq_Inr:
  "derive_model pool = Inr (s, ids) \<longleftrightarrow>
    (\<exists>c d m n. one_pass pool ''checkpoint-license'' = Inr c \<and> one_pass pool ''sidecar-license'' = Inr d
      \<and> is_str (dict_get (metadata c) ''rights_status'') ''verified''
      \<and> is_str (dict_get (metadata d) ''rights_status'') ''verified''
      \<and> dict_get (subject c) ''model_id'' = Some m \<and> dict_get (subject d) ''sidecar_id'' = Some n
      \<and> s = [(''model_id'', m), (''sidecar_id'', n)] \<and> ids = [receipt_id c, receipt_id d])"
  unfolding derive_model_def
  by (cases "one_pass pool ''checkpoint-license''"; cases "one_pass pool ''sidecar-license''")
     (auto simp: bindE_raiseIf split: option.splits)

lemma derive_model_replay:
  assumes "subview pool pool'" and "derive_model pool = Inr (s, ids)" and "keeps pool pool' ids"
  shows "derive_model pool' = Inr (s, ids)"
  using assms(2,3) one_pass_replay [OF assms(1)] by (fastforce simp: derive_model_eq_Inr)

lemma derive_clean_replay:
  assumes "subview pool pool'" and "derive_clean pool = Inr (s, ids)" and "keeps pool pool' ids"
  shows "derive_clean pool' = Inr (s, ids)"
proof -
  from assms(2) obtain source source_ids items where
    d: "derive_source pool = Inr (source, source_ids)" "mapE (one_pass pool) BUILD_TYPES = Inr items"
    and ids: "ids = source_ids @ map receipt_id items"
    by (auto simp: derive_clean_def bindE_eq_Inr)
  from assms(3) ids have "keeps pool pool' source_ids" "keeps pool pool' (map receipt_id items)"
    by auto
  with assms(2) d show ?thesis
    by (simp add: derive_clean_def derive_source_replay [OF assms(1)] one_passes_replay [OF assms(1)])
qed

lemma derive_live_replay:
  assumes "subview pool pool'" and "derive_live pool p = Inr (s, ids)" and "keeps pool pool' ids"
  shows "derive_live pool' p = Inr (s, ids)"
proof -
  from assms(2) obtain clean clean_ids model model_ids items where
    d: "derive_clean pool = Inr (clean, clean_ids)" "derive_model pool = Inr (model, model_ids)"
      "mapE (live_one pool p) (live_kinds p) = Inr items"
    and ids: "ids = clean_ids @ model_ids @ map receipt_id items"
    by (auto simp: derive_live_def bindE_eq_Inr)
  from assms(3) ids have "keeps pool pool' clean_ids" "keeps pool pool' model_ids"
    "keeps pool pool' (map receipt_id items)" by auto
  with assms(2) d show ?thesis
    by (simp add: derive_live_def derive_clean_replay [OF assms(1)] derive_model_replay [OF assms(1)]
        live_ones_replay [OF assms(1)])
qed

lemma derive_anonymous_replay:
  assumes "subview pool pool'" and "derive_anonymous pool = Inr (s, ids)" and "keeps pool pool' ids"
  shows "derive_anonymous pool' = Inr (s, ids)"
proof -
  from assms(2) obtain live live_ids items where
    d: "derive_live pool ''fast-320k'' = Inr (live, live_ids)"
      "mapE (one_pass pool) ANONYMOUS_TYPES = Inr items"
    and ids: "ids = live_ids @ map receipt_id items"
    by (auto simp: derive_anonymous_def bindE_eq_Inr)
  from assms(3) ids have "keeps pool pool' live_ids" "keeps pool pool' (map receipt_id items)" by auto
  with assms(2) d show ?thesis
    by (simp add: derive_anonymous_def derive_live_replay [OF assms(1)]
        one_passes_replay [OF assms(1)])
qed

lemma derive_published_replay:
  assumes "subview pool pool'" and "derive_published pool = Inr (s, ids)" and "keeps pool pool' ids"
  shows "derive_published pool' = Inr (s, ids)"
proof -
  from assms(2) obtain clean clean_ids lic pub where
    d: "derive_clean pool = Inr (clean, clean_ids)" "one_pass pool ''registry-license'' = Inr lic"
      "one_pass pool ''registry-publish'' = Inr pub"
    and ids: "ids = clean_ids @ [receipt_id lic, receipt_id pub]"
    by (auto simp: derive_published_def bindE_eq_Inr)
  from assms(3) ids have k: "keeps pool pool' clean_ids" "keeps pool pool' [receipt_id lic]"
    "keeps pool pool' [receipt_id pub]" by auto
  show ?thesis using assms(2)
    unfolding derive_published_def
    by (simp add: d derive_clean_replay [OF assms(1) d(1) k(1)] one_pass_replay [OF assms(1) d(2) k(2)]
        one_pass_replay [OF assms(1) d(3) k(3)])
qed

lemma derive_readback_replay:
  assumes "subview pool pool'" and "derive_readback pool = Inr (s, ids)" and "keeps pool pool' ids"
  shows "derive_readback pool' = Inr (s, ids)"
proof -
  from assms(2) obtain published pids readback where
    d: "derive_published pool = Inr (published, pids)" "one_pass pool ''registry-readback'' = Inr readback"
    and ids: "ids = pids @ [receipt_id readback]"
    by (auto simp: derive_readback_def bindE_eq_Inr)
  from assms(3) ids have "keeps pool pool' pids" "keeps pool pool' [receipt_id readback]" by auto
  with assms(2) d show ?thesis
    by (simp add: derive_readback_def derive_published_replay [OF assms(1)]
        one_pass_replay [OF assms(1)])
qed

subsection \<open>Replay of the claims that cite several attempts or builds\<close>

lemma filter_subview_perm:
  assumes "subview pool pool'" and "keeps pool pool' (map receipt_id (filter P pool))"
  shows "mset (filter P pool') = mset (filter P pool)"
proof -
  have "distinct pool" using assms(1) by (auto simp: subview_def distinct_map)
  moreover have "set (filter P pool') = set (filter P pool)"
    using assms by (auto simp: subview_def keeps_def)
  moreover have "distinct (filter P pool')" using assms(1) by (simp add: subview_def)
  ultimately show ?thesis by (metis distinct_filter set_eq_iff_mset_eq_distinct)
qed

lemma check_valid_eq_Inr:
  "check_valid rs = Inr u \<longleftrightarrow>
    (\<forall>r \<in> set rs. result r = ''PASS'' \<and> is_true (dict_get (metadata r) ''thresholds_passed'')
       \<and> is_true (dict_get (metadata r) ''median_threshold_passed''))"
  by (induction rs) (auto simp: bindE_raiseIf)

text \<open>The checks on the attempts depend on the attempts as a multiset only.\<close>

definition attempts_ok :: "subject \<Rightarrow> receipt list \<Rightarrow> bool" where
  "attempts_ok live attempts \<longleftrightarrow>
     (\<forall>r \<in> set attempts. agrees live (subject r) \<and> \<not> bad_attempt r) \<and> length attempts \<le> 5
     \<and> distinct (map attempt_number attempts) \<and> length (valid_attempts attempts) = 3
     \<and> check_valid (valid_attempts attempts) = Inr ()"

lemma derive_benchmark_eq_Inr:
  "derive_benchmark pool p = Inr (s, ids) \<longleftrightarrow>
    (\<exists>live_ids. derive_live pool p = Inr (s, live_ids) \<and> attempts_ok s (profile_attempts pool p)
      \<and> ids = live_ids @ map receipt_id (profile_attempts pool p))"
  unfolding derive_benchmark_def attempts_ok_def
  by (cases "derive_live pool p") (auto simp: bindE_eq_Inr Let_def not_less)

lemma attempts_ok_perm: "mset a = mset b \<Longrightarrow> attempts_ok s a = attempts_ok s b"
proof -
  assume ab: "mset a = mset b"
  then have "set a = set b" and "length a = length b"
    by (auto dest: mset_eq_setD mset_eq_length)
  moreover have "distinct (map attempt_number a) = distinct (map attempt_number b)"
    using ab by (metis mset_eq_imp_distinct_iff mset_map)
  moreover have "mset (valid_attempts a) = mset (valid_attempts b)"
    using ab by (simp add: valid_attempts_def)
  then have "length (valid_attempts a) = length (valid_attempts b)"
    "set (valid_attempts a) = set (valid_attempts b)"
    by (auto dest: mset_eq_setD mset_eq_length)
  ultimately show ?thesis by (simp add: attempts_ok_def check_valid_eq_Inr)
qed

lemma profile_attempts_filter:
  "profile_attempts pool p = filter (\<lambda>r. receipt_type r = ''battery'' \<and> has_profile r p) pool"
  by (simp add: profile_attempts_def of_type_def conj_commute)

lemma derive_benchmark_replay:
  assumes "subview pool pool'" and "derive_benchmark pool p = Inr (s, ids)" and "keeps pool pool' ids"
  shows "\<exists>ids'. derive_benchmark pool' p = Inr (s, ids') \<and> set ids' = set ids"
proof -
  from assms(2) obtain live_ids where live: "derive_live pool p = Inr (s, live_ids)"
    and ok: "attempts_ok s (profile_attempts pool p)"
    and ids: "ids = live_ids @ map receipt_id (profile_attempts pool p)"
    by (auto simp: derive_benchmark_eq_Inr)
  from assms(3) ids have k: "keeps pool pool' live_ids"
    "keeps pool pool' (map receipt_id (profile_attempts pool p))" by auto
  have perm: "mset (profile_attempts pool' p) = mset (profile_attempts pool p)"
    using filter_subview_perm [OF assms(1)] k(2) unfolding profile_attempts_filter by blast
  then have "set (profile_attempts pool' p) = set (profile_attempts pool p)" by (rule mset_eq_setD)
  moreover have "attempts_ok s (profile_attempts pool' p)" using ok attempts_ok_perm [OF perm] by simp
  ultimately show ?thesis
    using derive_live_replay [OF assms(1) live k(1)] by (simp add: derive_benchmark_eq_Inr ids)
qed

lemma mapE_replay_rel:
  assumes "mapE f xs = Inr ys"
    and "\<And>x y. x \<in> set xs \<Longrightarrow> y \<in> set ys \<Longrightarrow> f x = Inr y \<Longrightarrow> \<exists>z. g x = Inr z \<and> R y z"
  shows "\<exists>zs. mapE g xs = Inr zs \<and> list_all2 R ys zs"
  using assms
proof (induction xs arbitrary: ys)
  case (Cons x xs)
  then obtain y ys' where y: "f x = Inr y" "mapE f xs = Inr ys'" "ys = y # ys'"
    by (auto simp: bindE_eq_Inr)
  then obtain z where "g x = Inr z" "R y z" using Cons.prems(2) by (metis list.set_intros(1))
  moreover obtain zs where "mapE g xs = Inr zs" "list_all2 R ys' zs"
    using Cons.IH [OF y(2)] Cons.prems(2) y(3) by (metis list.set_intros(2))
  ultimately show ?case using y by auto
qed simp

lemma derive_suite_replay:
  assumes "subview pool pool'" and "derive_suite pool = Inr (s, ids)" and "keeps pool pool' ids"
  shows "\<exists>ids'. derive_suite pool' = Inr (s, ids') \<and> set ids' = set ids"
proof -
  from assms(2) obtain rs where rs: "mapE (derive_benchmark pool) PROFILES = Inr rs"
    and ids: "ids = concat (map snd rs)"
    by (auto simp: derive_suite_def bindE_eq_Inr Let_def)
  have "\<exists>zs. mapE (derive_benchmark pool') PROFILES = Inr zs
      \<and> list_all2 (\<lambda>y z. fst z = fst y \<and> set (snd z) = set (snd y)) rs zs"
  proof (rule mapE_replay_rel [OF rs])
    fix p y assume "y \<in> set rs" and "derive_benchmark pool p = Inr y"
    then show "\<exists>z. derive_benchmark pool' p = Inr z \<and> fst z = fst y \<and> set (snd z) = set (snd y)"
      using derive_benchmark_replay [OF assms(1), of p "fst y" "snd y"] assms(3) ids by auto
  qed
  then obtain zs where zs: "mapE (derive_benchmark pool') PROFILES = Inr zs"
    and rel: "list_all2 (\<lambda>y z. fst z = fst y \<and> set (snd z) = set (snd y)) rs zs" by blast
  from rel have fsts: "map fst zs = map fst rs" and snds: "set (concat (map snd zs)) = set ids"
    unfolding ids by (induction rule: list_all2_induct) auto
  show ?thesis
    using assms(2) snds fsts unfolding derive_suite_def rs zs
    by (auto simp del: set_concat simp: bindE_eq_Inr Let_def ids)
qed

lemma derive_bit_reproducible_eq_Inr:
  "derive_bit_reproducible pool = Inr (s, ids) \<longleftrightarrow>
    (\<exists>c source source_ids builds. one_pass pool ''build-comparison'' = Inr c
      \<and> is_true (dict_get (metadata c) ''normalized_outputs_equal'')
      \<and> derive_source pool = Inr (source, source_ids)
      \<and> length (build_digests pool) = 2 \<and> None \<notin> set (build_digests pool)
      \<and> mapE (digest_chain pool source) (sort (map the (build_digests pool))) = Inr builds
      \<and> bit_stable c builds = Inr s
      \<and> ids = source_ids @ map receipt_id (concat (map snd builds)) @ [receipt_id c])"
  unfolding derive_bit_reproducible_def
  by (cases "one_pass pool ''build-comparison''"; cases "derive_source pool")
     (auto simp: bindE_eq_Inr Let_def)

lemma digest_chain_cites_build:
  assumes builds: "mapE (digest_chain pool source) (sort (map the (build_digests pool))) = Inr builds"
    and none: "None \<notin> set (build_digests pool)"
    and r: "r \<in> set (of_type pool ''build-produced'')"
  shows "r \<in> set (concat (map snd builds))"
proof -
  let ?d = "dict_get (subject r) ''image_digest''"
  have "?d \<in> set (build_digests pool)" using r by (auto simp: build_digests_def)
  with none obtain d where d: "?d = Some d" "d \<in> set (sort (map the (build_digests pool)))"
    by (cases ?d) force+
  from mapE_mem_arg [OF builds d(2)] obtain s items where
    items: "(s, items) \<in> set builds" "digest_chain pool source d = Inr (s, items)" by auto
  have chain: "mapE (digest_one pool d) BUILD_TYPES = Inr items"
    using items(2) by (auto simp: digest_chain_def bindE_eq_Inr)
  have "''build-produced'' \<in> set BUILD_TYPES" by (simp add: BUILD_TYPES_def)
  from mapE_mem_arg [OF chain this]
  obtain r0 where r0: "r0 \<in> set items" "digest_one pool d ''build-produced'' = Inr r0" by blast
  have "r = r0"
    using selects_sound(4) [OF selects_digest_one r0(2), of r] r d(1) by (simp add: of_type_def)
  with r0(1) items(1) show ?thesis by force
qed

lemma sorted_strings_unique:
  "set xs = set ys \<Longrightarrow> distinct xs \<Longrightarrow> distinct ys \<Longrightarrow> sort xs = sort ys" for xs ys :: "string list"
  by (metis properties_for_sort set_eq_iff_mset_eq_distinct mset_sort sorted_sort)

lemma distinct_map_the: "None \<notin> set xs \<Longrightarrow> distinct xs \<Longrightarrow> distinct (map the xs)"
  by (auto simp: distinct_map inj_on_def) (metis option.expand)

lemma digest_chain_replay:
  assumes "subview pool pool'" and "digest_chain pool source d = Inr (s, items)"
    and "keeps pool pool' (map receipt_id items)"
  shows "digest_chain pool' source d = Inr (s, items)"
  using assms digest_ones_replay [OF assms(1)] by (fastforce simp: digest_chain_def bindE_eq_Inr)

lemma digest_chain_items:
  "digest_chain pool source d = Inr (s, items) \<Longrightarrow> set items \<subseteq> set pool"
  using selects_mapE_sound(1) [OF selects_digest_one] by (auto simp: digest_chain_def bindE_eq_Inr)

lemma derive_bit_reproducible_replay:
  assumes sub: "subview pool pool'" and "derive_bit_reproducible pool = Inr (s, ids)"
    and "keeps pool pool' ids"
  shows "derive_bit_reproducible pool' = Inr (s, ids)"
proof -
  from assms(2) obtain c source source_ids builds where
    d: "one_pass pool ''build-comparison'' = Inr c"
      "derive_source pool = Inr (source, source_ids)"
      "mapE (digest_chain pool source) (sort (map the (build_digests pool))) = Inr builds"
    and rest: "is_true (dict_get (metadata c) ''normalized_outputs_equal'')"
      "length (build_digests pool) = 2" "None \<notin> set (build_digests pool)"
      "bit_stable c builds = Inr s"
    and ids: "ids = source_ids @ map receipt_id (concat (map snd builds)) @ [receipt_id c]"
    by (auto simp: derive_bit_reproducible_eq_Inr)
  from assms(3) ids have k: "keeps pool pool' source_ids" "keeps pool pool' [receipt_id c]"
    "keeps pool pool' (map receipt_id (concat (map snd builds)))" by auto
  have "set (concat (map snd builds)) \<subseteq> set pool"
    using mapE_mem [OF d(3)] digest_chain_items by fastforce
  with k(3) have cited: "set (concat (map snd builds)) \<subseteq> set pool'" by (rule keeps_ids)
  have produced: "set (of_type pool' ''build-produced'') = set (of_type pool ''build-produced'')"
    using digest_chain_cites_build [OF d(3) rest(3)] cited sub
    by (fastforce simp: of_type_def subview_def)
  have dset: "set (build_digests pool') = set (build_digests pool)"
    using produced by (simp add: build_digests_def)
  have dd: "distinct (build_digests q)" for q by (simp add: build_digests_def)
  have sorts: "sort (map the (build_digests pool')) = sort (map the (build_digests pool))"
    using dset rest(3) dd by (intro sorted_strings_unique distinct_map_the) auto
  have len: "length (build_digests pool') = 2"
    using dset dd rest(2) by (metis distinct_card)
  have builds': "mapE (digest_chain pool' source) (sort (map the (build_digests pool'))) = Inr builds"
    unfolding sorts
  proof (rule mapE_replay [OF d(3)])
    fix x y assume "y \<in> set builds" "digest_chain pool source x = Inr y"
    then show "digest_chain pool' source x = Inr y"
      using digest_chain_replay [OF sub, of source x "fst y" "snd y"] k(3)
      by (auto simp: map_concat)
  qed
  show ?thesis
    unfolding derive_bit_reproducible_eq_Inr
    using one_pass_replay [OF sub d(1) k(2)] derive_source_replay [OF sub d(2) k(1)] builds' len
      rest dset ids by blast
qed

text \<open>
  A derivation on a pool can be replayed on any selection of its receipts that keeps the cited
  ones, in any order, with the same subject and the same citations.
\<close>

lemma derive_replay:
  assumes "subview pool pool'" and "derive cl pool p = Inr (s, ids)" and "keeps pool pool' ids"
  shows "\<exists>ids'. derive cl pool' p = Inr (s, ids') \<and> set ids' = set ids"
  using assms(2,3) unfolding derive_def
  by (auto split: if_splits simp: derive_source_replay [OF assms(1)] derive_model_replay [OF assms(1)]
      derive_clean_replay [OF assms(1)] derive_live_replay [OF assms(1)]
      derive_anonymous_replay [OF assms(1)] derive_published_replay [OF assms(1)]
      derive_readback_replay [OF assms(1)] derive_bit_reproducible_replay [OF assms(1)]
      dest: derive_benchmark_replay [OF assms(1)] derive_suite_replay [OF assms(1)])

subsection \<open>Citations come from the pool\<close>

definition cites :: "receipt list \<Rightarrow> string list \<Rightarrow> bool" where
  "cites pool ids \<longleftrightarrow> set ids \<subseteq> receipt_id ` set pool"

lemma cites_append [simp]: "cites pool (xs @ ys) \<longleftrightarrow> cites pool xs \<and> cites pool ys"
  by (auto simp: cites_def)

lemma cites_map: "set rs \<subseteq> set pool \<Longrightarrow> cites pool (map receipt_id rs)"
  by (auto simp: cites_def)

lemma cites_one: "one_pass pool k = Inr r \<Longrightarrow> cites pool [receipt_id r]"
  using one_pass_sound by (auto simp: cites_def)

lemma cites_Cons [simp]: "cites pool (x # y # zs) \<longleftrightarrow> cites pool [x] \<and> cites pool (y # zs)"
  by (auto simp: cites_def)

lemma cites_selected:
  "selects f P \<Longrightarrow> mapE (f pool) ks = Inr items \<Longrightarrow> cites pool (map receipt_id items)"
  using selects_mapE_sound(1) by (intro cites_map) blast

lemma derive_source_cites: "derive_source pool = Inr (s, ids) \<Longrightarrow> cites pool ids"
  by (auto simp: derive_source_def bindE_eq_Inr dest: cites_selected [OF selects_one_pass])

lemma derive_model_cites: "derive_model pool = Inr (s, ids) \<Longrightarrow> cites pool ids"
  by (auto simp: derive_model_eq_Inr dest!: cites_one)

lemma derive_clean_cites: "derive_clean pool = Inr (s, ids) \<Longrightarrow> cites pool ids"
  by (auto simp: derive_clean_def bindE_eq_Inr
      dest: cites_selected [OF selects_one_pass] derive_source_cites)

lemma derive_live_cites: "derive_live pool p = Inr (s, ids) \<Longrightarrow> cites pool ids"
  by (auto simp: derive_live_def bindE_eq_Inr
      dest: cites_selected [OF selects_live_one] derive_clean_cites derive_model_cites)

lemma derive_benchmark_cites: "derive_benchmark pool p = Inr (s, ids) \<Longrightarrow> cites pool ids"
  using derive_live_cites [of pool p s] cites_map [of "profile_attempts pool p" pool]
  by (auto simp: derive_benchmark_eq_Inr profile_attempts_filter)

lemma derive_suite_cites: "derive_suite pool = Inr (s, ids) \<Longrightarrow> cites pool ids"
  using derive_benchmark_cites
  by (fastforce simp: derive_suite_def bindE_eq_Inr Let_def cites_def dest: mapE_mem)

lemma derive_bit_reproducible_cites: "derive_bit_reproducible pool = Inr (s, ids) \<Longrightarrow> cites pool ids"
proof -
  assume "derive_bit_reproducible pool = Inr (s, ids)"
  then obtain c source source_ids builds where d: "one_pass pool ''build-comparison'' = Inr c"
      "derive_source pool = Inr (source, source_ids)"
      "mapE (digest_chain pool source) (sort (map the (build_digests pool))) = Inr builds"
    and ids: "ids = source_ids @ map receipt_id (concat (map snd builds)) @ [receipt_id c]"
    by (auto simp: derive_bit_reproducible_eq_Inr)
  have "set (concat (map snd builds)) \<subseteq> set pool"
    using mapE_mem [OF d(3)] digest_chain_items by fastforce
  then show ?thesis
    unfolding ids cites_append
    using cites_one [OF d(1)] derive_source_cites [OF d(2)] cites_map by blast
qed

lemma derive_anonymous_cites: "derive_anonymous pool = Inr (s, ids) \<Longrightarrow> cites pool ids"
  by (auto simp: derive_anonymous_def bindE_eq_Inr
      dest: cites_selected [OF selects_one_pass] derive_live_cites)

lemma derive_published_cites: "derive_published pool = Inr (s, ids) \<Longrightarrow> cites pool ids"
  by (auto simp: derive_published_def bindE_eq_Inr dest: cites_one derive_clean_cites)

lemma derive_readback_cites: "derive_readback pool = Inr (s, ids) \<Longrightarrow> cites pool ids"
  by (auto simp: derive_readback_def bindE_eq_Inr dest: cites_one derive_published_cites)

lemmas derive_cites = derive_source_cites derive_model_cites derive_clean_cites derive_live_cites
  derive_benchmark_cites derive_suite_cites derive_bit_reproducible_cites derive_anonymous_cites
  derive_published_cites derive_readback_cites

subsection \<open>The document update\<close>

lemma set_fromkeys [simp]: "set (fromkeys xs) = set xs"
  by (induction xs) auto

lemma distinct_fromkeys [simp]: "distinct (fromkeys xs)"
  by (induction xs) auto

lemma filter_length_one:
  assumes "length (filter P xs) = 1"
  shows "\<exists>i < length xs. P (xs ! i) \<and> (\<forall>j < length xs. j \<noteq> i \<longrightarrow> \<not> P (xs ! j))"
  using assms
proof (induction xs)
  case (Cons x xs)
  show ?case
  proof (cases "P x")
    case True
    then have "\<forall>y \<in> set xs. \<not> P y" using Cons.prems by (simp add: filter_empty_conv)
    then show ?thesis using True by (intro exI [of _ 0]) (auto simp: nth_Cons split: nat.splits)
  next
    case False
    then obtain i where "i < length xs" "P (xs ! i)" "\<forall>j < length xs. j \<noteq> i \<longrightarrow> \<not> P (xs ! j)"
      using Cons by auto
    then show ?thesis using False by (intro exI [of _ "Suc i"]) (auto simp: nth_Cons split: nat.splits)
  qed
qed simp

lemma update_first_nth:
  "i < length xs \<Longrightarrow> P (xs ! i) \<Longrightarrow> (\<And>j. j < i \<Longrightarrow> \<not> P (xs ! j))
     \<Longrightarrow> update_first P f xs = xs[i := f (xs ! i)]"
proof (induction xs arbitrary: i)
  case (Cons x xs)
  show ?case
  proof (cases i)
    case (Suc k)
    moreover have "\<not> P x" using Cons.prems(3) [of 0] Suc by simp
    moreover have "update_first P f xs = xs[k := f (xs ! k)]"
      using Cons.IH [of k] Cons.prems Suc by fastforce
    ultimately show ?thesis by simp
  qed (use Cons.prems in simp)
qed simp

definition passed_entry :: "claim_entry \<Rightarrow> subject \<Rightarrow> string list \<Rightarrow> claim_entry" where
  "passed_entry e s ids = e\<lparr>ce_status := ''passed'', ce_subject := s, ce_receipt_ids := fromkeys ids,
     ce_reason := None\<rparr>"

lemma promote_with_eq_Inr:
  assumes "promote_with drv st cl rs p now clock = Inr st'"
  obtains pool s ids i where "pool_of rs = Inr pool" and "check_claims drv pool (claims st) = Inr ()"
    and "drv cl pool p = Inr (s, ids)" and "i < length (claims st)"
    and "claim_key (claims st ! i) = (cl, p)"
    and "\<And>j. j < length (claims st) \<Longrightarrow> j \<noteq> i \<Longrightarrow> claim_key (claims st ! j) \<noteq> (cl, p)"
    and "claims st' = (claims st)[i := passed_entry (claims st ! i) s ids]"
proof -
  let ?P = "\<lambda>e. claim_key e = (cl, p)"
  from assms obtain pool s ids where d: "pool_of rs = Inr pool"
      "check_claims drv pool (claims st) = Inr ()" "drv cl pool p = Inr (s, ids)"
    and one: "length (filter ?P (claims st)) = 1"
    and c: "claims st' = update_first ?P (\<lambda>e. passed_entry e s ids) (claims st)"
    by (auto simp: promote_with_def bindE_eq_Inr Let_def passed_entry_def)
  from filter_length_one [OF one] obtain i where i: "i < length (claims st)" "?P (claims st ! i)"
    "\<And>j. j < length (claims st) \<Longrightarrow> j \<noteq> i \<Longrightarrow> \<not> ?P (claims st ! j)" by blast
  have "claims st' = (claims st)[i := passed_entry (claims st ! i) s ids]"
    unfolding c using i by (intro update_first_nth) auto
  with d i show ?thesis by (rule that)
qed

lemma pool_of_distinct: "pool_of rs = Inr pool \<Longrightarrow> distinct (map receipt_id pool)"
  by (auto simp: pool_of_def bindE_eq_Inr split: option.splits)

lemma verified_items_set: "verified_items rs = Some xs \<Longrightarrow> r \<in> set xs \<longleftrightarrow> VerifiedReceipt r \<in> set rs"
  by (induction rs arbitrary: xs rule: verified_items.induct) auto

lemma pool_of_mono:
  "pool_of rs = Inr pool \<Longrightarrow> pool_of rs' = Inr pool' \<Longrightarrow> set rs \<subseteq> set rs' \<Longrightarrow> set pool \<subseteq> set pool'"
  by (auto simp: pool_of_def bindE_eq_Inr verified_items_set split: option.splits)

subsection \<open>What promotion relies on\<close>

text \<open>
  The interface between promotion and derivation: citations name receipts of the pool, and a
  derivation survives any selection of receipts that keeps what it cited.
\<close>

locale evidence_derivation =
  fixes drv :: deriver
  assumes cited: "drv cl pool p = Inr (s, ids) \<Longrightarrow> cites pool ids"
    and replay: "subview pool pool' \<Longrightarrow> drv cl pool p = Inr (s, ids) \<Longrightarrow> keeps pool pool' ids
      \<Longrightarrow> \<exists>ids'. drv cl pool' p = Inr (s, ids') \<and> set ids' = set ids"
begin

lemma check_existing_passed:
  "check_existing drv pool e = Inr () \<longleftrightarrow> (ce_status e = ''passed'' \<longrightarrow>
     receipt_id ` set (cited_pool pool (ce_receipt_ids e)) = set (ce_receipt_ids e)
     \<and> (\<exists>s ids. drv (ce_claim e) (cited_pool pool (ce_receipt_ids e)) (ce_profile e) = Inr (s, ids)
          \<and> dict_eq (ce_subject e) s \<and> set ids = set (ce_receipt_ids e)))"
  unfolding check_existing_def
  by (auto simp: bindE_raiseIf Let_def raiseIf_def split: sum.splits prod.splits if_splits)

lemma check_existing_larger_pool:
  assumes "distinct (map receipt_id pool)" and "distinct (map receipt_id pool')"
    and "set pool \<subseteq> set pool'" and "check_existing drv pool e = Inr ()"
  shows "check_existing drv pool' e = Inr ()"
proof (cases "ce_status e = ''passed''")
  case True
  let ?E = "ce_receipt_ids e"
  from True assms(4) obtain s ids where
    all: "receipt_id ` set (cited_pool pool ?E) = set ?E"
    and d: "drv (ce_claim e) (cited_pool pool ?E) (ce_profile e) = Inr (s, ids)"
      "dict_eq (ce_subject e) s" "set ids = set ?E"
    by (auto simp: check_existing_passed)
  have same: "set (cited_pool pool' ?E) = set (cited_pool pool ?E)"
  proof
    show "set (cited_pool pool' ?E) \<subseteq> set (cited_pool pool ?E)"
    proof
      fix r assume "r \<in> set (cited_pool pool' ?E)"
      then have r: "r \<in> set pool'" "receipt_id r \<in> set ?E" by (auto simp: cited_pool_def)
      then obtain r0 where r0: "r0 \<in> set (cited_pool pool ?E)" "receipt_id r0 = receipt_id r"
        using all by (metis imageE)
      then have "r0 \<in> set pool'" using assms(3) by (auto simp: cited_pool_def)
      with r r0 assms(2) have "r0 = r" by (auto simp: distinct_map inj_on_def)
      with r0(1) show "r \<in> set (cited_pool pool ?E)" by simp
    qed
  qed (use assms(3) in \<open>auto simp: cited_pool_def\<close>)
  have "subview (cited_pool pool ?E) (cited_pool pool' ?E)"
    using assms(1,2) same by (auto simp: subview_def cited_pool_def distinct_map inj_on_def)
  moreover have "keeps (cited_pool pool ?E) (cited_pool pool' ?E) ids"
    using same by (auto simp: keeps_def)
  ultimately obtain ids' where "drv (ce_claim e) (cited_pool pool' ?E) (ce_profile e) = Inr (s, ids')"
    "set ids' = set ids"
    using replay [OF _ d(1)] by blast
  then show ?thesis using d all same by (simp add: check_existing_passed)
qed (simp add: check_existing_passed)

lemma check_claims_all:
  "check_claims drv pool es = Inr () \<longleftrightarrow> (\<forall>e \<in> set es. check_existing drv pool e = Inr ())"
  by (induction es) (auto simp: bindE_eq_Inr)

lemma check_passed_entry:
  assumes "distinct (map receipt_id pool)" and "drv cl pool p = Inr (s, ids)"
    and "claim_key e = (cl, p)"
  shows "check_existing drv pool (passed_entry e s ids) = Inr ()"
proof -
  have "subview pool (cited_pool pool ids)"
    using assms(1) by (auto simp: subview_def cited_pool_def distinct_map)
  moreover have "keeps pool (cited_pool pool ids) ids" by (auto simp: keeps_def cited_pool_def)
  ultimately obtain ids' where
    "drv cl (cited_pool pool ids) p = Inr (s, ids')" "set ids' = set ids"
    using replay [OF _ assms(2)] by blast
  moreover have "receipt_id ` set (cited_pool pool ids) = set ids"
    using cited [OF assms(2)] by (auto simp: cites_def cited_pool_def)
  moreover have "cited_pool pool (fromkeys ids) = cited_pool pool ids" by (simp add: cited_pool_def)
  ultimately show ?thesis using assms(3) by (simp add: check_existing_passed passed_entry_def claim_key_def)
qed

lemma promote_with_stable:
  assumes "promote_with drv st cl rs p now clock = Inr st'"
    and "pool_of rs' = Inr pool'" and "set rs \<subseteq> set rs'"
  shows "check_claims drv pool' (claims st') = Inr ()"
proof -
  from assms(1) obtain pool s ids i where d: "pool_of rs = Inr pool"
    "check_claims drv pool (claims st) = Inr ()" "drv cl pool p = Inr (s, ids)"
    "claim_key (claims st ! i) = (cl, p)"
    and st': "claims st' = (claims st)[i := passed_entry (claims st ! i) s ids]"
    by (rule promote_with_eq_Inr)
  note dist = pool_of_distinct [OF d(1)] pool_of_distinct [OF assms(2)]
  note larger = check_existing_larger_pool [OF dist pool_of_mono [OF d(1) assms(2,3)]]
  have "check_existing drv pool e = Inr ()" if "e \<in> set (claims st')" for e
    using that d(2) check_passed_entry [OF dist(1) d(3,4)] set_update_subset_insert
    unfolding st' check_claims_all by fastforce
  then show ?thesis unfolding check_claims_all by (blast intro: larger)
qed

end

interpretation gate: evidence_derivation derive
proof
  show "cites pool ids" if "derive cl pool p = Inr (s, ids)" for cl pool p s ids
    using that by (auto simp: derive_def split: if_splits dest: derive_cites)
qed (rule derive_replay)

subsection \<open>Evidence chains\<close>

text \<open>\<open>same a b k\<close>: both subjects name the same identity under \<open>k\<close>.\<close>

definition same :: "subject \<Rightarrow> subject \<Rightarrow> string \<Rightarrow> bool" where
  "same a b k \<longleftrightarrow> (\<exists>v. dict_get a k = Some v \<and> dict_get b k = Some v)"

text \<open>The identities a receipt of a given type has to share with the derived subject.\<close>

definition evidence_keys :: "string \<Rightarrow> string \<Rightarrow> string list" where
  "evidence_keys profile kind =
    (if kind \<in> set SOURCE_TYPES then SOURCE_KEYS
     else if kind \<in> set BUILD_TYPES then BUILD_KEYS
     else if kind = ''checkpoint-license'' then [''model_id'']
     else if kind = ''sidecar-license'' then [''sidecar_id'']
     else live_subject_keys profile)"

definition backed :: "string \<Rightarrow> subject \<Rightarrow> receipt \<Rightarrow> bool" where
  "backed profile s r \<longleftrightarrow> (\<forall>k \<in> set (evidence_keys profile (receipt_type r)). same s (subject r) k)"

lemma same_trans: "same a b k \<Longrightarrow> same b c k \<Longrightarrow> same a c k"
  by (auto simp: same_def)

lemma same_sym: "same a b k \<longleftrightarrow> same b a k"
  by (auto simp: same_def)

lemma dict_get_project: "k \<in> set keys \<Longrightarrow> dict_get (project d keys) k = Some (the (dict_get d k))"
  by (auto simp: dict_get_def project_def map_of_map_restrict)

lemma agrees_same: "agrees s d \<Longrightarrow> dict_get s k \<noteq> None \<Longrightarrow> same s d k"
  by (fastforce simp: agrees_def same_def dict_get_def dest: map_of_SomeD)

lemma agrees_project:
  "agrees (project d keys) e \<longleftrightarrow> (\<forall>k \<in> set keys. dict_get e k = Some (the (dict_get d k)))"
  by (auto simp: agrees_def project_def)

lemma common_subject_same:
  assumes "common_subject items keys = Inr s" and "r \<in> set items" and "k \<in> set keys"
  shows "same s (subject r) k"
proof -
  from assms(1) obtain x xs where items: "items = x # xs" and s: "s = project (subject x) keys"
    and here: "\<forall>k \<in> set keys. dict_get (subject x) k \<noteq> None"
    and ag: "\<forall>y \<in> set xs. agrees s (subject y)"
    by (auto simp: common_subject_def bindE_eq_Inr Let_def filter_empty_conv split: list.splits)
  show ?thesis
    using assms(2,3) here ag unfolding items s
    by (auto simp: same_def dict_get_project agrees_project)
qed

lemma common_subject_get:
  "common_subject items keys = Inr s \<Longrightarrow> k \<in> set keys \<Longrightarrow> dict_get s k \<noteq> None"
  by (auto simp: common_subject_def bindE_eq_Inr Let_def dict_get_project split: list.splits)

lemma derive_source_backed:
  assumes "derive_source pool = Inr (s, ids)"
  shows "\<exists>items. ids = map receipt_id items \<and> set items \<subseteq> set pool \<and>
    (\<forall>r \<in> set items. receipt_type r \<in> set SOURCE_TYPES \<and> result r = ''PASS''
       \<and> same s (subject r) ''source_release_id'')"
proof -
  from assms obtain items where items: "mapE (one_pass pool) SOURCE_TYPES = Inr items"
    and c: "common_subject items SOURCE_KEYS = Inr s" and ids: "ids = map receipt_id items"
    by (auto simp: derive_source_def bindE_eq_Inr)
  show ?thesis
    using selects_mapE_sound [OF selects_one_pass items] common_subject_same [OF c] ids
    by (intro exI [of _ items]) (auto simp: SOURCE_KEYS_def)
qed

lemma type_layers:
  "k \<in> set SOURCE_TYPES \<Longrightarrow> evidence_keys p k = [''source_release_id'']"
  "k \<in> set BUILD_TYPES \<Longrightarrow> evidence_keys p k = BUILD_KEYS"
  "evidence_keys p ''checkpoint-license'' = [''model_id'']"
  "evidence_keys p ''sidecar-license'' = [''sidecar_id'']"
  "k \<in> set (live_kinds q) \<Longrightarrow> evidence_keys p k = live_subject_keys p"
proof -
  show "k \<in> set SOURCE_TYPES \<Longrightarrow> evidence_keys p k = [''source_release_id'']"
    by (simp add: evidence_keys_def SOURCE_KEYS_def)
  have "list_all (\<lambda>k. k \<notin> set SOURCE_TYPES) BUILD_TYPES" by code_simp
  then show "k \<in> set BUILD_TYPES \<Longrightarrow> evidence_keys p k = BUILD_KEYS"
    by (auto simp: evidence_keys_def list_all_iff)
  have "list_all (\<lambda>k. k \<notin> set (SOURCE_TYPES @ BUILD_TYPES)) [''checkpoint-license'', ''sidecar-license'']"
    by code_simp
  then show "evidence_keys p ''checkpoint-license'' = [''model_id'']"
    "evidence_keys p ''sidecar-license'' = [''sidecar_id'']"
    by (simp_all add: evidence_keys_def)
  have "list_all (\<lambda>k. k \<notin> set (SOURCE_TYPES @ BUILD_TYPES @ [''checkpoint-license'', ''sidecar-license'']))
      (LIVE_TYPES @ [''pin-state''])" by code_simp
  then show "k \<in> set (live_kinds q) \<Longrightarrow> evidence_keys p k = live_subject_keys p"
    by (auto simp: evidence_keys_def live_kinds_def list_all_iff split: if_splits)
qed

lemma derive_clean_backed:
  assumes "derive_clean pool = Inr (s, ids)"
  shows "\<exists>items. ids = map receipt_id items \<and> set items \<subseteq> set pool \<and>
    (\<forall>r \<in> set items. result r = ''PASS'' \<and> receipt_type r \<in> set (SOURCE_TYPES @ BUILD_TYPES) \<and> backed p s r)"
    and "k \<in> set BUILD_KEYS \<Longrightarrow> dict_get s k \<noteq> None"
proof -
  from assms obtain source source_ids items where
    d: "derive_source pool = Inr (source, source_ids)" "mapE (one_pass pool) BUILD_TYPES = Inr items"
    and c: "common_subject items BUILD_KEYS = Inr s"
    and eq: "dict_get s ''source_release_id'' = dict_get source ''source_release_id''"
    and ids: "ids = source_ids @ map receipt_id items"
    by (auto simp: derive_clean_def bindE_eq_Inr)
  from derive_source_backed [OF d(1)] obtain sitems where
    src: "source_ids = map receipt_id sitems" "set sitems \<subseteq> set pool"
      "\<forall>r \<in> set sitems. receipt_type r \<in> set SOURCE_TYPES \<and> result r = ''PASS''
         \<and> same source (subject r) ''source_release_id''" by blast
  have "\<forall>r \<in> set sitems. backed p s r"
    using src(3) eq by (auto simp: backed_def type_layers(1) same_def)
  moreover have "\<forall>r \<in> set items. receipt_type r \<in> set BUILD_TYPES"
    using selects_mapE_sound(3) [OF selects_one_pass d(2)] by auto
  then have "\<forall>r \<in> set items. receipt_type r \<in> set BUILD_TYPES \<and> backed p s r"
    using common_subject_same [OF c] by (auto simp: backed_def type_layers(2))
  ultimately show "\<exists>items. ids = map receipt_id items \<and> set items \<subseteq> set pool \<and>
    (\<forall>r \<in> set items. result r = ''PASS'' \<and> receipt_type r \<in> set (SOURCE_TYPES @ BUILD_TYPES) \<and> backed p s r)"
    using src selects_mapE_sound(1,2) [OF selects_one_pass d(2)] ids
    by (intro exI [of _ "sitems @ items"]) auto
  show "k \<in> set BUILD_KEYS \<Longrightarrow> dict_get s k \<noteq> None" by (rule common_subject_get [OF c])
qed

lemma backed_weaken:
  "backed p s r \<Longrightarrow> (\<And>k. k \<in> set (evidence_keys p (receipt_type r)) \<Longrightarrow> same s t k) \<Longrightarrow> backed p t r"
  by (meson backed_def same_sym same_trans)

lemma derive_live_backed:
  assumes "derive_live pool p = Inr (s, ids)"
  shows "\<exists>items. ids = map receipt_id items \<and> set items \<subseteq> set pool
    \<and> (\<forall>r \<in> set items. result r = ''PASS'' \<and> backed p s r)"
    and "k \<in> set (live_subject_keys p) \<Longrightarrow> dict_get s k \<noteq> None"
proof -
  from assms obtain clean clean_ids model model_ids items where
    d: "derive_clean pool = Inr (clean, clean_ids)" "derive_model pool = Inr (model, model_ids)"
      "mapE (live_one pool p) (live_kinds p) = Inr items"
    and c: "common_subject items (live_subject_keys p) = Inr s"
    and ag: "agrees clean s" "agrees model s"
    and ids: "ids = clean_ids @ model_ids @ map receipt_id items"
    by (auto simp: derive_live_def bindE_eq_Inr)
  from derive_clean_backed(1) [OF d(1), of p] obtain citems where
    cl: "clean_ids = map receipt_id citems" "set citems \<subseteq> set pool"
      "\<forall>r \<in> set citems. result r = ''PASS'' \<and> receipt_type r \<in> set (SOURCE_TYPES @ BUILD_TYPES)
         \<and> backed p clean r" by blast
  have "backed p s r" if "r \<in> set citems" for r
  proof (rule backed_weaken)
    show "backed p clean r" using cl(3) that by blast
    fix k assume "k \<in> set (evidence_keys p (receipt_type r))"
    with cl(3) that have "k \<in> set BUILD_KEYS"
      by (auto simp: type_layers(1,2) BUILD_KEYS_def)
    then show "same clean s k" using agrees_same [OF ag(1)] derive_clean_backed(2) [OF d(1)] by blast
  qed
  moreover obtain x y where mod: "one_pass pool ''checkpoint-license'' = Inr x"
    "one_pass pool ''sidecar-license'' = Inr y" "model_ids = map receipt_id [x, y]"
    "same model (subject x) ''model_id''" "same model (subject y) ''sidecar_id''"
    using d(2) by (auto simp: derive_model_eq_Inr same_def dict_get_def)
  moreover have "backed p s x" "backed p s y"
    using mod(4,5) one_pass_sound [OF mod(1)] one_pass_sound [OF mod(2)] agrees_same [OF ag(2)]
    by (fastforce simp: backed_def type_layers(3,4) same_def)+
  moreover have "\<forall>r \<in> set items. receipt_type r \<in> set (live_kinds p)"
    using selects_mapE_sound(3) [OF selects_live_one d(3)] by auto
  then have "\<forall>r \<in> set items. backed p s r"
    using common_subject_same [OF c] by (auto simp: backed_def type_layers(5))
  ultimately show "\<exists>items. ids = map receipt_id items \<and> set items \<subseteq> set pool
    \<and> (\<forall>r \<in> set items. result r = ''PASS'' \<and> backed p s r)"
    using cl selects_mapE_sound(1,2) [OF selects_live_one d(3)] ids
      one_pass_sound [OF mod(1)] one_pass_sound [OF mod(2)]
    by (intro exI [of _ "citems @ [x, y] @ items"]) auto
  show "k \<in> set (live_subject_keys p) \<Longrightarrow> dict_get s k \<noteq> None" by (rule common_subject_get [OF c])
qed

lemma derive_benchmark_backed:
  assumes "derive_benchmark pool p = Inr (s, ids)"
  shows "\<exists>items. ids = map receipt_id items \<and> set items \<subseteq> set pool \<and>
    (\<forall>r \<in> set items. (result r = ''PASS'' \<or> receipt_type r = ''battery'' \<and> has_profile r p) \<and> backed p s r)"
proof -
  from assms obtain live_ids where live: "derive_live pool p = Inr (s, live_ids)"
    and ok: "attempts_ok s (profile_attempts pool p)"
    and ids: "ids = live_ids @ map receipt_id (profile_attempts pool p)"
    by (auto simp: derive_benchmark_eq_Inr)
  from derive_live_backed(1) [OF live] obtain litems where
    l: "live_ids = map receipt_id litems" "set litems \<subseteq> set pool"
      "\<forall>r \<in> set litems. result r = ''PASS'' \<and> backed p s r" by blast
  have key: "evidence_keys p ''battery'' = live_subject_keys p"
    by (simp add: evidence_keys_def SOURCE_TYPES_def BUILD_TYPES_def)
  have "\<forall>r \<in> set (profile_attempts pool p). backed p s r"
    using ok agrees_same derive_live_backed(2) [OF live] key
    by (auto simp: attempts_ok_def backed_def profile_attempts_filter)
  with l ids show ?thesis
    by (intro exI [of _ "litems @ profile_attempts pool p"]) (auto simp: profile_attempts_filter)
qed

subsection \<open>Two builds in one pool\<close>

lemma derive_clean_builds: "derive_clean pool = Inr x \<Longrightarrow> length (of_type pool ''build-produced'') = 1"
proof -
  assume "derive_clean pool = Inr x"
  then obtain items where m: "mapE (one_pass pool) BUILD_TYPES = Inr items"
    by (auto simp: derive_clean_def bindE_eq_Inr)
  have "''build-produced'' \<in> set BUILD_TYPES" by (simp add: BUILD_TYPES_def)
  from mapE_mem_arg [OF m this] show ?thesis by (auto simp: one_pass_def Let_def bindE_eq_Inr)
qed

lemma derive_live_builds: "derive_live pool p = Inr x \<Longrightarrow> length (of_type pool ''build-produced'') = 1"
  using derive_clean_builds by (fastforce simp: derive_live_def bindE_eq_Inr)

lemma derive_benchmark_builds:
  "derive_benchmark pool p = Inr x \<Longrightarrow> length (of_type pool ''build-produced'') = 1"
  using derive_live_builds by (cases x) (auto simp: derive_benchmark_eq_Inr)

lemma derive_suite_builds: "derive_suite pool = Inr x \<Longrightarrow> length (of_type pool ''build-produced'') = 1"
proof -
  assume "derive_suite pool = Inr x"
  then obtain rs where m: "mapE (derive_benchmark pool) PROFILES = Inr rs"
    by (auto simp: derive_suite_def bindE_eq_Inr)
  have "''fast-320k'' \<in> set PROFILES" by (simp add: PROFILES_def)
  from mapE_mem_arg [OF m this] show ?thesis using derive_benchmark_builds by blast
qed

lemma derive_published_builds:
  "derive_published pool = Inr x \<Longrightarrow> length (of_type pool ''build-produced'') = 1"
  using derive_clean_builds by (fastforce simp: derive_published_def bindE_eq_Inr)

lemma derive_builds:
  "derive cl pool p = Inr x \<Longrightarrow> cl \<notin> {''source-complete'', ''model-license'', ''bit-reproducible''}
     \<Longrightarrow> length (of_type pool ''build-produced'') = 1"
  using derive_clean_builds derive_live_builds derive_benchmark_builds derive_suite_builds
    derive_published_builds
  by (auto simp: derive_def derive_anonymous_def derive_readback_def bindE_eq_Inr split: if_splits)

lemma cited_pool_builds: "length (of_type (cited_pool pool ids) k) \<le> length (of_type pool k)"
  by (induction pool) (auto simp: of_type_def cited_pool_def)

lemma derive_bit_reproducible_builds:
  "derive_bit_reproducible pool = Inr (s, ids) \<Longrightarrow> length (of_type pool ''build-produced'') \<ge> 2"
proof -
  assume "derive_bit_reproducible pool = Inr (s, ids)"
  then have "length (build_digests pool) = 2" by (auto simp: derive_bit_reproducible_eq_Inr)
  moreover have "length (build_digests pool) \<le> length (of_type pool ''build-produced'')"
    unfolding build_digests_def by (metis length_map length_remdups_leq)
  ultimately show ?thesis by simp
qed

subsection \<open>Properties\<close>

text \<open>
  C29: a promoted status document is accepted by every later run of the gate that is given at
  least the same receipts, in any order and among any others: none of its passed claims is
  reported as manually edited, stale or unsupported. The check that a later promotion makes of
  the passed claims therefore rejects only documents the gate did not write.
\<close>

theorem promote_stable:
  assumes "promote st cl rs p now clock = Inr st'"
    and "pool_of rs' = Inr pool'" and "set rs \<subseteq> set rs'"
  shows "check_claims derive pool' (claims st') = Inr ()"
  using assms gate.promote_with_stable unfolding promote_def by blast

text \<open>
  A promotion changes exactly one entry of the document, the only one with the requested
  claim and profile: it becomes passed with the derived subject and the cited receipts without
  repetition, its reason is dropped, and every other entry keeps its place and content.
\<close>

theorem promote_changes_one_entry:
  assumes "promote st cl rs p now clock = Inr st'"
  shows "\<exists>pool s ids i. pool_of rs = Inr pool \<and> derive cl pool p = Inr (s, ids)
    \<and> i < length (claims st) \<and> claim_key (claims st ! i) = (cl, p)
    \<and> (\<forall>j < length (claims st). j \<noteq> i \<longrightarrow> claim_key (claims st ! j) \<noteq> (cl, p))
    \<and> claims st' = (claims st)[i := (claims st ! i)\<lparr>ce_status := ''passed'', ce_subject := s,
        ce_receipt_ids := fromkeys ids, ce_reason := None\<rparr>]
    \<and> distinct (fromkeys ids) \<and> set (fromkeys ids) = set ids
    \<and> set ids \<subseteq> receipt_id ` set pool"
proof -
  from assms obtain pool s ids i where "pool_of rs = Inr pool" and d: "derive cl pool p = Inr (s, ids)"
    and "i < length (claims st)" "claim_key (claims st ! i) = (cl, p)"
    "\<And>j. j < length (claims st) \<Longrightarrow> j \<noteq> i \<Longrightarrow> claim_key (claims st ! j) \<noteq> (cl, p)"
    "claims st' = (claims st)[i := passed_entry (claims st ! i) s ids]"
    unfolding promote_def by (rule promote_with_eq_Inr) blast
  then show ?thesis using gate.cited [OF d] by (auto simp: passed_entry_def cites_def)
qed

text \<open>
  C30: a benchmark claim rests on one evidence chain. Every receipt it cites names the same
  identities as the derived subject, for the identities its type carries (source release for
  the source scans, the five build identities for the image receipts, the model and sidecar for
  the licences, all identities of the run for launch, stability and battery receipts); all
  but the battery attempts passed; at most five attempts were made, with different attempt
  numbers from one to five; and exactly three attempts are valid, each of which passed with its
  own and the median threshold.
\<close>

theorem benchmark_evidence_chain:
  assumes "pool_of rs = Inr pool" and "derive_benchmark pool p = Inr (s, ids)"
  shows "(\<forall>r \<in> set pool. receipt_id r \<in> set ids \<longrightarrow>
            (\<forall>k \<in> set (evidence_keys p (receipt_type r)).
               dict_get s k \<noteq> None \<and> dict_get (subject r) k = dict_get s k)
            \<and> (receipt_type r = ''battery'' \<and> has_profile r p \<or> result r = ''PASS''))
    \<and> length (profile_attempts pool p) \<le> 5
    \<and> distinct (map attempt_number (profile_attempts pool p))
    \<and> length (valid_attempts (profile_attempts pool p)) = 3
    \<and> (\<forall>r \<in> set (valid_attempts (profile_attempts pool p)). result r = ''PASS''
         \<and> dict_get (metadata r) ''thresholds_passed'' = Some (JBool True)
         \<and> dict_get (metadata r) ''median_threshold_passed'' = Some (JBool True))"
proof -
  from derive_benchmark_backed [OF assms(2)] obtain items where
    items: "ids = map receipt_id items" "set items \<subseteq> set pool"
      "\<forall>r \<in> set items. (result r = ''PASS'' \<or> receipt_type r = ''battery'' \<and> has_profile r p)
         \<and> backed p s r" by blast
  have "r \<in> set items" if "r \<in> set pool" "receipt_id r \<in> set ids" for r
    using that items(1,2) pool_of_distinct [OF assms(1)] by (auto simp: distinct_map inj_on_def)
  then have "\<forall>r \<in> set pool. receipt_id r \<in> set ids \<longrightarrow>
      (\<forall>k \<in> set (evidence_keys p (receipt_type r)).
         dict_get s k \<noteq> None \<and> dict_get (subject r) k = dict_get s k)
      \<and> (receipt_type r = ''battery'' \<and> has_profile r p \<or> result r = ''PASS'')"
    using items(3) by (fastforce simp: backed_def same_def)
  moreover have "attempts_ok s (profile_attempts pool p)"
    using assms(2) by (auto simp: derive_benchmark_eq_Inr)
  ultimately show ?thesis by (auto simp: attempts_ok_def check_valid_eq_Inr is_true_def)
qed

text \<open>
  C31: once bit-reproducible is passed, no claim that rests on a clean build can be promoted any
  more, from whatever receipts. The passed claim forces both builds into the pool, and every
  such derivation asks the whole pool for exactly one build receipt. Only source-complete,
  model-license and bit-reproducible itself can still be promoted.
\<close>

theorem bit_reproducible_blocks_builds:
  assumes "promote st cl rs p now clock = Inr st'"
    and "e \<in> set (claims st)" and "ce_status e = ''passed''" and "ce_claim e = ''bit-reproducible''"
  shows "cl \<in> {''source-complete'', ''model-license'', ''bit-reproducible''}"
proof (rule ccontr)
  assume other: "cl \<notin> {''source-complete'', ''model-license'', ''bit-reproducible''}"
  from assms(1) obtain pool s ids where chk: "check_claims derive pool (claims st) = Inr ()"
    and d: "derive cl pool p = Inr (s, ids)"
    unfolding promote_def by (rule promote_with_eq_Inr) blast
  from chk assms(2) have "check_existing derive pool e = Inr ()" by (simp add: gate.check_claims_all)
  with assms(3,4) obtain s' ids' where
    "derive_bit_reproducible (cited_pool pool (ce_receipt_ids e)) = Inr (s', ids')"
    by (auto simp: gate.check_existing_passed derive_def)
  then have "2 \<le> length (of_type (cited_pool pool (ce_receipt_ids e)) ''build-produced'')"
    by (rule derive_bit_reproducible_builds)
  also have "\<dots> \<le> length (of_type pool ''build-produced'')"
    by (rule cited_pool_builds)
  also have "\<dots> = 1" using derive_builds [OF d other] .
  finally show False by simp
qed

subsection \<open>Witnesses\<close>

definition sample_receipt :: "string \<Rightarrow> string \<Rightarrow> subject \<Rightarrow> jobject \<Rightarrow> receipt" where
  "sample_receipt rid kind s m =
     \<lparr>receipt_id = rid, receipt_type = kind, result = ''PASS'', subject = s, metadata = m\<rparr>"

definition sample_build_subject :: "string \<Rightarrow> subject" where
  "sample_build_subject img =
     [(''source_release_id'', ''s''), (''build_subject_id'', ''b''), (''build_lock_id'', ''l''),
      (''source_manifest_id'', ''f''), (''image_digest'', img)]"

definition sample_run_subject :: subject where
  "sample_run_subject = sample_build_subject ''i'' @
     [(''model_id'', ''m''), (''sidecar_id'', ''w''), (''preset_id'', ''p''), (''run_id'', ''r'')]"

definition sample_sources :: "receipt list" where
  "sample_sources = map (\<lambda>k. sample_receipt k k [(''source_release_id'', ''s'')] []) SOURCE_TYPES"

definition sample_builds :: "string \<Rightarrow> receipt list" where
  "sample_builds img =
     map (\<lambda>k. sample_receipt (img @ k) k (sample_build_subject img) []) BUILD_TYPES"

definition sample_licences :: "receipt list" where
  "sample_licences =
     [sample_receipt ''c'' ''checkpoint-license'' [(''model_id'', ''m'')]
        [(''rights_status'', JStr ''verified'')],
      sample_receipt ''d'' ''sidecar-license'' [(''sidecar_id'', ''w'')]
        [(''rights_status'', JStr ''verified'')]]"

definition sample_live :: "receipt list" where
  "sample_live = map (\<lambda>k. sample_receipt k k sample_run_subject [(''profile'', JStr ''large-1m'')]) LIVE_TYPES"

definition sample_battery :: "nat \<Rightarrow> receipt" where
  "sample_battery n = sample_receipt (replicate n CHR ''a'') ''battery'' sample_run_subject
     [(''profile'', JStr ''large-1m''), (''attempt'', JInt (int n)), (''valid'', JBool True),
      (''thresholds_passed'', JBool True), (''median_threshold_passed'', JBool True)]"

definition sample_pool :: "receipt list" where
  "sample_pool = sample_sources @ sample_builds ''i'' @ sample_licences @ sample_live
     @ map sample_battery [1, 2, 3]"

definition sample_status :: status where
  "sample_status =
     \<lparr>claims = [\<lparr>ce_claim = ''clean-build'', ce_profile = None, ce_status = ''pending'', ce_subject = [],
                 ce_receipt_ids = [], ce_reason = None\<rparr>,
                \<lparr>ce_claim = ''model-license'', ce_profile = None, ce_status = ''blocked'', ce_subject = [],
                 ce_receipt_ids = [], ce_reason = Some ''unverified''\<rparr>],
      updated_at = []\<rparr>"

definition sample_promoted :: status where
  "sample_promoted =
     \<lparr>claims = [claims sample_status ! 0,
                \<lparr>ce_claim = ''model-license'', ce_profile = None, ce_status = ''passed'',
                 ce_subject = [(''model_id'', ''m''), (''sidecar_id'', ''w'')],
                 ce_receipt_ids = [''c'', ''d''], ce_reason = None\<rparr>],
      updated_at = ''t''\<rparr>"

lemma sample_promotion:
  "promote sample_status ''model-license'' (map VerifiedReceipt sample_licences) None (Some ''t'') ''t''
     = Inr sample_promoted"
  by code_simp

theorem promote_stable_witness:
  "check_claims derive (rev sample_pool) (claims sample_promoted) = Inr ()"
proof (rule promote_stable [OF sample_promotion])
  show "pool_of (map VerifiedReceipt (rev sample_pool)) = Inr (rev sample_pool)" by code_simp
  show "set (map VerifiedReceipt sample_licences) \<subseteq> set (map VerifiedReceipt (rev sample_pool))"
    by (auto simp: sample_pool_def)
qed

theorem promote_changes_one_entry_witness:
  "\<exists>pool s ids i. pool_of (map VerifiedReceipt sample_licences) = Inr pool
    \<and> derive ''model-license'' pool None = Inr (s, ids)
    \<and> i < length (claims sample_status) \<and> claim_key (claims sample_status ! i) = (''model-license'', None)
    \<and> claims sample_promoted = (claims sample_status)[i := (claims sample_status ! i)
        \<lparr>ce_status := ''passed'', ce_subject := s, ce_receipt_ids := fromkeys ids, ce_reason := None\<rparr>]"
  using promote_changes_one_entry [OF sample_promotion] by blast

theorem benchmark_evidence_chain_witness:
  "pool_of (map VerifiedReceipt sample_pool) = Inr sample_pool
    \<and> derive_benchmark sample_pool ''large-1m'' = Inr (sample_run_subject, map receipt_id sample_pool)
    \<and> length (valid_attempts (profile_attempts sample_pool ''large-1m'')) = 3"
proof -
  have p: "pool_of (map VerifiedReceipt sample_pool) = Inr sample_pool" by code_simp
  have d: "derive_benchmark sample_pool ''large-1m'' = Inr (sample_run_subject, map receipt_id sample_pool)"
    by code_simp
  show ?thesis using benchmark_evidence_chain [OF p d] p d by blast
qed

definition sample_two_builds :: "receipt list" where
  "sample_two_builds = sample_sources @ sample_builds ''i'' @ sample_builds ''j'' @ sample_licences
     @ [sample_receipt ''x'' ''build-comparison'' (sample_build_subject ''i'')
          [(''normalized_outputs_equal'', JBool True)]]"

definition sample_bit_entry :: claim_entry where
  "sample_bit_entry = \<lparr>ce_claim = ''bit-reproducible'', ce_profile = None, ce_status = ''passed'',
     ce_subject = butlast (sample_build_subject ''i''),
     ce_receipt_ids = map receipt_id (sample_sources @ sample_builds ''i'' @ sample_builds ''j'') @ [''x''],
     ce_reason = None\<rparr>"

theorem bit_reproducible_blocks_builds_witness:
  "(\<exists>st'. promote (sample_status\<lparr>claims := sample_bit_entry # claims sample_status\<rparr>) ''model-license''
     (map VerifiedReceipt sample_two_builds) None (Some ''t'') ''t'' = Inr st')
   \<and> promote (sample_status\<lparr>claims := sample_bit_entry # claims sample_status\<rparr>) ''clean-build''
     (map VerifiedReceipt sample_two_builds) None (Some ''t'') ''t''
       = Inl (ExpectedOne ''build-produced'' 2)
   \<and> ''model-license'' \<in> {''source-complete'', ''model-license'', ''bit-reproducible''}"
proof -
  let ?st = "sample_status\<lparr>claims := sample_bit_entry # claims sample_status\<rparr>"
  have ok: "promote ?st ''model-license'' (map VerifiedReceipt sample_two_builds) None (Some ''t'') ''t''
      = Inr \<lparr>claims = sample_bit_entry # claims sample_promoted, updated_at = ''t''\<rparr>"
    by code_simp
  have "promote ?st ''clean-build'' (map VerifiedReceipt sample_two_builds) None (Some ''t'') ''t''
       = Inl (ExpectedOne ''build-produced'' 2)" by code_simp
  moreover have "''model-license'' \<in> {''source-complete'', ''model-license'', ''bit-reproducible''}"
    by (rule bit_reproducible_blocks_builds [OF ok, of sample_bit_entry])
       (simp_all add: sample_bit_entry_def)
  ultimately show ?thesis using ok by blast
qed

end
