(* ===== verification/Receipts.thy ===== *)
theory Receipts
  imports Json
begin

text \<open>
  Receipts of \<^verbatim>\<open>champion_runtime/receipts.py\<close>: the safety policy on receipt content (finite numbers,
  no secret-like keys or values, a stable command identifier), the content-bound receipt
  identifier, and the construction and verification of a stored receipt.

  The SHA-256 digest, the RFC 8785 serializer and the JSON-schema validator are not part of
  the repository: they are the fields of \<open>receipt_env\<close>. The regular expressions of the module
  are written out as recognisers on ASCII text.
\<close>

subsection \<open>Keys and patterns\<close>

definition is_lower :: "char \<Rightarrow> bool" where
  "is_lower c \<longleftrightarrow> (let n = (of_char c :: nat) in 97 \<le> n \<and> n \<le> 122)"

definition is_upper :: "char \<Rightarrow> bool" where
  "is_upper c \<longleftrightarrow> (let n = (of_char c :: nat) in 65 \<le> n \<and> n \<le> 90)"

definition is_lower_alnum :: "char \<Rightarrow> bool" where
  "is_lower_alnum c \<longleftrightarrow> is_lower c \<or> is_digit c"

definition is_word :: "char \<Rightarrow> bool" where
  "is_word c \<longleftrightarrow> is_lower c \<or> is_upper c \<or> is_digit c \<or> c = CHR ''_''"

definition is_hex :: "char \<Rightarrow> bool" where
  "is_hex c \<longleftrightarrow> (let n = (of_char c :: nat) in 48 \<le> n \<and> n \<le> 57 \<or> 97 \<le> n \<and> n \<le> 102)"

text \<open>\<^verbatim>\<open>[0-9a-f]{64}\<close> and \<^verbatim>\<open>sha256:[0-9a-f]{64}\<close> as full matches.\<close>

definition is_sha256 :: "string \<Rightarrow> bool" where
  "is_sha256 s \<longleftrightarrow> length s = 64 \<and> list_all is_hex s"

definition is_image_digest :: "string \<Rightarrow> bool" where
  "is_image_digest s \<longleftrightarrow> take 7 s = ''sha256:'' \<and> is_sha256 (drop 7 s)"

definition SECRET_KEYS :: "string list" where
  "SECRET_KEYS = [''access_key'', ''api_key'', ''apikey'', ''authorization'', ''client_secret'',
     ''credential'', ''credentials'', ''passwd'', ''password'', ''private_key'', ''secret'',
     ''secrets'', ''token'']"

definition SECRET_SUFFIXES :: "string list" where
  "SECRET_SUFFIXES = [''_access_key'', ''_api_key'', ''_authorization'', ''_credential'',
     ''_credentials'', ''_password'', ''_private_key'', ''_secret'', ''_token'']"

definition DURABLE_SUBJECT_KEYS :: "string list" where
  "DURABLE_SUBJECT_KEYS = [''source_release_id'', ''build_subject_id'', ''build_lock_id'',
     ''source_manifest_id'', ''image_digest'', ''model_id'', ''sidecar_id'', ''preset_id'',
     ''pin_id'', ''tokenizer_id'', ''sampling_id'']"

definition RECEIPT_BODY_FIELDS :: "string list" where
  "RECEIPT_BODY_FIELDS = [''schema_version'', ''receipt_type'', ''command'', ''created_at'',
     ''subject'', ''evidence'', ''result'', ''metadata'']"

text \<open>
  \<^verbatim>\<open>_normalized_key\<close>: an underscore between a lower-case letter or digit and an upper-case
  letter, lower case, every run of other characters becomes one underscore, and the outer
  underscores are dropped.
\<close>

fun separate_case :: "string \<Rightarrow> string" where
  "separate_case (a # b # s) =
     (if is_lower_alnum a \<and> is_upper b then a # CHR ''_'' # separate_case (b # s)
      else a # separate_case (b # s))"
| "separate_case s = s"

fun collapse_runs :: "bool \<Rightarrow> string \<Rightarrow> string" where
  "collapse_runs inrun [] = []"
| "collapse_runs inrun (c # s) =
     (if is_lower_alnum c then c # collapse_runs False s
      else if inrun then collapse_runs True s
      else CHR ''_'' # collapse_runs True s)"

definition normalized_key :: "string \<Rightarrow> string" where
  "normalized_key key =
     strip_by (\<lambda>c. c = CHR ''_'') (collapse_runs False (map ascii_lower (separate_case key)))"

definition secret_key :: "string \<Rightarrow> bool" where
  "secret_key key \<longleftrightarrow>
     (let n = normalized_key key in
      n \<in> set SECRET_KEYS \<or> list_ex (\<lambda>suf. suffix suf n) SECRET_SUFFIXES)"

text \<open>
  The four \<^verbatim>\<open>_SECRET_VALUE_PATTERNS\<close>. Each \<open>match\<close> function tests a match that starts at the
  head of the text; \<open>prev\<close> is the character before it, for the word boundary. In every
  pattern the character that ends a repetition is outside the repeated class, so the greedy
  match is the only one.
\<close>

definition word_start :: "char option \<Rightarrow> bool" where
  "word_start prev = (case prev of None \<Rightarrow> True | Some c \<Rightarrow> \<not> is_word c)"

text \<open>\<open>after lit s\<close>: the rest of \<open>s\<close> after the literal, compared without case.\<close>

definition after :: "string \<Rightarrow> string \<Rightarrow> string option" where
  "after lit s =
     (if map ascii_lower (take (length lit) s) = lit then Some (drop (length lit) s) else None)"

definition match_authorization :: "char option \<Rightarrow> string \<Rightarrow> bool" where
  "match_authorization prev s \<longleftrightarrow> word_start prev \<and>
     (case after ''authorization'' s of
        None \<Rightarrow> False
      | Some r \<Rightarrow> (case dropWhile is_strip_space r of
           [] \<Rightarrow> False
         | c # t \<Rightarrow> (c = CHR '':'' \<or> c = CHR ''='') \<and> dropWhile is_strip_space t \<noteq> []))"

definition is_token_char :: "char \<Rightarrow> bool" where
  "is_token_char c \<longleftrightarrow> is_lower c \<or> is_upper c \<or> is_digit c \<or> c \<in> set ''._~+/=-''"

definition match_bearer :: "char option \<Rightarrow> string \<Rightarrow> bool" where
  "match_bearer prev s \<longleftrightarrow> word_start prev \<and>
     (case after ''bearer'' s of
        None \<Rightarrow> False
      | Some r \<Rightarrow> r \<noteq> [] \<and> is_strip_space (hd r)
          \<and> 6 \<le> length (takeWhile is_token_char (dropWhile is_strip_space r)))"

definition is_scheme_char :: "char \<Rightarrow> bool" where
  "is_scheme_char c \<longleftrightarrow> is_lower c \<or> is_upper c \<or> is_digit c \<or> c \<in> set ''+.-''"

definition is_user_char :: "char \<Rightarrow> bool" where
  "is_user_char c \<longleftrightarrow> c \<notin> set ''/:@'' \<and> \<not> is_strip_space c"

definition is_pass_char :: "char \<Rightarrow> bool" where
  "is_pass_char c \<longleftrightarrow> c \<notin> set ''/@'' \<and> \<not> is_strip_space c"

definition match_userinfo :: "char option \<Rightarrow> string \<Rightarrow> bool" where
  "match_userinfo prev s \<longleftrightarrow> word_start prev \<and> s \<noteq> [] \<and> (is_lower (hd s) \<or> is_upper (hd s)) \<and>
     (case after ''://'' (dropWhile is_scheme_char s) of
        None \<Rightarrow> False
      | Some r \<Rightarrow> r \<noteq> [] \<and> is_user_char (hd r) \<and>
          (case dropWhile is_user_char r of
             [] \<Rightarrow> False
           | c # t \<Rightarrow> c = CHR '':'' \<and> t \<noteq> [] \<and> is_pass_char (hd t)
               \<and> (case dropWhile is_pass_char t of [] \<Rightarrow> False | d # _ \<Rightarrow> d = CHR ''@'')))"

definition QUERY_NAMES :: "string list" where
  "QUERY_NAMES = [''accesstoken'', ''access_token'', ''access-token'', ''apikey'', ''api_key'',
     ''api-key'', ''clientsecret'', ''client_secret'', ''client-secret'', ''password'', ''token'']"

definition match_query :: "string \<Rightarrow> bool" where
  "match_query s \<longleftrightarrow> s \<noteq> [] \<and> hd s \<in> set ''?&;'' \<and>
     list_ex (\<lambda>name. case after (name @ ''='') (tl s) of
        None \<Rightarrow> False
      | Some r \<Rightarrow> r \<noteq> [] \<and> hd r \<noteq> CHR ''&'' \<and> \<not> is_strip_space (hd r)) QUERY_NAMES"

fun search_secret :: "char option \<Rightarrow> string \<Rightarrow> bool" where
  "search_secret prev [] = False"
| "search_secret prev (c # s) =
     (match_authorization prev (c # s) \<or> match_bearer prev (c # s) \<or> match_userinfo prev (c # s)
      \<or> match_query (c # s) \<or> search_secret (Some c) s)"

definition secret_value :: "string \<Rightarrow> bool" where
  "secret_value s = search_secret None s"

text \<open>\<^verbatim>\<open>[a-z][a-z0-9]*(?:-[a-z0-9]+)*\<close> as a full match: hyphen-separated nonempty alphanumeric
  parts, the first of which starts with a letter.\<close>

definition command_identifier :: "string \<Rightarrow> bool" where
  "command_identifier s \<longleftrightarrow>
     s \<noteq> [] \<and> is_lower (hd s)
     \<and> list_all (\<lambda>part. part \<noteq> [] \<and> list_all is_lower_alnum part) (py_split CHR ''-'' s)"

subsection \<open>The content policy\<close>

datatype step = Member string | Index nat

type_synonym path = "step list"

datatype receipt_error =
    NonFiniteNumber path
  | SecretKey path string
  | SecretValue path
  | BadCommand
  | NotCanonicalizable
  | NotAnObject
  | NoDurableIdentity
  | HasReceiptId
  | MissingFields
  | UnknownFields
  | SchemaUnreadable
  | SchemaViolation "string list"
  | BadReceiptId
  | ReceiptIdMismatch string string

fun validate_json_value :: "path \<Rightarrow> json \<Rightarrow> receipt_error + unit"
  and validate_members :: "path \<Rightarrow> jobject \<Rightarrow> receipt_error + unit"
  and validate_items :: "path \<Rightarrow> nat \<Rightarrow> json list \<Rightarrow> receipt_error + unit" where
  "validate_json_value p (JNonFinite k) = Inl (NonFiniteNumber p)"
| "validate_json_value p (JObj d) = validate_members p d"
| "validate_json_value p (JArr js) = validate_items p 0 js"
| "validate_json_value p _ = Inr ()"
| "validate_members p [] = Inr ()"
| "validate_members p ((k, v) # d) =
     bindE (validate_json_value (p @ [Member k]) v) (\<lambda>_. validate_members p d)"
| "validate_items p i [] = Inr ()"
| "validate_items p i (j # js) =
     bindE (validate_json_value (p @ [Index i]) j) (\<lambda>_. validate_items p (Suc i) js)"

fun reject_secrets :: "path \<Rightarrow> json \<Rightarrow> receipt_error + unit"
  and reject_members :: "path \<Rightarrow> jobject \<Rightarrow> receipt_error + unit"
  and reject_items :: "path \<Rightarrow> nat \<Rightarrow> json list \<Rightarrow> receipt_error + unit" where
  "reject_secrets p (JObj d) = reject_members p d"
| "reject_secrets p (JArr js) = reject_items p 0 js"
| "reject_secrets p (JStr s) = raiseIf (secret_value s) (SecretValue p)"
| "reject_secrets p _ = Inr ()"
| "reject_members p [] = Inr ()"
| "reject_members p ((k, v) # d) =
     bindE (raiseIf (secret_key k) (SecretKey p k)) (\<lambda>_.
     bindE (reject_secrets (p @ [Member k]) v) (\<lambda>_.
     reject_members p d))"
| "reject_items p i [] = Inr ()"
| "reject_items p i (j # js) =
     bindE (reject_secrets (p @ [Index i]) j) (\<lambda>_. reject_items p (Suc i) js)"

definition bad_command :: "json option \<Rightarrow> bool" where
  "bad_command command \<longleftrightarrow>
     (case command of
        None \<Rightarrow> False
      | Some JNull \<Rightarrow> False
      | Some (JStr s) \<Rightarrow> \<not> command_identifier s
      | Some _ \<Rightarrow> True)"

definition validate_receipt_content :: "jobject \<Rightarrow> receipt_error + unit" where
  "validate_receipt_content receipt =
     bindE (validate_json_value [] (JObj receipt)) (\<lambda>_.
     bindE (reject_secrets [] (JObj receipt)) (\<lambda>_.
     raiseIf (bad_command (dict_get receipt ''command'')) BadCommand))"

subsection \<open>Identity, construction and verification\<close>

text \<open>
  \<open>sha256_hex\<close> is \<^verbatim>\<open>hashlib.sha256(...).hexdigest()\<close>, \<open>dumps\<close> is \<^verbatim>\<open>rfc8785.dumps\<close> with \<open>None\<close> for any
  exception, \<open>schema_errors\<close> are the messages of the Draft 2020-12 validator on the receipt
  schema, \<open>None\<close> when the schema file cannot be read.
\<close>

record receipt_env =
  sha256_hex :: "string \<Rightarrow> string"
  dumps :: "json \<Rightarrow> string option"
  schema_errors :: "(json \<Rightarrow> string list) option"

definition canonical_bytes :: "receipt_env \<Rightarrow> json \<Rightarrow> receipt_error + string" where
  "canonical_bytes env value =
     bindE (validate_json_value [] value) (\<lambda>_.
     case dumps env value of None \<Rightarrow> Inl NotCanonicalizable | Some bytes \<Rightarrow> Inr bytes)"

definition durable_identity :: "jobject \<Rightarrow> bool" where
  "durable_identity s \<longleftrightarrow>
     list_ex (\<lambda>key. case dict_get s key of
        Some (JStr value) \<Rightarrow>
          if key = ''image_digest'' then is_image_digest value else is_sha256 value
      | _ \<Rightarrow> False) DURABLE_SUBJECT_KEYS"

definition body_of :: "jobject \<Rightarrow> jobject" where
  "body_of receipt = [(k, v) \<leftarrow> receipt. k \<noteq> ''receipt_id'']"

definition compute_receipt_id :: "receipt_env \<Rightarrow> json \<Rightarrow> receipt_error + string" where
  "compute_receipt_id env receipt =
     (case receipt of
        JObj d \<Rightarrow>
          (let body = body_of d in
           (case dict_get body ''subject'' of
              Some (JObj s) \<Rightarrow>
                bindE (raiseIf (\<not> durable_identity s) NoDurableIdentity) (\<lambda>_.
                bindE (validate_receipt_content body) (\<lambda>_.
                bindE (canonical_bytes env (JObj body)) (\<lambda>bytes.
                Inr (sha256_hex env bytes))))
            | _ \<Rightarrow> Inl NoDurableIdentity))
      | _ \<Rightarrow> Inl NotAnObject)"

definition validate_stored_receipt_schema :: "receipt_env \<Rightarrow> jobject \<Rightarrow> receipt_error + unit" where
  "validate_stored_receipt_schema env receipt =
     (case schema_errors env of
        None \<Rightarrow> Inl SchemaUnreadable
      | Some errors \<Rightarrow>
          raiseIf (errors (JObj receipt) \<noteq> []) (SchemaViolation (errors (JObj receipt))))"

definition construct_receipt :: "receipt_env \<Rightarrow> json \<Rightarrow> receipt_error + jobject" where
  "construct_receipt env body =
     (case body of
        JObj d \<Rightarrow>
          bindE (raiseIf (''receipt_id'' \<in> set (dict_keys d)) HasReceiptId) (\<lambda>_.
          bindE (raiseIf (\<exists>k \<in> set RECEIPT_BODY_FIELDS. k \<notin> set (dict_keys d)) MissingFields) (\<lambda>_.
          bindE (raiseIf (\<exists>k \<in> set (dict_keys d). k \<notin> set RECEIPT_BODY_FIELDS) UnknownFields) (\<lambda>_.
          bindE (compute_receipt_id env (JObj d)) (\<lambda>rid.
          (let stored = dict_set ''receipt_id'' (JStr rid) d in
           bindE (validate_stored_receipt_schema env stored) (\<lambda>_.
           Inr stored))))))
      | _ \<Rightarrow> Inl NotAnObject)"

definition verify_receipt :: "receipt_env \<Rightarrow> json \<Rightarrow> receipt_error + jobject" where
  "verify_receipt env receipt =
     (case receipt of
        JObj d \<Rightarrow>
          bindE (validate_receipt_content d) (\<lambda>_.
          bindE (validate_stored_receipt_schema env d) (\<lambda>_.
          (case dict_get d ''receipt_id'' of
             Some (JStr stored_id) \<Rightarrow>
               bindE (raiseIf (\<not> is_sha256 stored_id) BadReceiptId) (\<lambda>_.
               bindE (compute_receipt_id env receipt) (\<lambda>expected_id.
               bindE (raiseIf (stored_id \<noteq> expected_id) (ReceiptIdMismatch stored_id expected_id)) (\<lambda>_.
               Inr d)))
           | _ \<Rightarrow> Inl BadReceiptId)))
      | _ \<Rightarrow> Inl NotAnObject)"

subsection \<open>What the policy accepts\<close>

text \<open>Every member name, every string value and every number of a document, at any depth.\<close>

fun all_keys :: "json \<Rightarrow> string list" where
  "all_keys (JObj d) = concat (map (\<lambda>kv. fst kv # all_keys (snd kv)) d)"
| "all_keys (JArr js) = concat (map all_keys js)"
| "all_keys _ = []"

fun all_strings :: "json \<Rightarrow> string list" where
  "all_strings (JObj d) = concat (map (\<lambda>kv. all_strings (snd kv)) d)"
| "all_strings (JArr js) = concat (map all_strings js)"
| "all_strings (JStr s) = [s]"
| "all_strings _ = []"

fun all_finite :: "json \<Rightarrow> bool" where
  "all_finite (JObj d) = list_all (\<lambda>kv. all_finite (snd kv)) d"
| "all_finite (JArr js) = list_all all_finite js"
| "all_finite (JNonFinite k) = False"
| "all_finite _ = True"

lemma unit_Inr [simp]: "(\<exists>u :: unit. m = Inr u) \<longleftrightarrow> m = Inr ()"
  by auto

lemma validate_iff:
  "validate_json_value p j = Inr () \<longleftrightarrow> all_finite j"
  "validate_members p d = Inr () \<longleftrightarrow> list_all (\<lambda>kv. all_finite (snd kv)) d"
  "validate_items p i js = Inr () \<longleftrightarrow> list_all all_finite js"
  by (induction p j and p d and p i js rule: validate_json_value_validate_members_validate_items.induct)
     (auto simp: bindE_eq_Inr)

definition safe_text :: "string list \<Rightarrow> string list \<Rightarrow> bool" where
  "safe_text keys strings \<longleftrightarrow>
     list_all (\<lambda>k. \<not> secret_key k) keys \<and> list_all (\<lambda>s. \<not> secret_value s) strings"

lemma reject_iff:
  "reject_secrets p j = Inr () \<longleftrightarrow> safe_text (all_keys j) (all_strings j)"
  "reject_members p d = Inr () \<longleftrightarrow> safe_text (all_keys (JObj d)) (all_strings (JObj d))"
  "reject_items p i js = Inr () \<longleftrightarrow> safe_text (all_keys (JArr js)) (all_strings (JArr js))"
  by (induction p j and p d and p i js rule: reject_secrets_reject_members_reject_items.induct)
     (auto simp: bindE_eq_Inr safe_text_def)

lemma validate_receipt_content_iff:
  "validate_receipt_content d = Inr () \<longleftrightarrow>
     all_finite (JObj d) \<and> safe_text (all_keys (JObj d)) (all_strings (JObj d))
     \<and> \<not> bad_command (dict_get d ''command'')"
  by (auto simp: validate_receipt_content_def bindE_eq_Inr validate_iff reject_iff)

subsection \<open>The stored identifier passes its own policy\<close>

definition plain :: "string \<Rightarrow> bool" where
  "plain s \<longleftrightarrow> list_all (\<lambda>c. c \<notin> set '':=?&;'' \<and> \<not> is_strip_space c) s"

lemma dropWhile_hd_mem: "dropWhile P s = c # t \<Longrightarrow> c \<in> set s"
  by (metis list.set_intros(1) set_dropWhileD)

lemma after_mem: "after lit s = Some r \<Longrightarrow> set r \<subseteq> set s"
  by (auto simp: after_def dest: in_set_dropD split: if_splits)

lemma plain_not_authorization: "plain s \<Longrightarrow> \<not> match_authorization prev s"
  by (fastforce simp: match_authorization_def plain_def list_all_iff
      dest: dropWhile_hd_mem after_mem split: option.splits list.splits)

lemma plain_not_bearer: "plain s \<Longrightarrow> \<not> match_bearer prev s"
proof
  assume p: "plain s" and m: "match_bearer prev s"
  then obtain r where r: "after ''bearer'' s = Some r" "r \<noteq> []" "is_strip_space (hd r)"
    by (auto simp: match_bearer_def split: option.splits)
  then have "hd r \<in> set s" using after_mem [OF r(1)] by auto
  with p r(3) show False by (auto simp: plain_def list_all_iff)
qed

lemma plain_not_userinfo: "plain s \<Longrightarrow> \<not> match_userinfo prev s"
proof
  assume p: "plain s" and m: "match_userinfo prev s"
  then obtain r where "after ''://'' (dropWhile is_scheme_char s) = Some r"
    by (auto simp: match_userinfo_def split: option.splits)
  then have "map ascii_lower (take 3 (dropWhile is_scheme_char s)) = ''://''"
    by (auto simp: after_def numeral_3_eq_3 split: if_splits)
  then obtain c t where c: "dropWhile is_scheme_char s = c # t" "ascii_lower c = CHR '':''"
    by (cases "dropWhile is_scheme_char s") auto
  have "c = CHR '':''"
  proof (rule ccontr)
    assume "c \<noteq> CHR '':''"
    with c(2) have up: "65 \<le> (of_char c :: nat)" "(of_char c :: nat) \<le> 90"
      "char_of (of_char c + 32 :: nat) = CHR '':''"
      by (auto simp: ascii_lower_def Let_def split: if_splits)
    have "of_char (char_of (of_char c + 32 :: nat)) = (of_char c + 32 :: nat)"
      using up(2) by (simp add: of_char_of)
    with up show False by simp
  qed
  moreover have "c \<in> set s" using dropWhile_hd_mem [OF c(1)] .
  ultimately show False using p by (auto simp: plain_def list_all_iff)
qed

lemma plain_not_query: "plain s \<Longrightarrow> \<not> match_query s"
  by (cases s) (auto simp: match_query_def plain_def)

lemma plain_not_secret: "plain s \<Longrightarrow> \<not> search_secret prev s"
proof (induction prev s rule: search_secret.induct)
  case (2 prev c s)
  then have "plain s" by (simp add: plain_def)
  with 2 plain_not_authorization [OF 2(2)] plain_not_bearer [OF 2(2)] plain_not_userinfo [OF 2(2)]
    plain_not_query [OF 2(2)] show ?case by simp
qed simp

lemma is_sha256_plain: "is_sha256 s \<Longrightarrow> plain s"
proof -
  have "c \<notin> set '':=?&;'' \<and> \<not> is_strip_space c" if "is_hex c" for c
    using that by (auto simp: is_hex_def is_strip_space_def Let_def)
  then show "is_sha256 s \<Longrightarrow> plain s" by (auto simp: is_sha256_def plain_def list_all_iff)
qed

lemma receipt_id_not_secret: "\<not> secret_key ''receipt_id''"
  by code_simp

lemma body_of_fresh: "''receipt_id'' \<notin> set (dict_keys d) \<Longrightarrow> body_of (d @ [(''receipt_id'', v)]) = d"
  by (force simp: body_of_def dict_keys_def filter_id_conv)

lemma dict_get_fresh:
  "k \<notin> set (dict_keys d) \<Longrightarrow> dict_get (d @ [(k, v)]) k' = (if k' = k then Some v else dict_get d k')"
  by (induction d) (auto simp: dict_get_def dict_keys_def)

lemma content_with_id:
  assumes "validate_receipt_content d = Inr ()" and "is_sha256 rid"
    and "''receipt_id'' \<notin> set (dict_keys d)"
  shows "validate_receipt_content (d @ [(''receipt_id'', JStr rid)]) = Inr ()"
  using assms receipt_id_not_secret plain_not_secret [OF is_sha256_plain [OF assms(2)]]
  by (auto simp: validate_receipt_content_iff safe_text_def secret_value_def dict_get_fresh)

lemma compute_receipt_id_eq_Inr:
  "compute_receipt_id env (JObj d) = Inr rid \<longleftrightarrow>
    (\<exists>s bytes. dict_get (body_of d) ''subject'' = Some (JObj s) \<and> durable_identity s
       \<and> validate_receipt_content (body_of d) = Inr () \<and> dumps env (JObj (body_of d)) = Some bytes
       \<and> rid = sha256_hex env bytes)"
  unfolding compute_receipt_id_def canonical_bytes_def
  by (auto simp: Let_def bindE_eq_Inr validate_iff validate_receipt_content_iff
      split: option.splits json.splits)

lemma body_of_absent: "''receipt_id'' \<notin> set (dict_keys d) \<Longrightarrow> body_of d = d"
  by (force simp: body_of_def dict_keys_def filter_id_conv)

lemma verify_receipt_eq_Inr:
  "verify_receipt env (JObj d) = Inr r \<longleftrightarrow>
    (\<exists>rid. r = d \<and> validate_receipt_content d = Inr ()
       \<and> validate_stored_receipt_schema env d = Inr ()
       \<and> dict_get d ''receipt_id'' = Some (JStr rid) \<and> is_sha256 rid
       \<and> compute_receipt_id env (JObj d) = Inr rid)"
  unfolding verify_receipt_def
  by (auto simp: bindE_eq_Inr split: option.splits json.splits)

subsection \<open>Properties\<close>

text \<open>
  The content policy accepts a receipt exactly when, at every depth, all its numbers are
  finite, no member name normalizes to a secret-like key and no string matches a
  secret pattern, and its command, if it has one, is a stable identifier.
\<close>

theorem content_policy_exact:
  "validate_receipt_content d = Inr () \<longleftrightarrow>
     all_finite (JObj d)
     \<and> list_all (\<lambda>k. \<not> secret_key k) (all_keys (JObj d))
     \<and> list_all (\<lambda>s. \<not> secret_value s) (all_strings (JObj d))
     \<and> \<not> bad_command (dict_get d ''command'')"
  by (simp add: validate_receipt_content_iff safe_text_def)

text \<open>
  C33: a receipt that \<^verbatim>\<open>construct_receipt\<close> returns is accepted unchanged by \<^verbatim>\<open>verify_receipt\<close>, and its
  members are those of the body plus the identifier. The digest is assumed to be 64 lower-case
  hexadecimal characters, which is the format of a SHA-256 hex digest.
\<close>

theorem construct_then_verify:
  assumes "\<And>bytes. is_sha256 (sha256_hex env bytes)"
    and "construct_receipt env (JObj body) = Inr stored"
  shows "verify_receipt env (JObj stored) = Inr stored
    \<and> (\<exists>rid. stored = body @ [(''receipt_id'', JStr rid)])"
proof -
  from assms(2) obtain rid where fresh: "''receipt_id'' \<notin> set (dict_keys body)"
    and rid: "compute_receipt_id env (JObj body) = Inr rid"
    and stored: "stored = dict_set ''receipt_id'' (JStr rid) body"
    and schema: "validate_stored_receipt_schema env stored = Inr ()"
    by (auto simp: construct_receipt_def bindE_eq_Inr Let_def)
  from stored fresh have st: "stored = body @ [(''receipt_id'', JStr rid)]" by (simp add: dict_set_fresh)
  from rid have hex: "is_sha256 rid" and content: "validate_receipt_content body = Inr ()"
    using assms(1) body_of_absent [OF fresh] by (auto simp: compute_receipt_id_eq_Inr)
  have "compute_receipt_id env (JObj stored) = Inr rid"
    using rid fresh by (simp add: st compute_receipt_id_def body_of_fresh body_of_absent)
  moreover have "dict_get stored ''receipt_id'' = Some (JStr rid)"
    by (simp add: st dict_get_fresh [OF fresh])
  ultimately have "verify_receipt env (JObj stored) = Inr stored"
    using content_with_id [OF content hex fresh] schema hex
    by (simp add: verify_receipt_eq_Inr st)
  with st show ?thesis by blast
qed

text \<open>
  The identifier binds the content. Two verified receipts with the same identifier have
  canonical bodies with the same SHA-256 digest, which is the identifier: a receipt cannot be
  altered under its identifier without a digest collision or an equal canonical form.
\<close>

theorem receipt_id_binds_content:
  assumes "verify_receipt env (JObj a) = Inr a" and "verify_receipt env (JObj b) = Inr b"
    and "dict_get a ''receipt_id'' = dict_get b ''receipt_id''"
  shows "\<exists>x y. dumps env (JObj (body_of a)) = Some x \<and> dumps env (JObj (body_of b)) = Some y
    \<and> sha256_hex env x = sha256_hex env y
    \<and> dict_get a ''receipt_id'' = Some (JStr (sha256_hex env x))"
  using assms by (auto simp: verify_receipt_eq_Inr compute_receipt_id_eq_Inr)

definition sample_env :: receipt_env where
  "sample_env = \<lparr>sha256_hex = (\<lambda>_. replicate 64 CHR ''a''), dumps = (\<lambda>_. Some []),
     schema_errors = Some (\<lambda>_. [])\<rparr>"

definition sample_body :: jobject where
  "sample_body = [(''schema_version'', JStr ''1.0.0''), (''receipt_type'', JStr ''launch''),
     (''command'', JStr ''verify-image''), (''created_at'', JStr ''2026-08-23T00:00:00Z''),
     (''subject'', JObj [(''model_id'', JStr (replicate 64 CHR ''0''))]), (''evidence'', JArr []),
     (''result'', JStr ''PASS''), (''metadata'', JObj [(''attempt'', JInt 1)])]"

definition sample_stored :: jobject where
  "sample_stored = sample_body @ [(''receipt_id'', JStr (replicate 64 CHR ''a''))]"

lemma sample_hex: "is_sha256 (sha256_hex sample_env bytes)"
proof -
  have "is_sha256 (replicate 64 CHR ''a'')" by code_simp
  then show ?thesis by (simp add: sample_env_def)
qed

lemma sample_construct: "construct_receipt sample_env (JObj sample_body) = Inr sample_stored"
  by code_simp

theorem construct_then_verify_witness:
  "construct_receipt sample_env (JObj sample_body) = Inr sample_stored
   \<and> verify_receipt sample_env (JObj sample_stored) = Inr sample_stored"
  using construct_then_verify [OF sample_hex sample_construct] sample_construct by blast

theorem receipt_id_binds_content_witness:
  "verify_receipt sample_env (JObj sample_stored) = Inr sample_stored
   \<and> (\<exists>x. dumps sample_env (JObj (body_of sample_stored)) = Some x
        \<and> dict_get sample_stored ''receipt_id'' = Some (JStr (sha256_hex sample_env x)))"
proof -
  have v: "verify_receipt sample_env (JObj sample_stored) = Inr sample_stored" by code_simp
  show ?thesis using receipt_id_binds_content [OF v v refl] v by blast
qed

end
