(* ===== verification/Attestation.thy ===== *)
theory Attestation
  imports Receipts
begin

text \<open>
  Contract loading (\<^verbatim>\<open>champion_runtime/contracts.py\<close>) and receipt authentication
  (\<^verbatim>\<open>scripts/verify_attestation.py\<close>). A file is given by its decoded document: objects still list
  repeated names and the constants NaN and Infinity are marked, which is what the two
  decoder hooks of \<^verbatim>\<open>_read_json\<close> see. The JSON-schema validator, the digest, the file system
  and the GitHub verifier are fields of an environment record.
\<close>

subsection \<open>Strict JSON\<close>

datatype raw =
    RNull
  | RBool bool
  | RInt int
  | RFloat rat
  | ROverflow bool
  | RConstant string
  | RStr string
  | RArr "raw list"
  | RObj "(string \<times> raw) list"

datatype contract_error =
    Unreadable string
  | DuplicateName string
  | NonJsonConstant string
  | UnknownKind string
  | ContentRejected receipt_error
  | InvalidSchema
  | SchemaErrors "string list"
  | NotAContractObject
  | ReceiptRejected receipt_error

text \<open>
  The decoder builds values bottom-up; \<^verbatim>\<open>unique_object\<close> runs when an object is complete,
  \<^verbatim>\<open>reject_constant\<close> when a constant is read. A literal beyond the float range is an
  infinite float of its sign and not a constant.
\<close>

fun unique_object :: "(string \<times> json) list \<Rightarrow> jobject \<Rightarrow> contract_error + jobject" where
  "unique_object [] result = Inr result"
| "unique_object ((name, v) # pairs) result =
     bindE (raiseIf (name \<in> set (dict_keys result)) (DuplicateName name)) (\<lambda>_.
     unique_object pairs (result @ [(name, v)]))"

fun decode :: "raw \<Rightarrow> contract_error + json"
  and decode_items :: "raw list \<Rightarrow> contract_error + json list"
  and decode_pairs :: "(string \<times> raw) list \<Rightarrow> contract_error + (string \<times> json) list" where
  "decode RNull = Inr JNull"
| "decode (RBool b) = Inr (JBool b)"
| "decode (RInt n) = Inr (JInt n)"
| "decode (RFloat x) = Inr (JFloat x)"
| "decode (ROverflow negative) = Inr (JNonFinite (if negative then NegInf else PosInf))"
| "decode (RConstant c) = Inl (NonJsonConstant c)"
| "decode (RStr s) = Inr (JStr s)"
| "decode (RArr rs) = bindE (decode_items rs) (\<lambda>js. Inr (JArr js))"
| "decode (RObj ps) = bindE (decode_pairs ps) (\<lambda>kvs. bindE (unique_object kvs []) (\<lambda>d. Inr (JObj d)))"
| "decode_items [] = Inr []"
| "decode_items (r # rs) = bindE (decode r) (\<lambda>j. bindE (decode_items rs) (\<lambda>js. Inr (j # js)))"
| "decode_pairs [] = Inr []"
| "decode_pairs ((k, r) # ps) =
     bindE (decode r) (\<lambda>j. bindE (decode_pairs ps) (\<lambda>kvs. Inr ((k, j) # kvs)))"

text \<open>
  \<open>document\<close> gives the decoded text of a path (\<open>None\<close>: unreadable or not JSON),
  \<open>check_schema\<close> and \<open>iter_errors\<close> are the Draft 2020-12 validator.
\<close>

record contract_env =
  receipt_services :: receipt_env
  document :: "string \<Rightarrow> raw option"
  check_schema :: "json \<Rightarrow> bool"
  iter_errors :: "json \<Rightarrow> json \<Rightarrow> string list"

definition read_json :: "contract_env \<Rightarrow> string \<Rightarrow> contract_error + json" where
  "read_json env path =
     (case document env path of None \<Rightarrow> Inl (Unreadable path) | Some r \<Rightarrow> decode r)"

definition SCHEMA_PATHS :: "(string, string) dict" where
  "SCHEMA_PATHS = [(''build-lock'', ''schemas/build-lock.schema.json''),
     (''attestation-policy'', ''schemas/attestation-policy.schema.json''),
     (''preset'', ''schemas/preset.schema.json''),
     (''provenance'', ''schemas/provenance.schema.json''),
     (''receipt'', ''schemas/receipt.schema.json''),
     (''runtime-evidence'', ''schemas/runtime-evidence.schema.json''),
     (''status'', ''schemas/status.schema.json'')]"

definition as_contract :: "(receipt_error \<Rightarrow> contract_error) \<Rightarrow> receipt_error + 'a \<Rightarrow> contract_error + 'a" where
  "as_contract wrap m = (case m of Inl e \<Rightarrow> Inl (wrap e) | Inr x \<Rightarrow> Inr x)"

definition load_contract :: "contract_env \<Rightarrow> string \<Rightarrow> string \<Rightarrow> contract_error + jobject" where
  "load_contract env path kind =
     (case dict_get SCHEMA_PATHS kind of
        None \<Rightarrow> Inl (UnknownKind kind)
      | Some schema_path \<Rightarrow>
          bindE (read_json env path) (\<lambda>payload.
          bindE (case payload of
                   JObj d \<Rightarrow> if kind = ''receipt''
                             then as_contract ContentRejected (validate_receipt_content d) else Inr ()
                 | _ \<Rightarrow> Inr ()) (\<lambda>_.
          bindE (read_json env schema_path) (\<lambda>schema.
          bindE (raiseIf (\<not> check_schema env schema) InvalidSchema) (\<lambda>_.
          bindE (raiseIf (iter_errors env schema payload \<noteq> [])
                   (SchemaErrors (iter_errors env schema payload))) (\<lambda>_.
          (case payload of
             JObj d \<Rightarrow>
               if kind = ''receipt''
               then bindE (as_contract ReceiptRejected (verify_receipt (receipt_services env) payload))
                      (\<lambda>_. Inr d)
               else Inr d
           | _ \<Rightarrow> Inl NotAContractObject)))))))"

subsection \<open>Verifier output\<close>

datatype attestation_error =
    UnsafeEvidencePath string
  | MissingEvidenceFile string
  | BundleMissing
  | VerifierFailed
  | NotOneSubject
  | MalformedIdentity
  | MissingClaims
  | MissingOutput
  | MissingFieldNames "string list"
  | NotVerified
  | EnvelopeMissing
  | DigestMismatch
  | Untrusted string
  | UntrustedRef
  | ContractFailed contract_error
  | EvidenceHashMismatch string
  | UnsupportedProof

text \<open>\<^verbatim>\<open>value[key]\<close> inside the \<^verbatim>\<open>try\<close>: anything but an object that has the key ends in the handler.\<close>

definition member :: "json \<Rightarrow> string \<Rightarrow> attestation_error + json" where
  "member j key = (case j of
      JObj d \<Rightarrow> (case dict_get d key of None \<Rightarrow> Inl MissingClaims | Some v \<Rightarrow> Inr v)
    | _ \<Rightarrow> Inl MissingClaims)"

text \<open>\<^verbatim>\<open>value.get(key)\<close>: only objects have the method.\<close>

definition getter :: "json \<Rightarrow> string \<Rightarrow> attestation_error + json" where
  "getter j key = (case j of
      JObj d \<Rightarrow> Inr (case dict_get d key of None \<Rightarrow> JNull | Some v \<Rightarrow> v)
    | _ \<Rightarrow> Inl MissingClaims)"

definition json_or :: "json \<Rightarrow> json \<Rightarrow> json" where
  "json_or a b = (if truthy a then a else b)"

text \<open>What a \<^verbatim>\<open>for\<close> loop over the subjects visits; strings and objects iterate over strings.\<close>

definition iterate :: "json \<Rightarrow> attestation_error + json list" where
  "iterate j = (case j of
      JArr js \<Rightarrow> Inr js
    | JObj d \<Rightarrow> Inr (map JStr (dict_keys d))
    | JStr s \<Rightarrow> Inr (map (\<lambda>c. JStr [c]) s)
    | _ \<Rightarrow> Inl MissingClaims)"

definition subject_digest :: "json \<Rightarrow> string list" where
  "subject_digest s = (case s of
      JObj d \<Rightarrow> (case dict_get d ''digest'' of
          Some (JObj g) \<Rightarrow> (case dict_get g ''sha256'' of Some (JStr h) \<Rightarrow> [h] | _ \<Rightarrow> [])
        | _ \<Rightarrow> [])
    | _ \<Rightarrow> [])"

text \<open>
  The certificate identity
  \<^verbatim>\<open>https://github\.com/([^/]+/[^/]+)/(\.github/workflows/[^@]+)@(refs/.+)\<close>
  as a full match with its three groups.
\<close>

definition strip_prefix :: "string \<Rightarrow> string \<Rightarrow> string option" where
  "strip_prefix p s = (if prefix p s then Some (drop (length p) s) else None)"

definition not_slash :: "char \<Rightarrow> bool" where
  "not_slash c \<longleftrightarrow> c \<noteq> CHR ''/''"

definition not_at :: "char \<Rightarrow> bool" where
  "not_at c \<longleftrightarrow> c \<noteq> CHR ''@''"

definition match_identity :: "string \<Rightarrow> (string \<times> string \<times> string) option" where
  "match_identity s =
     Option.bind (strip_prefix ''https://github.com/'' s) (\<lambda>r.
     let owner = takeWhile not_slash r; r1 = dropWhile not_slash r in
     if owner = [] \<or> r1 = [] then None else
     let name = takeWhile not_slash (tl r1); r2 = dropWhile not_slash (tl r1) in
     if name = [] then None else
     Option.bind (strip_prefix ''/.github/workflows/'' r2) (\<lambda>r3.
     let file = takeWhile not_at r3 in
     if file = [] then None else
     Option.bind (strip_prefix ''@refs/'' (dropWhile not_at r3)) (\<lambda>r4.
     if r4 = [] \<or> CHR 0x0A \<in> set r4 then None
     else Some (owner @ ''/'' @ name, ''.github/workflows/'' @ file, ''refs/'' @ r4))))"

definition remove_prefix :: "string \<Rightarrow> string \<Rightarrow> string" where
  "remove_prefix p s = (case strip_prefix p s of None \<Rightarrow> s | Some r \<Rightarrow> r)"

definition flatten_verification :: "jobject \<Rightarrow> attestation_error + jobject" where
  "flatten_verification entry =
     bindE (member (JObj entry) ''verificationResult'') (\<lambda>verification.
     bindE (bindE (member verification ''signature'') (\<lambda>s. member s ''certificate'')) (\<lambda>certificate.
     bindE (bindE (member verification ''statement'') (\<lambda>s. member s ''subject'')) (\<lambda>subjects.
     bindE (iterate subjects) (\<lambda>items.
     (let digests = remdups (concat (map subject_digest items)) in
      bindE (raiseIf (length digests \<noteq> 1) NotOneSubject) (\<lambda>_.
      bindE (getter certificate ''subjectAlternativeName'') (\<lambda>san.
      bindE (if truthy san then Inr san else getter certificate ''certificateIdentity'') (\<lambda>identity.
      bindE (case json_or identity (JStr []) of JStr s \<Rightarrow> Inr s | _ \<Rightarrow> Inl MissingClaims) (\<lambda>text.
      (case match_identity text of
         None \<Rightarrow> Inl MalformedIdentity
       | Some (group1, group2, group3) \<Rightarrow>
           bindE (getter certificate ''sourceRepositoryUri'') (\<lambda>uri.
           bindE (getter certificate ''sourceRepositoryRef'') (\<lambda>source_ref.
           bindE (getter certificate ''issuer'') (\<lambda>issuer.
           bindE (getter (case dict_get entry ''attestation'' of None \<Rightarrow> JObj [] | Some a \<Rightarrow> a) ''bundle'')
             (\<lambda>bundle.
           Inr [(''verified'', JBool True), (''subject_sha256'', JStr (hd digests)),
                (''repository'', JStr (case uri of
                     JStr u \<Rightarrow> remove_prefix ''https://github.com/'' u | _ \<Rightarrow> group1)),
                (''workflow'', JStr group2),
                (''ref'', json_or source_ref (JStr group3)),
                (''issuer'', json_or issuer (JStr ''https://token.actions.githubusercontent.com'')),
                (''envelope_present'', JBool (truthy bundle))]))))))))))))))"

definition REQUIRED_FIELDS :: "string list" where
  "REQUIRED_FIELDS = [''verified'', ''subject_sha256'', ''repository'', ''workflow'', ''ref'',
     ''issuer'', ''envelope_present'']"

definition normalized_verification :: "json \<Rightarrow> attestation_error + jobject" where
  "normalized_verification payload =
     bindE (case payload of
         JArr [JObj entry] \<Rightarrow>
           if ''verificationResult'' \<in> set (dict_keys entry)
           then bindE (flatten_verification entry) (\<lambda>d. Inr (JObj d))
           else Inr (JObj entry)
       | JArr [entry] \<Rightarrow> Inr entry
       | _ \<Rightarrow> Inr payload) (\<lambda>p.
     (case p of
        JObj d \<Rightarrow>
          (let missing = [k \<leftarrow> REQUIRED_FIELDS. k \<notin> set (dict_keys d)] in
           bindE (raiseIf (missing \<noteq> []) (MissingFieldNames missing)) (\<lambda>_. Inr d))
      | _ \<Rightarrow> Inl MissingOutput))"

subsection \<open>Authentication\<close>

text \<open>
  The evidence tree below its root, by the parts of a relative path: whether a path is a
  file once links are followed, whether its last component is a link, and the file's bytes.
\<close>

record evidence_tree =
  is_file :: "string list \<Rightarrow> bool"
  is_symlink :: "string list \<Rightarrow> bool"
  file_bytes :: "string list \<Rightarrow> string"

text \<open>\<^verbatim>\<open>PurePosixPath(value).parts\<close> of a relative path.\<close>

definition posix_parts :: "string \<Rightarrow> string list" where
  "posix_parts s = [p \<leftarrow> py_split CHR ''/'' s. p \<noteq> [] \<and> p \<noteq> ''.'']"

definition is_absolute :: "string \<Rightarrow> bool" where
  "is_absolute s \<longleftrightarrow> s \<noteq> [] \<and> hd s = CHR ''/''"

definition safe_evidence :: "evidence_tree \<Rightarrow> string \<Rightarrow> attestation_error + string list" where
  "safe_evidence tree v =
     bindE (raiseIf (is_absolute v \<or> ''..'' \<in> set (posix_parts v)) (UnsafeEvidencePath v)) (\<lambda>_.
     bindE (raiseIf (\<not> is_file tree (posix_parts v) \<or> is_symlink tree (posix_parts v))
              (MissingEvidenceFile v)) (\<lambda>_.
     Inr (posix_parts v)))"

text \<open>The fields of a trusted-issuer policy that authentication reads.\<close>

record policy =
  pol_repository :: string
  pol_workflow :: string
  pol_issuer :: string
  pol_refs :: "string list"
  pol_enforcement :: string
  pol_proven_by_dsse :: json

record verified_receipt =
  vr_receipt :: jobject
  vr_repository :: string
  vr_workflow :: string
  vr_ref :: string
  vr_subject_sha256 :: string
  vr_runner_source :: string

text \<open>
  \<^verbatim>\<open>fnmatch.fnmatchcase\<close> for patterns of literals, \<^verbatim>\<open>?\<close> and \<^verbatim>\<open>*\<close>; the policy schema admits only
  the two patterns \<^verbatim>\<open>refs/heads/main\<close> and \<^verbatim>\<open>refs/tags/v*\<close>.
\<close>

fun fnmatch :: "string \<Rightarrow> string \<Rightarrow> bool" where
  "fnmatch [] s = (s = [])"
| "fnmatch (p # ps) [] = (p = CHR ''*'' \<and> fnmatch ps [])"
| "fnmatch (p # ps) (c # s) =
     (if p = CHR ''*'' then fnmatch ps (c # s) \<or> fnmatch (p # ps) s
      else (p = CHR ''?'' \<or> p = c) \<and> fnmatch ps s)"

definition result_str :: "jobject \<Rightarrow> string \<Rightarrow> string option" where
  "result_str d k = (case dict_get d k of Some (JStr s) \<Rightarrow> Some s | _ \<Rightarrow> None)"

text \<open>\<^verbatim>\<open>_run_gh\<close>: \<open>output\<close> is what the GitHub command printed, decoded; \<open>None\<close> is a failed run or
  output that is not JSON.\<close>

definition run_gh :: "bool \<Rightarrow> json option \<Rightarrow> attestation_error + json" where
  "run_gh bundle_is_file out =
     bindE (raiseIf (\<not> bundle_is_file) BundleMissing) (\<lambda>_.
     case out of None \<Rightarrow> Inl VerifierFailed | Some j \<Rightarrow> Inr j)"

text \<open>The evidence entries of a receipt that satisfies the receipt schema.\<close>

definition evidence_items :: "jobject \<Rightarrow> (string \<times> string) list" where
  "evidence_items receipt = (case dict_get receipt ''evidence'' of
      Some (JArr js) \<Rightarrow> concat (map (\<lambda>j. case j of
          JObj d \<Rightarrow> (case (result_str d ''path'', result_str d ''sha256'') of
              (Some p, Some h) \<Rightarrow> [(p, h)] | _ \<Rightarrow> [])
        | _ \<Rightarrow> []) js)
    | _ \<Rightarrow> [])"

fun check_evidence ::
    "(string \<Rightarrow> string) \<Rightarrow> evidence_tree \<Rightarrow> (string \<times> string) list \<Rightarrow> attestation_error + unit" where
  "check_evidence sha tree [] = Inr ()"
| "check_evidence sha tree ((path, hash) # items) =
     bindE (safe_evidence tree path) (\<lambda>parts.
     bindE (raiseIf (sha (file_bytes tree parts) \<noteq> hash) (EvidenceHashMismatch path)) (\<lambda>_.
     check_evidence sha tree items))"

text \<open>
  A non-string field never equals a policy field. A non-string ref makes \<^verbatim>\<open>fnmatch\<close> raise; it
  is reported as an untrusted ref.
\<close>

definition verify_attestation ::
    "contract_env \<Rightarrow> string \<Rightarrow> string \<Rightarrow> policy \<Rightarrow> evidence_tree \<Rightarrow> attestation_error + json
      \<Rightarrow> attestation_error + verified_receipt" where
  "verify_attestation env receipt_path receipt_bytes pol tree verifier_output =
     bindE (bindE verifier_output normalized_verification) (\<lambda>res.
     bindE (raiseIf (dict_get res ''verified'' \<noteq> Some (JBool True)) NotVerified) (\<lambda>_.
     bindE (raiseIf (dict_get res ''envelope_present'' \<noteq> Some (JBool True)) EnvelopeMissing) (\<lambda>_.
     (let actual_digest = sha256_hex (receipt_services env) receipt_bytes in
      bindE (raiseIf (dict_get res ''subject_sha256'' \<noteq> Some (JStr actual_digest)) DigestMismatch) (\<lambda>_.
      bindE (raiseIf (dict_get res ''repository'' \<noteq> Some (JStr (pol_repository pol)))
               (Untrusted ''repository'')) (\<lambda>_.
      bindE (raiseIf (dict_get res ''workflow'' \<noteq> Some (JStr (pol_workflow pol)))
               (Untrusted ''workflow'')) (\<lambda>_.
      bindE (raiseIf (dict_get res ''issuer'' \<noteq> Some (JStr (pol_issuer pol)))
               (Untrusted ''issuer'')) (\<lambda>_.
      (case result_str res ''ref'' of
         None \<Rightarrow> Inl UntrustedRef
       | Some ref \<Rightarrow>
           bindE (raiseIf (\<not> list_ex (\<lambda>pattern. fnmatch pattern ref) (pol_refs pol)) UntrustedRef) (\<lambda>_.
           bindE (case load_contract env receipt_path ''receipt'' of
                    Inl e \<Rightarrow> Inl (ContractFailed e) | Inr d \<Rightarrow> Inr d) (\<lambda>receipt.
           bindE (check_evidence (sha256_hex (receipt_services env)) tree (evidence_items receipt)) (\<lambda>_.
           bindE (raiseIf (pol_proven_by_dsse pol \<noteq> JBool False) UnsupportedProof) (\<lambda>_.
           Inr \<lparr>vr_receipt = receipt, vr_repository = pol_repository pol,
                vr_workflow = pol_workflow pol, vr_ref = ref, vr_subject_sha256 = actual_digest,
                vr_runner_source = pol_enforcement pol\<rparr>)))))))))))))"

subsection \<open>Strict decoding\<close>

fun unique_names :: "json \<Rightarrow> bool" where
  "unique_names (JObj d) = (distinct (map fst d) \<and> list_all (\<lambda>kv. unique_names (snd kv)) d)"
| "unique_names (JArr js) = list_all unique_names js"
| "unique_names _ = True"

lemma unique_object_items: "unique_object ps acc = Inr d \<Longrightarrow> d = acc @ ps"
  by (induction ps acc rule: unique_object.induct) (auto simp: bindE_eq_Inr)

lemma unique_object_distinct:
  "unique_object ps acc = Inr d \<Longrightarrow> distinct (map fst acc) \<Longrightarrow> distinct (map fst d)"
  by (induction ps acc rule: unique_object.induct) (auto simp: bindE_eq_Inr dict_keys_def)

lemma decode_unique:
  "decode r = Inr j \<Longrightarrow> unique_names j"
  "decode_items rs = Inr js \<Longrightarrow> list_all unique_names js"
  "decode_pairs ps = Inr kvs \<Longrightarrow> list_all (\<lambda>kv. unique_names (snd kv)) kvs"
proof (induction r and rs and ps arbitrary: j and js and kvs rule: decode_decode_items_decode_pairs.induct)
  case (9 ps)
  then show ?case by (fastforce simp: bindE_eq_Inr dest: unique_object_items unique_object_distinct)
qed (auto simp: bindE_eq_Inr)

lemma as_contract_eq_Inr: "as_contract w m = Inr x \<longleftrightarrow> m = Inr x"
  by (simp add: as_contract_def split: sum.splits)

lemma load_receipt_verified:
  assumes "load_contract env path ''receipt'' = Inr d"
  shows "verify_receipt (receipt_services env) (JObj d) = Inr d" and "unique_names (JObj d)"
proof -
  from assms obtain payload where p: "read_json env path = Inr payload" "payload = JObj d"
    and v: "\<exists>x. verify_receipt (receipt_services env) payload = Inr x"
    by (auto simp: load_contract_def bindE_eq_Inr as_contract_eq_Inr split: option.splits json.splits)
  from v p(2) show "verify_receipt (receipt_services env) (JObj d) = Inr d"
    by (auto simp: verify_receipt_eq_Inr)
  from p show "unique_names (JObj d)"
    using decode_unique(1) by (auto simp: read_json_def split: option.splits simp del: unique_names.simps)
qed

lemma check_evidence_eq_Inr:
  "check_evidence sha tree items = Inr () \<longleftrightarrow>
     list_all (\<lambda>(p, h). \<not> is_absolute p \<and> ''..'' \<notin> set (posix_parts p)
       \<and> is_file tree (posix_parts p) \<and> \<not> is_symlink tree (posix_parts p)
       \<and> sha (file_bytes tree (posix_parts p)) = h) items"
  by (induction items) (auto simp: bindE_eq_Inr safe_evidence_def)

subsection \<open>Properties\<close>

lemma strip_prefix_eq_Some: "strip_prefix p s = Some r \<longleftrightarrow> s = p @ r"
  by (auto simp: strip_prefix_def prefix_def)

lemma span_slash:
  "CHR ''/'' \<notin> set a \<Longrightarrow> takeWhile not_slash (a @ CHR ''/'' # r) = a"
  "CHR ''/'' \<notin> set a \<Longrightarrow> dropWhile not_slash (a @ CHR ''/'' # r) = CHR ''/'' # r"
  by (induction a) (auto simp: not_slash_def)

lemma span_at:
  "CHR ''@'' \<notin> set a \<Longrightarrow> takeWhile not_at (a @ CHR ''@'' # r) = a"
  "CHR ''@'' \<notin> set a \<Longrightarrow> dropWhile not_at (a @ CHR ''@'' # r) = CHR ''@'' # r"
  by (induction a) (auto simp: not_at_def)

lemma strip_prefix_append: "strip_prefix p (p @ r) = Some r"
  by (simp add: strip_prefix_eq_Some)

text \<open>
  The certificate identity is parsed exactly: it is accepted when it consists of the GitHub
  prefix, an owner and a repository name, a workflow file and a ref, and the three groups are
  those parts of the text.
\<close>

theorem match_identity_exact:
  "match_identity s = Some (repo, workflow, ref) \<longleftrightarrow>
    (\<exists>owner name file rest. owner \<noteq> [] \<and> name \<noteq> [] \<and> file \<noteq> [] \<and> rest \<noteq> []
       \<and> CHR ''/'' \<notin> set owner \<and> CHR ''/'' \<notin> set name \<and> CHR ''@'' \<notin> set file \<and> CHR 0x0A \<notin> set rest
       \<and> repo = owner @ ''/'' @ name \<and> workflow = ''.github/workflows/'' @ file \<and> ref = ''refs/'' @ rest
       \<and> s = ''https://github.com/'' @ repo @ ''/'' @ workflow @ ''@'' @ ref)"
    (is "?L \<longleftrightarrow> ?R")
proof
  assume ?L
  then obtain r r3 r4 where r: "s = ''https://github.com/'' @ r"
    and o: "takeWhile not_slash r \<noteq> []" "dropWhile not_slash r \<noteq> []"
    and n: "takeWhile not_slash (tl (dropWhile not_slash r)) \<noteq> []"
    and r3: "dropWhile not_slash (tl (dropWhile not_slash r)) = ''/.github/workflows/'' @ r3"
    and fl: "takeWhile not_at r3 \<noteq> []" and r4: "dropWhile not_at r3 = ''@refs/'' @ r4"
    and rest: "r4 \<noteq> []" "CHR 0x0A \<notin> set r4"
    and eqs: "repo = takeWhile not_slash r @ ''/'' @ takeWhile not_slash (tl (dropWhile not_slash r))"
      "workflow = ''.github/workflows/'' @ takeWhile not_at r3" "ref = ''refs/'' @ r4"
    by (auto simp: match_identity_def Let_def bind_eq_Some_conv strip_prefix_eq_Some split: if_splits)
  obtain c t where ct: "dropWhile not_slash r = c # t" using o(2) by (cases "dropWhile not_slash r") auto
  then have "c = CHR ''/''" using hd_dropWhile [of not_slash r] by (simp add: not_slash_def)
  obtain ow nm fi where parts: "takeWhile not_slash r = ow" "takeWhile not_slash t = nm"
    "takeWhile not_at r3 = fi" by simp
  have "r = ow @ ''/'' @ t" using ct parts(1) \<open>c = CHR ''/''\<close>
    by (metis append_Cons append_Nil takeWhile_dropWhile_id)
  moreover have "t = nm @ ''/.github/workflows/'' @ r3"
    using r3 ct parts(2) by (metis list.sel(3) takeWhile_dropWhile_id)
  moreover have "r3 = fi @ ''@refs/'' @ r4" using r4 parts(3) by (metis takeWhile_dropWhile_id)
  moreover have "repo = ow @ ''/'' @ nm" "workflow = ''.github/workflows/'' @ fi" "nm \<noteq> []"
    "ow \<noteq> []" "fi \<noteq> []"
    using eqs parts ct n o(1) fl by simp_all
  moreover have "CHR ''/'' \<notin> set ow" "CHR ''/'' \<notin> set nm" "CHR ''@'' \<notin> set fi"
    unfolding parts [symmetric] by (auto simp: not_slash_def not_at_def dest: set_takeWhileD)
  ultimately show ?R
    using r rest eqs(3)
    by (intro exI [of _ ow] exI [of _ nm] exI [of _ fi] exI [of _ r4]) simp
next
  assume ?R
  then obtain ow nm fi r4 where parts: "ow \<noteq> []" "nm \<noteq> []" "fi \<noteq> []" "r4 \<noteq> []" "CHR ''/'' \<notin> set ow"
    "CHR ''/'' \<notin> set nm" "CHR ''@'' \<notin> set fi" "CHR 0x0A \<notin> set r4" "repo = ow @ ''/'' @ nm"
    "workflow = ''.github/workflows/'' @ fi" "ref = ''refs/'' @ r4"
    and s: "s = ''https://github.com/'' @ ow @ CHR ''/'' # nm @ CHR ''/'' # tl ''/.github/workflows/'' @ fi
        @ CHR ''@'' # tl ''@refs/'' @ r4"
    by auto
  obtain w v where wv: "tl ''/.github/workflows/'' = w" "tl ''@refs/'' = v" by simp
  have "strip_prefix ''/.github/workflows/'' (CHR ''/'' # w @ x) = Some x" for x
    using strip_prefix_append [of "''/.github/workflows/''" x] unfolding wv [symmetric] by simp
  moreover have "strip_prefix ''@refs/'' (CHR ''@'' # v @ x) = Some x" for x
    using strip_prefix_append [of "''@refs/''" x] unfolding wv [symmetric] by simp
  ultimately show ?L
    unfolding match_identity_def s strip_prefix_append bind.bind_lunit wv
    using parts by (simp add: span_slash span_at Let_def)
qed


subsection \<open>Witness\<close>

fun raw_of :: "json \<Rightarrow> raw" where
  "raw_of (JObj d) = RObj (map (\<lambda>kv. (fst kv, raw_of (snd kv))) d)"
| "raw_of (JArr js) = RArr (map raw_of js)"
| "raw_of (JStr s) = RStr s"
| "raw_of (JBool b) = RBool b"
| "raw_of (JInt n) = RInt n"
| "raw_of (JFloat x) = RFloat x"
| "raw_of (JNonFinite k) = ROverflow (k = NegInf)"
| "raw_of JNull = RNull"

definition sample_evidence_body :: jobject where
  "sample_evidence_body = dict_set ''evidence''
     (JArr [JObj [(''path'', JStr ''logs/a.json''), (''sha256'', JStr (replicate 64 CHR ''a''))]]) sample_stored"

definition sample_contract_env :: contract_env where
  "sample_contract_env = \<lparr>receipt_services = sample_env,
     document = (\<lambda>p. if p = ''r.json'' then Some (raw_of (JObj sample_evidence_body)) else Some (RObj [])),
     check_schema = (\<lambda>_. True), iter_errors = (\<lambda>_ _. [])\<rparr>"

definition sample_policy :: policy where
  "sample_policy = \<lparr>pol_repository = ''o/n'', pol_workflow = ''.github/workflows/attest-evidence.yml'',
     pol_issuer = ''https://token.actions.githubusercontent.com'',
     pol_refs = [''refs/heads/main'', ''refs/tags/v*''], pol_enforcement = ''committed-workflow-policy'',
     pol_proven_by_dsse = JBool False\<rparr>"

definition sample_tree :: evidence_tree where
  "sample_tree = \<lparr>is_file = (\<lambda>p. p = [''logs'', ''a.json'']), is_symlink = (\<lambda>_. False),
     file_bytes = (\<lambda>_. [])\<rparr>"

text \<open>The shape of the GitHub verifier's output, for a tag of the trusted workflow.\<close>

definition sample_output :: json where
  "sample_output = JArr [JObj [
     (''verificationResult'', JObj [
        (''signature'', JObj [(''certificate'', JObj [(''subjectAlternativeName'',
            JStr ''https://github.com/o/n/.github/workflows/attest-evidence.yml@refs/tags/v1'')])]),
        (''statement'', JObj [(''subject'', JArr [JObj [(''digest'',
            JObj [(''sha256'', JStr (replicate 64 CHR ''a''))])]])])]),
     (''attestation'', JObj [(''bundle'', JObj [(''x'', JNull)])])]]"

definition sample_verified :: verified_receipt where
  "sample_verified = \<lparr>vr_receipt = sample_evidence_body, vr_repository = ''o/n'',
     vr_workflow = ''.github/workflows/attest-evidence.yml'', vr_ref = ''refs/tags/v1'',
     vr_subject_sha256 = replicate 64 CHR ''a'', vr_runner_source = ''committed-workflow-policy''\<rparr>"

lemma sample_load: "load_contract sample_contract_env ''r.json'' ''receipt'' = Inr sample_evidence_body"
proof -
  have d: "decode (raw_of (JObj sample_evidence_body)) = Inr (JObj sample_evidence_body)" by code_simp
  have v: "verify_receipt sample_env (JObj sample_evidence_body) = Inr sample_evidence_body" by code_simp
  then have c: "validate_receipt_content sample_evidence_body = Inr ()"
    by (simp add: verify_receipt_eq_Inr)
  have k: "dict_get SCHEMA_PATHS ''receipt'' = Some ''schemas/receipt.schema.json''" by code_simp
  show ?thesis
    using d v c unfolding load_contract_def k
    by (simp add: read_json_def sample_contract_env_def as_contract_def del: raw_of.simps)
qed


end
