(* ===== verification/KVCacheSpec.thy ===== *)
theory KVCacheSpec
  imports Prelude
begin

text \<open>
  The KV-cache layouts of \<^verbatim>\<open>vllm/v1/kv_cache_interface.py\<close> and the packed NVFP4 layout of
  \<^verbatim>\<open>vllm/utils/torch_utils.py\<close>. Every spec class is a record that extends the record of its
  base class; a spec is a value of the datatype \<open>spec\<close>, one constructor per class. An assertion
  or exception of the source is a value of \<open>kv_error\<close>. The integer helpers \<open>cdiv\<close> and
  \<open>round_up\<close>, torch's element sizes and the class registry are not in the repository: they are
  the fields of \<open>kv_env\<close>.
\<close>

subsection \<open>Quantization modes\<close>

datatype KVQuantMode =
    NONE
  | FP8_PER_TENSOR
  | INT8_PER_TOKEN_HEAD
  | FP8_PER_TOKEN_HEAD
  | INT4_PER_TOKEN_HEAD
  | NVFP4
  | TURBOQUANT

definition is_per_token_head :: "KVQuantMode \<Rightarrow> bool" where
  "is_per_token_head m \<longleftrightarrow> m \<in> {INT8_PER_TOKEN_HEAD, FP8_PER_TOKEN_HEAD, INT4_PER_TOKEN_HEAD}"

definition get_kv_quant_mode :: "string \<Rightarrow> KVQuantMode" where
  "get_kv_quant_mode s =
     (if s = ''int4_per_token_head'' then INT4_PER_TOKEN_HEAD
      else if s = ''int8_per_token_head'' then INT8_PER_TOKEN_HEAD
      else if s = ''fp8_per_token_head'' then FP8_PER_TOKEN_HEAD
      else if s = ''nvfp4'' \<or> s = ''nvfp4_ds_mla'' then NVFP4
      else if prefix ''turboquant_'' s then TURBOQUANT
      else if prefix ''fp8'' s then FP8_PER_TENSOR
      else NONE)"

definition is_quantized_kv_cache :: "string \<Rightarrow> bool" where
  "is_quantized_kv_cache s \<longleftrightarrow> get_kv_quant_mode s \<noteq> NONE"

definition kv_cache_uses_per_token_head_scales :: "string \<Rightarrow> bool" where
  "kv_cache_uses_per_token_head_scales s \<longleftrightarrow> is_per_token_head (get_kv_quant_mode s)"

definition nvfp4_kv_cache_full_dim :: "int \<Rightarrow> int" where
  "nvfp4_kv_cache_full_dim head_size = head_size div 2 + head_size div 16"

subsection \<open>Spec records\<close>

type_synonym dtype = string

record attention_spec =
  block_size :: int
  num_kv_heads :: int
  head_size :: int
  dtype :: dtype
  kv_quant_mode :: KVQuantMode
  page_size_padded :: "int option"
  indexes_kv_by_block_stride :: bool

record full_spec = attention_spec +
  head_size_v :: "int option"
  sliding_window :: "int option"
  attention_chunk_size :: "int option"
  non_causal :: bool

record tq_spec = full_spec +
  tq_slot_size :: int

record mla_spec = full_spec +
  cache_dtype_str :: "string option"
  alignment :: "int option"
  compress_ratio :: int
  model_version :: "string option"
  non_causal_multi_token_decode :: bool

record rswa_spec = full_spec +
  rswa_window :: int

record sink_spec = full_spec +
  sink_len :: "int option"

record chunked_spec = attention_spec +
  chunk_size :: int

record sliding_spec = attention_spec +
  window :: int
  sw_head_size_v :: "int option"

record sliding_mla_spec = sliding_spec +
  sm_cache_dtype_str :: "string option"
  sm_alignment :: "int option"
  sm_compress_ratio :: int
  sm_model_version :: "string option"

record mamba_spec =
  mb_block_size :: int
  shapes :: "int list list"
  dtypes :: "dtype list"
  mb_page_size_padded :: "int option"
  num_speculative_blocks :: int

datatype spec =
    AttentionSpec attention_spec
  | FullAttentionSpec full_spec
  | TQFullAttentionSpec tq_spec
  | MLAAttentionSpec mla_spec
  | HiddenStateCacheSpec mla_spec
  | RSWASpec rswa_spec
  | SinkFullAttentionSpec sink_spec
  | ChunkedLocalAttentionSpec chunked_spec
  | SlidingWindowSpec sliding_spec
  | SlidingWindowMLASpec sliding_mla_spec
  | MambaSpec mamba_spec
  | EncoderOnlyAttentionSpec attention_spec
  | CrossAttentionSpec attention_spec

text \<open>The classes and, by recursion along the base classes, \<^verbatim>\<open>isinstance\<close>.\<close>

datatype spec_class =
    CKVCache | CAttention | CFull | CTQFull | CMLA | CHidden | CRSWA | CSinkFull | CChunked
  | CSliding | CSlidingMLA | CMamba | CEncoderOnly | CCross | CUniform

fun class_of :: "spec \<Rightarrow> spec_class" where
  "class_of (AttentionSpec _) = CAttention"
| "class_of (FullAttentionSpec _) = CFull"
| "class_of (TQFullAttentionSpec _) = CTQFull"
| "class_of (MLAAttentionSpec _) = CMLA"
| "class_of (HiddenStateCacheSpec _) = CHidden"
| "class_of (RSWASpec _) = CRSWA"
| "class_of (SinkFullAttentionSpec _) = CSinkFull"
| "class_of (ChunkedLocalAttentionSpec _) = CChunked"
| "class_of (SlidingWindowSpec _) = CSliding"
| "class_of (SlidingWindowMLASpec _) = CSlidingMLA"
| "class_of (MambaSpec _) = CMamba"
| "class_of (EncoderOnlyAttentionSpec _) = CEncoderOnly"
| "class_of (CrossAttentionSpec _) = CCross"

definition bases :: "spec_class \<Rightarrow> spec_class list" where
  "bases c = (case c of
      CKVCache \<Rightarrow> [CKVCache]
    | CAttention \<Rightarrow> [CAttention, CKVCache]
    | CFull \<Rightarrow> [CFull, CAttention, CKVCache]
    | CTQFull \<Rightarrow> [CTQFull, CFull, CAttention, CKVCache]
    | CMLA \<Rightarrow> [CMLA, CFull, CAttention, CKVCache]
    | CHidden \<Rightarrow> [CHidden, CMLA, CFull, CAttention, CKVCache]
    | CRSWA \<Rightarrow> [CRSWA, CFull, CAttention, CKVCache]
    | CSinkFull \<Rightarrow> [CSinkFull, CFull, CAttention, CKVCache]
    | CChunked \<Rightarrow> [CChunked, CAttention, CKVCache]
    | CSliding \<Rightarrow> [CSliding, CAttention, CKVCache]
    | CSlidingMLA \<Rightarrow> [CSlidingMLA, CSliding, CAttention, CKVCache]
    | CMamba \<Rightarrow> [CMamba, CKVCache]
    | CEncoderOnly \<Rightarrow> [CEncoderOnly, CAttention, CKVCache]
    | CCross \<Rightarrow> [CCross, CAttention, CKVCache]
    | CUniform \<Rightarrow> [CUniform, CKVCache])"

definition isinstance :: "spec \<Rightarrow> spec_class \<Rightarrow> bool" where
  "isinstance s c \<longleftrightarrow> c \<in> set (bases (class_of s))"

text \<open>The \<open>AttentionSpec\<close> fields of a spec and the \<open>FullAttentionSpec\<close> fields, where it has them.\<close>

fun as_attention :: "spec \<Rightarrow> attention_spec option" where
  "as_attention (AttentionSpec a) = Some a"
| "as_attention (FullAttentionSpec a) = Some (attention_spec.truncate a)"
| "as_attention (TQFullAttentionSpec a) = Some (attention_spec.truncate a)"
| "as_attention (MLAAttentionSpec a) = Some (attention_spec.truncate a)"
| "as_attention (HiddenStateCacheSpec a) = Some (attention_spec.truncate a)"
| "as_attention (RSWASpec a) = Some (attention_spec.truncate a)"
| "as_attention (SinkFullAttentionSpec a) = Some (attention_spec.truncate a)"
| "as_attention (ChunkedLocalAttentionSpec a) = Some (attention_spec.truncate a)"
| "as_attention (SlidingWindowSpec a) = Some (attention_spec.truncate a)"
| "as_attention (SlidingWindowMLASpec a) = Some (attention_spec.truncate a)"
| "as_attention (MambaSpec m) = None"
| "as_attention (EncoderOnlyAttentionSpec a) = Some a"
| "as_attention (CrossAttentionSpec a) = Some a"

fun as_full :: "spec \<Rightarrow> full_spec option" where
  "as_full (FullAttentionSpec a) = Some a"
| "as_full (TQFullAttentionSpec a) = Some (full_spec.truncate a)"
| "as_full (MLAAttentionSpec a) = Some (full_spec.truncate a)"
| "as_full (HiddenStateCacheSpec a) = Some (full_spec.truncate a)"
| "as_full (RSWASpec a) = Some (full_spec.truncate a)"
| "as_full (SinkFullAttentionSpec a) = Some (full_spec.truncate a)"
| "as_full _ = None"

fun spec_block_size :: "spec \<Rightarrow> int" where
  "spec_block_size (MambaSpec m) = mb_block_size m"
| "spec_block_size s = (case as_attention s of Some a \<Rightarrow> block_size a | None \<Rightarrow> 0)"

subsection \<open>Environment and errors\<close>

record kv_env =
  cdiv :: "int \<Rightarrow> int \<Rightarrow> int"
  round_up :: "int \<Rightarrow> int \<Rightarrow> int"
  get_dtype_size :: "dtype \<Rightarrow> int"
  uniform_type_base_spec :: "spec_class \<Rightarrow> spec_class option"

record vllm_config =
  max_model_len :: int
  decode_context_parallel_size :: int
  max_in_flight_tokens :: int
  mamba_cache_mode :: string
  max_num_encoder_input_tokens :: int

datatype kv_error =
    PaddedTooSmall
  | HeadSizeUnset
  | UnsupportedModelVersion
  | NotImplemented
  | NotSameClass
  | MLANotAllowed
  | WindowSizesDiffer
  | AttentionFieldsDiffer
  | WindowAndChunk
  | TQSlotsDiffer
  | LayoutDiffers
  | RSWAWindowsDiffer
  | SpecsDiffer
  | NoSpecs
  | DCPWithSlidingWindow
  | UnregisteredSpec

subsection \<open>Page sizes\<close>

definition head_v :: "int option \<Rightarrow> kv_error + int" where
  "head_v v = (case v of None \<Rightarrow> Inl HeadSizeUnset | Some n \<Rightarrow> Inr n)"

definition attention_real_page_size :: "kv_env \<Rightarrow> 'a attention_spec_scheme \<Rightarrow> int" where
  "attention_real_page_size env s =
     (let head_dim =
        (if kv_quant_mode s = NVFP4 then nvfp4_kv_cache_full_dim (head_size s)
         else if kv_quant_mode s = INT4_PER_TOKEN_HEAD then head_size s div 2
         else head_size s)
      in 2 * block_size s * num_kv_heads s * head_dim * get_dtype_size env (dtype s))"

definition full_real_page_size :: "kv_env \<Rightarrow> 'a full_spec_scheme \<Rightarrow> kv_error + int" where
  "full_real_page_size env s =
     bindE (head_v (head_size_v s)) (\<lambda>hv.
     (let last_dim =
        (if kv_quant_mode s = NVFP4
         then nvfp4_kv_cache_full_dim (head_size s) + nvfp4_kv_cache_full_dim hv
         else if kv_quant_mode s = INT4_PER_TOKEN_HEAD then head_size s div 2 + hv div 2
         else head_size s + hv)
      in Inr (block_size s * num_kv_heads s * last_dim * get_dtype_size env (dtype s))))"

definition tq_real_page_size :: "kv_env \<Rightarrow> tq_spec \<Rightarrow> kv_error + int" where
  "tq_real_page_size env s =
     (if tq_slot_size s > 0 then Inr (block_size s * num_kv_heads s * tq_slot_size s)
      else full_real_page_size env s)"

definition mla_storage_block_size :: "mla_spec \<Rightarrow> int" where
  "mla_storage_block_size s = block_size s div compress_ratio s"

definition mla_real_page_size :: "kv_env \<Rightarrow> mla_spec \<Rightarrow> int" where
  "mla_real_page_size env s =
     (if cache_dtype_str s = Some ''nvfp4_ds_mla'' then block_size s * 368
      else if cache_dtype_str s = Some ''fp8_ds_mla'' then
        (if model_version s = Some ''deepseek_v4'' then mla_storage_block_size s * 584
         else block_size s * 656)
      else
        (let head_dim = (if kv_quant_mode s = INT4_PER_TOKEN_HEAD then head_size s div 2 else head_size s)
         in mla_storage_block_size s * num_kv_heads s * head_dim * get_dtype_size env (dtype s)))"

definition sliding_real_page_size :: "kv_env \<Rightarrow> 'a sliding_spec_scheme \<Rightarrow> kv_error + int" where
  "sliding_real_page_size env s =
     bindE (head_v (sw_head_size_v s)) (\<lambda>hv.
     (let last_dim =
        (if kv_quant_mode s = NVFP4
         then nvfp4_kv_cache_full_dim (head_size s) + nvfp4_kv_cache_full_dim hv
         else head_size s + hv)
      in Inr (block_size s * num_kv_heads s * last_dim * get_dtype_size env (dtype s))))"

definition sm_storage_block_size :: "sliding_mla_spec \<Rightarrow> int" where
  "sm_storage_block_size s = block_size s div sm_compress_ratio s"

definition sliding_mla_real_page_size :: "kv_env \<Rightarrow> sliding_mla_spec \<Rightarrow> kv_error + int" where
  "sliding_mla_real_page_size env s =
     (if sm_cache_dtype_str s = Some ''nvfp4_ds_mla'' then Inr (sm_storage_block_size s * 368)
      else if sm_model_version s = Some ''deepseek_v4'' \<and> sm_cache_dtype_str s = Some ''fp8_ds_mla''
        then Inr (sm_storage_block_size s * 584)
      else bindE (raiseIf (sm_model_version s \<notin> {None, Some ''deepseek_v4''}) UnsupportedModelVersion)
        (\<lambda>_. Inr (sm_storage_block_size s * num_kv_heads s * head_size s * get_dtype_size env (dtype s))))"

fun real_page_size_bytes :: "kv_env \<Rightarrow> spec \<Rightarrow> kv_error + int" where
  "real_page_size_bytes env (FullAttentionSpec s) = full_real_page_size env s"
| "real_page_size_bytes env (TQFullAttentionSpec s) = tq_real_page_size env s"
| "real_page_size_bytes env (MLAAttentionSpec s) = Inr (mla_real_page_size env s)"
| "real_page_size_bytes env (HiddenStateCacheSpec s) = Inr (mla_real_page_size env s)"
| "real_page_size_bytes env (RSWASpec s) = full_real_page_size env s"
| "real_page_size_bytes env (SinkFullAttentionSpec s) = full_real_page_size env s"
| "real_page_size_bytes env (SlidingWindowSpec s) = sliding_real_page_size env s"
| "real_page_size_bytes env (SlidingWindowMLASpec s) = sliding_mla_real_page_size env s"
| "real_page_size_bytes env s =
     (case as_attention s of Some a \<Rightarrow> Inr (attention_real_page_size env a) | None \<Rightarrow> Inl NotImplemented)"

text \<open>\<^verbatim>\<open>unpadded_page_size_bytes\<close> budgets the per-token-head scales.\<close>

definition scale_bytes :: "kv_env \<Rightarrow> attention_spec \<Rightarrow> int" where
  "scale_bytes env a =
     (if is_per_token_head (kv_quant_mode a)
      then 2 * block_size a * num_kv_heads a * get_dtype_size env ''float32'' else 0)"

definition unpadded_page_size_bytes :: "kv_env \<Rightarrow> spec \<Rightarrow> kv_error + int" where
  "unpadded_page_size_bytes env s =
     bindE (real_page_size_bytes env s) (\<lambda>real.
     Inr (real + (case as_attention s of Some a \<Rightarrow> scale_bytes env a | None \<Rightarrow> 0)))"

definition mamba_page_size :: "kv_env \<Rightarrow> mamba_spec \<Rightarrow> kv_error + int" where
  "mamba_page_size env m =
     (let page_size = sum_list (map (\<lambda>(shape, d). prod_list shape * get_dtype_size env d)
                        (zip (shapes m) (dtypes m))) in
      case mb_page_size_padded m of
        None \<Rightarrow> Inr page_size
      | Some padded \<Rightarrow> bindE (raiseIf (padded < page_size) PaddedTooSmall) (\<lambda>_. Inr padded))"

definition page_size_bytes :: "kv_env \<Rightarrow> spec \<Rightarrow> kv_error + int" where
  "page_size_bytes env s = (case s of
      MambaSpec m \<Rightarrow> mamba_page_size env m
    | _ \<Rightarrow>
       (case as_attention s of
          None \<Rightarrow> Inl NotImplemented
        | Some a \<Rightarrow>
            bindE (unpadded_page_size_bytes env s) (\<lambda>unpadded.
            (case page_size_padded a of
               None \<Rightarrow> Inr unpadded
             | Some padded \<Rightarrow>
                 bindE (raiseIf (padded < unpadded) PaddedTooSmall) (\<lambda>_. Inr padded)))))"

subsection \<open>Construction\<close>

text \<open>
  The \<^verbatim>\<open>__post_init__\<close> hooks: a full or sliding-window spec without a value head size takes the
  key head size; MLA specs are padded to their alignment. A padding that changes nothing is not
  stored, which leaves the field as it was given.
\<close>

definition full_post_init :: "'a full_spec_scheme \<Rightarrow> 'a full_spec_scheme" where
  "full_post_init s = (if head_size_v s = None then s\<lparr>head_size_v := Some (head_size s)\<rparr> else s)"

definition apply_alignment_padding ::
    "kv_env \<Rightarrow> int option \<Rightarrow> int \<Rightarrow> 'a attention_spec_scheme \<Rightarrow> 'a attention_spec_scheme" where
  "apply_alignment_padding env align actual_page_size s =
     (case align of
        None \<Rightarrow> s
      | Some a \<Rightarrow>
          (let padded = round_up env actual_page_size a in
           if padded \<noteq> actual_page_size then s\<lparr>page_size_padded := Some padded\<rparr> else s))"

definition mla_post_init :: "kv_env \<Rightarrow> mla_spec \<Rightarrow> mla_spec" where
  "mla_post_init env s =
     (let t = full_post_init s in apply_alignment_padding env (alignment t) (mla_real_page_size env t) t)"

definition sliding_post_init :: "sliding_spec \<Rightarrow> sliding_spec" where
  "sliding_post_init s =
     (if sw_head_size_v s = None then s\<lparr>sw_head_size_v := Some (head_size s)\<rparr> else s)"

definition sliding_mla_post_init :: "kv_env \<Rightarrow> sliding_mla_spec \<Rightarrow> kv_error + sliding_mla_spec" where
  "sliding_mla_post_init env s =
     (case sm_alignment s of
        None \<Rightarrow> Inr s
      | Some a \<Rightarrow> bindE (sliding_mla_real_page_size env s) (\<lambda>actual.
          Inr (apply_alignment_padding env (Some a) actual s)))"

text \<open>\<^verbatim>\<open>copy_with_new_block_size\<close> is \<^verbatim>\<open>dataclasses.replace\<close>: all other fields are passed to the
  constructor again, so the hooks run on the old padding.\<close>

fun copy_with_new_block_size :: "kv_env \<Rightarrow> spec \<Rightarrow> int \<Rightarrow> kv_error + spec" where
  "copy_with_new_block_size env (AttentionSpec s) n = Inr (AttentionSpec (s\<lparr>block_size := n\<rparr>))"
| "copy_with_new_block_size env (FullAttentionSpec s) n =
     Inr (FullAttentionSpec (full_post_init (s\<lparr>block_size := n\<rparr>)))"
| "copy_with_new_block_size env (TQFullAttentionSpec s) n =
     Inr (TQFullAttentionSpec (full_post_init (s\<lparr>block_size := n\<rparr>)))"
| "copy_with_new_block_size env (MLAAttentionSpec s) n =
     Inr (MLAAttentionSpec (mla_post_init env (s\<lparr>block_size := n\<rparr>)))"
| "copy_with_new_block_size env (HiddenStateCacheSpec s) n =
     Inr (HiddenStateCacheSpec (mla_post_init env (s\<lparr>block_size := n\<rparr>)))"
| "copy_with_new_block_size env (RSWASpec s) n = Inr (RSWASpec (full_post_init (s\<lparr>block_size := n\<rparr>)))"
| "copy_with_new_block_size env (SinkFullAttentionSpec s) n =
     Inr (SinkFullAttentionSpec (full_post_init (s\<lparr>block_size := n\<rparr>)))"
| "copy_with_new_block_size env (ChunkedLocalAttentionSpec s) n =
     Inr (ChunkedLocalAttentionSpec (s\<lparr>block_size := n\<rparr>))"
| "copy_with_new_block_size env (SlidingWindowSpec s) n =
     Inr (SlidingWindowSpec (sliding_post_init (s\<lparr>block_size := n\<rparr>)))"
| "copy_with_new_block_size env (SlidingWindowMLASpec s) n =
     bindE (sliding_mla_post_init env (s\<lparr>block_size := n\<rparr>)) (\<lambda>t. Inr (SlidingWindowMLASpec t))"
| "copy_with_new_block_size env (MambaSpec m) n = Inr (MambaSpec (m\<lparr>mb_block_size := n\<rparr>))"
| "copy_with_new_block_size env (EncoderOnlyAttentionSpec s) n =
     Inr (EncoderOnlyAttentionSpec (s\<lparr>block_size := n\<rparr>))"
| "copy_with_new_block_size env (CrossAttentionSpec s) n =
     Inr (CrossAttentionSpec (s\<lparr>block_size := n\<rparr>))"

subsection \<open>Merging the specs of a group\<close>

definition merge_window_sizes :: "int list \<Rightarrow> kv_error + int option" where
  "merge_window_sizes sizes = (case remdups sizes of
      [] \<Rightarrow> Inr None
    | [w] \<Rightarrow> Inr (Some w)
    | _ \<Rightarrow> Inl WindowSizesDiffer)"

definition somes :: "'a option list \<Rightarrow> 'a list" where
  "somes xs = map the (filter (\<lambda>x. x \<noteq> None) xs)"

text \<open>The body shared by \<^verbatim>\<open>FullAttentionSpec.merge\<close> and the copy of it in \<^verbatim>\<open>SinkFullAttentionSpec\<close>,
  on the views of the specs as full-attention specs.\<close>

definition merge_full_fields :: "full_spec list \<Rightarrow> kv_error + full_spec" where
  "merge_full_fields fs =
     bindE (merge_window_sizes (somes (map sliding_window fs))) (\<lambda>sw.
     bindE (merge_window_sizes (somes (map attention_chunk_size fs))) (\<lambda>ac.
     (let merged = full_post_init ((hd fs)\<lparr>sliding_window := sw, attention_chunk_size := ac,
                                     non_causal := list_ex non_causal fs\<rparr>) in
      bindE (raiseIf (\<exists>f \<in> set fs. attention_spec.truncate f \<noteq> attention_spec.truncate merged)
               AttentionFieldsDiffer) (\<lambda>_.
      bindE (raiseIf (sliding_window merged \<noteq> None \<and> attention_chunk_size merged \<noteq> None)
               WindowAndChunk) (\<lambda>_.
      Inr merged)))))"

definition full_views :: "spec list \<Rightarrow> kv_error + full_spec list" where
  "full_views specs =
     bindE (raiseIf (\<exists>s \<in> set specs. \<not> isinstance s CFull) NotSameClass) (\<lambda>_.
     bindE (raiseIf (specs = []) NoSpecs) (\<lambda>_.
     Inr (map (\<lambda>s. the (as_full s)) specs)))"

definition full_merge :: "spec list \<Rightarrow> kv_error + full_spec" where
  "full_merge specs =
     bindE (full_views specs) (\<lambda>fs.
     bindE (raiseIf (\<exists>s \<in> set specs. isinstance s CMLA) MLANotAllowed) (\<lambda>_.
     merge_full_fields fs))"

definition tq_merge :: "tq_spec list \<Rightarrow> kv_error + tq_spec" where
  "tq_merge specs =
     bindE (full_merge (map TQFullAttentionSpec specs)) (\<lambda>merged.
     bindE (raiseIf (\<exists>s \<in> set specs. tq_slot_size s \<noteq> tq_slot_size (hd specs)) TQSlotsDiffer) (\<lambda>_.
     Inr (full_spec.extend merged (tq_spec.fields (tq_slot_size (hd specs))))))"

definition rswa_merge :: "spec list \<Rightarrow> kv_error + rswa_spec" where
  "rswa_merge specs =
     bindE (raiseIf (\<exists>s \<in> set specs. \<not> isinstance s CRSWA) NotSameClass) (\<lambda>_.
     (let windows = remdups (concat (map (\<lambda>s. case s of RSWASpec r \<Rightarrow> [rswa_window r] | _ \<Rightarrow> []) specs)) in
      bindE (raiseIf (length windows \<noteq> 1) RSWAWindowsDiffer) (\<lambda>_.
      bindE (full_merge specs) (\<lambda>base.
      Inr (full_spec.extend (full_post_init base) (rswa_spec.fields (hd windows)))))))"

definition sink_merge :: "sink_spec list \<Rightarrow> kv_error + sink_spec" where
  "sink_merge specs =
     bindE (raiseIf (specs = []) NoSpecs) (\<lambda>_.
     bindE (merge_full_fields (map full_spec.truncate specs)) (\<lambda>merged.
     Inr (full_spec.extend merged (sink_spec.fields (sink_len (hd specs))))))"

definition all_same :: "'a list \<Rightarrow> bool" where
  "all_same xs \<longleftrightarrow> length (remdups xs) = 1"

text \<open>
  \<^verbatim>\<open>MLAAttentionSpec.merge\<close>: the fields it does not pass to the constructor take their defaults
  (value head size, windows, causality, alignment).
\<close>

definition mla_merge :: "kv_env \<Rightarrow> mla_spec list \<Rightarrow> kv_error + mla_spec" where
  "mla_merge env specs =
     bindE (raiseIf (\<not> (all_same (map cache_dtype_str specs) \<and> all_same (map compress_ratio specs)
                         \<and> all_same (map model_version specs)
                         \<and> all_same (map indexes_kv_by_block_stride specs))) LayoutDiffers) (\<lambda>_.
     (let first = hd specs;
          merged = mla_post_init env (first\<lparr>head_size_v := None, sliding_window := None,
            attention_chunk_size := None, non_causal := False, alignment := None,
            non_causal_multi_token_decode := list_ex non_causal_multi_token_decode specs\<rparr>) in
      bindE (raiseIf (\<exists>s \<in> set specs. attention_spec.truncate s \<noteq> attention_spec.truncate merged)
               AttentionFieldsDiffer) (\<lambda>_.
      Inr merged)))"

text \<open>\<^verbatim>\<open>SlidingWindowMLASpec.merge\<close> does not pass the quantization mode and compares no attention field.\<close>

definition sliding_mla_merge :: "kv_env \<Rightarrow> sliding_mla_spec list \<Rightarrow> kv_error + sliding_mla_spec" where
  "sliding_mla_merge env specs =
     bindE (raiseIf (\<not> (all_same (map sm_cache_dtype_str specs) \<and> all_same (map sm_compress_ratio specs)
                         \<and> all_same (map sm_model_version specs) \<and> all_same (map window specs)
                         \<and> all_same (map indexes_kv_by_block_stride specs))) LayoutDiffers) (\<lambda>_.
     sliding_mla_post_init env ((hd specs)\<lparr>kv_quant_mode := NONE, sw_head_size_v := None, sm_alignment := None\<rparr>))"

text \<open>\<^verbatim>\<open>KVCacheSpec.merge\<close>, inherited by the other classes: all specs equal.\<close>

definition base_merge :: "spec list \<Rightarrow> kv_error + spec" where
  "base_merge specs =
     bindE (raiseIf (specs = []) NoSpecs) (\<lambda>_.
     bindE (raiseIf (\<exists>s \<in> set (tl specs). s \<noteq> hd specs) SpecsDiffer) (\<lambda>_.
     Inr (hd specs)))"

subsection \<open>Memory and block-table bounds\<close>

definition chunked_admission_blocks :: "kv_env \<Rightarrow> chunked_spec \<Rightarrow> int \<Rightarrow> int \<Rightarrow> int" where
  "chunked_admission_blocks env s in_flight max_len =
     cdiv env (min (chunk_size s + in_flight) max_len) (block_size s)"

definition sliding_admission_blocks :: "kv_env \<Rightarrow> 'a sliding_spec_scheme \<Rightarrow> int \<Rightarrow> int \<Rightarrow> int" where
  "sliding_admission_blocks env s in_flight max_len =
     cdiv env (min (window s - 1 + in_flight) max_len) (block_size s) + 1"

definition full_max_memory :: "kv_env \<Rightarrow> vllm_config \<Rightarrow> spec \<Rightarrow> int \<Rightarrow> kv_error + int" where
  "full_max_memory env cfg s bs =
     (let dcp = decode_context_parallel_size cfg;
          len = (if dcp > 1 then cdiv env (max_model_len cfg) dcp else max_model_len cfg) in
      bindE (page_size_bytes env s) (\<lambda>page. Inr (cdiv env len bs * page)))"

definition sliding_max_memory ::
    "kv_env \<Rightarrow> vllm_config \<Rightarrow> spec \<Rightarrow> 'a sliding_spec_scheme \<Rightarrow> kv_error + int" where
  "sliding_max_memory env cfg s w =
     bindE (raiseIf (decode_context_parallel_size cfg \<noteq> 1) DCPWithSlidingWindow) (\<lambda>_.
     bindE (page_size_bytes env s) (\<lambda>page.
     Inr (sliding_admission_blocks env w (max_in_flight_tokens cfg) (max_model_len cfg) * page)))"

definition mamba_max_memory :: "kv_env \<Rightarrow> vllm_config \<Rightarrow> mamba_spec \<Rightarrow> kv_error + int" where
  "mamba_max_memory env cfg m =
     bindE (mamba_page_size env m) (\<lambda>page.
     Inr (if mamba_cache_mode cfg = ''all''
          then (cdiv env (max_model_len cfg) (mb_block_size m) + num_speculative_blocks m) * page
          else if mamba_cache_mode cfg = ''align'' then page * (2 + num_speculative_blocks m)
          else page * (1 + num_speculative_blocks m)))"

definition max_memory_usage_bytes :: "kv_env \<Rightarrow> vllm_config \<Rightarrow> spec \<Rightarrow> kv_error + int" where
  "max_memory_usage_bytes env cfg s = (case s of
      AttentionSpec a \<Rightarrow> Inl NotImplemented
    | EncoderOnlyAttentionSpec a \<Rightarrow> Inr 0
    | CrossAttentionSpec a \<Rightarrow>
        bindE (page_size_bytes env s) (\<lambda>page.
        Inr (cdiv env (max_num_encoder_input_tokens cfg) (block_size a) * page))
    | ChunkedLocalAttentionSpec c \<Rightarrow>
        bindE (page_size_bytes env s) (\<lambda>page.
        Inr (chunked_admission_blocks env c (max_in_flight_tokens cfg) (max_model_len cfg) * page))
    | SlidingWindowSpec w \<Rightarrow> sliding_max_memory env cfg s w
    | SlidingWindowMLASpec w \<Rightarrow> sliding_max_memory env cfg s w
    | MambaSpec m \<Rightarrow> mamba_max_memory env cfg m
    | _ \<Rightarrow> full_max_memory env cfg s (spec_block_size s))"

definition max_num_blocks_per_req :: "kv_env \<Rightarrow> vllm_config \<Rightarrow> spec \<Rightarrow> int \<Rightarrow> kv_error + int" where
  "max_num_blocks_per_req env cfg s max_len = (case s of
      MambaSpec m \<Rightarrow>
        (if mamba_cache_mode cfg = ''align''
         then Inr (cdiv env max_len (mb_block_size m) + num_speculative_blocks m)
         else bindE (mamba_max_memory env cfg m) (\<lambda>mem.
              bindE (mamba_page_size env m) (\<lambda>page. Inr (cdiv env mem page))))
    | _ \<Rightarrow> Inr (cdiv env max_len (spec_block_size s * decode_context_parallel_size cfg)))"

subsection \<open>Groups of layers\<close>

definition is_uniform_with_collection :: "kv_env \<Rightarrow> spec \<Rightarrow> spec list \<Rightarrow> kv_error + bool" where
  "is_uniform_with_collection env s specs = (case s of
      ChunkedLocalAttentionSpec c \<Rightarrow>
        Inr (list_all (\<lambda>t. case t of ChunkedLocalAttentionSpec d \<Rightarrow> chunk_size d = chunk_size c | _ \<Rightarrow> False) specs)
    | SlidingWindowSpec w \<Rightarrow>
        Inr (list_all (\<lambda>t. case t of SlidingWindowSpec v \<Rightarrow> window v = window w
                           | SlidingWindowMLASpec v \<Rightarrow> window v = window w | _ \<Rightarrow> False) specs)
    | SlidingWindowMLASpec w \<Rightarrow>
        Inr (list_all (\<lambda>t. case t of SlidingWindowMLASpec v \<Rightarrow> window v = window w | _ \<Rightarrow> False) specs)
    | MambaSpec m \<Rightarrow>
        Inr (list_all (\<lambda>t. case t of MambaSpec n \<Rightarrow> num_speculative_blocks n = num_speculative_blocks m
                           | _ \<Rightarrow> False) specs)
    | _ \<Rightarrow>
        (case uniform_type_base_spec env (class_of s) of
           None \<Rightarrow> Inl UnregisteredSpec
         | Some base \<Rightarrow> Inr (list_all (\<lambda>t. isinstance t base) specs)))"

definition is_uniform_type :: "kv_env \<Rightarrow> spec list \<Rightarrow> kv_error + bool" where
  "is_uniform_type env specs =
     (if length (remdups (map spec_block_size specs)) > 1 then Inr False
      else case specs of [] \<Rightarrow> Inl NoSpecs | s # _ \<Rightarrow> is_uniform_with_collection env s specs)"

text \<open>\<^verbatim>\<open>UniformTypeKVCacheSpecs\<close>, by its layer specs in dictionary order.\<close>

record uniform_specs =
  u_block_size :: int
  kv_cache_specs :: "(string \<times> spec) list"

definition from_specs :: "kv_env \<Rightarrow> (string \<times> spec) list \<Rightarrow> kv_error + uniform_specs option" where
  "from_specs env layers =
     bindE (is_uniform_type env (map snd layers)) (\<lambda>uniform.
     Inr (if uniform then Some \<lparr>u_block_size = spec_block_size (snd (hd layers)), kv_cache_specs = layers\<rparr>
          else None))"

definition uniform_page_size :: "kv_env \<Rightarrow> uniform_specs \<Rightarrow> kv_error + int" where
  "uniform_page_size env u =
     bindE (mapE (\<lambda>(_, s). page_size_bytes env s) (kv_cache_specs u)) (\<lambda>sizes. Inr (sum_list sizes))"

definition layer_pages :: "kv_env \<Rightarrow> vllm_config \<Rightarrow> spec \<Rightarrow> kv_error + int" where
  "layer_pages env cfg s =
     bindE (max_memory_usage_bytes env cfg s) (\<lambda>mem.
     bindE (page_size_bytes env s) (\<lambda>page. Inr (cdiv env mem page)))"

definition max_memory_usage_pages :: "kv_env \<Rightarrow> vllm_config \<Rightarrow> uniform_specs \<Rightarrow> kv_error + int" where
  "max_memory_usage_pages env cfg u =
     bindE (mapE (\<lambda>(_, s). layer_pages env cfg s) (kv_cache_specs u)) (\<lambda>pages.
     bindE (raiseIf (pages = []) NoSpecs) (\<lambda>_. Inr (Max (set pages))))"

definition uniform_max_memory :: "kv_env \<Rightarrow> vllm_config \<Rightarrow> uniform_specs \<Rightarrow> kv_error + int" where
  "uniform_max_memory env cfg u =
     bindE (max_memory_usage_pages env cfg u) (\<lambda>pages.
     bindE (uniform_page_size env u) (\<lambda>page. Inr (pages * page)))"

definition get_num_layer_tuples :: "kv_env \<Rightarrow> uniform_specs \<Rightarrow> kv_error + nat" where
  "get_num_layer_tuples env u =
     bindE (mapE (\<lambda>(_, s). page_size_bytes env s) (kv_cache_specs u)) (\<lambda>sizes.
     bindE (raiseIf (sizes = []) NoSpecs) (\<lambda>_.
     Inr (Max (set (map (\<lambda>n. count_list sizes n) sizes)))))"

subsection \<open>Kinds, windows and the cache configuration\<close>

datatype KVCacheSpecKind =
    FULL_ATTENTION | MLA_ATTENTION | SLIDING_WINDOW | SLIDING_WINDOW_MLA | MAMBA
  | CHUNKED_LOCAL_ATTENTION | SINK_FULL_ATTENTION | ENCODER_ONLY_ATTENTION | CROSS_ATTENTION | UNKNOWN

text \<open>A group's spec: one layer spec, or several layers of a uniform type.\<close>

datatype group_spec = Single spec | Uniform uniform_specs

definition spec_kind :: "spec \<Rightarrow> KVCacheSpecKind" where
  "spec_kind s =
     (if isinstance s CSlidingMLA then SLIDING_WINDOW_MLA
      else if isinstance s CMLA then MLA_ATTENTION
      else if isinstance s CSinkFull then SINK_FULL_ATTENTION
      else if isinstance s CFull then FULL_ATTENTION
      else if isinstance s CChunked then CHUNKED_LOCAL_ATTENTION
      else if isinstance s CSliding then SLIDING_WINDOW
      else if isinstance s CMamba then MAMBA
      else if isinstance s CEncoderOnly then ENCODER_ONLY_ATTENTION
      else if isinstance s CCross then CROSS_ATTENTION
      else UNKNOWN)"

definition get_kv_cache_spec_kind :: "group_spec \<Rightarrow> KVCacheSpecKind" where
  "get_kv_cache_spec_kind g = (case g of
      Single s \<Rightarrow> spec_kind s
    | Uniform u \<Rightarrow> (case remdups (map (\<lambda>(_, s). spec_kind s) (kv_cache_specs u)) of
        [k] \<Rightarrow> k | _ \<Rightarrow> UNKNOWN))"

definition spec_window :: "spec \<Rightarrow> int option" where
  "spec_window s = (case s of
      SlidingWindowSpec w \<Rightarrow> Some (window w)
    | SlidingWindowMLASpec w \<Rightarrow> Some (window w)
    | _ \<Rightarrow> None)"

definition get_kv_cache_spec_sliding_window :: "group_spec \<Rightarrow> int option" where
  "get_kv_cache_spec_sliding_window g = (case g of
      Single s \<Rightarrow> spec_window s
    | Uniform u \<Rightarrow> (case remdups (map (\<lambda>(_, s). spec_window s) (kv_cache_specs u)) of
        [w] \<Rightarrow> w | _ \<Rightarrow> None))"

definition has_mamba_layers :: "group_spec list \<Rightarrow> bool" where
  "has_mamba_layers groups = list_ex (\<lambda>g. case g of Single (MambaSpec _) \<Rightarrow> True | _ \<Rightarrow> False) groups"

definition group_specs :: "group_spec \<Rightarrow> spec list" where
  "group_specs g = (case g of Single s \<Rightarrow> [s] | Uniform u \<Rightarrow> map snd (kv_cache_specs u))"

definition kv_cache_precisions :: "group_spec list \<Rightarrow> (dtype \<times> KVQuantMode) list" where
  "kv_cache_precisions groups =
     remdups (map (\<lambda>a. (dtype a, kv_quant_mode a))
       (somes (map as_attention (concat (map group_specs groups)))))"

definition has_mixed_precision_kv_cache :: "group_spec list \<Rightarrow> bool" where
  "has_mixed_precision_kv_cache groups \<longleftrightarrow> length (kv_cache_precisions groups) > 1"

definition needs_kv_cache_zeroing :: "group_spec list \<Rightarrow> bool" where
  "needs_kv_cache_zeroing groups \<longleftrightarrow> has_mamba_layers groups \<or> has_mixed_precision_kv_cache groups"

subsection \<open>The packed NVFP4 page\<close>

text \<open>
  \<^verbatim>\<open>nvfp4_split_data_scale\<close> cuts one side of a page into two strided views. A view is its shape,
  its strides and its storage offset, as \<^verbatim>\<open>torch.as_strided\<close> takes them.
\<close>

record tensor_view =
  tv_shape :: "int \<times> int \<times> int \<times> int"
  tv_strides :: "int \<times> int \<times> int \<times> int"
  tv_offset :: int

definition nvfp4_split_data_scale :: "tensor_view \<Rightarrow> tensor_view \<times> tensor_view" where
  "nvfp4_split_data_scale side =
     (case (tv_shape side, tv_strides side) of
       ((num_pages, dim_1, dim_2, full_dim), (page_bytes, stride_1, stride_2, stride_3)) \<Rightarrow>
         (let data_dim = full_dim * 8 div 9;
              scale_dim = full_dim - data_dim;
              data_per_kv = dim_1 * dim_2 * data_dim;
              base = tv_offset side in
          (\<lparr>tv_shape = (num_pages, dim_1, dim_2, data_dim),
             tv_strides = (page_bytes, stride_1 * data_dim div full_dim, stride_2 * data_dim div full_dim, 1),
             tv_offset = base\<rparr>,
           \<lparr>tv_shape = (num_pages, dim_1, dim_2, scale_dim),
             tv_strides = (page_bytes, stride_1 * scale_dim div full_dim, stride_2 * scale_dim div full_dim, 1),
             tv_offset = base + data_per_kv\<rparr>)))"

text \<open>The storage index of an element, and the set a view covers within page \<open>p\<close>.\<close>

definition view_index :: "tensor_view \<Rightarrow> int \<Rightarrow> int \<Rightarrow> int \<Rightarrow> int \<Rightarrow> int" where
  "view_index v p i j k = (case tv_strides v of (s0, s1, s2, s3) \<Rightarrow>
     tv_offset v + p * s0 + i * s1 + j * s2 + k * s3)"

definition view_cells :: "tensor_view \<Rightarrow> int \<Rightarrow> int set" where
  "view_cells v p = (case tv_shape v of (n0, n1, n2, n3) \<Rightarrow>
     {view_index v p i j k | i j k. 0 \<le> i \<and> i < n1 \<and> 0 \<le> j \<and> j < n2 \<and> 0 \<le> k \<and> k < n3})"

subsection \<open>Laws of the integer helpers\<close>

text \<open>
  The documented behaviour of \<^verbatim>\<open>vllm.utils.math_utils\<close>: \<open>cdiv\<close> is the quotient rounded up,
  \<open>round_up\<close> the least multiple that is not smaller.
\<close>

definition math_ok :: "kv_env \<Rightarrow> bool" where
  "math_ok env \<longleftrightarrow>
     (\<forall>a b. 0 < b \<longrightarrow> (cdiv env a b - 1) * b < a \<and> a \<le> cdiv env a b * b)
     \<and> (\<forall>x y. 0 < y \<longrightarrow> y dvd round_up env x y \<and> x \<le> round_up env x y \<and> round_up env x y < x + y)"

definition ceil_div :: "int \<Rightarrow> int \<Rightarrow> int" where
  "ceil_div a b = - ((- a) div b)"

definition std_env :: kv_env where
  "std_env = \<lparr>cdiv = ceil_div, round_up = (\<lambda>x y. ceil_div x y * y),
     get_dtype_size = (\<lambda>d. if d = ''uint8'' then 1 else if d = ''float32'' then 4 else 2),
     uniform_type_base_spec = (\<lambda>c. if CFull \<in> set (bases c) then Some CFull else None)\<rparr>"

lemma ceil_div_bounds:
  assumes "0 < b"
  shows "(ceil_div a b - 1) * b < a" and "a \<le> ceil_div a b * b" and "ceil_div a b * b < a + b"
proof -
  have e: "ceil_div a b * b = a + (- a) mod b"
    unfolding ceil_div_def using minus_mod_eq_div_mult [of "- a" b] by simp
  have m: "0 \<le> (- a) mod b" "(- a) mod b < b" using assms by auto
  show "(ceil_div a b - 1) * b < a" "a \<le> ceil_div a b * b" "ceil_div a b * b < a + b"
    using e m unfolding left_diff_distrib by linarith+
qed

lemma std_env_ok: "math_ok std_env"
  using ceil_div_bounds by (simp add: math_ok_def std_env_def)

lemma cdiv_bounds:
  "math_ok env \<Longrightarrow> 0 < b \<Longrightarrow> (cdiv env a b - 1) * b < a"
  "math_ok env \<Longrightarrow> 0 < b \<Longrightarrow> a \<le> cdiv env a b * b"
  by (simp_all add: math_ok_def)

lemma round_up_bounds:
  "math_ok env \<Longrightarrow> 0 < y \<Longrightarrow> y dvd round_up env x y"
  "math_ok env \<Longrightarrow> 0 < y \<Longrightarrow> x \<le> round_up env x y"
  "math_ok env \<Longrightarrow> 0 < y \<Longrightarrow> round_up env x y < x + y"
  by (simp_all add: math_ok_def)

subsection \<open>Windows and blocks\<close>

lemma div_bracket:
  fixes x b :: int
  assumes "0 < b"
  shows "x div b * b \<le> x" and "x < (x div b + 1) * b"
proof -
  have "x = x div b * b + x mod b" by simp
  moreover have "0 \<le> x mod b" "x mod b < b" using assms by auto
  ultimately show "x div b * b \<le> x" "x < (x div b + 1) * b" unfolding distrib_right by linarith+
qed

lemma blocks_of_run:
  fixes b n start :: int
  assumes "0 < b" and "0 \<le> n" and "0 \<le> start"
  shows "(\<lambda>t. t div b) ` {start..<start + n} \<subseteq> {start div b..(start + n - 1) div b}"
  using assms by (auto intro!: zdiv_mono1)

lemma run_block_count:
  assumes ok: "math_ok env" and b: "0 < b" and n: "0 \<le> n" and start: "0 \<le> start"
  shows "int (card ((\<lambda>t. t div b) ` {start..<start + n})) \<le> cdiv env n b + 1"
proof -
  let ?lo = "start div b" and ?hi = "(start + n - 1) div b"
  have "card ((\<lambda>t. t div b) ` {start..<start + n}) \<le> card {?lo..?hi}"
    by (rule card_mono [OF finite_atLeastAtMost_int blocks_of_run [OF b n start]])
  also have "\<dots> = nat (?hi - ?lo + 1)" by simp
  finally have c: "int (card ((\<lambda>t. t div b) ` {start..<start + n})) \<le> max 0 (?hi - ?lo + 1)" by linarith
  have "?lo * b \<le> start" "start < (?lo + 1) * b" "?hi * b \<le> start + n - 1"
    using div_bracket [OF b] by blast+
  moreover have "n \<le> cdiv env n b * b" by (rule cdiv_bounds(2) [OF ok b])
  ultimately have "?hi * b < (?lo + 1) * b + cdiv env n b * b" by linarith
  then have "?hi * b < (?lo + 1 + cdiv env n b) * b" by (simp add: algebra_simps)
  then have "?hi < ?lo + 1 + cdiv env n b" using b by simp
  moreover have "0 \<le> cdiv env n b + 1"
  proof -
    have "0 \<le> cdiv env n b * b" using cdiv_bounds(2) [OF ok b, of n] n by linarith
    then show ?thesis using b by (simp add: zero_le_mult_iff)
  qed
  ultimately show ?thesis using c by linarith
qed

text \<open>
  The per-request admission cap of a sliding-window layer covers its window wherever it
  starts: any run of as many consecutive tokens as the request can hold (the window but one
  plus the tokens in flight, at most the model length) touches at most that many blocks.
\<close>

theorem sliding_window_cap_covers:
  assumes "math_ok env" and "0 < block_size s" and "0 < window s" and "0 \<le> in_flight"
    and "0 \<le> max_len" and "0 \<le> start"
    and "n \<le> min (window s - 1 + in_flight) max_len" and "0 \<le> n"
  shows "int (card ((\<lambda>t. t div block_size s) ` {start..<start + n}))
    \<le> sliding_admission_blocks env (s :: sliding_spec) in_flight max_len"
proof -
  let ?m = "min (window s - 1 + in_flight) max_len"
  have "(\<lambda>t. t div block_size s) ` {start..<start + n} \<subseteq> (\<lambda>t. t div block_size s) ` {start..<start + ?m}"
    using assms(7) by auto
  then have "card ((\<lambda>t. t div block_size s) ` {start..<start + n})
      \<le> card ((\<lambda>t. t div block_size s) ` {start..<start + ?m})" by (intro card_mono) auto
  moreover have "0 \<le> ?m" using assms by simp
  ultimately show ?thesis
    using run_block_count [OF assms(1,2) _ assms(6), of ?m] unfolding sliding_admission_blocks_def
    by linarith
qed

definition sample_sliding :: sliding_spec where
  "sample_sliding = \<lparr>block_size = 4, num_kv_heads = 1, head_size = 64, dtype = ''bfloat16'',
     kv_quant_mode = NONE, page_size_padded = None, indexes_kv_by_block_stride = False, window = 5,
     sw_head_size_v = Some 64\<rparr>"

theorem sliding_window_cap_covers_witness:
  "math_ok std_env \<and> sliding_admission_blocks std_env sample_sliding 0 1024 = 2
   \<and> int (card ((\<lambda>t. t div 4) ` {2..<2 + (4::int)})) \<le> 2"
proof -
  have v: "sliding_admission_blocks std_env sample_sliding 0 1024 = 2" by code_simp
  have b: "block_size sample_sliding = 4" "window sample_sliding = 5" by (simp_all add: sample_sliding_def)
  show ?thesis
    using sliding_window_cap_covers [of std_env sample_sliding 0 1024 2 4] std_env_ok v
    unfolding b by simp
qed

subsection \<open>Alignment\<close>

lemma attention_view_mla [simp]: "as_attention (MLAAttentionSpec s) = Some (attention_spec.truncate s)"
  by simp

lemma mla_page_size:
  "page_size_bytes env (MLAAttentionSpec s) =
     (let unpadded = mla_real_page_size env s + scale_bytes env (attention_spec.truncate s) in
      case page_size_padded s of None \<Rightarrow> Inr unpadded
      | Some padded \<Rightarrow> if padded < unpadded then Inl PaddedTooSmall else Inr padded)"
  by (simp add: page_size_bytes_def unpadded_page_size_bytes_def bindE_raiseIf attention_spec.truncate_def
      Let_def split: option.splits)

lemma scale_bytes_none: "\<not> is_per_token_head (kv_quant_mode s) \<Longrightarrow> scale_bytes env (attention_spec.truncate s) = 0"
  by (simp add: scale_bytes_def attention_spec.truncate_def)

lemma mla_real_padded [simp]: "mla_real_page_size env (s\<lparr>page_size_padded := p\<rparr>) = mla_real_page_size env s"
  by (simp add: mla_real_page_size_def mla_storage_block_size_def)

lemma mla_real_post [simp]: "mla_real_page_size env (full_post_init s) = mla_real_page_size env s"
  by (simp add: mla_real_page_size_def mla_storage_block_size_def full_post_init_def)

lemma full_post_init_fields [simp]:
  "page_size_padded (full_post_init s) = page_size_padded s"
  "kv_quant_mode (full_post_init s) = kv_quant_mode s"
  by (simp_all add: full_post_init_def)

lemma mla_alignment_post [simp]: "alignment (full_post_init s) = alignment s"
  by (simp add: full_post_init_def)

text \<open>
  A freshly built MLA spec with an alignment has a page size that is the least multiple
  of the alignment that holds the block, unless its scales are stored per token and head.
\<close>

theorem mla_page_aligned:
  assumes "math_ok env" and "alignment s = Some a" and "0 < a" and "page_size_padded s = None"
    and "\<not> is_per_token_head (kv_quant_mode s)"
  shows "\<exists>n. page_size_bytes env (MLAAttentionSpec (mla_post_init env s)) = Inr n \<and> a dvd n
    \<and> mla_real_page_size env s \<le> n \<and> n < mla_real_page_size env s + a"
proof -
  let ?r = "mla_real_page_size env s" and ?p = "round_up env (mla_real_page_size env s) a"
  note up = round_up_bounds [OF assms(1,3), of ?r]
  have "page_size_bytes env (MLAAttentionSpec (mla_post_init env s)) = Inr ?p"
    using assms(2,4,5) up
    by (cases "?p = ?r")
       (auto simp: mla_page_size mla_post_init_def apply_alignment_padding_def Let_def scale_bytes_none)
  with up show ?thesis by blast
qed

text \<open>
  Changing the block size of an aligned MLA spec keeps the padding of the old block
  size when the new block is already a multiple of the alignment. If that padding is too small
  for the new block, the page size of the copy fails its assertion.
\<close>

theorem copy_keeps_stale_padding:
  assumes "alignment s = Some a" and "page_size_padded s = Some p" and "head_size_v s \<noteq> None"
    and "round_up env (mla_real_page_size env (s\<lparr>block_size := n\<rparr>)) a = mla_real_page_size env (s\<lparr>block_size := n\<rparr>)"
    and "p < mla_real_page_size env (s\<lparr>block_size := n\<rparr>)"
    and "\<not> is_per_token_head (kv_quant_mode s)"
  shows "bindE (copy_with_new_block_size env (MLAAttentionSpec s) n) (page_size_bytes env) = Inl PaddedTooSmall"
  using assms
  by (auto simp: mla_page_size mla_post_init_def apply_alignment_padding_def Let_def full_post_init_def
      scale_bytes_none)

definition sample_mla :: mla_spec where
  "sample_mla = \<lparr>block_size = 64, num_kv_heads = 1, head_size = 512, dtype = ''uint8'',
     kv_quant_mode = NONE, page_size_padded = None, indexes_kv_by_block_stride = False,
     head_size_v = None, sliding_window = None, attention_chunk_size = None, non_causal = False,
     cache_dtype_str = Some ''fp8_ds_mla'', alignment = Some 576, compress_ratio = 1,
     model_version = Some ''deepseek_v4'', non_causal_multi_token_decode = False\<rparr>"

theorem mla_page_aligned_witness:
  "page_size_bytes std_env (MLAAttentionSpec (mla_post_init std_env sample_mla)) = Inr 37440
   \<and> 576 dvd (37440::int) \<and> (37440::int) < 64 * 584 + 576"
proof -
  have p: "page_size_bytes std_env (MLAAttentionSpec (mla_post_init std_env sample_mla)) = Inr 37440"
    by code_simp
  have r: "mla_real_page_size std_env sample_mla = 64 * 584" by code_simp
  have "alignment sample_mla = Some 576" "page_size_padded sample_mla = None"
    "\<not> is_per_token_head (kv_quant_mode sample_mla)"
    by (simp_all add: sample_mla_def is_per_token_head_def)
  from mla_page_aligned [OF std_env_ok this(1) _ this(2,3)] p r show ?thesis by auto
qed

theorem copy_keeps_stale_padding_witness:
  "bindE (copy_with_new_block_size std_env (MLAAttentionSpec (mla_post_init std_env sample_mla)) 72)
     (page_size_bytes std_env) = Inl PaddedTooSmall"
proof (rule copy_keeps_stale_padding)
  show "alignment (mla_post_init std_env sample_mla) = Some 576"
    "page_size_padded (mla_post_init std_env sample_mla) = Some 37440"
    "head_size_v (mla_post_init std_env sample_mla) \<noteq> None"
    "round_up std_env (mla_real_page_size std_env ((mla_post_init std_env sample_mla)\<lparr>block_size := 72\<rparr>)) 576
       = mla_real_page_size std_env ((mla_post_init std_env sample_mla)\<lparr>block_size := 72\<rparr>)"
    "37440 < mla_real_page_size std_env ((mla_post_init std_env sample_mla)\<lparr>block_size := 72\<rparr>)"
    "\<not> is_per_token_head (kv_quant_mode (mla_post_init std_env sample_mla))"
    by code_simp+
qed

subsection \<open>Merging\<close>

lemma all_same_hd: "all_same (map f xs) \<Longrightarrow> x \<in> set xs \<Longrightarrow> f x = f (hd xs)"
proof -
  assume same: "all_same (map f xs)" and x: "x \<in> set xs"
  then obtain y where y: "remdups (map f xs) = [y]"
    by (cases "remdups (map f xs)") (auto simp: all_same_def)
  then have "set (map f xs) = {y}" by (metis empty_set list.simps(15) set_remdups)
  moreover have "hd xs \<in> set xs" using x by (cases xs) auto
  ultimately have "f x \<in> {y}" "f (hd xs) \<in> {y}" using x by (metis image_eqI list.set_map)+
  then show ?thesis by simp
qed

lemma truncate_attention_eqD:
  assumes "attention_spec.truncate s = attention_spec.truncate t"
  shows "block_size s = block_size t" "num_kv_heads s = num_kv_heads t" "head_size s = head_size t"
    "dtype s = dtype t" "kv_quant_mode s = kv_quant_mode t" "page_size_padded s = page_size_padded t"
  using assms by (auto simp: attention_spec.truncate_def)

text \<open>
  The layers of a merged MLA group all have the page size of the merged spec, so the
  block table of the group addresses every layer correctly. The merged spec is causal whatever
  its layers are, unlike a merged full-attention group.
\<close>

theorem mla_merge_page_size:
  assumes "mla_merge env specs = Inr m" and "s \<in> set specs"
  shows "page_size_bytes env (MLAAttentionSpec s) = page_size_bytes env (MLAAttentionSpec m)
    \<and> attention_spec.truncate s = attention_spec.truncate m
    \<and> (non_causal_multi_token_decode m \<longleftrightarrow> list_ex non_causal_multi_token_decode specs)
    \<and> \<not> non_causal m"
proof -
  let ?f = "hd specs"
  from assms(1) have same: "all_same (map cache_dtype_str specs)" "all_same (map compress_ratio specs)"
      "all_same (map model_version specs)"
    and m: "m = full_post_init (?f\<lparr>head_size_v := None, sliding_window := None,
            attention_chunk_size := None, non_causal := False, alignment := None,
            non_causal_multi_token_decode := list_ex non_causal_multi_token_decode specs\<rparr>)"
    and att: "\<forall>t \<in> set specs. attention_spec.truncate t = attention_spec.truncate m"
    by (auto simp: mla_merge_def bindE_eq_Inr Let_def mla_post_init_def apply_alignment_padding_def)
  have layout: "cache_dtype_str m = cache_dtype_str ?f" "compress_ratio m = compress_ratio ?f"
    "model_version m = model_version ?f" "\<not> non_causal m"
    "non_causal_multi_token_decode m = list_ex non_causal_multi_token_decode specs"
    by (simp_all add: m full_post_init_def)
  have eq: "attention_spec.truncate s = attention_spec.truncate m" using att assms(2) by blast
  note fields = truncate_attention_eqD [OF eq]
  have "mla_real_page_size env s = mla_real_page_size env m"
    using all_same_hd [OF same(1) assms(2)] all_same_hd [OF same(2) assms(2)]
      all_same_hd [OF same(3) assms(2)] layout fields
    by (simp add: mla_real_page_size_def mla_storage_block_size_def)
  with eq fields layout show ?thesis by (simp add: mla_page_size)
qed

text \<open>
  Merging a sliding-window MLA layer loses its quantization mode. When the layer keeps a
  scale per token and head, the page size of the merged group is too small for the layer by the
  bytes of those scales.
\<close>

theorem sliding_mla_merge_drops_scales:
  assumes "is_per_token_head (kv_quant_mode s)" and "page_size_padded s = None"
    and "sliding_mla_merge env [s] = Inr m" and "page_size_bytes env (SlidingWindowMLASpec s) = Inr n"
  shows "kv_quant_mode m = NONE
    \<and> page_size_bytes env (SlidingWindowMLASpec m)
        = Inr (n - 2 * block_size s * num_kv_heads s * get_dtype_size env ''float32'')"
proof -
  from assms(3) have m: "m = s\<lparr>kv_quant_mode := NONE, sw_head_size_v := None, sm_alignment := None\<rparr>"
    by (simp add: sliding_mla_merge_def all_same_def sliding_mla_post_init_def bindE_raiseIf)
  have real: "sliding_mla_real_page_size env m = sliding_mla_real_page_size env s"
    by (simp add: m sliding_mla_real_page_size_def sm_storage_block_size_def)
  show ?thesis
    using assms(1,2,4)
    by (auto simp: page_size_bytes_def unpadded_page_size_bytes_def scale_bytes_def is_per_token_head_def
        attention_spec.truncate_def bindE_eq_Inr real) (simp_all add: m)
qed

definition sample_sliding_mla :: sliding_mla_spec where
  "sample_sliding_mla = \<lparr>block_size = 16, num_kv_heads = 1, head_size = 512, dtype = ''uint8'',
     kv_quant_mode = INT8_PER_TOKEN_HEAD, page_size_padded = None, indexes_kv_by_block_stride = False,
     window = 128, sw_head_size_v = None, sm_cache_dtype_str = Some ''int8_per_token_head'',
     sm_alignment = None, sm_compress_ratio = 1, sm_model_version = None\<rparr>"

theorem mla_merge_page_size_witness:
  "mla_merge std_env [mla_post_init std_env sample_mla, mla_post_init std_env sample_mla]
     = Inr ((mla_post_init std_env sample_mla)\<lparr>alignment := None\<rparr>)
   \<and> page_size_bytes std_env (MLAAttentionSpec (mla_post_init std_env sample_mla))
     = page_size_bytes std_env (MLAAttentionSpec ((mla_post_init std_env sample_mla)\<lparr>alignment := None\<rparr>))"
proof -
  have v: "mla_merge std_env [mla_post_init std_env sample_mla, mla_post_init std_env sample_mla]
     = Inr ((mla_post_init std_env sample_mla)\<lparr>alignment := None\<rparr>)" by code_simp
  show ?thesis using mla_merge_page_size [OF v, of "mla_post_init std_env sample_mla"] v by simp
qed

theorem sliding_mla_merge_drops_scales_witness:
  "page_size_bytes std_env (SlidingWindowMLASpec sample_sliding_mla) = Inr 8320
   \<and> (\<exists>m. sliding_mla_merge std_env [sample_sliding_mla] = Inr m
        \<and> page_size_bytes std_env (SlidingWindowMLASpec m) = Inr 8192)"
proof -
  let ?m = "sample_sliding_mla\<lparr>kv_quant_mode := NONE\<rparr>"
  have v: "sliding_mla_merge std_env [sample_sliding_mla] = Inr ?m" by code_simp
  have n: "page_size_bytes std_env (SlidingWindowMLASpec sample_sliding_mla) = Inr 8320" by code_simp
  have h: "is_per_token_head (kv_quant_mode sample_sliding_mla)" "page_size_padded sample_sliding_mla = None"
    by code_simp+
  have "8320 - 2 * block_size sample_sliding_mla * num_kv_heads sample_sliding_mla
      * get_dtype_size std_env ''float32'' = 8192" by code_simp
  with sliding_mla_merge_drops_scales [OF h v n] v n show ?thesis by auto
qed

lemma full_page_size:
  "page_size_bytes env (FullAttentionSpec s) =
     bindE (full_real_page_size env s) (\<lambda>real.
     (let unpadded = real + scale_bytes env (attention_spec.truncate s) in
      case page_size_padded s of None \<Rightarrow> Inr unpadded
      | Some padded \<Rightarrow> if padded < unpadded then Inl PaddedTooSmall else Inr padded))"
  by (cases "full_real_page_size env s")
     (simp_all add: page_size_bytes_def unpadded_page_size_bytes_def bindE_raiseIf
       attention_spec.truncate_def Let_def split: option.splits)

lemma full_merge_eq_Inr:
  assumes "full_merge specs = Inr m"
  obtains fs where "fs = map (\<lambda>s. the (as_full s)) specs" and "specs \<noteq> []"
    and "\<forall>f \<in> set fs. attention_spec.truncate f = attention_spec.truncate m"
    and "non_causal m \<longleftrightarrow> list_ex non_causal fs"
    and "\<not> (sliding_window m \<noteq> None \<and> attention_chunk_size m \<noteq> None)"
    and "merge_window_sizes (somes (map sliding_window fs)) = Inr (sliding_window m)"
    and "merge_window_sizes (somes (map attention_chunk_size fs)) = Inr (attention_chunk_size m)"
proof -
  let ?fs = "map (\<lambda>s. the (as_full s)) specs"
  from assms have ne: "specs \<noteq> []" and m: "merge_full_fields ?fs = Inr m"
    by (auto simp: full_merge_def full_views_def bindE_eq_Inr)
  from m obtain sw ac where w: "merge_window_sizes (somes (map sliding_window ?fs)) = Inr sw"
      "merge_window_sizes (somes (map attention_chunk_size ?fs)) = Inr ac"
    and mm: "m = full_post_init ((hd ?fs)\<lparr>sliding_window := sw, attention_chunk_size := ac,
        non_causal := list_ex non_causal ?fs\<rparr>)"
    and att: "\<forall>f \<in> set ?fs. attention_spec.truncate f = attention_spec.truncate m"
    and both: "\<not> (sliding_window m \<noteq> None \<and> attention_chunk_size m \<noteq> None)"
    unfolding merge_full_fields_def Let_def bindE_eq_Inr by auto
  have "sliding_window m = sw" "attention_chunk_size m = ac" "non_causal m = list_ex non_causal ?fs"
    by (simp_all add: mm full_post_init_def)
  with that [OF refl ne att] both w show ?thesis by blast
qed

lemma merge_window_sizes_eq_Inr:
  "merge_window_sizes ws = Inr w \<longleftrightarrow> (case w of None \<Rightarrow> ws = [] | Some v \<Rightarrow> set ws = {v})"
proof -
  have "remdups ws = [v] \<longleftrightarrow> set ws = {v}" for v
  proof
    assume "set ws = {v}"
    then have "set (remdups ws) = {v}" "distinct (remdups ws)" by simp_all
    then show "remdups ws = [v]" by (cases "remdups ws"; cases "tl (remdups ws)") auto
  qed (metis empty_set list.simps(15) set_remdups)
  note single = this
  have nil: "remdups ws = [] \<longleftrightarrow> ws = []" by simp
  consider "remdups ws = []" | v where "remdups ws = [v]" | a b r where "remdups ws = a # b # r"
    by (metis list.exhaust)
  then show ?thesis
  proof cases
    case (2 v)
    then have "merge_window_sizes ws = Inr (Some v)" by (simp add: merge_window_sizes_def)
    moreover have "set ws = {v}" "ws \<noteq> []" using 2 single nil by auto
    ultimately show ?thesis by (auto split: option.splits)
  next
    case (3 a b r)
    then have "merge_window_sizes ws = Inl WindowSizesDiffer" by (simp add: merge_window_sizes_def)
    moreover have "ws \<noteq> []" "\<forall>v. set ws \<noteq> {v}" using 3 single nil by (metis list.inject list.distinct(1))+
    ultimately show ?thesis by (auto split: option.splits)
  qed (auto simp: merge_window_sizes_def split: option.splits)
qed

lemma set_somes: "x \<in> set (somes xs) \<longleftrightarrow> Some x \<in> set xs"
  by (force simp: somes_def)

text \<open>
  A merged full-attention group has the attention fields of all its layers and is
  non-causal when one of them is. Every layer that has a window has the window of the
  group, the group does not have both a window and a chunk size, and a layer with the value
  head size of the group has its page size.
\<close>

theorem full_merge_sound:
  assumes "full_merge specs = Inr m" and "FullAttentionSpec s \<in> set specs"
  shows "attention_spec.truncate s = attention_spec.truncate m
    \<and> (non_causal m \<longleftrightarrow> (\<exists>t \<in> set specs. non_causal (the (as_full t))))
    \<and> (sliding_window s = None \<or> sliding_window s = sliding_window m)
    \<and> (attention_chunk_size s = None \<or> attention_chunk_size s = attention_chunk_size m)
    \<and> (sliding_window m = None \<or> attention_chunk_size m = None)
    \<and> (head_size_v s = head_size_v m \<longrightarrow>
         page_size_bytes env (FullAttentionSpec s) = page_size_bytes env (FullAttentionSpec m))"
proof -
  from assms(1) obtain fs where fs: "fs = map (\<lambda>s. the (as_full s)) specs"
    and att: "\<forall>f \<in> set fs. attention_spec.truncate f = attention_spec.truncate m"
    and nc: "non_causal m \<longleftrightarrow> list_ex non_causal fs"
    and both: "\<not> (sliding_window m \<noteq> None \<and> attention_chunk_size m \<noteq> None)"
    and win: "merge_window_sizes (somes (map sliding_window fs)) = Inr (sliding_window m)"
      "merge_window_sizes (somes (map attention_chunk_size fs)) = Inr (attention_chunk_size m)"
    by (rule full_merge_eq_Inr)
  have mem: "s \<in> set fs" using assms(2) fs by force
  have pick: "f s = None \<or> f s = w"
    if "merge_window_sizes (somes (map f fs)) = Inr w" for f :: "full_spec \<Rightarrow> int option" and w
  proof (cases "f s")
    case (Some v)
    then have "v \<in> set (somes (map f fs))" using mem by (force simp: set_somes)
    with that Some show ?thesis by (auto simp: merge_window_sizes_eq_Inr split: option.splits)
  qed simp
  have eq: "attention_spec.truncate s = attention_spec.truncate m" using att mem by blast
  note fields = truncate_attention_eqD [OF eq]
  have "page_size_bytes env (FullAttentionSpec s) = page_size_bytes env (FullAttentionSpec m)"
    if "head_size_v s = head_size_v m"
    unfolding full_page_size full_real_page_size_def that fields eq ..
  moreover have "list_ex non_causal fs \<longleftrightarrow> (\<exists>t \<in> set specs. non_causal (the (as_full t)))"
    by (auto simp: fs list_ex_iff)
  ultimately show ?thesis using eq nc both pick [OF win(1)] pick [OF win(2)] by blast
qed

text \<open>
  The value head size is not compared when full-attention layers are merged. Two layers
  that differ only there merge into a group with the page size of the first.
\<close>

theorem full_merge_ignores_value_head:
  assumes "sliding_window s = None" and "attention_chunk_size s = None" and "head_size_v s = Some u"
  shows "full_merge [FullAttentionSpec s, FullAttentionSpec (s\<lparr>head_size_v := Some v\<rparr>)] = Inr s"
  using assms
  by (simp add: full_merge_def full_views_def isinstance_def bases_def merge_full_fields_def somes_def
      merge_window_sizes_def full_post_init_def attention_spec.truncate_def Let_def bindE_raiseIf)

definition sample_full :: full_spec where
  "sample_full = \<lparr>block_size = 16, num_kv_heads = 8, head_size = 192, dtype = ''bfloat16'',
     kv_quant_mode = NONE, page_size_padded = None, indexes_kv_by_block_stride = False,
     head_size_v = Some 128, sliding_window = None, attention_chunk_size = None, non_causal = False\<rparr>"

theorem full_merge_sound_witness:
  "full_merge [FullAttentionSpec sample_full, FullAttentionSpec (sample_full\<lparr>sliding_window := Some 64, non_causal := True\<rparr>)]
     = Inr (sample_full\<lparr>sliding_window := Some 64, non_causal := True\<rparr>)
   \<and> page_size_bytes std_env (FullAttentionSpec sample_full)
     = page_size_bytes std_env (FullAttentionSpec (sample_full\<lparr>sliding_window := Some 64, non_causal := True\<rparr>))"
proof -
  have v: "full_merge [FullAttentionSpec sample_full,
      FullAttentionSpec (sample_full\<lparr>sliding_window := Some 64, non_causal := True\<rparr>)]
     = Inr (sample_full\<lparr>sliding_window := Some 64, non_causal := True\<rparr>)" by code_simp
  show ?thesis using full_merge_sound [OF v, of sample_full std_env] v by simp
qed

theorem full_merge_ignores_value_head_witness:
  "full_merge [FullAttentionSpec sample_full, FullAttentionSpec (sample_full\<lparr>head_size_v := Some 192\<rparr>)] = Inr sample_full
   \<and> page_size_bytes std_env (FullAttentionSpec sample_full) = Inr 81920
   \<and> page_size_bytes std_env (FullAttentionSpec (sample_full\<lparr>head_size_v := Some 192\<rparr>)) = Inr 98304"
proof -
  have h: "sliding_window sample_full = None" "attention_chunk_size sample_full = None"
    "head_size_v sample_full = Some 128" by (simp_all add: sample_full_def)
  have "page_size_bytes std_env (FullAttentionSpec sample_full) = Inr 81920"
    "page_size_bytes std_env (FullAttentionSpec (sample_full\<lparr>head_size_v := Some 192\<rparr>)) = Inr 98304"
    by code_simp+
  with full_merge_ignores_value_head [OF h, of 192] show ?thesis by blast
qed

subsection \<open>Uniform groups\<close>

lemma layer_pages_cover:
  assumes "math_ok env" and "max_memory_usage_bytes env cfg s = Inr mem"
    and "page_size_bytes env s = Inr page" and "0 < page" and "layer_pages env cfg s = Inr n" and "n \<le> p"
  shows "mem \<le> p * page"
proof -
  have "n = cdiv env mem page" using assms by (simp add: layer_pages_def)
  then have "mem \<le> n * page" using cdiv_bounds(2) [OF assms(1,4)] by simp
  also have "\<dots> \<le> p * page" using assms(4,6) by (intro mult_right_mono) auto
  finally show ?thesis .
qed

text \<open>
  The memory of a uniform group holds the maximum of every layer at once: pages are
  shared by all layers, and the group's maximum is at least the sum of the layers' maxima.
\<close>

theorem uniform_memory_covers_layers:
  assumes "math_ok env" and "uniform_max_memory env cfg u = Inr tot"
    and "mapE (\<lambda>(_, s). max_memory_usage_bytes env cfg s) (kv_cache_specs u) = Inr mems"
    and "\<And>l s n. (l, s) \<in> set (kv_cache_specs u) \<Longrightarrow> page_size_bytes env s = Inr n \<Longrightarrow> 0 < n"
  shows "sum_list mems \<le> tot"
proof -
  from assms(2) obtain pages sizes where
    pages: "mapE (\<lambda>(_, s). layer_pages env cfg s) (kv_cache_specs u) = Inr pages"
    and sizes: "mapE (\<lambda>(_, s). page_size_bytes env s) (kv_cache_specs u) = Inr sizes"
    and tot: "tot = Max (set pages) * sum_list sizes"
    by (auto simp: uniform_max_memory_def max_memory_usage_pages_def uniform_page_size_def bindE_eq_Inr)
  have "sum_list mems \<le> p * sum_list sizes"
    if "mapE (\<lambda>(_, s). layer_pages env cfg s) ls = Inr pages"
      "mapE (\<lambda>(_, s). page_size_bytes env s) ls = Inr sizes"
      "mapE (\<lambda>(_, s). max_memory_usage_bytes env cfg s) ls = Inr mems"
      "\<forall>q \<in> set pages. q \<le> p" "set ls \<subseteq> set (kv_cache_specs u)" for ls pages sizes mems p
    using that
  proof (induction ls arbitrary: pages sizes mems)
    case (Cons l ls)
    obtain nm s where l: "l = (nm, s)" by (cases l)
    from Cons.prems l obtain q qs g gs mm ms where
      h: "layer_pages env cfg s = Inr q" "mapE (\<lambda>(_, s). layer_pages env cfg s) ls = Inr qs" "pages = q # qs"
      "page_size_bytes env s = Inr g" "mapE (\<lambda>(_, s). page_size_bytes env s) ls = Inr gs" "sizes = g # gs"
      "max_memory_usage_bytes env cfg s = Inr mm"
      "mapE (\<lambda>(_, s). max_memory_usage_bytes env cfg s) ls = Inr ms" "mems = mm # ms"
      by (auto simp: bindE_eq_Inr)
    have "0 < g" using assms(4) h(4) l Cons.prems(5) by auto
    then have "mm \<le> p * g"
      using layer_pages_cover [OF assms(1) h(7,4) _ h(1)] Cons.prems(4) h(3) by auto
    moreover have "sum_list ms \<le> p * sum_list gs"
      using Cons.IH [OF h(2,5,8)] Cons.prems(4,5) h(3) by auto
    ultimately show ?case using h(6,9) by (simp add: distrib_left)
  qed simp
  from this [OF pages sizes assms(3), of "Max (set pages)"] show ?thesis
    by (simp add: tot)
qed

theorem uniform_memory_covers_layers_witness:
  "uniform_max_memory std_env \<lparr>max_model_len = 1000, decode_context_parallel_size = 1,
       max_in_flight_tokens = 64, mamba_cache_mode = ''none'', max_num_encoder_input_tokens = 0\<rparr>
     \<lparr>u_block_size = 16, kv_cache_specs = [(''a'', FullAttentionSpec sample_full),
        (''b'', FullAttentionSpec (sample_full\<lparr>head_size_v := Some 192\<rparr>))]\<rparr> = Inr 11354112
   \<and> sum_list [5160960, 6193152] \<le> (11354112 :: int)"
proof -
  let ?cfg = "\<lparr>max_model_len = 1000, decode_context_parallel_size = 1, max_in_flight_tokens = 64,
     mamba_cache_mode = ''none'', max_num_encoder_input_tokens = 0\<rparr>"
  let ?u = "\<lparr>u_block_size = 16, kv_cache_specs = [(''a'', FullAttentionSpec sample_full),
        (''b'', FullAttentionSpec (sample_full\<lparr>head_size_v := Some 192\<rparr>))]\<rparr>"
  have t: "uniform_max_memory std_env ?cfg ?u = Inr 11354112" by code_simp
  have m: "mapE (\<lambda>(_, s). max_memory_usage_bytes std_env ?cfg s) (kv_cache_specs ?u) = Inr [5160960, 6193152]"
    by code_simp
  have p: "page_size_bytes std_env (FullAttentionSpec sample_full) = Inr 81920"
    "page_size_bytes std_env (FullAttentionSpec (sample_full\<lparr>head_size_v := Some 192\<rparr>)) = Inr 98304"
    by code_simp+
  have "sum_list [5160960, 6193152] \<le> (11354112 :: int)"
    by (rule uniform_memory_covers_layers [OF std_env_ok t m]) (use p in auto)
  with t show ?thesis by blast
qed

subsection \<open>The two halves of a packed page\<close>

lemma div_less_of_less_mult: "0 < b \<Longrightarrow> x < n * b \<Longrightarrow> x div b < n" for x b n :: int
  using div_bracket(1) [of b x] by (meson le_less_trans mult_less_cancel_right_pos)

lemma mixed_radix:
  fixes a b c :: int
  assumes "0 < a" and "0 < b" and "0 < c"
  shows "{i * (b * c) + j * c + k | i j k. 0 \<le> i \<and> i < a \<and> 0 \<le> j \<and> j < b \<and> 0 \<le> k \<and> k < c} = {0..<a * b * c}"
    (is "?L = ?R")
proof
  show "?L \<subseteq> ?R"
  proof clarify
    fix i j k assume h: "0 \<le> i" "i < a" "0 \<le> j" "j < b" "0 \<le> k" "k < c"
    have "j * c + k < b * c"
    proof -
      have "(j + 1) * c \<le> b * c" using h assms by (intro mult_right_mono) auto
      then show ?thesis using h by (simp add: distrib_right)
    qed
    moreover have "(i + 1) * (b * c) \<le> a * (b * c)" using h assms by (intro mult_right_mono) auto
    ultimately have "i * (b * c) + j * c + k < a * b * c" by (simp add: distrib_right mult.assoc)
    moreover have "0 \<le> i * (b * c) + j * c + k" using h assms by simp
    ultimately show "i * (b * c) + j * c + k \<in> {0..<a * b * c}" by simp
  qed
  show "?R \<subseteq> ?L"
  proof
    fix x assume "x \<in> ?R"
    then have x: "0 \<le> x" "x < a * (b * c)" by (auto simp: mult.assoc)
    let ?i = "x div (b * c)" and ?y = "x mod (b * c)"
    have bc: "0 < b * c" using assms by simp
    have y: "0 \<le> ?y" "?y < b * c" using bc by auto
    have "x = ?i * (b * c) + (?y div c) * c + ?y mod c"
      using div_mult_mod_eq [of x "b * c"] div_mult_mod_eq [of ?y c] by linarith
    moreover have "0 \<le> ?i" using x bc by (simp add: pos_imp_zdiv_nonneg_iff)
    moreover have "?i < a" using div_less_of_less_mult [OF bc x(2)] .
    moreover have "0 \<le> ?y div c" using y assms by (simp add: pos_imp_zdiv_nonneg_iff)
    moreover have "?y div c < b" using div_less_of_less_mult [OF assms(3) y(2)] .
    moreover have "0 \<le> ?y mod c" "?y mod c < c" using assms by auto
    ultimately show "x \<in> ?L" by blast
  qed
qed

lemma mixed_radix_swap:
  fixes a b c :: int
  assumes "0 < a" and "0 < b" and "0 < c"
  shows "{i * c + j * (a * c) + k | i j k. 0 \<le> i \<and> i < a \<and> 0 \<le> j \<and> j < b \<and> 0 \<le> k \<and> k < c} = {0..<a * b * c}"
proof -
  have "{i * c + j * (a * c) + k | i j k. 0 \<le> i \<and> i < a \<and> 0 \<le> j \<and> j < b \<and> 0 \<le> k \<and> k < c}
      = {j * (a * c) + i * c + k | j i k. 0 \<le> j \<and> j < b \<and> 0 \<le> i \<and> i < a \<and> 0 \<le> k \<and> k < c}"
    by (auto simp: add.commute)
  also have "\<dots> = {0..<b * a * c}" by (rule mixed_radix [OF assms(2,1,3)])
  finally show ?thesis by (simp add: mult.commute)
qed

lemma shifted_interval: "{z + x | x. x \<in> {0..<n}} = {z..<z + (n::int)}"
proof
  show "{z..<z + n} \<subseteq> {z + x | x. x \<in> {0..<n}}"
  proof
    fix y assume "y \<in> {z..<z + n}"
    then show "y \<in> {z + x | x. x \<in> {0..<n}}" by (intro CollectI exI [of _ "y - z"]) auto
  qed
qed auto

text \<open>A view whose inner strides are those of a contiguous block, in either order of the two
  middle dimensions (NHD or HND).\<close>

lemma view_cells_contiguous:
  assumes shape: "tv_shape v = (n, a, b, c)" and pos: "0 < a" "0 < b" "0 < c"
    and strides: "tv_strides v = (s0, b * c, c, 1) \<or> tv_strides v = (s0, c, a * c, 1)"
  shows "view_cells v p = {tv_offset v + p * s0..<tv_offset v + p * s0 + a * b * c}"
proof -
  let ?z = "tv_offset v + p * s0"
  have "view_cells v p = {?z + x | x. x \<in> {0..<a * b * c}}"
  proof (cases "tv_strides v = (s0, b * c, c, 1)")
    case True
    have "view_cells v p = {?z + x | x. x \<in> {i * (b * c) + j * c + k | i j k.
        0 \<le> i \<and> i < a \<and> 0 \<le> j \<and> j < b \<and> 0 \<le> k \<and> k < c}}"
      unfolding view_cells_def view_index_def shape True by (fastforce simp: add.assoc)
    then show ?thesis unfolding mixed_radix [OF pos] .
  next
    case False
    with strides have st: "tv_strides v = (s0, c, a * c, 1)" by blast
    have "view_cells v p = {?z + x | x. x \<in> {i * c + j * (a * c) + k | i j k.
        0 \<le> i \<and> i < a \<and> 0 \<le> j \<and> j < b \<and> 0 \<le> k \<and> k < c}}"
      unfolding view_cells_def view_index_def shape st by (fastforce simp: add.assoc)
    then show ?thesis unfolding mixed_radix_swap [OF pos] .
  qed
  then show ?thesis unfolding shifted_interval .
qed

text \<open>
  C39: the data view and the scale view of one side of an NVFP4 page partition it. For a head size
  that is a multiple of 16 and a contiguous side in either layout, the data cells are the
  first 8/9 of the side, the scale cells the rest, and together they are the whole side.
\<close>

theorem nvfp4_views_partition:
  assumes shape: "tv_shape side = (n, d1, d2, nvfp4_kv_cache_full_dim h)"
    and strides: "tv_strides side = (pb, d2 * nvfp4_kv_cache_full_dim h, nvfp4_kv_cache_full_dim h, 1)
      \<or> tv_strides side = (pb, nvfp4_kv_cache_full_dim h, d1 * nvfp4_kv_cache_full_dim h, 1)"
    and pos: "0 < d1" "0 < d2" "0 < h" and mult: "16 dvd h"
  shows "let (data, scale) = nvfp4_split_data_scale side; z = tv_offset side + p * pb;
             full = d1 * d2 * nvfp4_kv_cache_full_dim h; cut = d1 * d2 * (h div 2) in
    view_cells data p = {z..<z + cut} \<and> view_cells scale p = {z + cut..<z + full}
    \<and> view_cells data p \<inter> view_cells scale p = {} \<and> view_cells data p \<union> view_cells scale p = {z..<z + full}"
proof -
  from mult obtain q where h: "h = 16 * q" by (auto elim: dvdE)
  with pos have q: "0 < q" by simp
  have f: "nvfp4_kv_cache_full_dim h = 9 * q" by (simp add: nvfp4_kv_cache_full_dim_def h)
  have dims: "9 * q * 8 div 9 = 8 * q" "9 * q - 8 * q = q" "h div 2 = 8 * q" by (simp_all add: h)
  obtain data scale where ds: "nvfp4_split_data_scale side = (data, scale)" by fastforce
  have cancel: "x * (9 * q) * (8 * q) div (9 * q) = x * (8 * q)" "x * (9 * q) * q div (9 * q) = x * q"
    "9 * q * (8 * q) div (9 * q) = 8 * q" "9 * q * q div (9 * q) = q" for x
    using q by simp_all
  have d: "tv_shape data = (n, d1, d2, 8 * q)" "tv_offset data = tv_offset side"
    "tv_shape scale = (n, d1, d2, q)" "tv_offset scale = tv_offset side + d1 * d2 * (8 * q)"
    "tv_strides data = (pb, d2 * (8 * q), 8 * q, 1) \<or> tv_strides data = (pb, 8 * q, d1 * (8 * q), 1)"
    "tv_strides scale = (pb, d2 * q, q, 1) \<or> tv_strides scale = (pb, q, d1 * q, 1)"
    using ds shape strides unfolding nvfp4_split_data_scale_def f
    by (auto simp: Let_def dims cancel simp del: nonzero_mult_div_cancel_left nonzero_mult_div_cancel_right)
  have "view_cells data p = {tv_offset side + p * pb..<tv_offset side + p * pb + d1 * d2 * (8 * q)}"
    using view_cells_contiguous [OF d(1) pos(1,2) _ d(5)] q d(2) by simp
  moreover have "view_cells scale p = {tv_offset side + p * pb + d1 * d2 * (8 * q)..<
      tv_offset side + p * pb + d1 * d2 * (9 * q)}"
    using view_cells_contiguous [OF d(3) pos(1,2) q d(6)] d(4) by (simp add: algebra_simps)
  moreover have "0 \<le> d1 * d2 * (8 * q)" "d1 * d2 * (8 * q) \<le> d1 * d2 * (9 * q)" using pos q by simp_all
  ultimately show ?thesis unfolding ds f dims Let_def by auto
qed

definition sample_side :: tensor_view where
  "sample_side = \<lparr>tv_shape = (2, 4, 16, 36), tv_strides = (4608, 576, 36, 1), tv_offset = 0\<rparr>"

theorem nvfp4_views_partition_witness:
  "view_cells (fst (nvfp4_split_data_scale sample_side)) 1 = {4608..<6656}
   \<and> view_cells (snd (nvfp4_split_data_scale sample_side)) 1 = {6656..<6912}"
proof -
  have f: "nvfp4_kv_cache_full_dim 64 = 36" by (simp add: nvfp4_kv_cache_full_dim_def)
  have s: "tv_shape sample_side = (2, 4, 16, nvfp4_kv_cache_full_dim 64)"
    "tv_strides sample_side = (4608, 16 * nvfp4_kv_cache_full_dim 64, nvfp4_kv_cache_full_dim 64, 1)"
    "tv_offset sample_side = 0"
    unfolding f by (simp_all add: sample_side_def)
  show ?thesis
    using nvfp4_views_partition [OF s(1) disjI1 [OF s(2)], of 1] s(3) f
    by (simp add: Let_def split: prod.splits)
qed

end
