(* ===== verification/CudaGraphs.thy ===== *)
theory CudaGraphs
  imports DepthLadder
begin

text \<open>
  The CUDA-graph manager of \<^verbatim>\<open>vllm/v1/worker/gpu/cudagraph_utils.py\<close>: the batch shapes it
  captures, the candidate lists it builds, the two checks that refuse an adaptive ladder without
  FULL graphs, the capture order and the dispatch of a batch to a captured shape. The
  device, the graph pool and the model are not modelled: a captured graph is its descriptor.

  \<^verbatim>\<open>CUDAGraphMode\<close> and \<^verbatim>\<open>round_up\<close> are defined outside the repository. What the manager asks of the
  configured mode is the record \<open>mode_api\<close>; \<open>round_up\<close> is an argument.
\<close>

subsection \<open>Shapes\<close>

datatype cgmode = CG_NONE | CG_PIECEWISE | CG_FULL

record mode_api =
  mode_on :: bool
  decode_mode :: cgmode
  mixed_mode :: cgmode
  separate_routine :: bool
  has_full_cudagraphs :: bool

record desc =
  cg_mode :: cgmode
  num_tokens :: int
  num_reqs :: "int option"
  uniform_token_count :: "int option"
  num_active_loras :: int

definition is_compatible :: "desc \<Rightarrow> int \<Rightarrow> int \<Rightarrow> int option \<Rightarrow> int \<Rightarrow> bool" where
  "is_compatible d reqs tokens uniform loras \<longleftrightarrow>
     (uniform_token_count d = None \<or> uniform_token_count d = uniform)
     \<and> (case num_reqs d of None \<Rightarrow> True | Some n \<Rightarrow> n \<ge> reqs)
     \<and> num_tokens d \<ge> tokens
     \<and> num_active_loras d = loras"

definition get_uniform_token_count :: "int \<Rightarrow> int \<Rightarrow> int \<Rightarrow> int option" where
  "get_uniform_token_count reqs tokens max_query_len =
     (if max_query_len = tokens div reqs \<and> tokens = max_query_len * reqs then Some max_query_len else None)"

subsection \<open>Configuration and state\<close>

text \<open>
  The part of the speculative configuration the manager reads: the static schedule
  \<open>(range_start, range_end, tokens)\<close> when it is in use, and whether acceptance-length
  adaptation is in use.
\<close>

record spec_config =
  batch_size_schedule :: "(int \<times> int \<times> int) list option"
  uses_acceptance_length_adaptation :: bool

record cg_config =
  cg_api :: mode_api
  decode_query_len :: int
  max_num_reqs :: int
  lora_cases :: "int list"
  capture_sizes :: "int list"
  max_capture_size :: int
  speculative :: "spec_config option"
  num_spec_tokens :: int
  ladder_env :: "string option"
  round_up_fn :: "int \<Rightarrow> int \<Rightarrow> int"

type_synonym desc_table = "(int \<times> int, desc list) dict"
type_synonym candidates = "int \<times> int \<Rightarrow> desc list option"

record cg_state =
  cg_candidates :: candidates
  capture_descs :: "(cgmode, desc list) dict"
  graphs :: "desc list"
  graphs_captured :: bool

datatype cg_error =
    NoSpecTokens
  | UnknownVerifierShape
  | LadderFailed
  | EmptyLadder
  | NoGraphsAtAll
  | NotFullMode
  | MissingShapes "(int \<times> int) list"
  | AlreadyCaptured desc
  | NotFullDescriptor
  | NoSuchGraph

text \<open>\<^verbatim>\<open>lora_capture_cases or [0]\<close>.\<close>

definition lora_capture_cases :: "cg_config \<Rightarrow> int list" where
  "lora_capture_cases cfg = (if lora_cases cfg = [] then [0] else lora_cases cfg)"

subsection \<open>LoRA cases\<close>

text \<open>The inner \<^verbatim>\<open>while\<close> advances to the first case that is large enough; \<open>cases\<close> is the rest of
  the sorted list from the current index on.\<close>

fun lora_map_from :: "int list \<Rightarrow> int list \<Rightarrow> (int, int) dict" where
  "lora_map_from [] cases = []"
| "lora_map_from (n # ns) cases =
     (let rest = dropWhile (\<lambda>c. c < n) cases in (n, hd rest) # lora_map_from ns rest)"

definition build_lora_dispatch_map :: "int list \<Rightarrow> (int, int) dict \<times> int" where
  "build_lora_dispatch_map cases =
     (let captured = sort (filter (\<lambda>c. c > 0) cases) in
      if captured = [] then ([], 0)
      else (lora_map_from (py_range 1 (last captured + 1)) captured, last captured))"

definition resolve_effective_loras :: "cg_config \<Rightarrow> int \<Rightarrow> int" where
  "resolve_effective_loras cfg n =
     (let (dispatch_map, max_case) = build_lora_dispatch_map (lora_capture_cases cfg) in
      if n \<le> 0 \<or> dispatch_map = [] then n
      else case dict_get dispatch_map n of Some c \<Rightarrow> c | None \<Rightarrow> max_case)"

subsection \<open>The adaptive ladder\<close>

definition adaptive_spec_decode_query_lens :: "cg_config \<Rightarrow> cg_error + int list" where
  "adaptive_spec_decode_query_lens cfg =
     (case speculative cfg of
        None \<Rightarrow> Inr []
      | Some sc \<Rightarrow>
          if decode_query_len cfg \<le> 1 then Inr []
          else if \<not> uses_acceptance_length_adaptation sc then Inr []
          else
            bindE (raiseIf (num_spec_tokens cfg \<le> 0) NoSpecTokens) (\<lambda>_.
            (let new_sampled = decode_query_len cfg - num_spec_tokens cfg in
             bindE (raiseIf (new_sampled < 1) UnknownVerifierShape) (\<lambda>_.
             (case parse_adaptive_spec_depth_ladder (ladder_env cfg) (num_spec_tokens cfg) None of
                Inl e \<Rightarrow> Inl LadderFailed
              | Inr ladder \<Rightarrow>
                  (let lens = map (\<lambda>d. d + new_sampled) ladder in
                   bindE (raiseIf (lens = []) EmptyLadder) (\<lambda>_. Inr lens)))))))"

definition assert_adaptive_spec_graphs_possible :: "cg_config \<Rightarrow> cg_error + unit" where
  "assert_adaptive_spec_graphs_possible cfg =
     bindE (adaptive_spec_decode_query_lens cfg) (\<lambda>lens. raiseIf (lens \<noteq> []) NoGraphsAtAll)"

text \<open>\<open>max_captured\<close> is the largest request count with exact shapes.\<close>

definition max_captured_reqs :: "cg_config \<Rightarrow> int" where
  "max_captured_reqs cfg = min (max_num_reqs cfg) 32"

definition shape_key :: "desc \<Rightarrow> int \<times> int option \<times> int option \<times> int" where
  "shape_key d = (num_tokens d, num_reqs d, uniform_token_count d, num_active_loras d)"

subsection \<open>Tables with default entries\<close>

text \<open>\<^verbatim>\<open>defaultdict(list)\<close>: reading a missing key creates it.\<close>

definition table_get :: "('k, 'v list) dict \<Rightarrow> 'k \<Rightarrow> 'v list" where
  "table_get d k = (case dict_get d k of None \<Rightarrow> [] | Some v \<Rightarrow> v)"

definition table_touch :: "'k \<Rightarrow> ('k, 'v list) dict \<Rightarrow> ('k, 'v list) dict" where
  "table_touch k d = (if k \<in> set (dict_keys d) then d else d @ [(k, [])])"

definition table_append :: "'k \<Rightarrow> 'v \<Rightarrow> ('k, 'v list) dict \<Rightarrow> ('k, 'v list) dict" where
  "table_append k v d = dict_set k (table_get d k @ [v]) d"

record tables =
  by_mode :: "(cgmode, desc list) dict"
  by_token :: desc_table

definition no_tables :: tables where
  "no_tables = \<lparr>by_mode = [], by_token = []\<rparr>"

definition add_desc :: "cgmode \<Rightarrow> desc \<Rightarrow> tables \<Rightarrow> tables" where
  "add_desc m d t =
     \<lparr>by_mode = table_append m d (by_mode t),
      by_token = table_append (num_tokens d, num_active_loras d) d (by_token t)\<rparr>"

subsection \<open>Candidates\<close>

text \<open>
  The static schedule's query lengths; without one, the fixed decode query length.
\<close>

definition decode_query_lens :: "cg_config \<Rightarrow> int list" where
  "decode_query_lens cfg =
     (case speculative cfg of
        None \<Rightarrow> [decode_query_len cfg]
      | Some sc \<Rightarrow>
         (case batch_size_schedule sc of
            None \<Rightarrow> [decode_query_len cfg]
          | Some schedule \<Rightarrow>
              map (\<lambda>(_, _, k). k + (decode_query_len cfg - num_spec_tokens cfg)) schedule))"

definition decode_desc :: "cg_config \<Rightarrow> int \<Rightarrow> int \<Rightarrow> int \<Rightarrow> tables \<Rightarrow> tables" where
  "decode_desc cfg tokens loras query_len t =
     (let rounded = round_up_fn cfg tokens query_len;
          reqs = rounded div query_len in
      if rounded > max_num_reqs cfg * decode_query_len cfg \<or> rounded > max_capture_size cfg
         \<or> reqs > max_num_reqs cfg
      then t
      else
        (let m = decode_mode (cg_api cfg);
             d = \<lparr>cg_mode = m, num_tokens = rounded, num_reqs = Some reqs,
                  uniform_token_count = Some query_len, num_active_loras = loras\<rparr>;
             t' = t\<lparr>by_mode := table_touch m (by_mode t)\<rparr> in
         if d \<in> set (table_get (by_mode t) m) then t' else add_desc m d t'))"

definition mixed_desc :: "cg_config \<Rightarrow> int \<Rightarrow> int \<Rightarrow> tables \<Rightarrow> tables" where
  "mixed_desc cfg tokens loras t =
     (let m = mixed_mode (cg_api cfg) in
      if m = CG_NONE then t
      else add_desc m \<lparr>cg_mode = m, num_tokens = tokens,
             num_reqs = (if m = CG_FULL then Some (min tokens (max_num_reqs cfg)) else None),
             uniform_token_count = None, num_active_loras = loras\<rparr> t)"

definition base_step :: "cg_config \<Rightarrow> int \<times> int \<Rightarrow> tables \<Rightarrow> tables" where
  "base_step cfg x t =
     (case x of (tokens, loras) \<Rightarrow>
       mixed_desc cfg tokens loras
         (if separate_routine (cg_api cfg) \<and> decode_mode (cg_api cfg) \<noteq> CG_NONE
          then fold (decode_desc cfg tokens loras) (decode_query_lens cfg) t else t))"

definition base_tables :: "cg_config \<Rightarrow> tables" where
  "base_tables cfg =
     fold (base_step cfg) (List.product (sort (capture_sizes cfg)) (lora_capture_cases cfg)) no_tables"

text \<open>
  The adaptive shapes: one descriptor per query length, request count and LoRA case, unless the
  shape exceeds the capture limits or is already captured.
\<close>

definition adaptive_step ::
    "cg_config \<Rightarrow> int \<times> int \<times> int \<Rightarrow> (cgmode, desc list) dict \<times> desc_table
      \<Rightarrow> (cgmode, desc list) dict \<times> desc_table" where
  "adaptive_step cfg x s =
     (case (x, s) of ((query_len, reqs, loras), (modes, adaptive)) \<Rightarrow>
       (let m = decode_mode (cg_api cfg);
            tokens = query_len * reqs;
            d = \<lparr>cg_mode = m, num_tokens = tokens, num_reqs = Some reqs,
                 uniform_token_count = Some query_len, num_active_loras = loras\<rparr> in
        if tokens > max_num_reqs cfg * decode_query_len cfg \<or> tokens > max_capture_size cfg then s
        else if shape_key d \<in> set (map shape_key (table_get modes m)) then s
        else (table_append m d modes, table_append (tokens, loras) d adaptive)))"

definition adaptive_shapes :: "cg_config \<Rightarrow> int list \<Rightarrow> (int \<times> int \<times> int) list" where
  "adaptive_shapes cfg lens =
     List.product lens (List.product (py_range 1 (max_captured_reqs cfg + 1)) (lora_capture_cases cfg))"

definition init_adaptive_spec_candidates ::
    "cg_config \<Rightarrow> (cgmode, desc list) dict \<Rightarrow> cg_error + (cgmode, desc list) dict \<times> desc_table" where
  "init_adaptive_spec_candidates cfg modes =
     bindE (adaptive_spec_decode_query_lens cfg) (\<lambda>lens.
     Inr (if lens \<noteq> [] \<and> separate_routine (cg_api cfg) \<and> decode_mode (cg_api cfg) \<noteq> CG_NONE
          then fold (adaptive_step cfg) (adaptive_shapes cfg lens)
                 (table_touch (decode_mode (cg_api cfg)) modes, [])
          else (modes, [])))"

text \<open>Every token count of a range gets the descriptors of the smallest bucket that holds it.\<close>

definition fill_bucket :: "desc_table \<Rightarrow> int list \<Rightarrow> int \<Rightarrow> int \<Rightarrow> candidates \<Rightarrow> candidates" where
  "fill_bucket table cases start bucket cand =
     fold (\<lambda>(i, loras) c. case dict_get table (bucket, loras) of
             None \<Rightarrow> c | Some ds \<Rightarrow> c((i, loras) \<mapsto> ds))
       (List.product (py_range start (bucket + 1)) cases) cand"

fun fill_buckets :: "desc_table \<Rightarrow> int list \<Rightarrow> int \<Rightarrow> int list \<Rightarrow> candidates \<Rightarrow> candidates" where
  "fill_buckets table cases start [] cand = cand"
| "fill_buckets table cases start (bucket # buckets) cand =
     fill_buckets table cases (bucket + 1) buckets (fill_bucket table cases start bucket cand)"

definition build_candidate_ranges :: "int list \<Rightarrow> desc_table \<Rightarrow> candidates" where
  "build_candidate_ranges cases table =
     fill_buckets table cases 0 (sorted_set (map fst (dict_keys table))) Map.empty"

text \<open>\<^verbatim>\<open>merged.extend(desc for desc in base if desc not in merged)\<close>: the test sees the growing list.\<close>

fun extend_new :: "desc list \<Rightarrow> desc list \<Rightarrow> desc list" where
  "extend_new merged [] = merged"
| "extend_new merged (d # ds) = extend_new (if d \<in> set merged then merged else merged @ [d]) ds"

definition layer_candidates :: "candidates \<Rightarrow> candidates \<Rightarrow> candidates" where
  "layer_candidates adaptive base = (\<lambda>key. case adaptive key of
      None \<Rightarrow> base key
    | Some ds \<Rightarrow> Some (extend_new ds (case base key of None \<Rightarrow> [] | Some bs \<Rightarrow> bs)))"

definition sort_descs :: "desc list \<Rightarrow> desc list" where
  "sort_descs ds = sort_key (\<lambda>d. - num_tokens d) ds"

definition missing_shapes :: "cg_config \<Rightarrow> (cgmode, desc list) dict \<Rightarrow> int list \<Rightarrow> (int \<times> int) list" where
  "missing_shapes cfg modes lens =
     map (\<lambda>(q, n, l). (q, n))
       (filter (\<lambda>(q, n, l). (q * n, Some n, Some q, l) \<notin> set (map shape_key (table_get modes CG_FULL)))
         (adaptive_shapes cfg lens))"

definition assert_adaptive_spec_graph_coverage ::
    "cg_config \<Rightarrow> (cgmode, desc list) dict \<Rightarrow> cg_error + unit" where
  "assert_adaptive_spec_graph_coverage cfg modes =
     bindE (adaptive_spec_decode_query_lens cfg) (\<lambda>lens.
     if lens = [] then Inr ()
     else
       bindE (raiseIf (\<not> has_full_cudagraphs (cg_api cfg)) NotFullMode) (\<lambda>_.
       if \<not> separate_routine (cg_api cfg) then Inr ()
       else raiseIf (missing_shapes cfg modes lens \<noteq> []) (MissingShapes (missing_shapes cfg modes lens))))"

definition empty_state :: cg_state where
  "empty_state = \<lparr>cg_candidates = Map.empty, capture_descs = [], graphs = [], graphs_captured = False\<rparr>"

definition init_candidates :: "cg_config \<Rightarrow> cg_error + cg_state" where
  "init_candidates cfg =
     (if \<not> (mode_on (cg_api cfg) \<and> capture_sizes cfg \<noteq> [])
      then bindE (assert_adaptive_spec_graphs_possible cfg) (\<lambda>_. Inr empty_state)
      else
        (let base = base_tables cfg in
         bindE (init_adaptive_spec_candidates cfg (by_mode base)) (\<lambda>(modes, adaptive).
         if by_token base = [] \<and> adaptive = []
         then bindE (assert_adaptive_spec_graphs_possible cfg) (\<lambda>_. Inr empty_state)
         else
           (let cases = lora_capture_cases cfg;
                cands = layer_candidates (build_candidate_ranges cases adaptive)
                          (build_candidate_ranges cases (by_token base));
                sorted_modes = map (\<lambda>(m, ds). (m, sort_descs ds)) modes in
            bindE (assert_adaptive_spec_graph_coverage cfg sorted_modes) (\<lambda>_.
            Inr (empty_state\<lparr>cg_candidates := cands, capture_descs := sorted_modes\<rparr>))))))"

subsection \<open>Capture, dispatch and replay\<close>

definition needs_capture :: "cg_state \<Rightarrow> bool" where
  "needs_capture st \<longleftrightarrow> capture_descs st \<noteq> []"

text \<open>The capture of one descriptor: PIECEWISE graphs are kept by the compiled model.\<close>

definition capture_one :: "desc \<Rightarrow> desc list \<Rightarrow> cg_error + desc list" where
  "capture_one d gs =
     (if cg_mode d = CG_PIECEWISE then Inr gs
      else bindE (raiseIf (d \<in> set gs) (AlreadyCaptured d)) (\<lambda>_. Inr (gs @ [d])))"

definition capture :: "cg_state \<Rightarrow> cg_error + cg_state" where
  "capture st =
     bindE (foldE (\<lambda>m gs. case dict_get (capture_descs st) m of
                      None \<Rightarrow> Inr gs | Some ds \<Rightarrow> foldE capture_one ds gs)
              [CG_PIECEWISE, CG_FULL] (graphs st)) (\<lambda>gs.
     Inr (st\<lparr>graphs := gs, graphs_captured := True\<rparr>))"

definition eager_desc :: "int \<Rightarrow> int \<Rightarrow> int \<Rightarrow> desc" where
  "eager_desc reqs tokens loras =
     \<lparr>cg_mode = CG_NONE, num_tokens = tokens, num_reqs = Some reqs, uniform_token_count = None,
      num_active_loras = loras\<rparr>"

definition dispatch :: "cg_config \<Rightarrow> cg_state \<Rightarrow> int \<Rightarrow> int \<Rightarrow> int option \<Rightarrow> int \<Rightarrow> desc" where
  "dispatch cfg st reqs tokens uniform loras =
     (let effective = resolve_effective_loras cfg loras;
          found = (if graphs_captured st \<and> tokens > 0
                   then (case cg_candidates st (tokens, effective) of
                           None \<Rightarrow> None
                         | Some ds \<Rightarrow> find (\<lambda>d. is_compatible d reqs tokens uniform effective) ds)
                   else None) in
      case found of Some d \<Rightarrow> d | None \<Rightarrow> eager_desc reqs tokens effective)"

definition run_fullgraph :: "cg_state \<Rightarrow> desc \<Rightarrow> cg_error + unit" where
  "run_fullgraph st d =
     bindE (raiseIf (cg_mode d \<noteq> CG_FULL) NotFullDescriptor) (\<lambda>_.
     raiseIf (d \<notin> set (graphs st)) NoSuchGraph)"

subsection \<open>Table lemmas\<close>

lemma table_get_append [simp]:
  "table_get (table_append k v d) k' = table_get d k' @ (if k' = k then [v] else [])"
  by (auto simp: table_get_def table_append_def dict_get_set split: option.splits)

lemma dict_get_snoc: "dict_get (d @ [(k, v)]) k' = (case dict_get d k' of None \<Rightarrow> if k' = k then Some v else None | Some w \<Rightarrow> Some w)"
  by (induction d) (auto simp: dict_get_def)

lemma table_get_touch [simp]: "table_get (table_touch k d) k' = table_get d k'"
  by (auto simp: table_get_def table_touch_def dict_get_snoc dict_get_eq_None [symmetric] split: option.splits)

lemma table_get_Nil [simp]: "table_get [] k = []"
  by (simp add: table_get_def)

lemma dict_get_of_table: "d \<in> set (table_get t k) \<Longrightarrow> dict_get t k = Some (table_get t k)"
  by (cases "dict_get t k") (auto simp: table_get_def)

lemma table_get_keys: "d \<in> set (table_get t k) \<Longrightarrow> k \<in> set (dict_keys t)"
  by (metis dict_get_eq_None dict_get_of_table option.distinct(1))

lemma table_get_map:
  "table_get (map (\<lambda>(k, v). (k, f v)) t) k = (if k \<in> set (dict_keys t) then f (table_get t k) else [])"
  by (induction t) (auto simp: table_get_def dict_get_def dict_keys_def split: option.splits)

lemma set_sort_descs [simp]: "set (sort_descs ds) = set ds"
  by (simp add: sort_descs_def)

lemma distinct_sort_descs [simp]: "distinct (sort_descs ds) = distinct ds"
  by (simp add: sort_descs_def)

lemma table_get_sorted:
  "set (table_get (map (\<lambda>(m, ds). (m, sort_descs ds)) t) k) = set (table_get t k)"
  "distinct (table_get t k) \<Longrightarrow> distinct (table_get (map (\<lambda>(m, ds). (m, sort_descs ds)) t) k)"
  using table_get_keys by (fastforce simp: table_get_map)+

text \<open>A loop invariant that knows which elements have been processed.\<close>

lemma fold_invariant_prefix:
  assumes "P [] s" and "\<And>xs x ys s. zs = xs @ x # ys \<Longrightarrow> P xs s \<Longrightarrow> P (xs @ [x]) (f x s)"
  shows "P zs (fold f zs s)"
proof -
  have "P xs (fold f xs s)" if "zs = xs @ ys" for xs ys
    using that
  proof (induction xs arbitrary: ys rule: rev_induct)
    case (snoc x xs)
    then have "P xs (fold f xs s)" using snoc.IH [of "x # ys"] by simp
    with assms(2) [of xs x ys] snoc.prems show ?case by simp
  qed (simp add: assms(1))
  from this [of zs "[]"] show ?thesis by simp
qed

subsection \<open>Candidate ranges\<close>

lemma fold_fill:
  "fold (\<lambda>(i, l) c. case g l of None \<Rightarrow> c | Some ds \<Rightarrow> c((i, l) \<mapsto> ds)) ks cand (i, l)
     = (if (i, l) \<in> set ks \<and> g l \<noteq> None then g l else cand (i, l))"
  by (induction ks arbitrary: cand) (auto split: option.splits if_splits)

lemma fill_bucket_apply:
  "fill_bucket table cases start b cand (i, l)
     = (if start \<le> i \<and> i \<le> b \<and> l \<in> set cases \<and> dict_get table (b, l) \<noteq> None
        then dict_get table (b, l) else cand (i, l))"
  unfolding fill_bucket_def by (subst fold_fill) auto

lemma fill_buckets_below:
  "i < start \<Longrightarrow> \<forall>b \<in> set bs. i < b
     \<Longrightarrow> fill_buckets table cases start bs cand (i, l) = cand (i, l)"
  by (induction bs arbitrary: start cand) (auto simp: fill_bucket_apply)

lemma fill_buckets_at:
  "sorted bs \<Longrightarrow> distinct bs \<Longrightarrow> \<forall>b \<in> set bs. start \<le> b \<Longrightarrow> b \<in> set bs \<Longrightarrow> l \<in> set cases
     \<Longrightarrow> dict_get table (b, l) = Some ds \<Longrightarrow> fill_buckets table cases start bs cand (b, l) = Some ds"
proof (induction bs arbitrary: start cand)
  case (Cons c bs)
  show ?case
  proof (cases "b = c")
    case True
    then have "\<forall>d \<in> set bs. b < d" using Cons.prems by (auto simp: less_le)
    then show ?thesis using True Cons.prems by (simp add: fill_buckets_below fill_bucket_apply)
  next
    case False
    then have "\<forall>d \<in> set bs. c + 1 \<le> d" using Cons.prems(1,2) by (auto simp: less_le add1_zle_eq)
    then show ?thesis using False Cons by simp
  qed
qed simp

lemma fill_buckets_from:
  "fill_buckets table cases start bs cand (i, l) = Some ds
     \<Longrightarrow> cand (i, l) = Some ds \<or> l \<in> set cases \<and> (\<exists>b \<ge> i. dict_get table (b, l) = Some ds)"
proof (induction bs arbitrary: start cand)
  case (Cons b bs)
  have "fill_bucket table cases start b cand (i, l) = Some ds
      \<or> l \<in> set cases \<and> (\<exists>b \<ge> i. dict_get table (b, l) = Some ds)"
    using Cons.IH [of "b + 1" "fill_bucket table cases start b cand"] Cons.prems by simp
  then show ?case by (auto simp: fill_bucket_apply split: if_splits)
qed simp

lemma build_ranges_at:
  assumes "d \<in> set (table_get table (b, l))" and "l \<in> set cases"
    and "\<forall>k \<in> set (dict_keys table). 0 \<le> fst k"
  shows "build_candidate_ranges cases table (b, l) = Some (table_get table (b, l))"
  unfolding build_candidate_ranges_def
proof (rule fill_buckets_at)
  show "b \<in> set (sorted_set (map fst (dict_keys table)))"
    using table_get_keys [OF assms(1)] by force
qed (use assms dict_get_of_table in auto)

lemma build_ranges_from:
  "build_candidate_ranges cases table (i, l) = Some ds
     \<Longrightarrow> l \<in> set cases \<and> (\<exists>b \<ge> i. dict_get table (b, l) = Some ds)"
  unfolding build_candidate_ranges_def using fill_buckets_from by fastforce

subsection \<open>The base descriptors\<close>

text \<open>
  What a launch guarantees of the configuration: capture sizes and LoRA cases without repetition,
  positive sizes and query lengths; and \<open>round_up\<close> rounds up.
\<close>

definition config_ok :: "cg_config \<Rightarrow> bool" where
  "config_ok cfg \<longleftrightarrow> distinct (capture_sizes cfg) \<and> distinct (lora_capture_cases cfg)
     \<and> (\<forall>s \<in> set (capture_sizes cfg). 0 < s) \<and> (\<forall>q \<in> set (decode_query_lens cfg). 0 < q)
     \<and> (\<forall>x q. 0 < q \<longrightarrow> x \<le> round_up_fn cfg x q)"

text \<open>Uniform decode shapes come before mixed shapes in a bucket.\<close>

definition prio :: "desc \<Rightarrow> desc \<Rightarrow> bool" where
  "prio a b \<longleftrightarrow> uniform_token_count a \<noteq> None \<or> uniform_token_count b = None"

definition desc_key :: "desc \<Rightarrow> int \<times> int" where
  "desc_key d = (num_tokens d, num_active_loras d)"

definition keyed :: "desc_table \<Rightarrow> bool" where
  "keyed t \<longleftrightarrow> (\<forall>k d. d \<in> set (table_get t k) \<longrightarrow> k = desc_key d)"

text \<open>\<open>xs\<close> are the (size, LoRA case) pairs processed so far.\<close>

definition base_inv :: "cg_config \<Rightarrow> (int \<times> int) list \<Rightarrow> tables \<Rightarrow> bool" where
  "base_inv cfg xs t \<longleftrightarrow>
     keyed (by_token t)
     \<and> (\<forall>m d. d \<in> set (table_get (by_mode t) m) \<longleftrightarrow> cg_mode d = m \<and> d \<in> set (table_get (by_token t) (desc_key d)))
     \<and> (\<forall>k. \<forall>d \<in> set (table_get (by_token t) k).
          if uniform_token_count d = None then k \<in> set xs else cg_mode d = decode_mode (cg_api cfg))
     \<and> (\<forall>m. distinct (table_get (by_mode t) m))
     \<and> (\<forall>k. sorted_wrt prio (table_get (by_token t) k))
     \<and> (\<forall>k \<in> set (dict_keys (by_token t)). 0 \<le> fst k)"

lemma base_invD:
  assumes "base_inv cfg xs t"
  shows "keyed (by_token t)"
    "d \<in> set (table_get (by_mode t) m) \<longleftrightarrow> cg_mode d = m \<and> d \<in> set (table_get (by_token t) (desc_key d))"
    "d \<in> set (table_get (by_token t) k) \<Longrightarrow> uniform_token_count d = None \<Longrightarrow> k \<in> set xs"
    "d \<in> set (table_get (by_token t) k) \<Longrightarrow> uniform_token_count d \<noteq> None \<Longrightarrow> cg_mode d = decode_mode (cg_api cfg)"
    "distinct (table_get (by_mode t) m)" "sorted_wrt prio (table_get (by_token t) k)"
    "\<forall>k \<in> set (dict_keys (by_token t)). 0 \<le> fst k"
  using assms unfolding base_inv_def by (meson, (simp; fail)?)+

lemma dict_keys_append_table: "set (dict_keys (table_append k v t)) = insert k (set (dict_keys t))"
  by (simp add: table_append_def)

lemma base_inv_touch: "base_inv cfg xs t \<Longrightarrow> base_inv cfg xs (t\<lparr>by_mode := table_touch m (by_mode t)\<rparr>)"
  by (simp add: base_inv_def)

lemma add_desc_inv:
  assumes inv: "base_inv cfg xs t" and fresh: "d \<notin> set (table_get (by_mode t) (cg_mode d))"
    and sub: "set xs \<subseteq> set ys" and nonneg: "0 \<le> num_tokens d"
    and mixed: "uniform_token_count d = None \<Longrightarrow> desc_key d \<in> set ys"
    and uniform: "uniform_token_count d \<noteq> None \<Longrightarrow> cg_mode d = decode_mode (cg_api cfg)
      \<and> (\<forall>e \<in> set (table_get (by_token t) (desc_key d)). uniform_token_count e \<noteq> None)"
  shows "base_inv cfg ys (add_desc (cg_mode d) d t)"
proof -
  note I = base_invD [OF inv]
  let ?t = "add_desc (cg_mode d) d t"
  have tok: "table_get (by_token ?t) k = table_get (by_token t) k @ (if k = desc_key d then [d] else [])" for k
    by (simp add: add_desc_def desc_key_def)
  have mod: "table_get (by_mode ?t) m = table_get (by_mode t) m @ (if m = cg_mode d then [d] else [])" for m
    by (simp add: add_desc_def)
  have "keyed (by_token ?t)" using I(1) by (auto simp: keyed_def tok)
  moreover have "e \<in> set (table_get (by_mode ?t) m) \<longleftrightarrow>
      cg_mode e = m \<and> e \<in> set (table_get (by_token ?t) (desc_key e))" for m e
    unfolding mod tok using I(2) [of e m] by auto
  moreover have "if uniform_token_count e = None then k \<in> set ys else cg_mode e = decode_mode (cg_api cfg)"
    if "e \<in> set (table_get (by_token ?t) k)" for k e
    using that I(3) [of e k] I(4) [of e k] mixed uniform sub unfolding tok by (auto split: if_splits)
  moreover have "distinct (table_get (by_mode ?t) m)" for m
    unfolding mod using I(5) fresh by auto
  moreover have "sorted_wrt prio (table_get (by_token ?t) k)" for k
    unfolding tok using I(6) [of k] uniform by (auto simp: sorted_wrt_append prio_def)
  moreover have "\<forall>k \<in> set (dict_keys (by_token ?t)). 0 \<le> fst k"
    using I(7) nonneg by (auto simp: add_desc_def dict_keys_append_table)
  ultimately show ?thesis unfolding base_inv_def by blast
qed

lemma decode_desc_inv:
  assumes ok: "config_ok cfg" and q: "0 < q" and pos: "0 < tokens"
    and new: "(tokens, l) \<notin> set xs" and sorted: "\<forall>x \<in> set xs. fst x \<le> tokens"
    and inv: "base_inv cfg xs t"
  shows "base_inv cfg xs (decode_desc cfg tokens l q t)"
proof -
  let ?r = "round_up_fn cfg tokens q" and ?m = "decode_mode (cg_api cfg)"
  let ?d = "\<lparr>cg_mode = ?m, num_tokens = ?r, num_reqs = Some (?r div q),
              uniform_token_count = Some q, num_active_loras = l\<rparr>"
  let ?t = "t\<lparr>by_mode := table_touch ?m (by_mode t)\<rparr>"
  have up: "tokens \<le> ?r" using ok q by (simp add: config_ok_def)
  have "(?r, l) \<notin> set xs" using new sorted up by fastforce
  then have "\<forall>e \<in> set (table_get (by_token ?t) (desc_key ?d)). uniform_token_count e \<noteq> None"
    using base_invD(3) [OF inv] by (auto simp: desc_key_def)
  then have "base_inv cfg xs (add_desc ?m ?d ?t)" if "?d \<notin> set (table_get (by_mode t) ?m)"
    using add_desc_inv [OF base_inv_touch [OF inv], of ?d ?m xs] that up pos by simp
  then show ?thesis using inv base_inv_touch [OF inv] by (simp add: decode_desc_def Let_def)
qed

lemma mixed_desc_inv:
  assumes new: "(tokens, l) \<notin> set xs" and pos: "0 < tokens" and inv: "base_inv cfg xs t"
  shows "base_inv cfg (xs @ [(tokens, l)]) (mixed_desc cfg tokens l t)"
proof (cases "mixed_mode (cg_api cfg) = CG_NONE")
  case True
  then show ?thesis using inv by (simp add: mixed_desc_def base_inv_def)
next
  case False
  let ?m = "mixed_mode (cg_api cfg)"
  let ?d = "\<lparr>cg_mode = ?m, num_tokens = tokens,
             num_reqs = (if ?m = CG_FULL then Some (min tokens (max_num_reqs cfg)) else None),
             uniform_token_count = None, num_active_loras = l\<rparr>"
  have "?d \<notin> set (table_get (by_mode t) ?m)"
    using base_invD(2) [OF inv, of ?d ?m] base_invD(3) [OF inv, of ?d "desc_key ?d"] new
    by (auto simp: desc_key_def)
  then show ?thesis
    using add_desc_inv [OF inv, of ?d "xs @ [(tokens, l)]"] pos False
    by (cases ?m) (simp_all add: mixed_desc_def Let_def desc_key_def subset_insertI)
qed

lemma product_prefix:
  assumes "List.product (sort ss) ls = xs @ (s, l) # ys" and "distinct ss" and "distinct ls"
  shows "(s, l) \<notin> set xs" and "\<forall>x \<in> set xs. fst x \<le> (s :: int)" and "s \<in> set ss"
proof -
  have "distinct (List.product (sort ss) ls)" using assms(2,3) by (simp add: distinct_product)
  then show "(s, l) \<notin> set xs" unfolding assms(1) by simp
  have "sorted (map fst (List.product (sort ss) ls))"
  proof -
    have "sorted ts \<Longrightarrow> sorted (map fst (List.product ts ls))" for ts :: "int list"
      by (induction ts) (auto simp: sorted_append comp_def sorted_wrt_map)
    then show ?thesis by simp
  qed
  then show "\<forall>x \<in> set xs. fst x \<le> s" unfolding assms(1) by (auto simp: sorted_append)
  have "(s, l) \<in> set (List.product (sort ss) ls)" unfolding assms(1) by simp
  then show "s \<in> set ss" by simp
qed

lemma base_tables_inv:
  assumes ok: "config_ok cfg"
  shows "base_inv cfg (List.product (sort (capture_sizes cfg)) (lora_capture_cases cfg)) (base_tables cfg)"
  unfolding base_tables_def
proof (rule fold_invariant_prefix)
  show "base_inv cfg [] no_tables" by (simp add: base_inv_def keyed_def no_tables_def dict_keys_def)
  fix xs x ys t
  assume split: "List.product (sort (capture_sizes cfg)) (lora_capture_cases cfg) = xs @ x # ys"
    and inv: "base_inv cfg xs t"
  obtain s l where x: "x = (s, l)" by (cases x)
  note pp = product_prefix [OF split [unfolded x]]
  have facts: "(s, l) \<notin> set xs" "\<forall>x \<in> set xs. fst x \<le> s" "0 < s"
    using pp ok by (auto simp: config_ok_def)
  have "base_inv cfg xs (fold (decode_desc cfg s l) qs u)"
    if "base_inv cfg xs u" "set qs \<subseteq> set (decode_query_lens cfg)" for qs u
    using that
  proof (induction qs arbitrary: u)
    case (Cons q qs)
    then have "0 < q" using ok by (auto simp: config_ok_def)
    then show ?case using Cons decode_desc_inv [OF ok _ facts(3,1,2)] by simp
  qed simp
  from this [OF inv subset_refl] inv
  have "base_inv cfg xs (if separate_routine (cg_api cfg) \<and> decode_mode (cg_api cfg) \<noteq> CG_NONE
      then fold (decode_desc cfg s l) (decode_query_lens cfg) t else t)" by simp
  from mixed_desc_inv [OF facts(1,3) this] show "base_inv cfg (xs @ [x]) (base_step cfg x t)"
    by (simp add: base_step_def x)
qed

subsection \<open>The adaptive descriptors\<close>

lemma adaptive_lens_positive:
  assumes "adaptive_spec_decode_query_lens cfg = Inr lens" and "q \<in> set lens"
  shows "1 < q"
proof -
  obtain ladder where "parse_adaptive_spec_depth_ladder (ladder_env cfg) (num_spec_tokens cfg) None = Inr ladder"
    and "1 \<le> decode_query_len cfg - num_spec_tokens cfg"
    and "lens = map (\<lambda>d. d + (decode_query_len cfg - num_spec_tokens cfg)) ladder"
    using assms
    by (auto simp: adaptive_spec_decode_query_lens_def Let_def bindE_raiseIf split: option.splits if_splits sum.splits)
  with parse_ladder_ok assms(2) show ?thesis by (fastforce simp: ladder_ok_def)
qed

definition adaptive_inv ::
    "cg_config \<Rightarrow> (cgmode, desc list) dict \<Rightarrow> (cgmode, desc list) dict \<times> desc_table \<Rightarrow> bool" where
  "adaptive_inv cfg base s \<longleftrightarrow> (case s of (modes, adaptive) \<Rightarrow>
     (\<forall>m d. d \<in> set (table_get modes m) \<longleftrightarrow>
        d \<in> set (table_get base m) \<or> cg_mode d = m \<and> d \<in> set (table_get adaptive (desc_key d)))
     \<and> keyed adaptive
     \<and> (\<forall>k. \<forall>d \<in> set (table_get adaptive k).
          cg_mode d = decode_mode (cg_api cfg) \<and> uniform_token_count d \<noteq> None)
     \<and> (\<forall>m. distinct (table_get modes m))
     \<and> (\<forall>k \<in> set (dict_keys adaptive). 0 \<le> fst k))"

lemma adaptive_invD:
  assumes "adaptive_inv cfg base (modes, adaptive)"
  shows "d \<in> set (table_get modes m) \<longleftrightarrow>
        d \<in> set (table_get base m) \<or> cg_mode d = m \<and> d \<in> set (table_get adaptive (desc_key d))"
    "keyed adaptive"
    "d \<in> set (table_get adaptive k) \<Longrightarrow> cg_mode d = decode_mode (cg_api cfg) \<and> uniform_token_count d \<noteq> None"
    "distinct (table_get modes m)" "\<forall>k \<in> set (dict_keys adaptive). 0 \<le> fst k"
  using assms unfolding adaptive_inv_def prod.case by blast+

lemma adaptive_step_inv:
  assumes pos: "0 < q" "0 < n" and inv: "adaptive_inv cfg base s"
  shows "adaptive_inv cfg base (adaptive_step cfg (q, n, l) s)"
proof -
  obtain modes adaptive where s: "s = (modes, adaptive)" by (cases s)
  note I = adaptive_invD [OF inv [unfolded s]]
  let ?m = "decode_mode (cg_api cfg)"
  let ?d = "\<lparr>cg_mode = ?m, num_tokens = q * n, num_reqs = Some n, uniform_token_count = Some q,
              num_active_loras = l\<rparr>"
  let ?modes = "table_append ?m ?d modes" and ?ad = "table_append (q * n, l) ?d adaptive"
  have "adaptive_inv cfg base (?modes, ?ad)" if new: "shape_key ?d \<notin> set (map shape_key (table_get modes ?m))"
  proof -
    have fresh: "?d \<notin> set (table_get modes ?m)" using new by auto
    have "e \<in> set (table_get ?modes m) \<longleftrightarrow>
        e \<in> set (table_get base m) \<or> cg_mode e = m \<and> e \<in> set (table_get ?ad (desc_key e))" for e m
      using I(1) [of e m] by (auto simp: desc_key_def)
    moreover have "keyed ?ad" using I(2) by (auto simp: keyed_def desc_key_def split: if_splits)
    moreover have "cg_mode e = ?m \<and> uniform_token_count e \<noteq> None" if "e \<in> set (table_get ?ad k)" for e k
      using that I(3) [of e k] by (auto split: if_splits)
    moreover have "distinct (table_get ?modes m)" for m using I(4) [of m] fresh by auto
    moreover have "\<forall>k \<in> set (dict_keys ?ad). 0 \<le> fst k"
      using I(5) pos by (auto simp: dict_keys_append_table)
    ultimately show ?thesis unfolding adaptive_inv_def prod.case by blast
  qed
  then show ?thesis using inv unfolding s adaptive_step_def prod.case Let_def by (simp del: set_map)
qed

lemma init_adaptive_inv:
  assumes run: "init_adaptive_spec_candidates cfg base = Inr (modes, adaptive)"
    and dist: "\<And>m. distinct (table_get base m)"
  shows "adaptive_inv cfg base (modes, adaptive)"
proof -
  obtain lens where lens: "adaptive_spec_decode_query_lens cfg = Inr lens"
    using run by (auto simp: init_adaptive_spec_candidates_def bindE_eq_Inr)
  have start: "adaptive_inv cfg base (base, [])" "adaptive_inv cfg base (table_touch m base, [])" for m
    using dist by (auto simp: adaptive_inv_def keyed_def dict_keys_def)
  have "adaptive_inv cfg base (fold (adaptive_step cfg) xs s)"
    if "adaptive_inv cfg base s" "set xs \<subseteq> set (adaptive_shapes cfg lens)" for xs s
    using that
  proof (induction xs arbitrary: s)
    case (Cons x xs)
    obtain q n l where x: "x = (q, n, l)" by (metis prod_cases3)
    have "q \<in> set lens" "0 < n" using Cons.prems(2) by (auto simp: adaptive_shapes_def x)
    then have "0 < q" using adaptive_lens_positive [OF lens] by fastforce
    then show ?case using Cons \<open>0 < n\<close> by (simp add: x adaptive_step_inv)
  qed simp
  from this [OF start(2) subset_refl, of "decode_mode (cg_api cfg)"] show ?thesis
    using run lens start(1) by (auto simp: init_adaptive_spec_candidates_def split: if_splits)
qed

subsection \<open>The state after construction\<close>

lemma extend_new_append: "\<exists>es. extend_new merged ds = merged @ es \<and> set es \<subseteq> set ds \<and> set ds \<subseteq> set (merged @ es)
    \<and> (sorted_wrt R ds \<longrightarrow> sorted_wrt R es)"
proof (induction ds arbitrary: merged)
  case (Cons d ds)
  show ?case
  proof (cases "d \<in> set merged")
    case True
    then show ?thesis using Cons [of merged] by auto
  next
    case False
    then obtain es where "extend_new (merged @ [d]) ds = (merged @ [d]) @ es" "set es \<subseteq> set ds"
        "set ds \<subseteq> set ((merged @ [d]) @ es)" "sorted_wrt R ds \<longrightarrow> sorted_wrt R es"
      using Cons [of "merged @ [d]"] by blast
    with False show ?thesis by (intro exI [of _ "d # es"]) auto
  qed
qed simp

lemma set_extend_new: "set (extend_new merged ds) = set merged \<union> set ds"
  by (induction ds arbitrary: merged) auto

lemma find_prefers:
  assumes "sorted_wrt R ds" and "d \<in> set ds" and "P d"
  shows "\<exists>d'. find P ds = Some d' \<and> d' \<in> set ds \<and> P d' \<and> (d' = d \<or> R d' d)"
  using assms by (induction ds) auto

text \<open>Construction either leaves the manager without graphs or builds all three tables.\<close>

lemma init_candidates_cases:
  assumes "init_candidates cfg = Inr st"
  obtains (nothing) "st = empty_state" "adaptive_spec_decode_query_lens cfg = Inr []"
  | (built) modes adaptive where
      "init_adaptive_spec_candidates cfg (by_mode (base_tables cfg)) = Inr (modes, adaptive)"
      "assert_adaptive_spec_graph_coverage cfg (map (\<lambda>(m, ds). (m, sort_descs ds)) modes) = Inr ()"
      "st = empty_state\<lparr>cg_candidates := layer_candidates
               (build_candidate_ranges (lora_capture_cases cfg) adaptive)
               (build_candidate_ranges (lora_capture_cases cfg) (by_token (base_tables cfg))),
             capture_descs := map (\<lambda>(m, ds). (m, sort_descs ds)) modes\<rparr>"
proof -
  have possible: "adaptive_spec_decode_query_lens cfg = Inr []"
    if "assert_adaptive_spec_graphs_possible cfg = Inr u" for u
    using that by (auto simp: assert_adaptive_spec_graphs_possible_def bindE_eq_Inr)
  show thesis
  proof (cases "mode_on (cg_api cfg) \<and> capture_sizes cfg \<noteq> []")
    case False
    with assms have none: "assert_adaptive_spec_graphs_possible cfg = Inr ()" "st = empty_state"
      by (simp_all add: init_candidates_def bindE_eq_Inr)
    show thesis by (rule that(1) [OF none(2) possible [OF none(1)]])
  next
    case True
    then obtain modes adaptive where
      ad: "init_adaptive_spec_candidates cfg (by_mode (base_tables cfg)) = Inr (modes, adaptive)"
      using assms by (auto simp: init_candidates_def Let_def bindE_eq_Inr)
    show thesis
    proof (cases "by_token (base_tables cfg) = [] \<and> adaptive = []")
      case True': True
      with assms True ad have none: "assert_adaptive_spec_graphs_possible cfg = Inr ()" "st = empty_state"
        by (simp_all add: init_candidates_def Let_def bindE_eq_Inr)
      show thesis by (rule that(1) [OF none(2) possible [OF none(1)]])
    next
      case False
      with assms True ad show thesis
        by (intro that(2) [OF ad]) (auto simp: init_candidates_def Let_def bindE_eq_Inr)
    qed
  qed
qed

text \<open>
  What construction leaves behind: every candidate is scheduled for capture under its own mode,
  and no descriptor is scheduled twice.
\<close>

definition state_ok :: "cg_state \<Rightarrow> bool" where
  "state_ok st \<longleftrightarrow>
     (\<forall>key ds. \<forall>d \<in> set ds. cg_candidates st key = Some ds
        \<longrightarrow> d \<in> set (table_get (capture_descs st) (cg_mode d)))
     \<and> (\<forall>m d. d \<in> set (table_get (capture_descs st) m) \<longrightarrow> cg_mode d = m)
     \<and> (\<forall>m. distinct (table_get (capture_descs st) m))"

lemma layer_candidates_mem:
  assumes "layer_candidates a b key = Some ds" and "d \<in> set ds"
  shows "\<exists>es. d \<in> set es \<and> (a key = Some es \<or> b key = Some es)"
proof (cases "a key")
  case (Some as)
  let ?bs = "case b key of None \<Rightarrow> [] | Some bs \<Rightarrow> bs"
  have "ds = extend_new as ?bs" using assms(1) Some by (simp add: layer_candidates_def)
  then obtain es where "ds = as @ es" "set es \<subseteq> set ?bs" using extend_new_append [of as ?bs] by blast
  with assms(2) Some show ?thesis by (cases "b key") auto
qed (use assms in \<open>auto simp: layer_candidates_def\<close>)

lemma ranges_mem:
  assumes "build_candidate_ranges cases t key = Some ds" and "d \<in> set ds" and "keyed t"
  shows "d \<in> set (table_get t (desc_key d))"
proof -
  obtain i l where key: "key = (i, l)" by (cases key)
  obtain b where "dict_get t (b, l) = Some ds" using build_ranges_from assms(1) key by blast
  then have "d \<in> set (table_get t (b, l))" using assms(2) by (simp add: table_get_def)
  with assms(3) show ?thesis by (auto simp: keyed_def)
qed

lemma init_state_ok:
  assumes ok: "config_ok cfg" and init: "init_candidates cfg = Inr st"
  shows "state_ok st"
  using init
proof (cases rule: init_candidates_cases)
  case nothing
  then show ?thesis by (simp add: state_ok_def empty_state_def)
next
  case (built modes adaptive)
  let ?b = "base_tables cfg"
  note B = base_invD [OF base_tables_inv [OF ok]]
  note A = adaptive_invD [OF init_adaptive_inv [OF built(1) B(5)]]
  have "d \<in> set (table_get modes (cg_mode d))"
    if mem: "cg_candidates st key = Some ds" "d \<in> set ds" for key ds d
  proof -
    obtain es where "d \<in> set es"
      "build_candidate_ranges (lora_capture_cases cfg) adaptive key = Some es
        \<or> build_candidate_ranges (lora_capture_cases cfg) (by_token ?b) key = Some es"
      using mem layer_candidates_mem [of "build_candidate_ranges (lora_capture_cases cfg) adaptive"
          "build_candidate_ranges (lora_capture_cases cfg) (by_token ?b)" key ds d]
      by (auto simp: built(3))
    then have "d \<in> set (table_get adaptive (desc_key d)) \<or> d \<in> set (table_get (by_token ?b) (desc_key d))"
      using ranges_mem [OF _ _ A(2)] ranges_mem [OF _ _ B(1)] by blast
    then show ?thesis using A(1) [of d "cg_mode d"] B(2) [of d "cg_mode d"] by blast
  qed
  moreover have "cg_mode d = m" if "d \<in> set (table_get modes m)" for d m
    using that A(1) [of d m] B(2) [of d m] by blast
  ultimately show ?thesis
    using A(4) by (auto simp: state_ok_def built(3) empty_state_def table_get_sorted)
qed

lemma capture_full_list:
  assumes "distinct ds" and "set ds \<inter> set gs = {}" and "\<forall>d \<in> set ds. cg_mode d = CG_FULL"
  shows "foldE capture_one ds gs = Inr (gs @ ds)"
  using assms by (induction ds arbitrary: gs) (auto simp: capture_one_def)

lemma capture_piecewise_list:
  "\<forall>d \<in> set ds. cg_mode d = CG_PIECEWISE \<Longrightarrow> foldE capture_one ds gs = Inr gs"
  by (induction ds) (simp_all add: capture_one_def)

lemma capture_ok:
  assumes "state_ok st" and "graphs st = []"
  shows "capture st = Inr (st\<lparr>graphs := table_get (capture_descs st) CG_FULL, graphs_captured := True\<rparr>)"
proof -
  let ?f = "\<lambda>m gs. case dict_get (capture_descs st) m of None \<Rightarrow> Inr gs | Some ds \<Rightarrow> foldE capture_one ds gs"
  have modes: "\<forall>d \<in> set (table_get (capture_descs st) m). cg_mode d = m" for m
    using assms(1) by (simp add: state_ok_def)
  have "?f CG_PIECEWISE [] = Inr []"
    using capture_piecewise_list modes [of CG_PIECEWISE] by (auto simp: table_get_def split: option.splits)
  moreover have "?f CG_FULL [] = Inr (table_get (capture_descs st) CG_FULL)"
    using capture_full_list [of "table_get (capture_descs st) CG_FULL" "[]"] modes [of CG_FULL] assms(1)
    by (auto simp: state_ok_def table_get_def split: option.splits)
  ultimately show ?thesis by (simp add: capture_def assms(2))
qed

lemma init_no_graphs: "init_candidates cfg = Inr st \<Longrightarrow> graphs st = [] \<and> \<not> graphs_captured st"
  by (erule init_candidates_cases) (simp_all add: empty_state_def)

lemma dispatch_cases:
  obtains (eager) "dispatch cfg st reqs tokens u l = eager_desc reqs tokens (resolve_effective_loras cfg l)"
  | (found) ds where "graphs_captured st" "0 < tokens"
      "cg_candidates st (tokens, resolve_effective_loras cfg l) = Some ds"
      "dispatch cfg st reqs tokens u l \<in> set ds"
      "is_compatible (dispatch cfg st reqs tokens u l) reqs tokens u (resolve_effective_loras cfg l)"
proof -
  let ?e = "resolve_effective_loras cfg l"
  let ?P = "\<lambda>d. is_compatible d reqs tokens u ?e"
  let ?find = "if graphs_captured st \<and> tokens > 0 then (case cg_candidates st (tokens, ?e) of
                   None \<Rightarrow> None | Some ds \<Rightarrow> find ?P ds) else None"
  have disp: "dispatch cfg st reqs tokens u l
      = (case ?find of Some d \<Rightarrow> d | None \<Rightarrow> eager_desc reqs tokens ?e)"
    by (simp only: dispatch_def Let_def)
  show thesis
  proof (cases ?find)
    case None
    then show thesis using disp eager by simp
  next
    case (Some d)
    then obtain ds where ds: "graphs_captured st" "0 < tokens" "cg_candidates st (tokens, ?e) = Some ds"
      "find ?P ds = Some d" by (auto split: if_splits option.splits)
    then have "d \<in> set ds" "?P d" by (metis find_Some_iff nth_mem)+
    then show thesis using found [of ds] ds disp Some by simp
  qed
qed

text \<open>
  C20: construction, capture and dispatch fit together. When the manager is built without an
  error, the capture pass runs to the end (the assertion that no graph is captured twice never
  fires), and whatever batch arrives afterwards, a FULL descriptor handed out by \<^verbatim>\<open>dispatch\<close> can
  hold that batch and has a captured graph: \<^verbatim>\<open>run_fullgraph\<close> does not fail on it.
\<close>

theorem captured_graphs_replayable:
  assumes "config_ok cfg" and "init_candidates cfg = Inr st"
  shows "\<exists>st'. capture st = Inr st' \<and>
     (\<forall>reqs tokens u l. let d = dispatch cfg st' reqs tokens u l in cg_mode d = CG_FULL \<longrightarrow>
        run_fullgraph st' d = Inr () \<and> is_compatible d reqs tokens u (resolve_effective_loras cfg l))"
proof -
  note ok = init_state_ok [OF assms]
  let ?st' = "st\<lparr>graphs := table_get (capture_descs st) CG_FULL, graphs_captured := True\<rparr>"
  have "run_fullgraph ?st' (dispatch cfg ?st' reqs tokens u l) = Inr ()
      \<and> is_compatible (dispatch cfg ?st' reqs tokens u l) reqs tokens u (resolve_effective_loras cfg l)"
    if full: "cg_mode (dispatch cfg ?st' reqs tokens u l) = CG_FULL" for reqs tokens u l
  proof (cases rule: dispatch_cases [of cfg ?st' reqs tokens u l])
    case eager
    with full show ?thesis by (simp add: eager_desc_def)
  next
    case (found ds)
    then have "dispatch cfg ?st' reqs tokens u l \<in> set (table_get (capture_descs st) CG_FULL)"
      using ok full unfolding state_ok_def by fastforce
    with full found show ?thesis by (simp add: run_fullgraph_def)
  qed
  with capture_ok [OF ok] init_no_graphs [OF assms(2)] show ?thesis by (simp add: Let_def)
qed

text \<open>A launch configuration: five speculative tokens, the default ladder, two requests, two
  capture sizes; \<open>round_up\<close> is the usual one.\<close>

definition round_up_ref :: "int \<Rightarrow> int \<Rightarrow> int" where
  "round_up_ref x q = - ((- x) div q) * q"

lemma round_up_ref_ge: "0 < q \<Longrightarrow> x \<le> round_up_ref x q"
proof -
  assume q: "0 < q"
  have "(- x) div q * q + (- x) mod q = - x" by (rule div_mult_mod_eq)
  moreover have "0 \<le> (- x) mod q" using q by (rule pos_mod_sign)
  ultimately show ?thesis unfolding round_up_ref_def by linarith
qed

definition sample_config :: cg_config where
  "sample_config = \<lparr>
     cg_api = \<lparr>mode_on = True, decode_mode = CG_FULL, mixed_mode = CG_PIECEWISE,
                separate_routine = True, has_full_cudagraphs = True\<rparr>,
     decode_query_len = 6, max_num_reqs = 2, lora_cases = [], capture_sizes = [6, 12], max_capture_size = 12,
     speculative = Some \<lparr>batch_size_schedule = None, uses_acceptance_length_adaptation = True\<rparr>,
     num_spec_tokens = 5, ladder_env = None, round_up_fn = round_up_ref\<rparr>"

lemma sample_config_ok: "config_ok sample_config"
  by (simp add: config_ok_def sample_config_def lora_capture_cases_def decode_query_lens_def round_up_ref_ge)

lemma sample_lens: "adaptive_spec_decode_query_lens sample_config = Inr [3, 5, 6]"
  by code_simp

lemma sample_init: "\<exists>st. init_candidates sample_config = Inr st \<and> needs_capture st"
proof -
  have "case init_candidates sample_config of Inl _ \<Rightarrow> False | Inr st \<Rightarrow> needs_capture st" by code_simp
  then show ?thesis by (auto split: sum.splits)
qed

theorem captured_graphs_replayable_witness:
  "\<exists>st st'. init_candidates sample_config = Inr st \<and> capture st = Inr st' \<and>
     (\<forall>reqs tokens u l. let d = dispatch sample_config st' reqs tokens u l in cg_mode d = CG_FULL \<longrightarrow>
        run_fullgraph st' d = Inr () \<and> is_compatible d reqs tokens u (resolve_effective_loras sample_config l))"
  using sample_init captured_graphs_replayable [OF sample_config_ok] by blast

subsection \<open>Coverage of the adaptive ladder\<close>

lemma layer_mem_intro:
  assumes "a key = Some es \<or> b key = Some es" and "d \<in> set es"
  shows "\<exists>ds. layer_candidates a b key = Some ds \<and> d \<in> set ds"
proof (cases "a key")
  case (Some as)
  from assms Some show ?thesis by (cases "b key") (auto simp: layer_candidates_def set_extend_new)
qed (use assms in \<open>auto simp: layer_candidates_def\<close>)

lemma layer_sorted:
  assumes "layer_candidates a b key = Some ds"
    and first: "\<And>es x y. a key = Some es \<Longrightarrow> x \<in> set es \<Longrightarrow> R x y"
    and later: "\<And>es. b key = Some es \<Longrightarrow> sorted_wrt R es"
  shows "sorted_wrt R ds"
proof (cases "a key")
  case (Some as)
  let ?bs = "case b key of None \<Rightarrow> [] | Some bs \<Rightarrow> bs"
  have "sorted_wrt R ?bs" using later by (auto split: option.splits)
  moreover have "ds = extend_new as ?bs" using assms(1) Some by (simp add: layer_candidates_def)
  ultimately obtain es where "ds = as @ es" "sorted_wrt R es" using extend_new_append [of as ?bs] by blast
  moreover have "sorted_wrt R as" using first [OF Some] by (simp add: sorted_wrt_iff_nth_less)
  ultimately show ?thesis using first [OF Some] by (simp add: sorted_wrt_append)
qed (use assms in \<open>auto simp: layer_candidates_def\<close>)

lemma coverage_shape:
  assumes cov: "assert_adaptive_spec_graph_coverage cfg modes = Inr ()"
    and lens: "adaptive_spec_decode_query_lens cfg = Inr lens" and "q \<in> set lens"
    and "separate_routine (cg_api cfg)" and "1 \<le> n" "n \<le> max_captured_reqs cfg" and "l \<in> set (lora_capture_cases cfg)"
  obtains d where "d \<in> set (table_get modes CG_FULL)" "shape_key d = (q * n, Some n, Some q, l)"
proof -
  have "missing_shapes cfg modes lens = []"
    using cov lens assms(3,4) by (auto simp: assert_adaptive_spec_graph_coverage_def bindE_raiseIf split: if_splits)
  moreover have "(q, n, l) \<in> set (adaptive_shapes cfg lens)" using assms by (simp add: adaptive_shapes_def)
  ultimately have "(q * n, Some n, Some q, l) \<in> set (map shape_key (table_get modes CG_FULL))"
    unfolding missing_shapes_def map_is_Nil_conv filter_empty_conv by fastforce
  with that show thesis by auto
qed

text \<open>The candidates of a built manager: uniform decode shapes first, the adaptive ones among them
  of the decode mode, and every scheduled descriptor is found under its own token count.\<close>

lemma built_candidates:
  assumes ok: "config_ok cfg"
    and ad: "init_adaptive_spec_candidates cfg (by_mode (base_tables cfg)) = Inr (modes, adaptive)"
  defines "cand \<equiv> layer_candidates (build_candidate_ranges (lora_capture_cases cfg) adaptive)
               (build_candidate_ranges (lora_capture_cases cfg) (by_token (base_tables cfg)))"
  shows "cand key = Some ds \<Longrightarrow> sorted_wrt prio ds"
    and "cand key = Some ds \<Longrightarrow> d \<in> set ds \<Longrightarrow> uniform_token_count d \<noteq> None \<Longrightarrow> cg_mode d = decode_mode (cg_api cfg)"
    and "d \<in> set (table_get modes m) \<Longrightarrow> num_active_loras d \<in> set (lora_capture_cases cfg)
           \<Longrightarrow> \<exists>ds. cand (desc_key d) = Some ds \<and> d \<in> set ds"
    and "d \<in> set (table_get modes m) \<Longrightarrow> cg_mode d = m"
    and "d \<in> set (table_get modes m) \<Longrightarrow> uniform_token_count d \<noteq> None \<Longrightarrow> m = decode_mode (cg_api cfg)"
proof -
  note B = base_invD [OF base_tables_inv [OF ok]]
  note A = adaptive_invD [OF init_adaptive_inv [OF ad B(5)]]
  let ?a = "build_candidate_ranges (lora_capture_cases cfg) adaptive"
    and ?b = "build_candidate_ranges (lora_capture_cases cfg) (by_token (base_tables cfg))"
  have amem: "e \<in> set (table_get adaptive (desc_key e))" if "?a k = Some es" "e \<in> set es" for k e es
    using ranges_mem [OF that A(2)] .
  have bmem: "e \<in> set (table_get (by_token (base_tables cfg)) (desc_key e))" if "?b k = Some es" "e \<in> set es" for k e es
    using ranges_mem [OF that B(1)] .
  have bsort: "sorted_wrt prio es" if "?b k = Some es" for k es
  proof -
    obtain b where "dict_get (by_token (base_tables cfg)) (b, snd k) = Some es"
      using build_ranges_from [of "lora_capture_cases cfg" _ "fst k" "snd k" es] \<open>?b k = Some es\<close> by force
    with B(6) [of "(b, snd k)"] show ?thesis by (simp add: table_get_def)
  qed
  show "sorted_wrt prio ds" if "cand key = Some ds"
    using that unfolding cand_def
  proof (rule layer_sorted)
    fix es x y
    assume "?a key = Some es" "x \<in> set es"
    then show "prio x y" using A(3) [OF amem] by (simp add: prio_def)
  qed (rule bsort)
  show "cg_mode d = decode_mode (cg_api cfg)"
    if mem: "cand key = Some ds" "d \<in> set ds" and u: "uniform_token_count d \<noteq> None"
  proof -
    obtain es where "d \<in> set es" "?a key = Some es \<or> ?b key = Some es"
      using layer_candidates_mem [OF mem [unfolded cand_def]] by blast
    then show ?thesis using A(3) [OF amem] B(4) [OF bmem] u by blast
  qed
  show "\<exists>ds. cand (desc_key d) = Some ds \<and> d \<in> set ds"
    if mem: "d \<in> set (table_get modes m)" and l: "num_active_loras d \<in> set (lora_capture_cases cfg)"
  proof -
    have "d \<in> set (table_get adaptive (desc_key d)) \<or> d \<in> set (table_get (by_token (base_tables cfg)) (desc_key d))"
      using mem A(1) [of d m] B(2) [of d m] by blast
    then have "\<exists>es. d \<in> set es \<and> (?a (desc_key d) = Some es \<or> ?b (desc_key d) = Some es)"
      using build_ranges_at [OF _ l] A(5) B(7) unfolding desc_key_def by blast
    then show ?thesis using layer_mem_intro unfolding cand_def by blast
  qed
  show mode: "cg_mode d = m" if "d \<in> set (table_get modes m)"
    using that A(1) [of d m] B(2) [of d m] by blast
  show "m = decode_mode (cg_api cfg)"
    if "d \<in> set (table_get modes m)" "uniform_token_count d \<noteq> None"
    using that A(1) [of d m] B(2) [of d m] A(3) [of d] B(4) [of d] by blast
qed

lemma ladder_batch_full:
  assumes ok: "config_ok cfg" and init: "init_candidates cfg = Inr st" and cap: "capture st = Inr st'"
    and sep: "separate_routine (cg_api cfg)"
    and lens: "adaptive_spec_decode_query_lens cfg = Inr lens" and q: "q \<in> set lens"
    and n: "1 \<le> n" "n \<le> max_captured_reqs cfg"
    and l: "resolve_effective_loras cfg l \<in> set (lora_capture_cases cfg)"
  shows "let d = dispatch cfg st' n (q * n) (Some q) l in
     cg_mode d = CG_FULL \<and> uniform_token_count d = Some q \<and> run_fullgraph st' d = Inr ()
     \<and> is_compatible d n (q * n) (Some q) (resolve_effective_loras cfg l)"
proof -
  let ?e = "resolve_effective_loras cfg l"
  let ?P = "\<lambda>d. is_compatible d n (q * n) (Some q) ?e"
  have st': "st' = st\<lparr>graphs := table_get (capture_descs st) CG_FULL, graphs_captured := True\<rparr>"
    using capture_ok [OF init_state_ok [OF ok init]] init_no_graphs [OF init] cap by simp
  show ?thesis
    using init
  proof (cases rule: init_candidates_cases)
    case nothing
    with lens q show ?thesis by simp
  next
    case (built modes adaptive)
    note C = built_candidates [OF ok built(1)]
    obtain d where d: "d \<in> set (table_get modes CG_FULL)" "shape_key d = (q * n, Some n, Some q, ?e)"
      using coverage_shape [OF built(2) lens q sep n l] by (metis table_get_sorted(1))
    then have "num_active_loras d \<in> set (lora_capture_cases cfg)" "desc_key d = (q * n, ?e)" "?P d"
      using l by (simp_all add: shape_key_def desc_key_def is_compatible_def)
    then obtain ds where ds: "cg_candidates st (q * n, ?e) = Some ds" "d \<in> set ds"
      using C(3) [OF d(1)] by (auto simp: built(3))
    then obtain d' where d': "find ?P ds = Some d'" "d' \<in> set ds" "?P d'" "d' = d \<or> prio d' d"
      using find_prefers [of prio ds d ?P] C(1) [of "(q * n, ?e)" ds] \<open>?P d\<close> by (auto simp: built(3))
    have u: "uniform_token_count d' \<noteq> None" using d' d(2) by (auto simp: prio_def shape_key_def)
    have full: "decode_mode (cg_api cfg) = CG_FULL"
      using C(5) [OF d(1)] d(2) by (auto simp: shape_key_def)
    have "0 < q * n" using adaptive_lens_positive [OF lens q] n by simp
    then have disp: "dispatch cfg st' n (q * n) (Some q) l = d'"
      using ds d'(1) by (simp add: dispatch_def st' Let_def)
    have mode: "cg_mode d' = CG_FULL" using C(2) [OF _ d'(2) u] ds full by (simp add: built(3))
    have "d' \<in> set (graphs st')"
      using init_state_ok [OF ok init] ds(1) d'(2) mode unfolding state_ok_def st' by fastforce
    then have "run_fullgraph st' d' = Inr ()" using mode by (simp add: run_fullgraph_def)
    moreover have "uniform_token_count d' = Some q" using d'(3) u by (auto simp: is_compatible_def)
    ultimately show ?thesis using disp mode d'(3) by (simp add: Let_def)
  qed
qed



definition mixed_full_config :: cg_config where
  "mixed_full_config = sample_config\<lparr>
     cg_api := \<lparr>mode_on = True, decode_mode = CG_FULL, mixed_mode = CG_FULL,
                 separate_routine = False, has_full_cudagraphs = True\<rparr>,
     capture_sizes := [4], max_capture_size := 4\<rparr>"

text \<open>
  C22: the coverage check does not close one path. With a mode that captures FULL mixed graphs
  and has no separate decode routine, the check returns without comparing sizes; the manager is
  then built and captured without an error, and a uniform verification batch of a ladder depth
  that is larger than the largest captured size is dispatched to eager execution.
\<close>

theorem mixed_full_runs_eagerly:
  "\<exists>cfg st st' lens q. config_ok cfg \<and> init_candidates cfg = Inr st \<and> capture st = Inr st'
     \<and> adaptive_spec_decode_query_lens cfg = Inr lens \<and> q \<in> set lens
     \<and> cg_mode (dispatch cfg st' 1 q (Some q) 0) = CG_NONE"
proof -
  have ok: "config_ok mixed_full_config"
    using sample_config_ok by (simp add: config_ok_def mixed_full_config_def sample_config_def
        lora_capture_cases_def decode_query_lens_def)
  have "case init_candidates mixed_full_config of Inl _ \<Rightarrow> False
     | Inr st \<Rightarrow> cg_candidates st (6, 0) = None" by code_simp
  then obtain st where st: "init_candidates mixed_full_config = Inr st" "cg_candidates st (6, 0) = None"
    by (auto split: sum.splits)
  obtain st' where st': "capture st = Inr st'" "cg_candidates st' = cg_candidates st"
    using capture_ok [OF init_state_ok [OF ok st(1)]] init_no_graphs [OF st(1)] by simp
  have "adaptive_spec_decode_query_lens mixed_full_config = Inr [3, 5, 6]"
    "resolve_effective_loras mixed_full_config 0 = 0" by code_simp+
  with ok st st' show ?thesis
    by (intro exI [of _ mixed_full_config] exI [of _ st] exI [of _ st'] exI [of _ "[3, 5, 6]"] exI [of _ 6])
      (simp add: dispatch_def eager_desc_def)
qed

subsection \<open>Precomputed tables against searching\<close>

text \<open>
  The two tables the constructor precomputes replace searches. \<open>bisect_loras\<close> looks for the
  smallest captured LoRA case that is large enough; \<open>bucket_descs\<close> looks for the smallest
  captured token count that holds the batch; \<open>dispatch_search\<close> uses both at every call.
\<close>

definition bisect_loras :: "int list \<Rightarrow> int \<Rightarrow> int" where
  "bisect_loras cases n =
     (let captured = sort (filter (\<lambda>c. c > 0) cases) in
      if n \<le> 0 \<or> captured = [] then n
      else case find (\<lambda>c. n \<le> c) captured of Some c \<Rightarrow> c | None \<Rightarrow> last captured)"

definition smallest_bucket :: "desc_table \<Rightarrow> int \<Rightarrow> int option" where
  "smallest_bucket table i = find (\<lambda>b. i \<le> b) (sorted_set (map fst (dict_keys table)))"

definition bucket_descs :: "desc_table \<Rightarrow> int \<Rightarrow> int \<Rightarrow> desc list" where
  "bucket_descs table i l = (case smallest_bucket table i of None \<Rightarrow> [] | Some b \<Rightarrow> table_get table (b, l))"

definition dispatch_search ::
    "int list \<Rightarrow> desc_table \<Rightarrow> desc_table \<Rightarrow> int \<Rightarrow> int \<Rightarrow> int option \<Rightarrow> int \<Rightarrow> desc" where
  "dispatch_search cases adaptive base reqs tokens uniform loras =
     (let effective = bisect_loras cases loras;
          pool = bucket_descs adaptive tokens effective @ bucket_descs base tokens effective in
      case (if 0 < tokens \<and> effective \<in> set cases
            then find (\<lambda>d. is_compatible d reqs tokens uniform effective) pool else None) of
        Some d \<Rightarrow> d | None \<Rightarrow> eager_desc reqs tokens effective)"

lemma lora_map_lookup:
  "sorted ns \<Longrightarrow> dict_get (lora_map_from ns cases) n
     = (if n \<in> set ns then Some (hd (dropWhile (\<lambda>c. c < n) cases)) else None)"
proof (induction ns arbitrary: cases)
  case (Cons m ns)
  have "dropWhile (\<lambda>c. c < n) (dropWhile (\<lambda>c. c < m) cases) = dropWhile (\<lambda>c. c < n) cases" if "m \<le> n"
    using that by (induction cases) auto
  with Cons show ?case by (auto simp: dict_get_def Let_def)
qed simp

lemma py_range_sorted [simp]: "sorted (py_range a b)"
  by (simp add: py_range_def)

lemma resolve_is_bisect: "resolve_effective_loras cfg n = bisect_loras (lora_capture_cases cfg) n"
proof -
  let ?c = "sort (filter (\<lambda>c. c > 0) (lora_capture_cases cfg))"
  let ?ns = "py_range 1 (last ?c + 1)"
  show ?thesis
  proof (cases "?c = [] \<or> n \<le> 0")
    case True
    then show ?thesis
      by (auto simp: resolve_effective_loras_def bisect_loras_def build_lora_dispatch_map_def Let_def)
  next
    case False
    then have "last ?c \<in> set ?c" by (intro last_in_set) simp
    then have "0 < last ?c" by simp
    then have ne: "lora_map_from ?ns ?c \<noteq> []"
      by (cases ?ns) (use set_py_range [of 1 "last ?c + 1"] in \<open>auto simp: Let_def\<close>)
    have res: "resolve_effective_loras cfg n
        = (if n \<le> last ?c then hd (dropWhile (\<lambda>c. c < n) ?c) else last ?c)"
      using False ne
      by (simp add: resolve_effective_loras_def build_lora_dispatch_map_def Let_def lora_map_lookup)
    have find: "find (\<lambda>c. n \<le> c) ?c
        = (case dropWhile (\<lambda>c. c < n) ?c of [] \<Rightarrow> None | c # _ \<Rightarrow> Some c)"
      by (simp add: find_dropWhile comp_def not_le)
    show ?thesis
    proof (cases "n \<le> last ?c")
      case True
      then have "dropWhile (\<lambda>c. c < n) ?c \<noteq> []" using \<open>last ?c \<in> set ?c\<close> by (auto simp: dropWhile_eq_Nil_conv)
      then show ?thesis using False True res find
        by (auto simp: bisect_loras_def Let_def split: list.splits)
    next
      case below: False
      then have "\<forall>c \<in> set ?c. \<not> n \<le> c" using sorted_last_ge [of ?c] by force
      then have "find (\<lambda>c. n \<le> c) ?c = None" unfolding find_None_iff by blast
      then show ?thesis using False below res by (simp add: bisect_loras_def Let_def)
    qed
  qed
qed

lemma fill_buckets_search:
  "sorted bs \<Longrightarrow> distinct bs \<Longrightarrow> \<forall>b \<in> set bs. start \<le> b
     \<Longrightarrow> fill_buckets table cases start bs cand (i, l)
       = (case (if start \<le> i \<and> l \<in> set cases then find (\<lambda>b. i \<le> b) bs else None) of
            None \<Rightarrow> cand (i, l)
          | Some b \<Rightarrow> (case dict_get table (b, l) of None \<Rightarrow> cand (i, l) | Some ds \<Rightarrow> Some ds))"
proof (induction bs arbitrary: start cand)
  case (Cons b bs)
  have "\<forall>d \<in> set bs. b + 1 \<le> d" using Cons.prems(1,2) by (auto simp: less_le add1_zle_eq)
  with Cons.prems show ?case
    by (auto simp: Cons.IH fill_bucket_apply split: option.splits)
qed simp

lemma ranges_search:
  assumes "\<forall>k \<in> set (dict_keys table). 0 \<le> fst k" and "0 < i"
  shows "(case build_candidate_ranges cases table (i, l) of None \<Rightarrow> [] | Some ds \<Rightarrow> ds)
    = (if l \<in> set cases then bucket_descs table i l else [])"
proof -
  have "\<forall>b \<in> set (sorted_set (map fst (dict_keys table))). 0 \<le> b" using assms(1) by auto
  then show ?thesis using assms(2)
    by (auto simp: build_candidate_ranges_def fill_buckets_search bucket_descs_def smallest_bucket_def
        table_get_def split: option.splits)
qed

lemma find_extend_new: "find P (extend_new merged ds) = find P (merged @ ds)"
proof (induction ds arbitrary: merged)
  case (Cons d ds)
  have "find P (xs @ d # ds) = find P (xs @ ds)" if "\<not> P d \<or> d \<in> set xs" for xs
    using that by (induction xs) auto
  then show ?case using Cons by simp
qed simp

lemma layer_search:
  "(case layer_candidates a b key of None \<Rightarrow> None | Some ds \<Rightarrow> find P ds)
     = find P ((case a key of None \<Rightarrow> [] | Some ds \<Rightarrow> ds) @ (case b key of None \<Rightarrow> [] | Some ds \<Rightarrow> ds))"
  by (auto simp: layer_candidates_def find_extend_new split: option.splits)

text \<open>
  C21: the precomputed tables are only an optimisation. On a manager that captures graphs,
  \<^verbatim>\<open>dispatch\<close> (a dictionary lookup of the LoRA case, a dictionary lookup of the token count and a
  walk of the layered candidate list) gives for every batch the same descriptor as the reference
  that bisects the LoRA cases, searches the smallest adaptive bucket and the smallest base bucket
  that hold the batch, and takes the first compatible descriptor, the adaptive ones first.
\<close>

theorem dispatch_is_search:
  assumes ok: "config_ok cfg" and init: "init_candidates cfg = Inr st" and cap: "capture st = Inr st'"
    and on: "mode_on (cg_api cfg)" "capture_sizes cfg \<noteq> []"
    and ad: "init_adaptive_spec_candidates cfg (by_mode (base_tables cfg)) = Inr (modes, adaptive)"
  shows "dispatch cfg st' reqs tokens u l
    = dispatch_search (lora_capture_cases cfg) adaptive (by_token (base_tables cfg)) reqs tokens u l"
proof -
  let ?cases = "lora_capture_cases cfg" and ?base = "by_token (base_tables cfg)"
  let ?e = "bisect_loras ?cases l"
  let ?P = "\<lambda>d. is_compatible d reqs tokens u ?e"
  let ?pool = "bucket_descs adaptive tokens ?e @ bucket_descs ?base tokens ?e"
  note B = base_invD [OF base_tables_inv [OF ok]]
  note A = adaptive_invD [OF init_adaptive_inv [OF ad B(5)]]
  have st': "graphs_captured st'" "cg_candidates st' = cg_candidates st"
    using capture_ok [OF init_state_ok [OF ok init]] init_no_graphs [OF init] cap by auto
  have cand: "cg_candidates st = layer_candidates (build_candidate_ranges ?cases adaptive)
      (build_candidate_ranges ?cases ?base)"
  proof (cases "?base = [] \<and> adaptive = []")
    case True
    then show ?thesis using init on ad
      by (auto simp: init_candidates_def Let_def bindE_eq_Inr empty_state_def layer_candidates_def
          build_candidate_ranges_def dict_keys_def sorted_set_def)
  next
    case False
    then show ?thesis using init on ad by (auto simp: init_candidates_def Let_def bindE_eq_Inr)
  qed
  have "(case cg_candidates st (tokens, ?e) of None \<Rightarrow> None | Some ds \<Rightarrow> find ?P ds)
      = (if ?e \<in> set ?cases then find ?P ?pool else None)" if "0 < tokens"
    unfolding cand layer_search ranges_search [OF A(5) that] ranges_search [OF B(7) that] by simp
  then show ?thesis
    by (simp add: dispatch_def dispatch_search_def resolve_is_bisect st' Let_def)
qed

theorem dispatch_is_search_witness:
  "\<exists>st st' adaptive. init_candidates sample_config = Inr st \<and> capture st = Inr st' \<and>
     dispatch sample_config st' 1 5 (Some 5) 0
       = dispatch_search [0] adaptive (by_token (base_tables sample_config)) 1 5 (Some 5) 0"
proof -
  obtain st st' where st: "init_candidates sample_config = Inr st" "capture st = Inr st'"
    using sample_init init_state_ok [OF sample_config_ok] capture_ok init_no_graphs by metis
  obtain modes adaptive where
    "init_adaptive_spec_candidates sample_config (by_mode (base_tables sample_config)) = Inr (modes, adaptive)"
    using sample_lens by (auto simp: init_adaptive_spec_candidates_def) (metis surj_pair)
  from dispatch_is_search [OF sample_config_ok st _ _ this] st show ?thesis
    by (auto simp: sample_config_def lora_capture_cases_def)
qed

end
