(* ===== verification/SchedState.thy ===== *)
theory SchedState
  imports Prelude "HOL-Library.Product_Lexorder"
begin

text \<open>
  Requests and the state of the scheduler of \<^verbatim>\<open>vllm/v1/core/sched/scheduler.py\<close>. A request object
  is reached from \<^verbatim>\<open>requests\<close>, from \<^verbatim>\<open>running\<close> and from the waiting queues at once and is mutated in
  place, so the model keeps the objects in one store and the lists hold identifiers.

  \<^verbatim>\<open>Request\<close>, \<^verbatim>\<open>RequestStatus\<close>, the request queues, the KV-cache manager and the encoder cache are
  defined outside the repository. \<open>sreq\<close> has the fields the scheduler reads and writes; a
  queue enters as the list of identifiers it yields when iterated; the two managers are arguments
  of the operations that call them.
\<close>

subsection \<open>Requests\<close>

datatype status =
    WAITING
  | WAITING_FOR_STRUCTURED_OUTPUT_GRAMMAR
  | WAITING_FOR_REMOTE_KVS
  | WAITING_FOR_STREAMING_REQ
  | RUNNING
  | PREEMPTED
  | FINISHED_STOPPED
  | FINISHED_ABORTED
  | FINISHED_ERROR
  | FINISHED_OTHER

record mm_feature =
  mm_offset :: int
  mm_length :: int
  mm_embeds :: int
  mm_identifier :: string

record streaming_update =
  su_prompt_token_ids :: "int list option"
  su_mm_features :: "mm_feature list"
  su_arrival_time :: rat

text \<open>The grammar of a structured-output request: not compiled yet, failed to compile, compiled.\<close>

datatype grammar_state = GrammarPending | GrammarError | GrammarReady

record sreq =
  request_id :: string
  req_status :: status
  arrival_time :: rat
  priority :: int
  num_prompt_tokens :: int
  all_token_ids :: "int list"
  spec_token_ids :: "int list"
  num_computed_tokens :: int
  num_output_placeholders :: int
  num_in_flight_tokens :: int
  num_stale_output_tokens :: int
  drop_stale_output :: bool
  num_preemptions :: int
  is_prefill_chunk :: bool
  max_tokens :: int
  next_decode_eligible_step :: int
  last_sched_seq :: int
  shared_prefix_boundary :: int
  mm_features :: "mm_feature list"
  prompt_token_ids :: "int list option"
  output_token_ids :: "int list"
  resumable :: bool
  streaming_queue :: "streaming_update option list option"
  structured_output_request :: "grammar_state option"
  use_structured_output :: bool
  is_pooling :: bool
  lora_int_id :: "int option"

text \<open>The derived properties of a request.\<close>

definition req_num_tokens :: "sreq \<Rightarrow> int" where
  "req_num_tokens r = int (length (all_token_ids r))"

definition num_tokens_with_spec :: "sreq \<Rightarrow> int" where
  "num_tokens_with_spec r = req_num_tokens r + int (length (spec_token_ids r))"

definition has_encoder_inputs :: "sreq \<Rightarrow> bool" where
  "has_encoder_inputs r \<longleftrightarrow> mm_features r \<noteq> []"

subsection \<open>Configuration and state\<close>

datatype policy = FCFS | PRIORITY

datatype pause_state = UNPAUSED | PAUSED_NEW | PAUSED_ALL

record sched_config =
  max_num_running_reqs :: int
  max_num_scheduled_tokens :: int
  max_model_len :: int
  sched_policy :: policy
  long_prefill_token_threshold :: int
  enable_decode_aware_prefill :: bool
  decode_prefill_token_budget :: int
  idle_prefill_token_budget :: int
  max_long_prefills_per_step :: int
  num_sampled_tokens_per_step :: int
  num_lookahead_tokens :: int
  use_eagle :: bool
  is_encoder_decoder :: bool
  disable_chunked_mm_input :: bool
  cache_block_size :: int
  hash_block_size :: int
  need_mamba_block_aligned_split :: bool
  mamba_partial_cache_hit :: bool
  requires_kv_delivery :: bool
  defer_block_free :: bool
  max_num_encoder_input_tokens :: int
  sched_block_size :: int
  recompute_kv_load_failures :: bool
  needs_kv_cache_zeroing :: bool
  num_kv_cache_groups :: int
  cfg_num_spec_tokens :: int
  dynamic_sd :: bool
  enable_chunked_prefill :: bool
  max_loras :: "int option"
  scheduler_reserve_full_isl :: bool

text \<open>\<open>long_prefill_last_scheduled\<close> maps a request to the last step that issued long-prefill work.\<close>

record sched =
  requests :: "(string, sreq) dict"
  running :: "string list"
  waiting :: "string list"
  skipped_waiting :: "string list"
  long_prefill_last_scheduled :: "(string, int) dict"
  long_prefill_gate_skips :: int
  long_prefill_wasted_turns :: int
  current_step :: int
  sched_pause_state :: pause_state
  prefill_capacity_bound :: bool
  inflight_prefills :: "string list"
  reset_preempted_req_ids :: "string list"
  finished_req_ids :: "string list"
  sched_step_seq :: int
  processed_step_seq :: int
  num_waiting_for_streaming_input :: int
  finished_recving_kv_req_ids :: "string list"
  failed_recving_kv_req_ids :: "string list"
  grammar_compile_error_reqs :: "string list"
  skip_zero_block_ids :: "int list"

text \<open>The objects behind a list of identifiers.\<close>

definition live :: "sched \<Rightarrow> string list \<Rightarrow> sreq list" where
  "live st ids = List.map_filter (dict_get (requests st)) ids"

text \<open>In-place mutation of one request.\<close>

definition mutate :: "string \<Rightarrow> (sreq \<Rightarrow> sreq) \<Rightarrow> sched \<Rightarrow> sched" where
  "mutate i f st =
     (case dict_get (requests st) i of
        None \<Rightarrow> st
      | Some r \<Rightarrow> st\<lparr>requests := dict_set i (f r) (requests st)\<rparr>)"

subsection \<open>The store\<close>

lemma live_Nil [simp]: "live st [] = []"
  by (simp add: live_def)

lemma live_Cons: "live st (i # is) = (case dict_get (requests st) i of None \<Rightarrow> live st is | Some r \<Rightarrow> r # live st is)"
  by (simp add: live_def List.map_filter_def split: option.splits)

lemma live_append [simp]: "live st (xs @ ys) = live st xs @ live st ys"
  by (simp add: live_def List.map_filter_def)

lemma set_live: "r \<in> set (live st is) \<longleftrightarrow> (\<exists>i \<in> set is. dict_get (requests st) i = Some r)"
  by (auto simp: live_def List.map_filter_def image_iff)

lemma mutate_get:
  "dict_get (requests (mutate i f st)) j
     = (if j = i then map_option f (dict_get (requests st) i) else dict_get (requests st) j)"
  by (auto simp: mutate_def dict_get_set split: option.splits)

lemma mutate_frame [simp]:
  "running (mutate i f st) = running st" "waiting (mutate i f st) = waiting st"
  "skipped_waiting (mutate i f st) = skipped_waiting st" "current_step (mutate i f st) = current_step st"
  "long_prefill_last_scheduled (mutate i f st) = long_prefill_last_scheduled st"
  "sched_pause_state (mutate i f st) = sched_pause_state st"
  "processed_step_seq (mutate i f st) = processed_step_seq st" "sched_step_seq (mutate i f st) = sched_step_seq st"
  "num_waiting_for_streaming_input (mutate i f st) = num_waiting_for_streaming_input st"
  by (simp_all add: mutate_def split: option.splits)

end
