(* ===== verification/SchedPrefill.thy ===== *)
theory SchedPrefill
  imports SchedState
begin

text \<open>
  Prefill policy of the scheduler: where a chunk of a hybrid model must end
  (\<^verbatim>\<open>_mamba_block_aligned_split\<close>), which long prefills get a turn in a step
  (\<^verbatim>\<open>_select_long_prefill_request_ids\<close>) and how an unused turn is aged
  (\<^verbatim>\<open>_debit_unused_long_prefill_turns\<close>).
\<close>

subsection \<open>Block-aligned chunks\<close>

definition chunk_stops :: "sched_config \<Rightarrow> sreq \<Rightarrow> int \<Rightarrow> int \<Rightarrow> int list" where
  "chunk_stops cfg r start chunk_end =
     (let bs = cache_block_size cfg;
          next_block_boundary = (start div bs + 1) * bs;
          last0 = req_num_tokens r - req_num_tokens r mod bs;
          last_cache_position = (if use_eagle cfg then max (last0 - bs) 0 else last0);
          tail_boundary = (if mamba_partial_cache_hit cfg
                           then num_prompt_tokens r div hash_block_size cfg * hash_block_size cfg else 0) in
      [if start mod bs \<noteq> 0 then next_block_boundary else 0,
       last_cache_position,
       if last_cache_position < tail_boundary \<and> tail_boundary < num_prompt_tokens r then tail_boundary else 0,
       if start < shared_prefix_boundary r \<and> shared_prefix_boundary r < chunk_end
       then start + (shared_prefix_boundary r - start) div bs * bs else 0])"

definition max_prefill_tokens :: "sched_config \<Rightarrow> int" where
  "max_prefill_tokens cfg =
     (if long_prefill_token_threshold cfg > 0
      then min (max_num_scheduled_tokens cfg) (long_prefill_token_threshold cfg)
      else max_num_scheduled_tokens cfg)"

definition prefill_end :: "sreq \<Rightarrow> int" where
  "prefill_end r = max (num_prompt_tokens r) (req_num_tokens r - 1)"

definition aligned_chunk_end :: "sched_config \<Rightarrow> sreq \<Rightarrow> int \<Rightarrow> int \<Rightarrow> int" where
  "aligned_chunk_end cfg r start chunk_end =
     (if chunk_end < prefill_end r
      then (let aligned_end = chunk_end div cache_block_size cfg * cache_block_size cfg in
            if aligned_end > start \<or> cache_block_size cfg \<le> max_prefill_tokens cfg
            then aligned_end else chunk_end)
      else chunk_end)"

definition mamba_block_aligned_split :: "sched_config \<Rightarrow> sreq \<Rightarrow> int \<Rightarrow> int \<Rightarrow> int \<Rightarrow> int" where
  "mamba_block_aligned_split cfg r num_new num_local num_external =
     (let start = num_computed_tokens r + num_local + num_external in
      if start \<ge> prefill_end r then num_new
      else
        (let chunk_end = aligned_chunk_end cfg r start (start + num_new);
             inside = filter (\<lambda>s. start < s \<and> s < chunk_end) (chunk_stops cfg r start chunk_end);
             chunk_end = (if inside = [] then chunk_end else Min (set inside)) in
         max (chunk_end - start) 0))"

subsection \<open>Turns of long prefills\<close>

definition is_long_prefill_request :: "sched_config \<Rightarrow> sreq \<Rightarrow> bool" where
  "is_long_prefill_request cfg r \<longleftrightarrow>
     \<not> num_prompt_tokens r \<le> long_prefill_token_threshold cfg
     \<and> (if req_status r = RUNNING then is_prefill_chunk r else req_status r \<in> {WAITING, PREEMPTED})"

text \<open>The waiting queues are scanned once; an identifier that was seen is skipped.\<close>

fun unseen_long :: "sched_config \<Rightarrow> string list \<Rightarrow> sreq list \<Rightarrow> sreq list" where
  "unseen_long cfg seen [] = []"
| "unseen_long cfg seen (r # rs) =
     (if request_id r \<in> set seen \<or> \<not> is_long_prefill_request cfg r then unseen_long cfg seen rs
      else r # unseen_long cfg (request_id r # seen) rs)"

definition age_key :: "(string, int) dict \<Rightarrow> sreq \<Rightarrow> int \<times> rat" where
  "age_key stamps r =
     ((case dict_get stamps (request_id r) of Some s \<Rightarrow> s | None \<Rightarrow> -1), arrival_time r)"

definition by_age :: "(string, int) dict \<Rightarrow> sreq list \<Rightarrow> sreq list" where
  "by_age stamps rs = sort_key (age_key stamps) rs"

definition running_candidates :: "sched_config \<Rightarrow> sched \<Rightarrow> sreq list" where
  "running_candidates cfg st = filter (is_long_prefill_request cfg) (live st (running st))"

definition waiting_candidates :: "sched_config \<Rightarrow> sched \<Rightarrow> sreq list" where
  "waiting_candidates cfg st =
     unseen_long cfg (map request_id (running_candidates cfg st)) (live st (waiting st @ skipped_waiting st))"

definition active_stamps :: "sched \<Rightarrow> (string, int) dict" where
  "active_stamps st =
     filter (\<lambda>(i, _). i \<in> set (dict_keys (requests st))) (long_prefill_last_scheduled st)"

definition admittable_waiting :: "sched_config \<Rightarrow> sched \<Rightarrow> sreq list" where
  "admittable_waiting cfg st =
     (let ws = waiting_candidates cfg st;
          admittable = max 0 (max_num_running_reqs cfg - int (length (running st))) in
      if admittable > 0 \<and> ws \<noteq> []
      then (let keep = map request_id (py_take admittable (by_age (active_stamps st) ws)) in
            filter (\<lambda>r. request_id r \<in> set keep) ws)
      else [])"

definition select_long_prefill_request_ids :: "sched_config \<Rightarrow> sched \<Rightarrow> string list \<times> sched" where
  "select_long_prefill_request_ids cfg st =
     (if \<not> enable_decode_aware_prefill cfg then ([], st)
      else
        (let ordered = by_age (active_stamps st) (running_candidates cfg st @ admittable_waiting cfg st) in
         (map request_id (py_take (max_long_prefills_per_step cfg) ordered),
          st\<lparr>long_prefill_last_scheduled := active_stamps st\<rparr>)))"

definition debit_one :: "(string, int) dict \<Rightarrow> string \<Rightarrow> sched \<Rightarrow> sched" where
  "debit_one num_scheduled i st =
     (if i \<in> set (dict_keys num_scheduled) then st
      else st\<lparr>long_prefill_wasted_turns := long_prefill_wasted_turns st + 1,
              long_prefill_last_scheduled := dict_set i (current_step st) (long_prefill_last_scheduled st)\<rparr>)"

definition debit_unused_long_prefill_turns ::
    "sched_config \<Rightarrow> string list \<Rightarrow> (string, int) dict \<Rightarrow> bool \<Rightarrow> sched \<Rightarrow> sched" where
  "debit_unused_long_prefill_turns cfg selected num_scheduled defer_prefills st =
     (if \<not> enable_decode_aware_prefill cfg \<or> selected = [] then st
      else if defer_prefills \<or> sched_pause_state st = PAUSED_ALL then st
      else fold (debit_one num_scheduled) selected st)"

subsection \<open>Where a chunk ends\<close>

lemma aligned_chunk_end_le: "0 < cache_block_size cfg \<Longrightarrow> aligned_chunk_end cfg r start e \<le> e"
  by (simp add: aligned_chunk_end_def Let_def minus_mod_eq_div_mult [symmetric])

text \<open>The chunk ends at the aligned end or at the least stop inside it.\<close>

lemma split_end_cases:
  fixes cfg :: sched_config and r :: sreq and num_new :: int
  assumes "start = num_computed_tokens r + num_local + num_external" and "start < prefill_end r"
  defines "e \<equiv> aligned_chunk_end cfg r start (start + num_new)"
    and "n \<equiv> mamba_block_aligned_split cfg r num_new num_local num_external"
  obtains (whole) "n = max (e - start) 0" "\<forall>s \<in> set (chunk_stops cfg r start e). \<not> (start < s \<and> s < e)"
  | (stop) s where "s \<in> set (chunk_stops cfg r start e)" "start < s" "s < e" "n = s - start"
      "\<forall>t \<in> set (chunk_stops cfg r start e). start < t \<and> t < e \<longrightarrow> s \<le> t"
proof -
  let ?inside = "filter (\<lambda>s. start < s \<and> s < e) (chunk_stops cfg r start e)"
  have n: "n = max ((if ?inside = [] then e else Min (set ?inside)) - start) 0"
    using assms by (simp add: mamba_block_aligned_split_def Let_def)
  show thesis
  proof (cases "?inside = []")
    case True
    then show thesis using whole n by (auto simp: filter_empty_conv)
  next
    case False
    then have "set ?inside \<noteq> {}" unfolding set_empty .
    from Min_in [OF finite_set this] have "Min (set ?inside) \<in> set ?inside" .
    moreover have "\<forall>t \<in> set ?inside. Min (set ?inside) \<le> t" by simp
    ultimately show thesis using stop [of "Min (set ?inside)"] n False by simp
  qed
qed

lemma mamba_split_bounds:
  assumes "0 < cache_block_size cfg" and "0 \<le> num_new"
  shows "0 \<le> mamba_block_aligned_split cfg r num_new num_local num_external"
    and "mamba_block_aligned_split cfg r num_new num_local num_external \<le> num_new"
proof -
  let ?s = "num_computed_tokens r + num_local + num_external"
  have e: "aligned_chunk_end cfg r ?s (?s + num_new) \<le> ?s + num_new" by (rule aligned_chunk_end_le [OF assms(1)])
  consider "prefill_end r \<le> ?s" | "?s < prefill_end r" by linarith
  then have "0 \<le> mamba_block_aligned_split cfg r num_new num_local num_external
      \<and> mamba_block_aligned_split cfg r num_new num_local num_external \<le> num_new"
  proof cases
    case 1
    then show ?thesis using assms(2) by (simp add: mamba_block_aligned_split_def)
  next
    case 2
    from split_end_cases [OF refl 2, of cfg num_new] show ?thesis using e assms(2) by (cases) auto
  qed
  then show "0 \<le> mamba_block_aligned_split cfg r num_new num_local num_external"
    and "mamba_block_aligned_split cfg r num_new num_local num_external \<le> num_new" by blast+
qed

lemma chunk_stops_mid_block:
  "start mod cache_block_size cfg \<noteq> 0
     \<Longrightarrow> (start div cache_block_size cfg + 1) * cache_block_size cfg \<in> set (chunk_stops cfg r start e)"
  by (simp add: chunk_stops_def Let_def)

text \<open>A stop other than the tail of the prompt is a block boundary, as long as it does not lie beyond the
  next boundary of a chunk that starts inside a block.\<close>

lemma chunk_stop_aligned:
  assumes bs: "0 < cache_block_size cfg" and s: "s \<in> set (chunk_stops cfg r start e)" "start < s"
    and first: "start mod cache_block_size cfg \<noteq> 0 \<Longrightarrow> s \<le> (start div cache_block_size cfg + 1) * cache_block_size cfg"
  shows "s mod cache_block_size cfg = 0
     \<or> mamba_partial_cache_hit cfg \<and> s = num_prompt_tokens r div hash_block_size cfg * hash_block_size cfg"
proof -
  let ?bs = "cache_block_size cfg"
  define last0 where "last0 = req_num_tokens r - req_num_tokens r mod ?bs"
  have last0: "last0 mod ?bs = 0" "(last0 - ?bs) mod ?bs = 0"
    unfolding last0_def by (simp_all add: minus_mod_eq_mult_div)
  have junction: "(start + k * ?bs) mod ?bs = 0" if "s = start + k * ?bs" for k
  proof (cases "start mod ?bs = 0")
    case False
    have "0 < k * ?bs" using that s(2) by simp
    then have "1 \<le> k" using bs by (simp add: zero_less_mult_iff)
    then have "1 * ?bs \<le> k * ?bs" using bs by (intro mult_right_mono) simp_all
    moreover have "(start div ?bs + 1) * ?bs = start - start mod ?bs + ?bs"
      by (simp add: minus_mod_eq_div_mult distrib_right)
    moreover have "0 < start mod ?bs" using False pos_mod_sign [OF bs, of start] by simp
    ultimately show ?thesis using first [OF False] that by linarith
  qed simp
  define lcp where "lcp = (if use_eagle cfg then max (last0 - ?bs) 0 else last0)"
  define tail where "tail = (if mamba_partial_cache_hit cfg
      then num_prompt_tokens r div hash_block_size cfg * hash_block_size cfg else 0)"
  have "s = (if start mod ?bs \<noteq> 0 then (start div ?bs + 1) * ?bs else 0) \<or> s = lcp
      \<or> s = (if lcp < tail \<and> tail < num_prompt_tokens r then tail else 0)
      \<or> s = (if start < shared_prefix_boundary r \<and> shared_prefix_boundary r < e
             then start + (shared_prefix_boundary r - start) div ?bs * ?bs else 0)"
    using s(1) unfolding chunk_stops_def Let_def lcp_def tail_def last0_def by simp
  then consider "s = (start div ?bs + 1) * ?bs" | "s = 0" | "s = last0" | "s = max (last0 - ?bs) 0"
    | "mamba_partial_cache_hit cfg" "s = num_prompt_tokens r div hash_block_size cfg * hash_block_size cfg"
    | "s = start + (shared_prefix_boundary r - start) div ?bs * ?bs"
    unfolding lcp_def tail_def by (elim disjE) (simp_all split: if_splits)
  then show ?thesis
  proof cases
    case 4
    then show ?thesis using last0 by (simp add: max_def)
  next
    case 6
    with junction show ?thesis by blast
  qed (use last0 in auto)
qed

text \<open>
  C18: a prefill chunk of a hybrid model. The clipped chunk is never longer than the requested one;
  a chunk that starts inside a block never runs past the end of that block; and a chunk that stops
  before the end of the prefill stops at a block boundary, at the last hash boundary of the prompt
  (only when partial hits are cached), or, unclipped, inside a block that is wider than any chunk.
\<close>

theorem mamba_split_correct:
  fixes start n :: int
  assumes bs: "0 < cache_block_size cfg" and new: "0 \<le> num_new"
    and start: "start = num_computed_tokens r + num_local + num_external" "start < prefill_end r"
    and n: "n = mamba_block_aligned_split cfg r num_new num_local num_external"
  shows "0 \<le> n \<and> n \<le> num_new
    \<and> (start mod cache_block_size cfg \<noteq> 0 \<longrightarrow> start + n \<le> (start div cache_block_size cfg + 1) * cache_block_size cfg)
    \<and> (0 < n \<and> start + n < prefill_end r \<longrightarrow>
         (start + n) mod cache_block_size cfg = 0
         \<or> mamba_partial_cache_hit cfg \<and> start + n = num_prompt_tokens r div hash_block_size cfg * hash_block_size cfg
         \<or> max_prefill_tokens cfg < cache_block_size cfg \<and> n = num_new)"
proof -
  let ?bs = "cache_block_size cfg"
  let ?e = "aligned_chunk_end cfg r start (start + num_new)"
  have e: "?e \<le> start + num_new" by (rule aligned_chunk_end_le [OF bs])
  have nb: "start < (start div ?bs + 1) * ?bs"
    using pos_mod_bound [OF bs, of start] div_mult_mod_eq [of start ?bs] unfolding distrib_right by linarith
  show ?thesis
  proof (cases rule: split_end_cases [OF start, of cfg num_new, case_names whole stop])
    case whole
    note w = whole [folded n]
    have "start + n \<le> (start div ?bs + 1) * ?bs" if "start mod ?bs \<noteq> 0"
      using w chunk_stops_mid_block [OF that, of r ?e] nb by fastforce
    moreover have "(start + n) mod ?bs = 0 \<or> max_prefill_tokens cfg < ?bs \<and> n = num_new"
      if "0 < n" "start + n < prefill_end r"
      using w(1) that by (auto simp: aligned_chunk_end_def Let_def split: if_splits)
    ultimately show ?thesis using mamba_split_bounds [OF bs new, of r num_local num_external] unfolding n [symmetric] by blast
  next
    case (stop s)
    note w = stop [folded n]
    have mid: "s \<le> (start div ?bs + 1) * ?bs" if "start mod ?bs \<noteq> 0"
      using w(2,3,5) chunk_stops_mid_block [OF that, of r ?e] nb by fastforce
    have "s mod ?bs = 0 \<or> mamba_partial_cache_hit cfg
        \<and> s = num_prompt_tokens r div hash_block_size cfg * hash_block_size cfg"
      by (rule chunk_stop_aligned [OF bs w(1,2) mid])
    with mid w(2-4) e show ?thesis by auto
  qed
qed

definition split_config :: sched_config where
  "split_config = \<lparr>max_num_running_reqs = 4, max_num_scheduled_tokens = 64, max_model_len = 4096,
     sched_policy = FCFS, long_prefill_token_threshold = 0, enable_decode_aware_prefill = False,
     decode_prefill_token_budget = 8, idle_prefill_token_budget = 64, max_long_prefills_per_step = 1,
     num_sampled_tokens_per_step = 1, num_lookahead_tokens = 0, use_eagle = False, is_encoder_decoder = False,
     disable_chunked_mm_input = False, cache_block_size = 16, hash_block_size = 16,
     need_mamba_block_aligned_split = True, mamba_partial_cache_hit = False, requires_kv_delivery = False,
     defer_block_free = False, max_num_encoder_input_tokens = 0, sched_block_size = 16,
     recompute_kv_load_failures = True, needs_kv_cache_zeroing = False, num_kv_cache_groups = 1,
     cfg_num_spec_tokens = 0, dynamic_sd = False, enable_chunked_prefill = True, max_loras = None,
     scheduler_reserve_full_isl = False\<rparr>"

definition sample_request :: sreq where
  "sample_request = \<lparr>request_id = ''a'', req_status = RUNNING, arrival_time = 0, priority = 0,
     num_prompt_tokens = 100, all_token_ids = replicate 100 7, spec_token_ids = [], num_computed_tokens = 20,
     num_output_placeholders = 0, num_in_flight_tokens = 0, num_stale_output_tokens = 0,
     drop_stale_output = False, num_preemptions = 0, is_prefill_chunk = True, max_tokens = 10,
     next_decode_eligible_step = 0, last_sched_seq = 0, shared_prefix_boundary = 0, mm_features = [],
     prompt_token_ids = Some (replicate 100 7), output_token_ids = [], resumable = False, streaming_queue = None,
     structured_output_request = None, use_structured_output = False, is_pooling = False, lora_int_id = None\<rparr>"

theorem mamba_split_correct_witness:
  "mamba_block_aligned_split split_config sample_request 40 0 0 = 12
   \<and> 20 + mamba_block_aligned_split split_config sample_request 40 0 0 \<le> (20 div 16 + 1) * (16::int)"
proof
  show "mamba_block_aligned_split split_config sample_request 40 0 0 = 12" by code_simp
  have "prefill_end sample_request = 100" by code_simp
  with mamba_split_correct [of split_config 40 20 sample_request 0 0]
  show "20 + mamba_block_aligned_split split_config sample_request 40 0 0 \<le> (20 div 16 + 1) * (16::int)"
    by (simp add: split_config_def sample_request_def)
qed

subsection \<open>Selection\<close>

text \<open>The selection without the capacity restriction of the waiting candidates.\<close>

definition select_unrestricted :: "sched_config \<Rightarrow> sched \<Rightarrow> string list" where
  "select_unrestricted cfg st =
     map request_id (py_take (max_long_prefills_per_step cfg)
       (by_age (active_stamps st) (running_candidates cfg st @ waiting_candidates cfg st)))"

lemma unseen_long_ids:
  "distinct (map request_id (unseen_long cfg seen rs))
   \<and> set seen \<inter> set (map request_id (unseen_long cfg seen rs)) = {}"
  by (induction cfg seen rs rule: unseen_long.induct) auto

lemma waiting_candidates_ids:
  "distinct (map request_id (waiting_candidates cfg st))"
  "set (map request_id (running_candidates cfg st)) \<inter> set (map request_id (waiting_candidates cfg st)) = {}"
  unfolding waiting_candidates_def using unseen_long_ids by blast+

lemma set_by_age [simp]: "set (by_age stamps rs) = set rs"
  by (simp add: by_age_def)

lemma length_by_age [simp]: "length (by_age stamps rs) = length rs"
  by (simp add: by_age_def)

lemma by_age_filter: "filter P (by_age stamps rs) = by_age stamps (filter P rs)"
  by (simp add: by_age_def filter_sort)

lemma distinct_ids_by_age: "distinct (map request_id rs) \<Longrightarrow> distinct (map request_id (by_age stamps rs))"
proof -
  assume "distinct (map request_id rs)"
  then have "inj_on request_id (set rs)" "distinct rs" by (simp_all add: distinct_map)
  then show ?thesis by (simp add: distinct_map by_age_def)
qed

lemma take_filter_same:
  assumes "\<forall>x \<in> set (take k xs). P x"
  shows "take k (filter P xs) = take k xs"
proof -
  have "filter P xs = filter P (take k xs) @ filter P (drop k xs)" by (metis append_take_drop_id filter_append)
  also have "filter P (take k xs) = take k xs" using assms by (simp add: filter_id_conv)
  finally show ?thesis by (cases "k \<le> length xs") simp_all
qed

lemma filter_take_prefix: "\<exists>m \<le> k. filter P (take k xs) = take m (filter P xs)"
proof -
  have "filter P xs = filter P (take k xs) @ filter P (drop k xs)" by (metis append_take_drop_id filter_append)
  moreover have "length (filter P (take k xs)) \<le> k" using length_filter_le [of P "take k xs"] by simp
  ultimately show ?thesis by (intro exI [of _ "length (filter P (take k xs))"]) simp
qed

text \<open>Keeping only the \<open>a\<close> oldest of a group loses nothing among the \<open>k \<le> a\<close> oldest overall.\<close>

lemma oldest_kept:
  fixes R W :: "sreq list" and a k :: nat and stamps :: "(string, int) dict"
  assumes dist: "distinct (map request_id W)" and disj: "set (map request_id R) \<inter> set (map request_id W) = {}"
    and le: "k \<le> a"
  defines "keep \<equiv> set (map request_id (take a (by_age stamps W)))"
  shows "take k (by_age stamps (R @ filter (\<lambda>r. request_id r \<in> keep) W)) = take k (by_age stamps (R @ W))"
proof -
  let ?S = "by_age stamps (R @ W)" and ?W = "by_age stamps W"
  let ?Q = "\<lambda>r. request_id r \<in> set (map request_id W)"
  let ?P = "\<lambda>r. \<not> ?Q r \<or> request_id r \<in> keep"
  have "filter ?P R = R" "filter ?P W = filter (\<lambda>r. request_id r \<in> keep) W"
    using disj by (auto simp: filter_id_conv intro!: filter_cong)
  then have P: "by_age stamps (R @ filter (\<lambda>r. request_id r \<in> keep) W) = filter ?P ?S"
    by (simp add: by_age_filter)
  have "filter ?Q R = []" "filter ?Q W = W" using disj by (auto simp: filter_empty_conv filter_id_conv)
  then have Q: "filter ?Q ?S = ?W" by (simp add: by_age_filter)
  have "?P x" if x: "x \<in> set (take k ?S)" for x
  proof (cases "?Q x")
    case True
    obtain m where m: "m \<le> k" "filter ?Q (take k ?S) = take m (filter ?Q ?S)"
      using filter_take_prefix by blast
    have "x \<in> set (filter ?Q (take k ?S))" using x True by simp
    then have "x \<in> set (take m ?W)" unfolding m(2) Q .
    moreover have "set (take m ?W) \<subseteq> set (take a ?W)" using m(1) le by (intro set_take_subset_set_take) simp
    ultimately show ?thesis by (auto simp: keep_def)
  qed simp
  then show ?thesis unfolding P by (intro take_filter_same) blast
qed

text \<open>
  C17: the capacity restriction of the turn selection changes nothing while there is room. With at
  least as many free sequence slots as turns per step, the requests that get a turn are exactly the
  ones the unrestricted rule (the oldest candidates of both queues together) gives, in the same
  order; the code's comment claims this no-op.
\<close>

theorem selection_restriction_noop:
  assumes on: "enable_decode_aware_prefill cfg" and k: "0 \<le> max_long_prefills_per_step cfg"
    and room: "max_long_prefills_per_step cfg \<le> max_num_running_reqs cfg - int (length (running st))"
  shows "fst (select_long_prefill_request_ids cfg st) = select_unrestricted cfg st"
proof -
  let ?a = "max_num_running_reqs cfg - int (length (running st))" and ?k = "max_long_prefills_per_step cfg"
  let ?R = "running_candidates cfg st" and ?W = "waiting_candidates cfg st" and ?s = "active_stamps st"
  have "py_take ?k (by_age ?s (?R @ admittable_waiting cfg st)) = py_take ?k (by_age ?s (?R @ ?W))"
  proof (cases "0 < ?a \<and> ?W \<noteq> []")
    case True
    then have "admittable_waiting cfg st
        = filter (\<lambda>r. request_id r \<in> set (map request_id (take (nat ?a) (by_age ?s ?W)))) ?W"
      by (simp add: admittable_waiting_def Let_def)
    then show ?thesis
      using oldest_kept [OF waiting_candidates_ids, of "nat ?k" "nat ?a" ?s] room k by simp
  next
    case False
    then show ?thesis using room k by (auto simp: admittable_waiting_def Let_def)
  qed
  then show ?thesis using on by (simp add: select_long_prefill_request_ids_def select_unrestricted_def Let_def)
qed

definition long_request :: "string \<Rightarrow> status \<Rightarrow> rat \<Rightarrow> sreq" where
  "long_request i s t = sample_request\<lparr>request_id := i, req_status := s, arrival_time := t\<rparr>"

definition turn_state :: sched where
  "turn_state = \<lparr>requests = [(''a'', long_request ''a'' RUNNING 1), (''b'', long_request ''b'' WAITING 2),
       (''c'', long_request ''c'' WAITING 3)],
     running = [''a''], waiting = [''b'', ''c''], skipped_waiting = [],
     long_prefill_last_scheduled = [(''a'', 4)], long_prefill_gate_skips = 0, long_prefill_wasted_turns = 0,
     current_step = 5, sched_pause_state = UNPAUSED, prefill_capacity_bound = False, inflight_prefills = [],
     reset_preempted_req_ids = [], finished_req_ids = [], sched_step_seq = 0, processed_step_seq = 0,
     num_waiting_for_streaming_input = 0, finished_recving_kv_req_ids = [], failed_recving_kv_req_ids = [],
     grammar_compile_error_reqs = [], skip_zero_block_ids = []\<rparr>"

definition turn_config :: sched_config where
  "turn_config = split_config\<lparr>enable_decode_aware_prefill := True, long_prefill_token_threshold := 50,
     need_mamba_block_aligned_split := False\<rparr>"

theorem selection_restriction_noop_witness:
  "fst (select_long_prefill_request_ids turn_config turn_state) = [''b'']
   \<and> select_unrestricted turn_config turn_state = [''b'']"
proof
  show sel: "fst (select_long_prefill_request_ids turn_config turn_state) = [''b'']" by code_simp
  have "fst (select_long_prefill_request_ids turn_config turn_state) = select_unrestricted turn_config turn_state"
    by (rule selection_restriction_noop) (simp_all add: turn_config_def split_config_def turn_state_def)
  with sel show "select_unrestricted turn_config turn_state = [''b'']" by simp
qed

end
