(* ===== verification/SchedRunning.thy ===== *)
theory SchedRunning
  imports SchedPrefill
begin

text \<open>
  The first half of \<^verbatim>\<open>Scheduler.schedule\<close>: the budgets of a step and the loop over the running
  requests, with encoder inputs (\<^verbatim>\<open>_try_schedule_encoder_inputs\<close>), preemption
  (\<^verbatim>\<open>_preempt_request\<close>, \<^verbatim>\<open>_free_request_blocks\<close>) and the bookkeeping of a scheduled request.
  Event recording, logging and tracing are not modelled. \<open>'k\<close> is the state of the KV-cache
  manager, \<open>'e\<close> the joint state of the encoder cache and the encoder-cache connector.
\<close>

subsection \<open>The managers the loop calls\<close>

type_synonym kv_blocks = "int list list"

record ('k, 'e) sched_api =
  kv_new_step :: "'k \<Rightarrow> 'k"
  kv_allocate_slots :: "sreq \<Rightarrow> int \<Rightarrow> int \<Rightarrow> 'k \<Rightarrow> kv_blocks option \<times> 'k"
  kv_free :: "sreq \<Rightarrow> 'k \<Rightarrow> 'k"
  kv_pop_blocks_for_free :: "sreq \<Rightarrow> 'k \<Rightarrow> int list \<times> 'k"
  enc_check_and_update_cache :: "sreq \<Rightarrow> nat \<Rightarrow> 'e \<Rightarrow> bool \<times> 'e"
  enc_can_allocate :: "sreq \<Rightarrow> nat \<Rightarrow> int \<Rightarrow> int \<Rightarrow> 'e \<Rightarrow> bool \<times> 'e"
  enc_allocate :: "sreq \<Rightarrow> nat \<Rightarrow> 'e \<Rightarrow> 'e"
  enc_free :: "sreq \<Rightarrow> 'e \<Rightarrow> 'e"
  ec_has_cache_item :: "(string \<Rightarrow> bool) option"
  ec_update_state_after_alloc :: "sreq \<Rightarrow> nat \<Rightarrow> 'e \<Rightarrow> 'e"
  mm_features_in_window :: "mm_feature list \<Rightarrow> int \<Rightarrow> int \<Rightarrow> nat \<times> nat"
  mm_embeds_in_range :: "mm_feature \<Rightarrow> int \<Rightarrow> int \<Rightarrow> int \<times> int"
  queue_prepend :: "sreq \<Rightarrow> string list \<Rightarrow> string list"

datatype sched_error =
    UnknownRequest string
  | NotRunning string
  | EmptyRunning
  | NoSuchFeature nat
  | EncoderOffset nat
  | NotFinished string
  | DuplicateRequest string
  | NoPrompt string
  | NegativeStaleTokens string
  | NothingScheduled string
  | NotReceiving string
  | UnexpectedStatus string
  | PendingStreamingInput string
  | NotOneGroup string
  | NoConnector
  | NoGrammar string
  | ResetFailed
  | NoOutput string
  | EmptyQueue
  | TooManyComputed string
  | NoExternalTokens string
  | NoNewTokens string
  | InvalidStatus string
  | TooManyLoras
  | StepConstraint

subsection \<open>Encoder inputs\<close>

record enc_acc =
  mm_hashes_to_schedule :: "string list"
  num_embeds_to_schedule :: int
  encoder_compute_budget :: int
  encoder_inputs_to_schedule :: "nat list"
  external_load_encoder_input :: "nat list"

definition schedule_encoder_input :: "mm_feature \<Rightarrow> nat \<Rightarrow> bool \<Rightarrow> enc_acc \<Rightarrow> enc_acc" where
  "schedule_encoder_input f i external acc =
     (let acc = acc\<lparr>mm_hashes_to_schedule := mm_identifier f # mm_hashes_to_schedule acc,
                    num_embeds_to_schedule := num_embeds_to_schedule acc + mm_embeds f\<rparr> in
      if external then acc\<lparr>external_load_encoder_input := external_load_encoder_input acc @ [i]\<rparr>
      else acc\<lparr>encoder_compute_budget := encoder_compute_budget acc - mm_embeds f,
               encoder_inputs_to_schedule := encoder_inputs_to_schedule acc @ [i]\<rparr>)"

definition already_cached ::
    "sched_config \<Rightarrow> ('k, 'e) sched_api \<Rightarrow> sreq \<Rightarrow> nat \<Rightarrow> mm_feature \<Rightarrow> enc_acc \<Rightarrow> 'e \<Rightarrow> bool \<times> 'e" where
  "already_cached cfg api r i f acc e =
     (if is_encoder_decoder cfg then (False, e)
      else if mm_identifier f \<in> set (mm_hashes_to_schedule acc) then (True, e)
      else enc_check_and_update_cache api r i e)"

fun encoder_loop ::
    "sched_config \<Rightarrow> ('k, 'e) sched_api \<Rightarrow> sreq \<Rightarrow> int \<Rightarrow> int \<Rightarrow> nat list \<Rightarrow> int \<Rightarrow> enc_acc \<Rightarrow> 'e
      \<Rightarrow> sched_error + int \<times> enc_acc \<times> 'e" where
  "encoder_loop cfg api r computed shift [] num_new acc e = Inr (num_new, acc, e)"
| "encoder_loop cfg api r computed shift (i # is) num_new acc e =
     (if i \<ge> length (mm_features r) then Inl (NoSuchFeature i)
      else
       (let f = mm_features r ! i; start_pos = mm_offset f in
        if is_encoder_decoder cfg \<and> computed > 0
        then (if start_pos \<noteq> 0 then Inl (EncoderOffset i)
              else encoder_loop cfg api r computed shift is num_new acc e)
        else
         (case already_cached cfg api r i f acc e of (cached, e1) \<Rightarrow>
           if cached then encoder_loop cfg api r computed shift is num_new acc e1
           else if disable_chunked_mm_input cfg \<and> computed < start_pos
                   \<and> computed + num_new < start_pos + mm_length f
           then Inr (max 0 (start_pos - (computed + shift)), acc, e1)
           else
            (case enc_can_allocate api r i (encoder_compute_budget acc) (num_embeds_to_schedule acc) e1 of (ok, e2) \<Rightarrow>
              if \<not> ok
              then Inr (if computed + shift < start_pos then start_pos - (computed + shift) else 0, acc, e2)
              else
               (case mm_embeds_in_range api f (max 0 (computed - start_pos))
                       (min (mm_length f) (computed + num_new - start_pos)) of (first, past) \<Rightarrow>
                 if past - first = 0 then encoder_loop cfg api r computed shift is num_new acc e2
                 else
                   (let external = (case ec_has_cache_item api of None \<Rightarrow> False | Some has \<Rightarrow> has (mm_identifier f)) in
                    encoder_loop cfg api r computed shift is num_new (schedule_encoder_input f i external acc) e2))))))"

definition try_schedule_encoder_inputs ::
    "sched_config \<Rightarrow> ('k, 'e) sched_api \<Rightarrow> sreq \<Rightarrow> int \<Rightarrow> int \<Rightarrow> int \<Rightarrow> int \<Rightarrow> 'e
      \<Rightarrow> sched_error + int \<times> enc_acc \<times> 'e" where
  "try_schedule_encoder_inputs cfg api r computed num_new budget shift e =
     (let acc = \<lparr>mm_hashes_to_schedule = [], num_embeds_to_schedule = 0, encoder_compute_budget = budget,
                 encoder_inputs_to_schedule = [], external_load_encoder_input = []\<rparr> in
      if num_new = 0 \<or> \<not> has_encoder_inputs r then Inr (num_new, acc, e)
      else
        (case mm_features_in_window api (mm_features r) computed (computed + num_new + shift) of (lo, hi) \<Rightarrow>
           encoder_loop cfg api r computed shift [(if is_encoder_decoder cfg then 0 else lo)..<hi] num_new acc e))"

subsection \<open>The state of a step\<close>

record ('k, 'e) core =
  rn_sched :: sched
  rn_kv :: 'k
  rn_enc :: 'e
  deferred_frees :: "(int \<times> int list) list"

record ('k, 'e) run = "('k, 'e) core" +
  req_index :: nat
  token_budget :: int
  rn_encoder_budget :: int
  prefill_tokens_scheduled :: int
  prefill_scheduled :: bool
  scheduled_running_reqs :: "string list"
  preempted_reqs :: "string list"
  req_to_new_blocks :: "(string, kv_blocks) dict"
  num_scheduled_tokens :: "(string, int) dict"
  scheduled_spec_decode_tokens :: "(string, int list) dict"
  scheduled_encoder_inputs :: "(string, nat list) dict"
  gate_skipped_running :: int

definition dict_del :: "'k \<Rightarrow> ('k, 'v) dict \<Rightarrow> ('k, 'v) dict" where
  "dict_del k d = filter (\<lambda>(k', _). k' \<noteq> k) d"

subsection \<open>Preemption\<close>

definition free_request_blocks ::
    "sched_config \<Rightarrow> ('k, 'e) sched_api \<Rightarrow> sreq \<Rightarrow> ('k, 'e, 'm) core_scheme \<Rightarrow> ('k, 'e, 'm) core_scheme" where
  "free_request_blocks cfg api r rn =
     (if \<not> defer_block_free cfg \<or> last_sched_seq r \<le> processed_step_seq (rn_sched rn)
      then rn\<lparr>rn_kv := kv_free api r (rn_kv rn)\<rparr>
      else
        (case kv_pop_blocks_for_free api r (rn_kv rn) of (blocks, kv) \<Rightarrow>
          (let rn = rn\<lparr>rn_kv := kv\<rparr> in
           if blocks \<noteq> []
           then rn\<lparr>deferred_frees := deferred_frees rn @ [(sched_step_seq (rn_sched rn), blocks)]\<rparr>
           else rn)))"

definition preempted :: "bool \<Rightarrow> sreq \<Rightarrow> sreq" where
  "preempted drop_output r =
     r\<lparr>req_status := PREEMPTED, num_computed_tokens := 0, spec_token_ids := [],
       drop_stale_output := drop_output \<or> (drop_stale_output r \<and> num_stale_output_tokens r > 0),
       num_stale_output_tokens := num_in_flight_tokens r, num_output_placeholders := 0,
       num_preemptions := num_preemptions r + 1\<rparr>"

definition preempt_request ::
    "sched_config \<Rightarrow> ('k, 'e) sched_api \<Rightarrow> bool \<Rightarrow> sreq \<Rightarrow> ('k, 'e, 'm) core_scheme
      \<Rightarrow> sched_error + ('k, 'e, 'm) core_scheme" where
  "preempt_request cfg api drop_output r rn =
     bindE (raiseIf (req_status r \<noteq> RUNNING) (NotRunning (request_id r))) (\<lambda>_.
     (let i = request_id r;
          rn = free_request_blocks cfg api r rn;
          rn = rn\<lparr>rn_enc := enc_free api r (rn_enc rn)\<rparr>;
          r' = preempted drop_output r;
          st = mutate i (\<lambda>_. r') (rn_sched rn) in
      Inr (rn\<lparr>rn_sched := st\<lparr>inflight_prefills := removeAll i (inflight_prefills st),
                            waiting := queue_prepend api r' (waiting st),
                            reset_preempted_req_ids := List.insert i (reset_preempted_req_ids st)\<rparr>\<rparr>)))"

text \<open>\<^verbatim>\<open>max(self.running, key=lambda r: (r.priority, r.arrival_time))\<close>: the first maximum.\<close>

fun first_max :: "('a \<Rightarrow> 'b::linorder) \<Rightarrow> 'a \<Rightarrow> 'a list \<Rightarrow> 'a" where
  "first_max key x [] = x"
| "first_max key x (y # ys) = first_max key (if key x < key y then y else x) ys"

definition priority_victim :: "sched \<Rightarrow> (string \<times> sreq) option" where
  "priority_victim st =
     (case List.map_filter (\<lambda>i. map_option (Pair i) (dict_get (requests st) i)) (running st) of
        [] \<Rightarrow> None
      | v # vs \<Rightarrow> Some (first_max (\<lambda>(_, r). (priority r, arrival_time r)) v vs))"

text \<open>A victim that was already scheduled in this step gives its tokens and budgets back.\<close>

definition unschedule :: "string \<Rightarrow> sreq \<Rightarrow> ('k, 'e) run \<Rightarrow> ('k, 'e) run" where
  "unschedule i v rn =
     (if i \<notin> set (scheduled_running_reqs rn) then rn
      else
        rn\<lparr>scheduled_running_reqs := remove1 i (scheduled_running_reqs rn),
           token_budget := token_budget rn
             + (case dict_get (num_scheduled_tokens rn) i of None \<Rightarrow> 0 | Some n \<Rightarrow> n),
           num_scheduled_tokens := dict_del i (num_scheduled_tokens rn),
           req_to_new_blocks := dict_del i (req_to_new_blocks rn),
           scheduled_spec_decode_tokens := dict_del i (scheduled_spec_decode_tokens rn),
           rn_encoder_budget := rn_encoder_budget rn
             + (case dict_get (scheduled_encoder_inputs rn) i of
                  None \<Rightarrow> 0
                | Some inputs \<Rightarrow> sum_list (map (\<lambda>j. mm_embeds (mm_features v ! j)) inputs)),
           scheduled_encoder_inputs := dict_del i (scheduled_encoder_inputs rn),
           req_index := req_index rn - 1\<rparr>)"

definition drop_running :: "string list \<Rightarrow> ('k, 'e) run \<Rightarrow> ('k, 'e) run" where
  "drop_running ids rn = rn\<lparr>rn_sched := (rn_sched rn)\<lparr>running := ids\<rparr>\<rparr>"

definition preempt_one :: "sched_config \<Rightarrow> ('k, 'e) sched_api \<Rightarrow> ('k, 'e) run \<Rightarrow> sched_error + string \<times> ('k, 'e) run" where
  "preempt_one cfg api rn =
     (let ids = running (rn_sched rn) in
      if ids = [] then Inl EmptyRunning
      else
        bindE (case sched_policy cfg of
            PRIORITY \<Rightarrow>
              (case priority_victim (rn_sched rn) of
                 None \<Rightarrow> Inl EmptyRunning
               | Some (i, v) \<Rightarrow> Inr (i, v, unschedule i v (drop_running (remove1 i ids) rn)))
          | FCFS \<Rightarrow>
              (case dict_get (requests (rn_sched rn)) (last ids) of
                 None \<Rightarrow> Inl (UnknownRequest (last ids))
               | Some v \<Rightarrow> Inr (last ids, v, drop_running (butlast ids) rn))) (\<lambda>(i, v, rn).
        bindE (preempt_request cfg api (requires_kv_delivery cfg) v rn) (\<lambda>rn.
        Inr (i, rn\<lparr>preempted_reqs := preempted_reqs rn @ [i]\<rparr>))))"

text \<open>Preemption takes one request off the running list; the index moves back by at most one.\<close>

lemma drop_running_simps [simp]:
  "running (rn_sched (drop_running ids rn)) = ids" "req_index (drop_running ids rn) = req_index rn"
  by (simp_all add: drop_running_def)

lemma unschedule_sched [simp]: "rn_sched (unschedule i v rn) = rn_sched rn"
  by (simp add: unschedule_def)

lemma unschedule_index: "req_index rn - 1 \<le> req_index (unschedule i v rn)"
  by (simp add: unschedule_def)

lemma free_request_blocks_sched: "rn_sched (free_request_blocks cfg api r c) = rn_sched c"
  by (simp add: free_request_blocks_def Let_def split: prod.splits)

lemma free_request_blocks_frame:
  "rn_sched (free_request_blocks cfg api r rn) = rn_sched rn"
  "req_index (free_request_blocks cfg api r rn) = req_index rn"
  by (simp_all add: free_request_blocks_def Let_def split: prod.splits)

lemma preempt_request_frame:
  assumes "preempt_request cfg api drop_output r rn = Inr rn'"
  shows "running (rn_sched rn') = running (rn_sched rn)" "req_index rn' = req_index rn"
  using assms by (auto simp: preempt_request_def Let_def bindE_raiseIf free_request_blocks_frame split: if_splits)

lemma first_max_mem: "first_max key x ys \<in> set (x # ys)"
  by (induction key x ys rule: first_max.induct) auto

lemma priority_victim_mem:
  assumes "priority_victim st = Some (i, v)"
  shows "i \<in> set (running st)" "dict_get (requests st) i = Some v"
proof -
  let ?ps = "List.map_filter (\<lambda>i. map_option (Pair i) (dict_get (requests st) i)) (running st)"
  obtain p ps where "?ps = p # ps" "(i, v) = first_max (\<lambda>(_, r). (priority r, arrival_time r)) p ps"
    using assms by (auto simp: priority_victim_def split: list.splits)
  then have "(i, v) \<in> set ?ps" using first_max_mem by metis
  then show "i \<in> set (running st)" "dict_get (requests st) i = Some v"
    by (auto simp: List.map_filter_def)
qed

lemma preempt_one_parts:
  assumes "preempt_one cfg api rn = Inr (i, rn')"
  obtains v r1 r2 where "running (rn_sched rn) \<noteq> []"
    and "sched_policy cfg = PRIORITY \<and> priority_victim (rn_sched rn) = Some (i, v)
           \<and> r1 = unschedule i v (drop_running (remove1 i (running (rn_sched rn))) rn)
         \<or> sched_policy cfg = FCFS \<and> r1 = drop_running (butlast (running (rn_sched rn))) rn"
    and "preempt_request cfg api (requires_kv_delivery cfg) v r1 = Inr r2"
    and "rn' = r2\<lparr>preempted_reqs := preempted_reqs r2 @ [i]\<rparr>"
proof -
  have ne: "running (rn_sched rn) \<noteq> []" using assms by (auto simp: preempt_one_def)
  show thesis
  proof (cases "sched_policy cfg")
    case FCFS
    then show thesis using assms ne that by (auto simp: preempt_one_def Let_def bindE_eq_Inr split: option.splits)
  next
    case PRIORITY
    then show thesis using assms ne that by (auto simp: preempt_one_def Let_def bindE_eq_Inr split: option.splits)
  qed
qed

lemma preempt_one_shrinks:
  assumes "preempt_one cfg api rn = Inr (i, rn')"
  shows "length (running (rn_sched rn')) + 1 = length (running (rn_sched rn))"
    and "req_index rn - 1 \<le> req_index rn'"
proof -
  let ?ids = "running (rn_sched rn)"
  obtain v r1 r2 where ne: "?ids \<noteq> []" and choice:
      "sched_policy cfg = PRIORITY \<and> priority_victim (rn_sched rn) = Some (i, v)
         \<and> r1 = unschedule i v (drop_running (remove1 i ?ids) rn)
       \<or> sched_policy cfg = FCFS \<and> r1 = drop_running (butlast ?ids) rn"
    and p: "preempt_request cfg api (requires_kv_delivery cfg) v r1 = Inr r2"
    and rn': "rn' = r2\<lparr>preempted_reqs := preempted_reqs r2 @ [i]\<rparr>"
    by (rule preempt_one_parts [OF assms])
  have "length (running (rn_sched r1)) + 1 = length ?ids" "req_index rn - 1 \<le> req_index r1"
    using choice ne priority_victim_mem(1) [of "rn_sched rn" i v]
      unschedule_index [of "drop_running (remove1 i ?ids) rn" i v]
    by (auto simp: length_remove1 Suc_leI length_pos_if_in_set)
  then show "length (running (rn_sched rn')) + 1 = length (running (rn_sched rn))"
    and "req_index rn - 1 \<le> req_index rn'"
    using preempt_request_frame [OF p] by (simp_all add: rn')
qed

function alloc_loop ::
    "sched_config \<Rightarrow> ('k, 'e) sched_api \<Rightarrow> string \<Rightarrow> sreq \<Rightarrow> int \<Rightarrow> ('k, 'e) run
      \<Rightarrow> sched_error + kv_blocks option \<times> ('k, 'e) run" where
  "alloc_loop cfg api i r num_new rn =
     (case kv_allocate_slots api r num_new (num_lookahead_tokens cfg) (rn_kv rn) of (blocks, kv) \<Rightarrow>
       (let rn = rn\<lparr>rn_kv := kv\<rparr> in
        case blocks of
          Some _ \<Rightarrow> Inr (blocks, rn)
        | None \<Rightarrow>
            bindE (preempt_one cfg api rn) (\<lambda>(j, rn').
            if j = i then Inr (None, rn') else alloc_loop cfg api i r num_new rn')))"
  by pat_completeness auto
termination
proof (relation "measure (\<lambda>(cfg, api, i, r, n, rn). length (running (rn_sched rn)))", goal_cases)
  case 2
  then show ?case using preempt_one_shrinks(1) by fastforce
qed simp


subsection \<open>One running request\<close>

text \<open>The parameters of a step that the loop does not change.\<close>

record step_env =
  env_defer_prefills :: bool
  env_prefill_token_budget :: int
  env_selected :: "string list"

definition output_complete :: "sreq \<Rightarrow> bool" where
  "output_complete r \<longleftrightarrow> num_output_placeholders r > 0
     \<and> num_computed_tokens r + 2 - num_output_placeholders r \<ge> num_prompt_tokens r + max_tokens r"

definition gated :: "sched_config \<Rightarrow> step_env \<Rightarrow> sreq \<Rightarrow> bool" where
  "gated cfg env r \<longleftrightarrow> enable_decode_aware_prefill cfg \<and> is_long_prefill_request cfg r
     \<and> request_id r \<notin> set (env_selected env)"

definition running_num_new :: "sched_config \<Rightarrow> sreq \<Rightarrow> int \<Rightarrow> int \<Rightarrow> int" where
  "running_num_new cfg r budget remaining =
     (let capped = enable_decode_aware_prefill cfg \<and> is_prefill_chunk r;
          n = num_tokens_with_spec r + num_output_placeholders r - num_computed_tokens r;
          n = (if \<not> capped \<and> 0 < long_prefill_token_threshold cfg \<and> long_prefill_token_threshold cfg < n
               then long_prefill_token_threshold cfg else n);
          n = min n budget;
          n = (if capped then min n remaining else n) in
      min n (max_model_len cfg - num_computed_tokens r - num_sampled_tokens_per_step cfg))"

definition next_request :: "('k, 'e) run \<Rightarrow> ('k, 'e) run" where
  "next_request rn = rn\<lparr>req_index := req_index rn + 1\<rparr>"

definition record_spec_tokens :: "string \<Rightarrow> sreq \<Rightarrow> int \<Rightarrow> ('k, 'e) run \<Rightarrow> ('k, 'e) run" where
  "record_spec_tokens i r num_new rn =
     (if spec_token_ids r = [] then rn
      else
        (let n = num_new + num_computed_tokens r - req_num_tokens r - num_output_placeholders r;
             rn = (if n > 0
                   then rn\<lparr>scheduled_spec_decode_tokens :=
                          dict_set i (take (nat n) (spec_token_ids r)) (scheduled_spec_decode_tokens rn)\<rparr>
                   else rn) in
         rn\<lparr>rn_sched := mutate i (\<lambda>r. r\<lparr>spec_token_ids := []\<rparr>) (rn_sched rn)\<rparr>))"

definition allocate_encoder_inputs ::
    "('k, 'e) sched_api \<Rightarrow> sreq \<Rightarrow> nat list \<Rightarrow> 'e \<Rightarrow> 'e" where
  "allocate_encoder_inputs api r inputs e =
     fold (\<lambda>j e. (let e = enc_allocate api r j e in
                  if ec_has_cache_item api = None then e else ec_update_state_after_alloc api r j e)) inputs e"

definition record_encoder_inputs ::
    "('k, 'e) sched_api \<Rightarrow> string \<Rightarrow> sreq \<Rightarrow> enc_acc option \<Rightarrow> ('k, 'e, 'm) run_scheme \<Rightarrow> ('k, 'e, 'm) run_scheme" where
  "record_encoder_inputs api i r acc rn =
     (case acc of
        None \<Rightarrow> rn
      | Some a \<Rightarrow>
         (let rn = (if encoder_inputs_to_schedule a = [] then rn
                    else rn\<lparr>scheduled_encoder_inputs := dict_set i (encoder_inputs_to_schedule a) (scheduled_encoder_inputs rn),
                            rn_enc := allocate_encoder_inputs api r (encoder_inputs_to_schedule a) (rn_enc rn),
                            rn_encoder_budget := encoder_compute_budget a\<rparr>) in
          rn\<lparr>rn_enc := allocate_encoder_inputs api r (external_load_encoder_input a) (rn_enc rn)\<rparr>))"

text \<open>The bookkeeping of a scheduled request; \<open>stamp\<close> records the turn of a long prefill.\<close>

definition stamp :: "string \<Rightarrow> sched \<Rightarrow> sched" where
  "stamp i st = st\<lparr>long_prefill_last_scheduled := dict_set i (current_step st) (long_prefill_last_scheduled st)\<rparr>"

definition record_scheduled ::
    "sched_config \<Rightarrow> string \<Rightarrow> sreq \<Rightarrow> int \<Rightarrow> kv_blocks \<Rightarrow> ('k, 'e) run \<Rightarrow> ('k, 'e) run" where
  "record_scheduled cfg i r num_new blocks rn =
     (let rn = rn\<lparr>scheduled_running_reqs := scheduled_running_reqs rn @ [i],
                  prefill_scheduled := prefill_scheduled rn \<or> is_prefill_chunk r,
                  req_to_new_blocks := dict_set i blocks (req_to_new_blocks rn),
                  num_scheduled_tokens := dict_set i num_new (num_scheduled_tokens rn),
                  token_budget := token_budget rn - num_new\<rparr>;
          rn = (if enable_decode_aware_prefill cfg \<and> is_prefill_chunk r
                then (let rn = rn\<lparr>prefill_tokens_scheduled := prefill_tokens_scheduled rn + num_new\<rparr> in
                      if is_long_prefill_request cfg r then rn\<lparr>rn_sched := stamp i (rn_sched rn)\<rparr> else rn)
                else rn) in
      next_request rn)"

text \<open>The number of tokens after the encoder inputs and the block alignment.\<close>

definition fitted_num_new ::
    "sched_config \<Rightarrow> ('k, 'e) sched_api \<Rightarrow> sreq \<Rightarrow> int \<Rightarrow> ('k, 'e) run
      \<Rightarrow> sched_error + int \<times> enc_acc option \<times> ('k, 'e) run" where
  "fitted_num_new cfg api r num_new rn =
     bindE (if has_encoder_inputs r
            then bindE (try_schedule_encoder_inputs cfg api r (num_computed_tokens r) num_new (rn_encoder_budget rn)
                          (if use_eagle cfg then 1 else 0) (rn_enc rn)) (\<lambda>(n, acc, e).
                 Inr (n, Some acc, rn\<lparr>rn_enc := e\<rparr>))
            else Inr (num_new, None, rn)) (\<lambda>(n, acc, rn).
     Inr (if need_mamba_block_aligned_split cfg then mamba_block_aligned_split cfg r n 0 0 else n, acc, rn))"

definition schedule_one ::
    "sched_config \<Rightarrow> ('k, 'e) sched_api \<Rightarrow> string \<Rightarrow> sreq \<Rightarrow> int \<Rightarrow> ('k, 'e) run
      \<Rightarrow> sched_error + bool \<times> ('k, 'e) run" where
  "schedule_one cfg api i r num_new rn =
     bindE (fitted_num_new cfg api r num_new rn) (\<lambda>(n, acc, rn).
     if n = 0 then Inr (True, next_request rn)
     else
       bindE (alloc_loop cfg api i r n rn) (\<lambda>(blocks, rn).
       case blocks of
         None \<Rightarrow> Inr (False, rn)
       | Some b \<Rightarrow>
           Inr (True, record_encoder_inputs api i r acc
                        (record_spec_tokens i r n (record_scheduled cfg i r n b rn)))))"

definition running_step ::
    "sched_config \<Rightarrow> ('k, 'e) sched_api \<Rightarrow> step_env \<Rightarrow> ('k, 'e) run \<Rightarrow> sched_error + bool \<times> ('k, 'e) run" where
  "running_step cfg api env rn =
     (let st = rn_sched rn; i = running st ! req_index rn in
      case dict_get (requests st) i of
        None \<Rightarrow> Inl (UnknownRequest i)
      | Some r \<Rightarrow>
         (if output_complete r then Inr (True, next_request rn)
          else if current_step st < next_decode_eligible_step r then Inr (True, next_request rn)
          else if env_defer_prefills env \<and> is_prefill_chunk r then Inr (True, next_request rn)
          else if gated cfg env r
          then Inr (True, next_request (rn\<lparr>gate_skipped_running := gate_skipped_running rn + 1,
                 rn_sched := st\<lparr>long_prefill_gate_skips := long_prefill_gate_skips st + 1\<rparr>\<rparr>))
          else
            (let remaining = env_prefill_token_budget env - prefill_tokens_scheduled rn in
             if enable_decode_aware_prefill cfg \<and> is_prefill_chunk r \<and> remaining \<le> 0
             then Inr (True, next_request rn)
             else schedule_one cfg api i r (running_num_new cfg r (token_budget rn) remaining) rn)))"

subsection \<open>The loop over the running requests\<close>

definition gap :: "('k, 'e) run \<Rightarrow> int" where
  "gap rn = int (length (running (rn_sched rn))) - int (req_index rn)"

lemma alloc_loop_gap: "alloc_loop cfg api i r n rn = Inr (b, rn') \<Longrightarrow> gap rn' \<le> gap rn"
proof (induction cfg api i r n rn arbitrary: b rn' rule: alloc_loop.induct)
  case (1 cfg api i r n rn)
  obtain blocks kv where a: "kv_allocate_slots api r n (num_lookahead_tokens cfg) (rn_kv rn) = (blocks, kv)"
    by (cases "kv_allocate_slots api r n (num_lookahead_tokens cfg) (rn_kv rn)")
  let ?rn = "rn\<lparr>rn_kv := kv\<rparr>"
  show ?case
  proof (cases blocks)
    case (Some x)
    then have "rn' = ?rn" using "1.prems" a by simp
    then show ?thesis by (simp add: gap_def)
  next
    case None
    then obtain j rn1 where p: "preempt_one cfg api ?rn = Inr (j, rn1)"
      and k: "if j = i then rn' = rn1 else alloc_loop cfg api i r n rn1 = Inr (b, rn')"
      using "1.prems" a by (auto simp: bindE_eq_Inr split: if_splits)
    have "gap rn1 \<le> gap rn" using preempt_one_shrinks [OF p] by (simp add: gap_def)
    moreover have "gap rn' \<le> gap rn1" if "j \<noteq> i"
      using "1.IH" [OF a [symmetric] refl None p refl that] that k by simp
    ultimately show ?thesis using k by (auto split: if_splits)
  qed
qed

lemma gap_next [simp]: "gap (next_request rn) = gap rn - 1"
  by (simp add: gap_def next_request_def)

lemma gap_record [simp]:
  "gap (record_scheduled cfg i r n b rn) = gap rn - 1"
  "gap (record_spec_tokens i r n rn) = gap rn" "gap (record_encoder_inputs api i r acc rn) = gap rn"
  by (auto simp: gap_def record_scheduled_def record_spec_tokens_def record_encoder_inputs_def Let_def
      next_request_def stamp_def split: option.splits)

lemma fitted_num_new_frame:
  assumes "fitted_num_new cfg api r n rn = Inr (m, acc, rn')"
  shows "\<exists>e. rn' = rn\<lparr>rn_enc := e\<rparr>"
  using assms by (auto simp: fitted_num_new_def bindE_eq_Inr split: if_splits intro: exI [of _ "rn_enc rn"])

lemma schedule_one_gap:
  assumes "schedule_one cfg api i r n rn = Inr (True, rn')"
  shows "gap rn' < gap rn"
proof -
  obtain m acc rn1 where f: "fitted_num_new cfg api r n rn = Inr (m, acc, rn1)"
    using assms by (auto simp: schedule_one_def bindE_eq_Inr)
  have g: "gap rn1 = gap rn" using fitted_num_new_frame [OF f] by (auto simp: gap_def)
  show ?thesis
  proof (cases "m = 0")
    case True
    with assms f g show ?thesis by (auto simp: schedule_one_def)
  next
    case False
    with assms f obtain b rn2 where "alloc_loop cfg api i r m rn1 = Inr (Some b, rn2)"
        "rn' = record_encoder_inputs api i r acc (record_spec_tokens i r m (record_scheduled cfg i r m b rn2))"
      by (auto simp: schedule_one_def bindE_eq_Inr split: option.splits)
    with alloc_loop_gap g show ?thesis by fastforce
  qed
qed

lemma running_step_gap:
  assumes "running_step cfg api env rn = Inr (True, rn')"
  shows "gap rn' < gap rn"
proof -
  have "gap (next_request (rn\<lparr>gate_skipped_running := g, rn_sched := (rn_sched rn)\<lparr>long_prefill_gate_skips := s\<rparr>\<rparr>))
      = gap rn - 1" for g s by (simp add: gap_def next_request_def)
  then show ?thesis
    using assms schedule_one_gap [of cfg api _ _ _ rn rn']
    by (auto simp: running_step_def Let_def split: option.splits if_splits)
qed

function running_loop ::
    "sched_config \<Rightarrow> ('k, 'e) sched_api \<Rightarrow> step_env \<Rightarrow> ('k, 'e) run \<Rightarrow> sched_error + ('k, 'e) run" where
  "running_loop cfg api env rn =
     (if req_index rn < length (running (rn_sched rn)) \<and> 0 < token_budget rn
      then bindE (running_step cfg api env rn) (\<lambda>(go, rn').
             if go then running_loop cfg api env rn' else Inr rn')
      else Inr rn)"
  by pat_completeness auto
termination
proof (relation "measure (\<lambda>(cfg, api, env, rn). nat (gap rn))", goal_cases)
  case (2 cfg api env rn x go rn')
  then have "running_step cfg api env rn = Inr (True, rn')" "0 < gap rn" by (simp_all add: gap_def)
  with running_step_gap show ?case by fastforce
qed simp

text \<open>The budgets of a step and its running half.\<close>

definition initial_run :: "sched_config \<Rightarrow> sched \<Rightarrow> 'k \<Rightarrow> 'e \<Rightarrow> (int \<times> int list) list \<Rightarrow> ('k, 'e) run" where
  "initial_run cfg st kv e deferred =
     \<lparr>rn_sched = st, rn_kv = kv, rn_enc = e, deferred_frees = deferred, req_index = 0,
      token_budget = (if sched_pause_state st = PAUSED_ALL then 0 else max_num_scheduled_tokens cfg),
      rn_encoder_budget = max_num_encoder_input_tokens cfg, prefill_tokens_scheduled = 0, prefill_scheduled = False,
      scheduled_running_reqs = [], preempted_reqs = [], req_to_new_blocks = [], num_scheduled_tokens = [],
      scheduled_spec_decode_tokens = [], scheduled_encoder_inputs = [], gate_skipped_running = 0\<rparr>"

definition has_active_decode :: "sched \<Rightarrow> bool" where
  "has_active_decode st \<longleftrightarrow> (\<exists>r \<in> set (live st (running st)). \<not> is_prefill_chunk r)"

definition step_prefill_budget :: "sched_config \<Rightarrow> sched \<Rightarrow> int" where
  "step_prefill_budget cfg st =
     (if enable_decode_aware_prefill cfg
      then min (if has_active_decode st then decode_prefill_token_budget cfg else idle_prefill_token_budget cfg)
             (max_num_scheduled_tokens cfg)
      else if sched_pause_state st = PAUSED_ALL then 0 else max_num_scheduled_tokens cfg)"

definition schedule_running ::
    "sched_config \<Rightarrow> ('k, 'e) sched_api \<Rightarrow> bool \<Rightarrow> sched \<Rightarrow> 'k \<Rightarrow> 'e \<Rightarrow> (int \<times> int list) list
      \<Rightarrow> sched_error + step_env \<times> ('k, 'e) run" where
  "schedule_running cfg api throttle_prefills st kv e deferred =
     (let st = st\<lparr>current_step := current_step st + 1\<rparr>;
          defer_prefills = throttle_prefills \<and> \<not> prefill_capacity_bound st \<and> has_active_decode st in
      case select_long_prefill_request_ids cfg st of (selected, st') \<Rightarrow>
        (let env = \<lparr>env_defer_prefills = defer_prefills, env_prefill_token_budget = step_prefill_budget cfg st,
                    env_selected = selected\<rparr> in
         bindE (running_loop cfg api env (initial_run cfg st' (kv_new_step api kv) e deferred)) (\<lambda>rn.
         Inr (env, rn))))"

subsection \<open>Lists and dictionaries of a step\<close>

lemma take_remove1_any: "set (take n xs) - {v} \<subseteq> set (take n (remove1 v xs))"
proof (induction xs arbitrary: n)
  case (Cons x xs)
  show ?case
  proof (cases n)
    case (Suc m)
    have "set (take m xs) \<subseteq> set (take (Suc m) xs)" by (simp add: set_take_subset_set_take)
    then show ?thesis using Cons [of m] Suc by auto
  qed simp
qed simp

lemma take_remove1_mem: "v \<in> set (take n xs) \<Longrightarrow> set (take n xs) - {v} \<subseteq> set (take (n - 1) (remove1 v xs))"
proof (induction xs arbitrary: n)
  case (Cons x xs)
  obtain m where n: "n = Suc m" using Cons.prems by (cases n) auto
  show ?case
  proof (cases "v = x")
    case False
    then obtain k where "m = Suc k" using Cons.prems n by (cases m) auto
    then show ?thesis using Cons.IH [of m] Cons.prems n False by auto
  qed (simp add: n)
qed simp

lemma keys_dict_del [simp]: "dict_keys (dict_del i d) = removeAll i (dict_keys d)"
  by (induction d) (auto simp: dict_del_def dict_keys_def)

lemma dict_get_del: "dict_get (dict_del i d) j = (if j = i then None else dict_get d j)"
  by (induction d) (auto simp: dict_get_def dict_del_def)

lemma set_dict_del: "set (dict_del i d) = {p \<in> set d. fst p \<noteq> i}"
  by (auto simp: dict_del_def)

lemma sum_dict_del:
  fixes d :: "('k, int) dict"
  assumes "distinct (dict_keys d)" and "dict_get d i = Some n"
  shows "sum_list (map snd (dict_del i d)) + n = sum_list (map snd d)"
  using assms
proof (induction d)
  case (Cons p d)
  show ?case
  proof (cases "fst p = i")
    case True
    then have "filter (\<lambda>(k', _). k' \<noteq> i) d = d"
      using Cons.prems(1) by (auto simp: filter_id_conv dict_keys_def image_iff)
    then show ?thesis using True Cons.prems(2) by (cases p) (simp add: dict_del_def dict_get_def)
  next
    case False
    then show ?thesis using Cons by (cases p) (simp add: dict_del_def dict_get_def dict_keys_def)
  qed
qed simp

lemma keys_snoc [simp]: "dict_keys (d @ [(i, v)]) = dict_keys d @ [i]"
  by (simp add: dict_keys_def)

subsection \<open>The invariant of the loop\<close>

text \<open>What the running list guarantees between steps.\<close>

definition request_ok :: "sched_config \<Rightarrow> string \<Rightarrow> sreq \<Rightarrow> bool" where
  "request_ok cfg i r \<longleftrightarrow> request_id r = i \<and> req_status r = RUNNING
     \<and> num_computed_tokens r \<le> num_tokens_with_spec r + num_output_placeholders r
     \<and> num_computed_tokens r + num_sampled_tokens_per_step cfg \<le> max_model_len cfg
     \<and> (is_encoder_decoder cfg \<longrightarrow> (\<forall>f \<in> set (mm_features r). mm_offset f = 0))"

definition running_ok :: "sched_config \<Rightarrow> sched \<Rightarrow> bool" where
  "running_ok cfg st \<longleftrightarrow> distinct (running st)
     \<and> (\<forall>i \<in> set (running st). \<exists>r. dict_get (requests st) i = Some r \<and> request_ok cfg i r)"

text \<open>Tokens given to requests that were in a prefill chunk when the step began; \<open>st0\<close> is the
  scheduler at that time.\<close>

definition prefill_entry :: "sched \<Rightarrow> string \<times> int \<Rightarrow> bool" where
  "prefill_entry st0 p \<longleftrightarrow>
     (case dict_get (requests st0) (fst p) of None \<Rightarrow> False | Some r \<Rightarrow> is_prefill_chunk r)"

definition prefill_sum :: "sched \<Rightarrow> (string, int) dict \<Rightarrow> int" where
  "prefill_sum st0 d = sum_list (map snd (filter (prefill_entry st0) d))"

definition lists_inv :: "sched \<Rightarrow> ('k, 'e) run \<Rightarrow> bool" where
  "lists_inv st0 rn \<longleftrightarrow>
     distinct (running (rn_sched rn)) \<and> set (running (rn_sched rn)) \<subseteq> set (running st0)
     \<and> distinct (scheduled_running_reqs rn)
     \<and> set (scheduled_running_reqs rn) \<subseteq> set (take (req_index rn) (running (rn_sched rn)))
     \<and> dict_keys (num_scheduled_tokens rn) = scheduled_running_reqs rn
     \<and> set (preempted_reqs rn) \<inter> set (running (rn_sched rn)) = {}
     \<and> (\<forall>j \<in> set (running (rn_sched rn)) - set (scheduled_running_reqs rn).
          dict_get (requests (rn_sched rn)) j = dict_get (requests st0) j)
     \<and> (\<forall>j \<in> set (running (rn_sched rn)).
          \<exists>r. dict_get (requests (rn_sched rn)) j = Some r \<and> request_id r = j \<and> req_status r = RUNNING)"

definition budget_inv :: "sched_config \<Rightarrow> step_env \<Rightarrow> sched \<Rightarrow> int \<Rightarrow> ('k, 'e) run \<Rightarrow> bool" where
  "budget_inv cfg env st0 budget rn \<longleftrightarrow>
     0 \<le> token_budget rn
     \<and> token_budget rn + sum_list (map snd (num_scheduled_tokens rn)) = budget
     \<and> (\<forall>p \<in> set (num_scheduled_tokens rn). 0 < snd p)
     \<and> (enable_decode_aware_prefill cfg \<longrightarrow>
          prefill_sum st0 (num_scheduled_tokens rn) \<le> prefill_tokens_scheduled rn
          \<and> prefill_tokens_scheduled rn \<le> max 0 (env_prefill_token_budget env))"

text \<open>The request being scheduled has not been passed and is not scheduled yet.\<close>

definition pending :: "sched_config \<Rightarrow> string \<Rightarrow> ('k, 'e) run \<Rightarrow> bool" where
  "pending cfg i rn \<longleftrightarrow> i \<notin> set (scheduled_running_reqs rn)
     \<and> i \<in> set (take (req_index rn + 1) (running (rn_sched rn)))
     \<and> (sched_policy cfg = FCFS \<longrightarrow>
          req_index rn < length (running (rn_sched rn)) \<and> running (rn_sched rn) ! req_index rn = i)"

lemma prefill_sum_del:
  assumes "distinct (dict_keys d)" and "\<forall>p \<in> set d. 0 < snd p"
  shows "prefill_sum st0 (dict_del i d) \<le> prefill_sum st0 d"
  using assms by (induction d) (auto simp: prefill_sum_def dict_del_def dict_keys_def)

lemma preempt_request_ok:
  assumes "req_status v = RUNNING" and "request_id v = j"
  obtains rn' where "preempt_request cfg api drop_output v rn = Inr rn'"
    "running (rn_sched rn') = running (rn_sched rn)" "req_index rn' = req_index rn"
    "scheduled_running_reqs rn' = scheduled_running_reqs rn" "num_scheduled_tokens rn' = num_scheduled_tokens rn"
    "token_budget rn' = token_budget rn" "prefill_tokens_scheduled rn' = prefill_tokens_scheduled rn"
    "preempted_reqs rn' = preempted_reqs rn"
    "\<And>k. k \<noteq> j \<Longrightarrow> dict_get (requests (rn_sched rn')) k = dict_get (requests (rn_sched rn)) k"
proof -
  have "\<exists>rn'. preempt_request cfg api drop_output v rn = Inr rn'"
    using assms by (simp add: preempt_request_def Let_def)
  then obtain rn' where rn': "preempt_request cfg api drop_output v rn = Inr rn'" ..
  moreover have "scheduled_running_reqs rn' = scheduled_running_reqs rn" "num_scheduled_tokens rn' = num_scheduled_tokens rn"
    "token_budget rn' = token_budget rn" "prefill_tokens_scheduled rn' = prefill_tokens_scheduled rn"
    "preempted_reqs rn' = preempted_reqs rn"
    "k \<noteq> j \<Longrightarrow> dict_get (requests (rn_sched rn')) k = dict_get (requests (rn_sched rn)) k" for k
    using rn' assms
    by (auto simp: preempt_request_def Let_def free_request_blocks_def mutate_get split: prod.splits if_splits)
  ultimately show thesis using that preempt_request_frame [OF rn'] by blast
qed

text \<open>Taking a victim off the running list.\<close>

lemma unschedule_lists:
  fixes v :: sreq
  assumes inv: "lists_inv st0 rn" and j: "j \<in> set (running (rn_sched rn))"
  defines "rn1 \<equiv> unschedule j v (drop_running (remove1 j (running (rn_sched rn))) rn)"
  shows "lists_inv st0 rn1" and "running (rn_sched rn1) = remove1 j (running (rn_sched rn))"
    and "sched_policy cfg = PRIORITY \<Longrightarrow> pending cfg i rn \<Longrightarrow> i \<noteq> j \<Longrightarrow> pending cfg i rn1"
proof -
  let ?ids = "running (rn_sched rn)" and ?S = "scheduled_running_reqs rn"
  have dist: "distinct ?ids" and sub: "set ?S \<subseteq> set (take (req_index rn) ?ids)" and dS: "distinct ?S"
    using inv by (simp_all add: lists_inv_def)
  show run: "running (rn_sched rn1) = remove1 j ?ids" by (simp add: rn1_def drop_running_def)
  have S1: "scheduled_running_reqs rn1 = remove1 j ?S"
    by (simp add: rn1_def unschedule_def drop_running_def remove1_idem)
  have req: "requests (rn_sched rn1) = requests (rn_sched rn)" "preempted_reqs rn1 = preempted_reqs rn"
    by (simp_all add: rn1_def unschedule_def drop_running_def)
  have num: "dict_keys (num_scheduled_tokens rn1) = remove1 j ?S"
    using inv dS by (simp add: rn1_def unschedule_def drop_running_def lists_inv_def distinct_remove1_removeAll remove1_idem)
  have idx: "req_index rn1 = (if j \<in> set ?S then req_index rn - 1 else req_index rn)"
    by (simp add: rn1_def unschedule_def drop_running_def)
  have S1sub: "set (remove1 j ?S) \<subseteq> set (take (req_index rn1) (remove1 j ?ids))"
    using sub dS take_remove1_mem [of j "req_index rn" ?ids] take_remove1_any [of "req_index rn" ?ids j]
    by (auto simp: idx subset_iff)
  then show "lists_inv st0 rn1"
    using inv dist dS by (auto simp: lists_inv_def run S1 req num)
  show "pending cfg i rn1" if "sched_policy cfg = PRIORITY" "pending cfg i rn" "i \<noteq> j"
  proof -
    have "i \<in> set (take (req_index rn1 + 1) (remove1 j ?ids))"
    proof (cases "j \<in> set ?S")
      case True
      then have "j \<in> set (take (req_index rn + 1) ?ids)"
        using sub set_take_subset_set_take [of "req_index rn" "req_index rn + 1" ?ids] by (auto simp: subset_iff)
      moreover have "req_index rn \<noteq> 0" using sub True by (cases "req_index rn") auto
      ultimately show ?thesis using that(2,3) True take_remove1_mem [of j "req_index rn + 1" ?ids]
        by (auto simp: pending_def idx)
    next
      case False
      then show ?thesis using that(2,3) take_remove1_any [of "req_index rn + 1" ?ids j]
        by (auto simp: pending_def idx)
    qed
    then show ?thesis using that dS by (simp add: pending_def run S1)
  qed
qed

lemma unschedule_budget:
  assumes inv: "lists_inv st0 rn" and b: "budget_inv cfg env st0 budget rn"
  shows "budget_inv cfg env st0 budget (unschedule j v (drop_running ids rn))"
proof (cases "j \<in> set (scheduled_running_reqs rn)")
  case True
  have keys: "dict_keys (num_scheduled_tokens rn) = scheduled_running_reqs rn" "distinct (scheduled_running_reqs rn)"
    using inv by (simp_all add: lists_inv_def)
  then obtain n where n: "dict_get (num_scheduled_tokens rn) j = Some n"
    using True dict_get_eq_None [of "num_scheduled_tokens rn" j] by auto
  have "(j, n) \<in> set (num_scheduled_tokens rn)" using n by (auto simp: dict_get_def dest: map_of_SomeD)
  then have "0 < n" using b by (auto simp: budget_inv_def)
  then show ?thesis
    using True b n sum_dict_del [of "num_scheduled_tokens rn" j n] keys
      prefill_sum_del [of "num_scheduled_tokens rn" st0 j]
    by (auto simp: budget_inv_def unschedule_def drop_running_def set_dict_del)
next
  case False
  then show ?thesis using b by (simp add: budget_inv_def unschedule_def drop_running_def)
qed

lemma unschedule_tokens:
  assumes "budget_inv cfg env st0 budget rn"
  shows "token_budget rn \<le> token_budget (unschedule j v (drop_running ids rn))"
    and "prefill_tokens_scheduled (unschedule j v (drop_running ids rn)) = prefill_tokens_scheduled rn"
proof -
  have "0 < n" if "dict_get (num_scheduled_tokens rn) j = Some n" for n
    using assms map_of_SomeD [OF that [unfolded dict_get_def]] by (auto simp: budget_inv_def)
  then show "token_budget rn \<le> token_budget (unschedule j v (drop_running ids rn))"
    by (auto simp: unschedule_def drop_running_def less_imp_le split: option.splits)
qed (simp add: unschedule_def drop_running_def)

lemma pop_last_lists:
  assumes inv: "lists_inv st0 rn" and pend: "pending cfg i rn" and fcfs: "sched_policy cfg = FCFS"
  defines "rn1 \<equiv> drop_running (butlast (running (rn_sched rn))) rn"
  shows "lists_inv st0 rn1" and "last (running (rn_sched rn)) \<notin> set (running (rn_sched rn1))"
    and "i \<noteq> last (running (rn_sched rn)) \<Longrightarrow> pending cfg i rn1"
proof -
  let ?ids = "running (rn_sched rn)"
  have at: "req_index rn < length ?ids" "?ids ! req_index rn = i" using pend fcfs by (simp_all add: pending_def)
  then have ne: "?ids \<noteq> []" by auto
  have dist: "distinct ?ids" using inv by (simp add: lists_inv_def)
  have take: "take (req_index rn) (butlast ?ids) = take (req_index rn) ?ids" using at(1) by (rule take_butlast)
  have sub: "set (butlast ?ids) \<subseteq> set ?ids" by (auto dest: in_set_butlastD)
  show "lists_inv st0 rn1"
    using inv sub by (auto simp: lists_inv_def rn1_def drop_running_def distinct_butlast take)
  show "last ?ids \<notin> set (running (rn_sched rn1))"
    using dist ne append_butlast_last_id [OF ne] by (metis distinct_append drop_running_simps(1) not_distinct_conv_prefix rn1_def)
  show "pending cfg i rn1" if "i \<noteq> last ?ids"
  proof -
    have "req_index rn \<noteq> length ?ids - 1" using that at by (auto simp: last_conv_nth [OF ne])
    then have lt: "req_index rn < length (butlast ?ids)" using at by simp
    then have "butlast ?ids ! req_index rn = i" using at by (simp add: nth_butlast)
    with lt have "i \<in> set (take (req_index rn + 1) (butlast ?ids))"
      by (metis Suc_eq_plus1 in_set_conv_nth length_take lessI min_less_iff_conj nth_take)
    with lt \<open>butlast ?ids ! req_index rn = i\<close> pend show ?thesis by (simp add: pending_def rn1_def drop_running_def)
  qed
qed

lemma preempt_one_ok:
  assumes inv: "lists_inv st0 rn" and b: "budget_inv cfg env st0 budget rn" and pend: "pending cfg i rn"
  obtains j rn' where "preempt_one cfg api rn = Inr (j, rn')" "lists_inv st0 rn'" "budget_inv cfg env st0 budget rn'"
    "j \<noteq> i \<Longrightarrow> pending cfg i rn'"
    "token_budget rn \<le> token_budget rn'" "prefill_tokens_scheduled rn' = prefill_tokens_scheduled rn"
proof -
  let ?ids = "running (rn_sched rn)"
  have i: "i \<in> set ?ids" using pend by (auto simp: pending_def dest: in_set_takeD)
  then have ne: "?ids \<noteq> []" by auto
  have live: "\<exists>r. dict_get (requests (rn_sched rn)) j = Some r \<and> request_id r = j \<and> req_status r = RUNNING"
    if "j \<in> set ?ids" for j using inv that by (simp add: lists_inv_def)
  have "\<exists>j v rn1. j \<in> set ?ids \<and> dict_get (requests (rn_sched rn)) j = Some v
      \<and> preempt_one cfg api rn = bindE (preempt_request cfg api (requires_kv_delivery cfg) v rn1) (\<lambda>rn.
          Inr (j, rn\<lparr>preempted_reqs := preempted_reqs rn @ [j]\<rparr>))
      \<and> lists_inv st0 rn1 \<and> budget_inv cfg env st0 budget rn1 \<and> j \<notin> set (running (rn_sched rn1))
      \<and> (j \<noteq> i \<longrightarrow> pending cfg i rn1)
      \<and> token_budget rn \<le> token_budget rn1 \<and> prefill_tokens_scheduled rn1 = prefill_tokens_scheduled rn"
  proof (cases "sched_policy cfg")
    case FCFS
    let ?rn1 = "drop_running (butlast ?ids) rn"
    obtain v where v: "dict_get (requests (rn_sched rn)) (last ?ids) = Some v"
      using live [OF last_in_set [OF ne]] by blast
    have "budget_inv cfg env st0 budget ?rn1" using b by (simp add: budget_inv_def drop_running_def)
    moreover have "token_budget ?rn1 = token_budget rn" "prefill_tokens_scheduled ?rn1 = prefill_tokens_scheduled rn"
      by (simp_all add: drop_running_def)
    ultimately show ?thesis
      using pop_last_lists [OF inv pend FCFS] v ne FCFS
      by (intro exI [of _ "last ?ids"] exI [of _ v] exI [of _ ?rn1]) (auto simp: preempt_one_def Let_def)
  next
    case PRIORITY
    obtain k r where "k \<in> set ?ids" "dict_get (requests (rn_sched rn)) k = Some r" using live i by blast
    then have "List.map_filter (\<lambda>i. map_option (Pair i) (dict_get (requests (rn_sched rn)) i)) ?ids \<noteq> []"
      by (auto simp: List.map_filter_def filter_empty_conv)
    then obtain j v where victim: "priority_victim (rn_sched rn) = Some (j, v)"
      by (auto simp: priority_victim_def neq_Nil_conv split: list.splits) (metis surj_pair)
    note mem = priority_victim_mem [OF victim]
    let ?rn1 = "unschedule j v (drop_running (remove1 j ?ids) rn)"
    have "j \<notin> set (remove1 j ?ids)" using inv by (simp add: lists_inv_def)
    then show ?thesis
      using unschedule_lists [OF inv mem(1), where v = v] unschedule_budget [OF inv b, of j v "remove1 j ?ids"]
        unschedule_tokens [OF b, of j v "remove1 j ?ids"] mem victim ne PRIORITY pend
      by (intro exI [of _ j] exI [of _ v] exI [of _ ?rn1]) (auto simp: preempt_one_def Let_def)
  qed
  then obtain j v rn1 where v: "j \<in> set ?ids" "dict_get (requests (rn_sched rn)) j = Some v"
    and eq: "preempt_one cfg api rn = bindE (preempt_request cfg api (requires_kv_delivery cfg) v rn1) (\<lambda>rn.
          Inr (j, rn\<lparr>preempted_reqs := preempted_reqs rn @ [j]\<rparr>))"
    and rn1: "lists_inv st0 rn1" "budget_inv cfg env st0 budget rn1" "j \<notin> set (running (rn_sched rn1))"
      "j \<noteq> i \<longrightarrow> pending cfg i rn1" "token_budget rn \<le> token_budget rn1"
      "prefill_tokens_scheduled rn1 = prefill_tokens_scheduled rn" by blast
  have "req_status v = RUNNING" "request_id v = j" using live [OF v(1)] v(2) by auto
  then obtain rn2 where p: "preempt_request cfg api (requires_kv_delivery cfg) v rn1 = Inr rn2"
    and f: "running (rn_sched rn2) = running (rn_sched rn1)" "req_index rn2 = req_index rn1"
    "scheduled_running_reqs rn2 = scheduled_running_reqs rn1" "num_scheduled_tokens rn2 = num_scheduled_tokens rn1"
    "token_budget rn2 = token_budget rn1" "prefill_tokens_scheduled rn2 = prefill_tokens_scheduled rn1"
    "preempted_reqs rn2 = preempted_reqs rn1"
    "\<And>k. k \<noteq> j \<Longrightarrow> dict_get (requests (rn_sched rn2)) k = dict_get (requests (rn_sched rn1)) k"
    by (rule preempt_request_ok) blast
  let ?rn' = "rn2\<lparr>preempted_reqs := preempted_reqs rn2 @ [j]\<rparr>"
  have same: "\<forall>k \<in> set (running (rn_sched rn1)). dict_get (requests (rn_sched rn2)) k = dict_get (requests (rn_sched rn1)) k"
    using f(8) rn1(3) by metis
  have "lists_inv st0 ?rn'" using rn1(1,3) same unfolding lists_inv_def by (simp add: f)
  moreover have "budget_inv cfg env st0 budget ?rn'" using rn1(2) by (simp add: budget_inv_def f)
  moreover have "pending cfg i ?rn'" if "j \<noteq> i" using rn1(4) that by (simp add: pending_def f)
  ultimately show thesis using that [of j ?rn'] eq p rn1(5,6) by (simp add: f)
qed

lemma alloc_loop_ok:
  "lists_inv st0 rn \<Longrightarrow> budget_inv cfg env st0 budget rn \<Longrightarrow> pending cfg i rn
    \<Longrightarrow> \<exists>b rn'. alloc_loop cfg api i r n rn = Inr (b, rn') \<and> lists_inv st0 rn' \<and> budget_inv cfg env st0 budget rn'
        \<and> (b \<noteq> None \<longrightarrow> pending cfg i rn') \<and> token_budget rn \<le> token_budget rn'
        \<and> prefill_tokens_scheduled rn' = prefill_tokens_scheduled rn"
proof (induction cfg api i r n rn rule: alloc_loop.induct)
  case (1 cfg api i r n rn)
  obtain blocks kv where a: "kv_allocate_slots api r n (num_lookahead_tokens cfg) (rn_kv rn) = (blocks, kv)"
    by (cases "kv_allocate_slots api r n (num_lookahead_tokens cfg) (rn_kv rn)")
  let ?rn = "rn\<lparr>rn_kv := kv\<rparr>"
  have inv: "lists_inv st0 ?rn" "budget_inv cfg env st0 budget ?rn" "pending cfg i ?rn"
    using "1.prems" by (simp_all add: lists_inv_def budget_inv_def pending_def)
  show ?case
  proof (cases blocks)
    case (Some x)
    then show ?thesis using a inv by simp
  next
    case None
    obtain j rn1 where p: "preempt_one cfg api ?rn = Inr (j, rn1)" and inv1: "lists_inv st0 rn1"
      "budget_inv cfg env st0 budget rn1" "j \<noteq> i \<Longrightarrow> pending cfg i rn1"
      "token_budget ?rn \<le> token_budget rn1" "prefill_tokens_scheduled rn1 = prefill_tokens_scheduled ?rn"
      using preempt_one_ok [OF inv] by metis
    show ?thesis
    proof (cases "j = i")
      case True
      then show ?thesis using a None p inv1 by simp
    next
      case False
      from "1.IH" [OF a [symmetric] refl None p refl False inv1(1,2) inv1(3) [OF False]] obtain b rn' where
        "alloc_loop cfg api i r n rn1 = Inr (b, rn')" "lists_inv st0 rn'" "budget_inv cfg env st0 budget rn'"
        "b \<noteq> None \<longrightarrow> pending cfg i rn'" "token_budget rn1 \<le> token_budget rn'"
        "prefill_tokens_scheduled rn' = prefill_tokens_scheduled rn1" by blast
      with False a None p inv1(4,5) show ?thesis by (auto intro!: exI [of _ b] exI [of _ rn'])
    qed
  qed
qed

subsection \<open>The number of tokens of a request\<close>

text \<open>The features in a window are among the request's features and begin before the end of the window.\<close>

definition window_ok :: "('k, 'e) sched_api \<Rightarrow> bool" where
  "window_ok api \<longleftrightarrow> (\<forall>fs a b. case mm_features_in_window api fs a b of (lo, hi) \<Rightarrow>
     hi \<le> length fs \<and> (\<forall>i < hi. mm_offset (fs ! i) < b))"

lemma encoder_loop_ok:
  assumes "\<forall>i \<in> set is. i < length (mm_features r) \<and> mm_offset (mm_features r ! i) < computed + num_new + shift"
    and "is_encoder_decoder cfg \<longrightarrow> (\<forall>f \<in> set (mm_features r). mm_offset f = 0)" and "0 \<le> num_new"
  shows "\<exists>n acc' e'. encoder_loop cfg api r computed shift is num_new acc e = Inr (n, acc', e') \<and> 0 \<le> n \<and> n \<le> num_new"
  using assms(1)
proof (induction "is" arbitrary: acc e)
  case (Cons i "is")
  have i: "i < length (mm_features r)" "mm_offset (mm_features r ! i) < computed + num_new + shift"
    using Cons.prems by simp_all
  have rest: "\<exists>n acc' e'. encoder_loop cfg api r computed shift is num_new a x = Inr (n, acc', e') \<and> 0 \<le> n \<and> n \<le> num_new"
    for a x using Cons by simp
  show ?case
    using i assms(2,3) nth_mem [OF i(1)] rest
    by (auto simp: Let_def split: prod.split)
qed (simp add: assms(3))

lemma try_schedule_encoder_inputs_ok:
  assumes win: "window_ok api" and "is_encoder_decoder cfg \<longrightarrow> (\<forall>f \<in> set (mm_features r). mm_offset f = 0)" and n: "0 \<le> num_new"
  shows "\<exists>k acc e'. try_schedule_encoder_inputs cfg api r computed num_new budget shift e = Inr (k, acc, e') \<and> 0 \<le> k \<and> k \<le> num_new"
proof (cases "num_new = 0 \<or> \<not> has_encoder_inputs r")
  case False
  obtain lo hi where w: "mm_features_in_window api (mm_features r) computed (computed + num_new + shift) = (lo, hi)" by fastforce
  then have "hi \<le> length (mm_features r)" "\<forall>i < hi. mm_offset (mm_features r ! i) < computed + num_new + shift"
    using win [unfolded window_ok_def, rule_format, of "mm_features r" "computed + num_new + shift" computed] by simp_all
  then show ?thesis
    using encoder_loop_ok [of "[(if is_encoder_decoder cfg then 0 else lo)..<hi]" r computed num_new shift cfg] False w assms(2,3)
    by (auto simp: try_schedule_encoder_inputs_def)
qed (use n in \<open>auto simp: try_schedule_encoder_inputs_def\<close>)

lemma fitted_num_new_ok:
  assumes win: "window_ok api" and bs: "0 < cache_block_size cfg" and ok: "request_ok cfg i r" and n: "0 \<le> num_new"
  obtains m acc e where "fitted_num_new cfg api r num_new rn = Inr (m, acc, rn\<lparr>rn_enc := e\<rparr>)" "0 \<le> m" "m \<le> num_new"
proof -
  have split: "0 \<le> (if need_mamba_block_aligned_split cfg then mamba_block_aligned_split cfg r k 0 0 else k)"
    "(if need_mamba_block_aligned_split cfg then mamba_block_aligned_split cfg r k 0 0 else k) \<le> k" if "0 \<le> k" for k
    using mamba_split_bounds [OF bs that] that by simp_all
  show thesis
  proof (cases "has_encoder_inputs r")
    case False
    then have "fitted_num_new cfg api r num_new rn
        = Inr (if need_mamba_block_aligned_split cfg then mamba_block_aligned_split cfg r num_new 0 0 else num_new,
               None, rn\<lparr>rn_enc := rn_enc rn\<rparr>)"
      by (simp add: fitted_num_new_def)
    then show thesis using that split [OF n] by blast
  next
    case True
    let ?shift = "if use_eagle cfg then 1 else 0 :: int"
    obtain k acc e where t: "try_schedule_encoder_inputs cfg api r (num_computed_tokens r) num_new
        (rn_encoder_budget rn) ?shift (rn_enc rn) = Inr (k, acc, e)" "0 \<le> k" "k \<le> num_new"
      using try_schedule_encoder_inputs_ok [OF win _ n] ok unfolding request_ok_def by blast
    have "fitted_num_new cfg api r num_new rn
        = Inr (if need_mamba_block_aligned_split cfg then mamba_block_aligned_split cfg r k 0 0 else k,
               Some acc, rn\<lparr>rn_enc := e\<rparr>)"
      using True t(1) by (simp add: fitted_num_new_def)
    then show thesis using that split [OF t(2)] t(3) by (meson order_trans)
  qed
qed

lemma running_num_new_bounds:
  assumes ok: "request_ok cfg i r" and b: "0 < budget"
    and cap: "enable_decode_aware_prefill cfg \<Longrightarrow> is_prefill_chunk r \<Longrightarrow> 0 < remaining"
  shows "0 \<le> running_num_new cfg r budget remaining" "running_num_new cfg r budget remaining \<le> budget"
    "enable_decode_aware_prefill cfg \<Longrightarrow> is_prefill_chunk r \<Longrightarrow> running_num_new cfg r budget remaining \<le> remaining"
  using assms by (auto simp: running_num_new_def Let_def request_ok_def)

subsection \<open>The bookkeeping of a scheduled request\<close>

lemma record_scheduled_ok:
  fixes api :: "('k, 'e) sched_api" and acc :: "enc_acc option" and blocks :: kv_blocks
  assumes inv: "lists_inv st0 rn" and b: "budget_inv cfg env st0 budget rn" and pend: "pending cfg i rn"
    and r: "dict_get (requests st0) i = Some r" and n: "0 < n" "n \<le> token_budget rn"
    and cap: "enable_decode_aware_prefill cfg \<Longrightarrow> is_prefill_chunk r
      \<Longrightarrow> n \<le> env_prefill_token_budget env - prefill_tokens_scheduled rn"
  defines "rn' \<equiv> record_encoder_inputs api i r acc (record_spec_tokens i r n (record_scheduled cfg i r n blocks rn))"
  shows "lists_inv st0 rn'" and "budget_inv cfg env st0 budget rn'"
proof -
  let ?ids = "running (rn_sched rn)" and ?S = "scheduled_running_reqs rn"
  have fresh: "i \<notin> set (dict_keys (num_scheduled_tokens rn))" using inv pend by (simp add: lists_inv_def pending_def)
  have f: "scheduled_running_reqs rn' = ?S @ [i]" "num_scheduled_tokens rn' = num_scheduled_tokens rn @ [(i, n)]"
    "running (rn_sched rn') = ?ids" "req_index rn' = req_index rn + 1" "preempted_reqs rn' = preempted_reqs rn"
    "token_budget rn' = token_budget rn - n"
    "prefill_tokens_scheduled rn' = prefill_tokens_scheduled rn
       + (if enable_decode_aware_prefill cfg \<and> is_prefill_chunk r then n else 0)"
    using fresh
    by (auto simp: rn'_def record_scheduled_def record_spec_tokens_def record_encoder_inputs_def Let_def
        next_request_def stamp_def dict_set_fresh split: option.splits)
  have get: "dict_get (requests (rn_sched rn')) k = (if k = i \<and> spec_token_ids r \<noteq> []
      then map_option (\<lambda>r. r\<lparr>spec_token_ids := []\<rparr>) (dict_get (requests (rn_sched rn)) i)
      else dict_get (requests (rn_sched rn)) k)" for k
    by (auto simp: rn'_def record_scheduled_def record_spec_tokens_def record_encoder_inputs_def Let_def
        next_request_def stamp_def mutate_get split: option.splits)
  have mem: "i \<in> set (take (req_index rn + 1) ?ids)" "i \<notin> set ?S" using pend by (simp_all add: pending_def)
  have "set (?S @ [i]) \<subseteq> set (take (req_index rn + 1) ?ids)"
    using inv mem(1) set_take_subset_set_take [of "req_index rn" "req_index rn + 1" ?ids]
    by (auto simp: lists_inv_def)
  moreover have "\<exists>q. dict_get (requests (rn_sched rn')) j = Some q \<and> request_id q = j \<and> req_status q = RUNNING"
    if "j \<in> set ?ids" for j using inv that by (auto simp: lists_inv_def get)
  ultimately show "lists_inv st0 rn'"
    using inv mem(2) unfolding lists_inv_def f by (auto simp: get)
  have "prefill_sum st0 (num_scheduled_tokens rn @ [(i, n)]) = prefill_sum st0 (num_scheduled_tokens rn)
      + (if is_prefill_chunk r then n else 0)"
    using r by (simp add: prefill_sum_def prefill_entry_def)
  then show "budget_inv cfg env st0 budget rn'"
    using b n cap unfolding budget_inv_def f by auto
qed

subsection \<open>The running half of a step\<close>

lemma next_request_inv:
  assumes "lists_inv st0 rn"
  shows "lists_inv st0 (next_request rn)"
proof -
  have "set (take (req_index rn) (running (rn_sched rn))) \<subseteq> set (take (Suc (req_index rn)) (running (rn_sched rn)))"
    by (simp add: set_take_subset_set_take)
  then show ?thesis using assms by (auto simp: lists_inv_def next_request_def)
qed

lemma running_step_ok:
  assumes ok: "running_ok cfg st0" and win: "window_ok api" and bs: "0 < cache_block_size cfg"
    and inv: "lists_inv st0 rn" and b: "budget_inv cfg env st0 budget rn"
    and at: "req_index rn < length (running (rn_sched rn))" and pos: "0 < token_budget rn"
  shows "\<exists>go rn'. running_step cfg api env rn = Inr (go, rn') \<and> lists_inv st0 rn' \<and> budget_inv cfg env st0 budget rn'"
proof -
  let ?i = "running (rn_sched rn) ! req_index rn" and ?ids = "running (rn_sched rn)"
  have dist: "distinct ?ids" using inv by (simp add: lists_inv_def)
  have fresh: "?i \<notin> set (take (req_index rn) ?ids)"
    using dist at by (metis distinct_take id_take_nth_drop not_distinct_conv_prefix)
  then have unsched: "?i \<notin> set (scheduled_running_reqs rn)" using inv by (auto simp: lists_inv_def)
  then have pend: "pending cfg ?i rn" using at by (auto simp: pending_def take_Suc_conv_app_nth)
  have mem: "?i \<in> set ?ids" using at by simp
  then have "?i \<in> set (running st0)" using inv by (auto simp: lists_inv_def)
  then obtain r where r: "dict_get (requests st0) ?i = Some r" "request_ok cfg ?i r"
    using ok unfolding running_ok_def by blast
  have get: "dict_get (requests (rn_sched rn)) ?i = Some r"
    using inv mem unsched r(1) by (simp add: lists_inv_def)
  have skip: "lists_inv st0 (next_request rn)" "budget_inv cfg env st0 budget (next_request rn)"
    using next_request_inv [OF inv] b by (simp_all add: budget_inv_def next_request_def)
  let ?gate = "next_request (rn\<lparr>gate_skipped_running := gate_skipped_running rn + 1,
      rn_sched := (rn_sched rn)\<lparr>long_prefill_gate_skips := long_prefill_gate_skips (rn_sched rn) + 1\<rparr>\<rparr>)"
  have gate: "lists_inv st0 ?gate" "budget_inv cfg env st0 budget ?gate"
    using skip by (simp_all add: lists_inv_def budget_inv_def next_request_def)
  let ?rem = "env_prefill_token_budget env - prefill_tokens_scheduled rn"
  let ?n = "running_num_new cfg r (token_budget rn) ?rem"
  have sched: "\<exists>go rn'. schedule_one cfg api ?i r ?n rn = Inr (go, rn') \<and> lists_inv st0 rn' \<and> budget_inv cfg env st0 budget rn'"
    if cap: "\<not> (enable_decode_aware_prefill cfg \<and> is_prefill_chunk r \<and> ?rem \<le> 0)"
  proof -
    have num: "0 \<le> ?n" "?n \<le> token_budget rn"
      "enable_decode_aware_prefill cfg \<Longrightarrow> is_prefill_chunk r \<Longrightarrow> ?n \<le> ?rem"
      using running_num_new_bounds [OF r(2) pos, of ?rem] cap by auto
    obtain m acc e where fit: "fitted_num_new cfg api r ?n rn = Inr (m, acc, rn\<lparr>rn_enc := e\<rparr>)" "0 \<le> m" "m \<le> ?n"
      using fitted_num_new_ok [OF win bs r(2) num(1)] by blast
    let ?rn = "rn\<lparr>rn_enc := e\<rparr>"
    have inv': "lists_inv st0 ?rn" "budget_inv cfg env st0 budget ?rn" "pending cfg ?i ?rn"
      using inv b pend by (simp_all add: lists_inv_def budget_inv_def pending_def)
    show ?thesis
    proof (cases "m = 0")
      case True
      have "lists_inv st0 (next_request ?rn)" "budget_inv cfg env st0 budget (next_request ?rn)"
        using skip by (simp_all add: lists_inv_def budget_inv_def next_request_def)
      with True fit show ?thesis by (auto simp: schedule_one_def)
    next
      case False
      obtain bl rn1 where a: "alloc_loop cfg api ?i r m ?rn = Inr (bl, rn1)" "lists_inv st0 rn1"
        "budget_inv cfg env st0 budget rn1" "bl \<noteq> None \<longrightarrow> pending cfg ?i rn1"
        "token_budget ?rn \<le> token_budget rn1" "prefill_tokens_scheduled rn1 = prefill_tokens_scheduled ?rn"
        using alloc_loop_ok [OF inv', of api r m] by blast
      show ?thesis
      proof (cases bl)
        case None
        then show ?thesis using a fit False by (auto simp: schedule_one_def simp del: alloc_loop.simps)
      next
        case (Some bs')
        have "m \<le> token_budget rn1" "0 < m" using a(5) fit num False by simp_all
        moreover have "enable_decode_aware_prefill cfg \<Longrightarrow> is_prefill_chunk r
            \<Longrightarrow> m \<le> env_prefill_token_budget env - prefill_tokens_scheduled rn1"
          using num(3) fit(3) a(6) by simp
        ultimately show ?thesis
          using record_scheduled_ok [OF a(2,3) _ r(1), of m api acc bs'] a fit Some False
          by (auto simp: schedule_one_def simp del: alloc_loop.simps)
      qed
    qed
  qed
  show ?thesis using skip gate sched unfolding running_step_def Let_def get option.case
    by (cases "enable_decode_aware_prefill cfg \<and> is_prefill_chunk r \<and> ?rem \<le> 0") (auto split: if_split)
qed

lemma running_loop_ok:
  assumes "running_ok cfg st0" and "window_ok api" and "0 < cache_block_size cfg"
  shows "lists_inv st0 rn \<Longrightarrow> budget_inv cfg env st0 budget rn
    \<Longrightarrow> \<exists>rn'. running_loop cfg api env rn = Inr rn' \<and> lists_inv st0 rn' \<and> budget_inv cfg env st0 budget rn'"
  using assms
proof (induction cfg api env rn rule: running_loop.induct)
  case (1 cfg api env rn)
  show ?case
  proof (cases "req_index rn < length (running (rn_sched rn)) \<and> 0 < token_budget rn")
    case True
    then obtain go rn1 where s: "running_step cfg api env rn = Inr (go, rn1)" "lists_inv st0 rn1"
      "budget_inv cfg env st0 budget rn1"
      using running_step_ok [OF "1.prems"(3,4,5,1,2)] by blast
    show ?thesis
    proof (cases go)
      case True': True
      from "1.IH" [OF True s(1) refl True' s(2,3) "1.prems"(3,4,5)] s(1) True True' show ?thesis by simp
    qed (use s True in simp)
  next
    case False
    then have "running_loop cfg api env rn = Inr rn" by auto
    with "1.prems" show ?thesis by simp
  qed
qed

lemma schedule_running_parts:
  assumes ok: "running_ok cfg st" and win: "window_ok api" and bs: "0 < cache_block_size cfg"
    and max: "0 \<le> max_num_scheduled_tokens cfg"
  obtains env rn stamps where "schedule_running cfg api throttle st kv e deferred = Inr (env, rn)"
    and "running_loop cfg api env (initial_run cfg (st\<lparr>current_step := current_step st + 1, long_prefill_last_scheduled := stamps\<rparr>)
           (kv_new_step api kv) e deferred) = Inr rn"
    and "lists_inv st rn"
    and "budget_inv cfg env st (if sched_pause_state st = PAUSED_ALL then 0 else max_num_scheduled_tokens cfg) rn"
proof -
  let ?st = "st\<lparr>current_step := current_step st + 1\<rparr>"
  obtain selected st' where sel: "select_long_prefill_request_ids cfg ?st = (selected, st')" by fastforce
  let ?env = "\<lparr>env_defer_prefills = throttle \<and> \<not> prefill_capacity_bound st \<and> has_active_decode ?st,
     env_prefill_token_budget = step_prefill_budget cfg ?st, env_selected = selected\<rparr>"
  let ?rn = "initial_run cfg st' (kv_new_step api kv) e deferred"
  let ?B = "if sched_pause_state st = PAUSED_ALL then 0 else max_num_scheduled_tokens cfg"
  have st': "st' = ?st\<lparr>long_prefill_last_scheduled := long_prefill_last_scheduled st'\<rparr>"
    using sel by (auto simp: select_long_prefill_request_ids_def Let_def split: if_splits)
  have f: "running st' = running st" "requests st' = requests st" "sched_pause_state st' = sched_pause_state st"
    by (subst st', simp)+
  have "lists_inv st ?rn"
    using ok by (auto simp: lists_inv_def initial_run_def f running_ok_def request_ok_def dict_keys_def)
  moreover have "budget_inv cfg ?env st ?B ?rn"
    using max by (simp add: budget_inv_def initial_run_def f prefill_sum_def)
  ultimately obtain rn where rn: "running_loop cfg api ?env ?rn = Inr rn" "lists_inv st rn" "budget_inv cfg ?env st ?B rn"
    using running_loop_ok [OF ok win bs] by blast
  have "schedule_running cfg api throttle st kv e deferred = Inr (?env, rn)"
    using sel rn(1) by (simp add: schedule_running_def Let_def del: running_loop.simps)
  moreover have "st' = st\<lparr>current_step := current_step st + 1, long_prefill_last_scheduled := long_prefill_last_scheduled st'\<rparr>"
    using st' by simp
  ultimately show thesis using rn that by metis
qed

text \<open>
  C3: the running half of a scheduling step. On a consistent running list it returns, so none of
  the assertions on its path fires, whatever the KV-cache manager and the encoder cache answer and
  whichever requests are preempted under either policy; the tokens given out and the remaining
  budget add up to the budget of the step, every scheduled request gets at least one token, exactly
  the scheduled requests, each once, have an entry, they are all still running, preempted requests
  are not, and with decode-aware prefill the prefill chunks together stay within the prefill budget.
\<close>

theorem running_half_sound:
  assumes ok: "running_ok cfg st" and win: "window_ok api" and bs: "0 < cache_block_size cfg"
    and max: "0 \<le> max_num_scheduled_tokens cfg"
  shows "\<exists>env rn. schedule_running cfg api throttle st kv e deferred = Inr (env, rn)
    \<and> 0 \<le> token_budget rn
    \<and> token_budget rn + sum_list (map snd (num_scheduled_tokens rn))
        = (if sched_pause_state st = PAUSED_ALL then 0 else max_num_scheduled_tokens cfg)
    \<and> (\<forall>p \<in> set (num_scheduled_tokens rn). 0 < snd p)
    \<and> dict_keys (num_scheduled_tokens rn) = scheduled_running_reqs rn \<and> distinct (scheduled_running_reqs rn)
    \<and> set (scheduled_running_reqs rn) \<subseteq> set (running (rn_sched rn))
    \<and> set (preempted_reqs rn) \<inter> set (running (rn_sched rn)) = {}
    \<and> (enable_decode_aware_prefill cfg \<longrightarrow>
         prefill_sum st (num_scheduled_tokens rn) \<le> max 0 (env_prefill_token_budget env))"
proof -
  obtain env rn stamps where s: "schedule_running cfg api throttle st kv e deferred = Inr (env, rn)"
    and rn: "lists_inv st rn" "budget_inv cfg env st (if sched_pause_state st = PAUSED_ALL then 0 else max_num_scheduled_tokens cfg) rn"
    by (rule schedule_running_parts [OF assms])
  have "set (scheduled_running_reqs rn) \<subseteq> set (running (rn_sched rn))"
    using rn(1) by (auto simp: lists_inv_def dest: in_set_takeD)
  then show ?thesis
    using rn s unfolding lists_inv_def budget_inv_def by (intro exI [of _ env] exI [of _ rn]) auto
qed

text \<open>A KV-cache manager with a fixed number of free blocks that a request consumes per token, and no
  encoder inputs.\<close>

definition counting_api :: "(int, unit) sched_api" where
  "counting_api = \<lparr>kv_new_step = (\<lambda>k. k),
     kv_allocate_slots = (\<lambda>r n l k. if n \<le> k then (Some [[n]], k - n) else (None, k)),
     kv_free = (\<lambda>r k. k + num_computed_tokens r), kv_pop_blocks_for_free = (\<lambda>r k. ([], k)),
     enc_check_and_update_cache = (\<lambda>r i e. (False, e)), enc_can_allocate = (\<lambda>r i a b e. (True, e)),
     enc_allocate = (\<lambda>r i e. e), enc_free = (\<lambda>r e. e), ec_has_cache_item = None,
     ec_update_state_after_alloc = (\<lambda>r i e. e), mm_features_in_window = (\<lambda>fs a b. (0, 0)),
     mm_embeds_in_range = (\<lambda>f a b. (0, 0)), queue_prepend = (\<lambda>r q. request_id r # q)\<rparr>"

definition two_running :: sched where
  "two_running = turn_state\<lparr>requests := [(''a'', long_request ''a'' RUNNING 1), (''b'', long_request ''b'' RUNNING 2)],
     running := [''a'', ''b''], waiting := [], long_prefill_last_scheduled := []\<rparr>"

lemma two_running_ok: "running_ok turn_config two_running"
  by (simp add: running_ok_def two_running_def request_ok_def long_request_def sample_request_def
      turn_config_def split_config_def num_tokens_with_spec_def req_num_tokens_def dict_get_def)

theorem running_half_sound_witness:
  "\<exists>env rn. schedule_running turn_config counting_api False two_running 30 () [] = Inr (env, rn)
     \<and> token_budget rn + sum_list (map snd (num_scheduled_tokens rn)) = 64"
proof -
  have "window_ok counting_api" by (simp add: window_ok_def counting_api_def)
  moreover have "0 < cache_block_size turn_config" "0 \<le> max_num_scheduled_tokens turn_config"
    "max_num_scheduled_tokens turn_config = 64" by (simp_all add: turn_config_def split_config_def)
  moreover have "sched_pause_state two_running = UNPAUSED" by (simp add: two_running_def turn_state_def)
  ultimately show ?thesis
    using running_half_sound [OF two_running_ok, of counting_api False 30 "()" "[]"] by fastforce
qed

end
