(* ===== verification/SchedRotation.thy ===== *)
theory SchedRotation
  imports SchedRunning
begin

text \<open>
  The rotation of long prefills over many scheduling steps. A step selects the requests that get a
  turn, schedules (which stamps the selected requests that ran with the number of the step) and
  debits the turns that produced no work. \<open>turn_step\<close> is that sequence; between steps everything
  but the stamps and the step counter may change. The running half of a step is shown to be an
  instance of the scheduling part.
\<close>

subsection \<open>A step as seen by the rotation\<close>

text \<open>What scheduling does to the stamps: it writes the current step for the requests in
  \<open>marked\<close>, which include the selected requests that were scheduled.\<close>

definition stamps_written :: "sched \<Rightarrow> string list \<Rightarrow> sched \<Rightarrow> bool" where
  "stamps_written st marked st' \<longleftrightarrow>
     current_step st' = current_step st \<and> sched_pause_state st' = sched_pause_state st
     \<and> (\<forall>i. dict_get (long_prefill_last_scheduled st') i
          = (if i \<in> set marked then Some (current_step st) else dict_get (long_prefill_last_scheduled st) i))"

definition turns_scheduled ::
    "string list \<Rightarrow> sched \<Rightarrow> (string, int) dict \<Rightarrow> sched \<Rightarrow> bool" where
  "turns_scheduled selected st num_scheduled st' \<longleftrightarrow>
     (\<exists>marked. stamps_written st marked st' \<and> set selected \<inter> set (dict_keys num_scheduled) \<subseteq> set marked)"

definition advance :: "sched \<Rightarrow> sched" where
  "advance st = st\<lparr>current_step := current_step st + 1\<rparr>"

text \<open>\<open>selected\<close> are the turns of the step; the next state only shares stamps and counter.\<close>

inductive turn_step :: "sched_config \<Rightarrow> sched \<Rightarrow> string list \<Rightarrow> sched \<Rightarrow> bool" for cfg where
  turn: "select_long_prefill_request_ids cfg (advance st) = (selected, st1)
    \<Longrightarrow> turns_scheduled selected st1 num_scheduled st2
    \<Longrightarrow> st3 = debit_unused_long_prefill_turns cfg selected num_scheduled False st2
    \<Longrightarrow> current_step st' = current_step st3
    \<Longrightarrow> long_prefill_last_scheduled st' = long_prefill_last_scheduled st3
    \<Longrightarrow> turn_step cfg st selected st'"

inductive_cases turn_stepE: "turn_step cfg st selected st'"

subsection \<open>The running half stamps what it schedules\<close>

lemma stamps_written_refl: "stamps_written st [] st"
  by (simp add: stamps_written_def)

lemma stamps_written_cong:
  assumes "stamps_written st marked st'" and "current_step st'' = current_step st'"
    and "sched_pause_state st'' = sched_pause_state st'"
    and "long_prefill_last_scheduled st'' = long_prefill_last_scheduled st'"
  shows "stamps_written st marked st''"
  using assms by (simp add: stamps_written_def)

lemma stamps_written_stamp:
  assumes "stamps_written st marked st'"
  shows "stamps_written st (i # marked) (stamp i st')"
  using assms by (auto simp: stamps_written_def stamp_def dict_get_set)

text \<open>The part of the scheduler state the rotation reads.\<close>

definition same_turns :: "sched \<Rightarrow> sched \<Rightarrow> bool" where
  "same_turns a b \<longleftrightarrow> current_step a = current_step b \<and> sched_pause_state a = sched_pause_state b
     \<and> long_prefill_last_scheduled a = long_prefill_last_scheduled b"

lemma preempt_request_turns:
  assumes "preempt_request cfg api d v rn = Inr rn'"
  shows "same_turns (rn_sched rn') (rn_sched rn)" and "num_scheduled_tokens rn' = num_scheduled_tokens rn"
  using assms
  by (auto simp: preempt_request_def Let_def bindE_raiseIf same_turns_def free_request_blocks_def
      split: if_splits prod.splits)

lemma preempt_one_turns:
  assumes "preempt_one cfg api rn = Inr (j, rn')"
  shows "same_turns (rn_sched rn') (rn_sched rn)"
    and "set (dict_keys (num_scheduled_tokens rn')) \<subseteq> set (dict_keys (num_scheduled_tokens rn))"
proof -
  obtain v r1 r2 where choice: "r1 = unschedule j v (drop_running (remove1 j (running (rn_sched rn))) rn)
       \<or> r1 = drop_running (butlast (running (rn_sched rn))) rn"
    and p: "preempt_request cfg api (requires_kv_delivery cfg) v r1 = Inr r2"
    and rn': "rn' = r2\<lparr>preempted_reqs := preempted_reqs r2 @ [j]\<rparr>"
    using preempt_one_parts [OF assms] by metis
  have "same_turns (rn_sched r1) (rn_sched rn)"
    using choice by (elim disjE) (simp_all add: same_turns_def drop_running_def)
  moreover have "set (dict_keys (num_scheduled_tokens r1)) \<subseteq> set (dict_keys (num_scheduled_tokens rn))"
    using choice by (elim disjE) (auto simp: unschedule_def drop_running_def)
  ultimately show "same_turns (rn_sched rn') (rn_sched rn)"
    and "set (dict_keys (num_scheduled_tokens rn')) \<subseteq> set (dict_keys (num_scheduled_tokens rn))"
    using preempt_request_turns [OF p] by (simp_all add: rn' same_turns_def)
qed

lemma alloc_loop_turns: "alloc_loop cfg api i r n rn = Inr (b, rn') \<Longrightarrow> same_turns (rn_sched rn') (rn_sched rn)"
proof (induction cfg api i r n rn arbitrary: b rn' rule: alloc_loop.induct)
  case (1 cfg api i r n rn)
  obtain blocks kv where a: "kv_allocate_slots api r n (num_lookahead_tokens cfg) (rn_kv rn) = (blocks, kv)"
    by (cases "kv_allocate_slots api r n (num_lookahead_tokens cfg) (rn_kv rn)")
  show ?case
  proof (cases blocks)
    case (Some x)
    then show ?thesis using "1.prems" a by (auto simp: same_turns_def)
  next
    case None
    then obtain j rn1 where p: "preempt_one cfg api (rn\<lparr>rn_kv := kv\<rparr>) = Inr (j, rn1)"
      and k: "if j = i then rn' = rn1 else alloc_loop cfg api i r n rn1 = Inr (b, rn')"
      using "1.prems" a by (auto simp: bindE_eq_Inr split: if_splits)
    have "same_turns (rn_sched rn') (rn_sched rn1)" if "j \<noteq> i"
      using "1.IH" [OF a [symmetric] refl None p refl that] that k by simp
    with k preempt_one_turns(1) [OF p] show ?thesis by (auto simp: same_turns_def split: if_splits)
  qed
qed

lemma alloc_loop_keys:
  "alloc_loop cfg api i r n rn = Inr (b, rn')
     \<Longrightarrow> set (dict_keys (num_scheduled_tokens rn')) \<subseteq> set (dict_keys (num_scheduled_tokens rn))"
proof (induction cfg api i r n rn arbitrary: b rn' rule: alloc_loop.induct)
  case (1 cfg api i r n rn)
  obtain blocks kv where a: "kv_allocate_slots api r n (num_lookahead_tokens cfg) (rn_kv rn) = (blocks, kv)"
    by (cases "kv_allocate_slots api r n (num_lookahead_tokens cfg) (rn_kv rn)")
  show ?case
  proof (cases blocks)
    case (Some x)
    then show ?thesis using "1.prems" a by auto
  next
    case None
    then obtain j rn1 where p: "preempt_one cfg api (rn\<lparr>rn_kv := kv\<rparr>) = Inr (j, rn1)"
      and k: "if j = i then rn' = rn1 else alloc_loop cfg api i r n rn1 = Inr (b, rn')"
      using "1.prems" a by (auto simp: bindE_eq_Inr split: if_splits)
    have "set (dict_keys (num_scheduled_tokens rn')) \<subseteq> set (dict_keys (num_scheduled_tokens rn1))" if "j \<noteq> i"
      using "1.IH" [OF a [symmetric] refl None p refl that] that k by simp
    with k preempt_one_turns(2) [OF p] show ?thesis by (auto split: if_splits)
  qed
qed

text \<open>Requests that were long prefills when the step began.\<close>

definition long_at :: "sched_config \<Rightarrow> sched \<Rightarrow> string \<Rightarrow> bool" where
  "long_at cfg st0 i \<longleftrightarrow>
     (case dict_get (requests st0) i of None \<Rightarrow> False | Some r \<Rightarrow> is_prefill_chunk r \<and> is_long_prefill_request cfg r)"

definition turn_inv :: "sched_config \<Rightarrow> sched \<Rightarrow> sched \<Rightarrow> ('k, 'e) run \<Rightarrow> bool" where
  "turn_inv cfg st0 st1 rn \<longleftrightarrow> (\<exists>marked. stamps_written st1 marked (rn_sched rn)
     \<and> (\<forall>i \<in> set (dict_keys (num_scheduled_tokens rn)). long_at cfg st0 i \<longrightarrow> i \<in> set marked))"

lemma turn_inv_cong:
  assumes "turn_inv cfg st0 st1 rn" and "same_turns (rn_sched rn') (rn_sched rn)"
    and "set (dict_keys (num_scheduled_tokens rn')) \<subseteq> set (dict_keys (num_scheduled_tokens rn))"
  shows "turn_inv cfg st0 st1 rn'"
  using assms unfolding turn_inv_def same_turns_def by (meson stamps_written_cong subset_iff)

lemma record_turns:
  fixes api :: "('k, 'e) sched_api" and acc :: "enc_acc option" and blocks :: kv_blocks
  assumes inv: "turn_inv cfg st0 st1 rn" and on: "enable_decode_aware_prefill cfg"
    and r: "dict_get (requests st0) i = Some r"
  shows "turn_inv cfg st0 st1
    (record_encoder_inputs api i r acc (record_spec_tokens i r n (record_scheduled cfg i r n blocks rn)))"
    (is "turn_inv _ _ _ ?rn'")
proof -
  obtain marked where m: "stamps_written st1 marked (rn_sched rn)"
    "\<forall>i \<in> set (dict_keys (num_scheduled_tokens rn)). long_at cfg st0 i \<longrightarrow> i \<in> set marked"
    using inv by (auto simp: turn_inv_def)
  have keys: "set (dict_keys (num_scheduled_tokens ?rn')) = insert i (set (dict_keys (num_scheduled_tokens rn)))"
    by (auto simp: record_scheduled_def record_spec_tokens_def record_encoder_inputs_def Let_def
        next_request_def split: option.splits)
  have st: "same_turns (rn_sched ?rn')
      (if is_prefill_chunk r \<and> is_long_prefill_request cfg r then stamp i (rn_sched rn) else rn_sched rn)"
    using on by (auto simp: record_scheduled_def record_spec_tokens_def record_encoder_inputs_def Let_def
        next_request_def same_turns_def split: option.splits)
  show ?thesis
  proof (cases "long_at cfg st0 i")
    case True
    then have "same_turns (rn_sched ?rn') (stamp i (rn_sched rn))" using st r by (simp add: long_at_def)
    then have "stamps_written st1 (i # marked) (rn_sched ?rn')"
      using stamps_written_stamp [OF m(1), of i] by (auto simp: same_turns_def intro: stamps_written_cong)
    with m(2) keys show ?thesis unfolding turn_inv_def by (intro exI [of _ "i # marked"]) auto
  next
    case False
    then have "same_turns (rn_sched ?rn') (rn_sched rn)" using st r by (auto simp: long_at_def split: if_splits)
    then have "stamps_written st1 marked (rn_sched ?rn')" using m(1) by (auto simp: same_turns_def intro: stamps_written_cong)
    with m(2) keys False show ?thesis unfolding turn_inv_def by (intro exI [of _ marked]) auto
  qed
qed

lemma schedule_one_turns:
  assumes run: "schedule_one cfg api i r n rn = Inr (go, rn')" and inv: "turn_inv cfg st0 st1 rn"
    and on: "enable_decode_aware_prefill cfg" and r: "dict_get (requests st0) i = Some r"
  shows "turn_inv cfg st0 st1 rn'"
proof -
  obtain m acc rn1 where f: "fitted_num_new cfg api r n rn = Inr (m, acc, rn1)"
    using run by (auto simp: schedule_one_def bindE_eq_Inr)
  obtain e where rn1: "rn1 = rn\<lparr>rn_enc := e\<rparr>" using fitted_num_new_frame [OF f] by blast
  have inv1: "turn_inv cfg st0 st1 rn1" using inv by (simp add: turn_inv_def rn1)
  show ?thesis
  proof (cases "m = 0")
    case True
    then have "rn' = next_request rn1" using run f by (simp add: schedule_one_def)
    then show ?thesis using inv1 by (simp add: turn_inv_def next_request_def)
  next
    case False
    then obtain bl rn2 where a: "alloc_loop cfg api i r m rn1 = Inr (bl, rn2)"
      and res: "case bl of None \<Rightarrow> rn' = rn2
        | Some b \<Rightarrow> rn' = record_encoder_inputs api i r acc (record_spec_tokens i r m (record_scheduled cfg i r m b rn2))"
      using run f by (auto simp: schedule_one_def bindE_eq_Inr split: option.splits simp del: alloc_loop.simps)
    have inv2: "turn_inv cfg st0 st1 rn2"
      by (rule turn_inv_cong [OF inv1 alloc_loop_turns [OF a] alloc_loop_keys [OF a]])
    show ?thesis using res inv2 record_turns [OF inv2 on r] by (cases bl) auto
  qed
qed

lemma running_step_turns:
  assumes run: "running_step cfg api env rn = Inr (go, rn')" and inv: "turn_inv cfg st0 st1 rn"
    and on: "enable_decode_aware_prefill cfg" and lists: "lists_inv st0 rn"
    and at: "req_index rn < length (running (rn_sched rn))"
  shows "turn_inv cfg st0 st1 rn'"
proof -
  let ?i = "running (rn_sched rn) ! req_index rn"
  have "?i \<notin> set (take (req_index rn) (running (rn_sched rn)))"
    using lists at by (metis distinct_take id_take_nth_drop lists_inv_def not_distinct_conv_prefix)
  then have "?i \<in> set (running (rn_sched rn)) - set (scheduled_running_reqs rn)"
    using lists at by (auto simp: lists_inv_def)
  then obtain r where r: "dict_get (requests (rn_sched rn)) ?i = Some r" "dict_get (requests st0) ?i = Some r"
    using lists unfolding lists_inv_def by (metis DiffD1)
  have skip: "turn_inv cfg st0 st1 (next_request rn)" using inv by (simp add: turn_inv_def next_request_def)
  have gate: "turn_inv cfg st0 st1 (next_request (rn\<lparr>gate_skipped_running := g,
      rn_sched := (rn_sched rn)\<lparr>long_prefill_gate_skips := k\<rparr>\<rparr>))" for g k
    using inv by (simp add: turn_inv_def next_request_def stamps_written_def)
  show ?thesis
    using run schedule_one_turns [OF _ inv on r(2)] skip gate unfolding running_step_def Let_def r(1) option.case
    by (auto split: if_splits)
qed

lemma running_loop_turns:
  assumes "running_ok cfg st0" and "window_ok api" and "0 < cache_block_size cfg" and "enable_decode_aware_prefill cfg"
  shows "running_loop cfg api env rn = Inr rn' \<Longrightarrow> lists_inv st0 rn \<Longrightarrow> budget_inv cfg env st0 budget rn
    \<Longrightarrow> turn_inv cfg st0 st1 rn \<Longrightarrow> turn_inv cfg st0 st1 rn'"
  using assms
proof (induction cfg api env rn rule: running_loop.induct)
  case (1 cfg api env rn)
  show ?case
  proof (cases "req_index rn < length (running (rn_sched rn)) \<and> 0 < token_budget rn")
    case True
    then obtain go rn1 where s: "running_step cfg api env rn = Inr (go, rn1)" "lists_inv st0 rn1"
      "budget_inv cfg env st0 budget rn1"
      using running_step_ok [OF "1.prems"(5-7,2,3)] by blast
    have t: "turn_inv cfg st0 st1 rn1"
      using running_step_turns [OF s(1) "1.prems"(4,8,2)] True by blast
    show ?thesis
    proof (cases go)
      case True': True
      then have "running_loop cfg api env rn1 = Inr rn'" using "1.prems"(1) s(1) True by simp
      from "1.IH" [OF True s(1) refl True' this s(2,3) t "1.prems"(5-8)] show ?thesis .
    qed (use s t True "1.prems"(1) in simp)
  next
    case False
    then have "rn' = rn" using "1.prems"(1) by auto
    with "1.prems" show ?thesis by simp
  qed
qed

definition store_ok :: "sched \<Rightarrow> bool" where
  "store_ok st \<longleftrightarrow> (\<forall>p \<in> set (requests st). request_id (snd p) = fst p)"

lemma store_okD: "store_ok st \<Longrightarrow> dict_get (requests st) i = Some r \<Longrightarrow> request_id r = i"
  by (auto simp: store_ok_def dict_get_def dest!: map_of_SomeD)

lemma unseen_long_subset: "r \<in> set (unseen_long cfg seen rs) \<Longrightarrow> r \<in> set rs \<and> is_long_prefill_request cfg r"
  by (induction cfg seen rs rule: unseen_long.induct) (auto split: if_splits)

lemma selected_long:
  assumes "select_long_prefill_request_ids cfg st = (selected, st1)" and "i \<in> set selected" and "store_ok st"
  obtains r where "dict_get (requests st) i = Some r" "is_long_prefill_request cfg r"
proof -
  obtain r where r: "request_id r = i" "r \<in> set (running_candidates cfg st @ admittable_waiting cfg st)"
    using assms(1,2) set_py_take_subset
    by (fastforce simp: select_long_prefill_request_ids_def Let_def split: if_splits)
  then have "r \<in> set (running_candidates cfg st) \<or> r \<in> set (waiting_candidates cfg st)"
    by (auto simp: admittable_waiting_def Let_def split: if_splits)
  then have "is_long_prefill_request cfg r" "\<exists>j. dict_get (requests st) j = Some r"
    by (auto simp: running_candidates_def waiting_candidates_def set_live dest!: unseen_long_subset)
  with store_okD [OF assms(3)] r(1) that show thesis by metis
qed

text \<open>The running half of a step is an instance of the scheduling part of a turn.\<close>

lemma running_half_turns:
  assumes ok: "running_ok cfg st" "window_ok api" "0 < cache_block_size cfg" "0 \<le> max_num_scheduled_tokens cfg"
    and on: "enable_decode_aware_prefill cfg" and store: "store_ok st"
    and run: "schedule_running cfg api throttle st kv e deferred = Inr (env, rn)"
    and sel: "select_long_prefill_request_ids cfg (advance st) = (selected, st1)"
  shows "turns_scheduled selected st1 (num_scheduled_tokens rn) (rn_sched rn)"
proof -
  let ?rn = "initial_run cfg st1 (kv_new_step api kv) e deferred"
  let ?B = "if sched_pause_state st = PAUSED_ALL then 0 else max_num_scheduled_tokens cfg"
  have loop: "running_loop cfg api env ?rn = Inr rn"
    using run sel by (auto simp: schedule_running_def Let_def bindE_eq_Inr advance_def simp del: running_loop.simps)
  have st1: "running st1 = running st" "requests st1 = requests st" "sched_pause_state st1 = sched_pause_state st"
    using sel by (auto simp: select_long_prefill_request_ids_def Let_def advance_def split: if_splits)
  have lists: "lists_inv st ?rn"
    using ok(1) by (auto simp: lists_inv_def initial_run_def st1 running_ok_def request_ok_def dict_keys_def)
  have budget: "budget_inv cfg env st ?B ?rn"
    using ok(4) by (simp add: budget_inv_def initial_run_def st1 prefill_sum_def)
  have "turn_inv cfg st st1 ?rn" unfolding turn_inv_def
    by (intro exI [of _ "[]"]) (simp add: initial_run_def stamps_written_def dict_keys_def)
  from running_loop_turns [OF ok(1-3) on loop lists budget this] obtain marked where
    m: "stamps_written st1 marked (rn_sched rn)"
      "\<forall>i \<in> set (dict_keys (num_scheduled_tokens rn)). long_at cfg st i \<longrightarrow> i \<in> set marked"
    by (auto simp: turn_inv_def)
  have fin: "lists_inv st rn" using running_loop_ok [OF ok(1-3) lists budget] loop by auto
  have "i \<in> set marked" if i: "i \<in> set selected" "i \<in> set (dict_keys (num_scheduled_tokens rn))" for i
  proof -
    have "store_ok (advance st)" using store by (simp add: store_ok_def advance_def)
    then obtain r where r: "dict_get (requests st) i = Some r" "is_long_prefill_request cfg r"
      using selected_long [OF sel i(1)] by (auto simp: advance_def)
    have "i \<in> set (running st)" using fin i(2) by (auto simp: lists_inv_def dest: in_set_takeD)
    then have "req_status r = RUNNING" using ok(1) r(1) by (auto simp: running_ok_def request_ok_def)
    then have "long_at cfg st i" using r by (simp add: long_at_def is_long_prefill_request_def)
    with m(2) i(2) show ?thesis by blast
  qed
  with m(1) show ?thesis unfolding turns_scheduled_def by blast
qed

subsection \<open>No long prefill waits for ever\<close>

definition stamp_of :: "sched \<Rightarrow> string \<Rightarrow> int" where
  "stamp_of st i = (case dict_get (long_prefill_last_scheduled st) i of Some s \<Rightarrow> s | None \<Rightarrow> -1)"

lemma debit_fold:
  "current_step (fold (debit_one num) is st) = current_step st
   \<and> dict_get (long_prefill_last_scheduled (fold (debit_one num) is st)) i
     = (if i \<in> set is \<and> i \<notin> set (dict_keys num) then Some (current_step st)
        else dict_get (long_prefill_last_scheduled st) i)"
  by (induction "is" arbitrary: st) (auto simp: debit_one_def dict_get_set)

lemma active_stamps_get:
  "i \<in> set (dict_keys (requests st)) \<Longrightarrow> dict_get (active_stamps st) i = dict_get (long_prefill_last_scheduled st) i"
proof -
  have "map_of (filter (\<lambda>(j, _). j \<in> K) d) i = map_of d i" if "i \<in> K" for K and d :: "(string, int) dict"
    using that by (induction d) auto
  then show "i \<in> set (dict_keys (requests st))
      \<Longrightarrow> dict_get (active_stamps st) i = dict_get (long_prefill_last_scheduled st) i"
    by (simp add: active_stamps_def dict_get_def)
qed

text \<open>One step of the rotation, for requests that stay in the store.\<close>

lemma turn_step_stamps:
  assumes step: "turn_step cfg st selected st'" and on: "enable_decode_aware_prefill cfg"
    and unpaused: "sched_pause_state st \<noteq> PAUSED_ALL"
  shows "current_step st' = current_step st + 1"
    and "i \<in> set selected \<Longrightarrow> stamp_of st' i = current_step st + 1"
    and "i \<in> set (dict_keys (requests st)) \<Longrightarrow> stamp_of st' i = stamp_of st i \<or> stamp_of st' i = current_step st + 1"
proof -
  from step obtain st1 num st2 marked where
    sel: "select_long_prefill_request_ids cfg (advance st) = (selected, st1)"
    and w: "stamps_written st1 marked st2" "set selected \<inter> set (dict_keys num) \<subseteq> set marked"
    and st': "current_step st' = current_step (debit_unused_long_prefill_turns cfg selected num False st2)"
      "long_prefill_last_scheduled st' = long_prefill_last_scheduled (debit_unused_long_prefill_turns cfg selected num False st2)"
    by (elim turn_stepE) (auto simp: turns_scheduled_def)
  have st1: "current_step st1 = current_step st + 1" "sched_pause_state st1 = sched_pause_state st"
    "long_prefill_last_scheduled st1 = active_stamps (advance st)"
    using sel on by (auto simp: select_long_prefill_request_ids_def Let_def advance_def)
  have debit: "debit_unused_long_prefill_turns cfg selected num False st2 = fold (debit_one num) selected st2"
    using on w(1) st1(2) unpaused by (simp add: debit_unused_long_prefill_turns_def stamps_written_def)
  have cur: "current_step st2 = current_step st + 1" using w(1) st1(1) by (simp add: stamps_written_def)
  show "current_step st' = current_step st + 1" using st' debit debit_fold cur by simp
  have get: "dict_get (long_prefill_last_scheduled st') j
      = (if j \<in> set selected \<and> j \<notin> set (dict_keys num) \<or> j \<in> set marked then Some (current_step st + 1)
         else dict_get (active_stamps (advance st)) j)" for j
    using w(1) st1 debit_fold [of num selected st2 j] st'(2) debit cur by (auto simp: stamps_written_def)
  show "stamp_of st' i = current_step st + 1" if "i \<in> set selected"
    using that w(2) get [of i] by (auto simp: stamp_of_def)
  show "stamp_of st' i = stamp_of st i \<or> stamp_of st' i = current_step st + 1"
    if "i \<in> set (dict_keys (requests st))"
    using that get [of i] active_stamps_get [of i "advance st"] by (auto simp: stamp_of_def advance_def)
qed

definition candidate_ids :: "sched_config \<Rightarrow> sched \<Rightarrow> string list" where
  "candidate_ids cfg st = map request_id (running_candidates cfg st @ waiting_candidates cfg st)"

lemma turn_step_oldest:
  assumes step: "turn_step cfg st selected st'" and on: "enable_decode_aware_prefill cfg"
    and k: "1 \<le> max_long_prefills_per_step cfg"
    and i: "i \<in> set (map request_id (running_candidates cfg st))" "i \<notin> set selected"
    and store: "set (candidate_ids cfg st) \<subseteq> set (dict_keys (requests st))"
  obtains j where "j \<in> set selected" "j \<in> set (candidate_ids cfg st)" "stamp_of st j \<le> stamp_of st i"
proof -
  let ?a = "active_stamps (advance st)" and ?k = "nat (max_long_prefills_per_step cfg)"
  let ?cs = "running_candidates cfg (advance st) @ admittable_waiting cfg (advance st)"
  let ?o = "by_age ?a ?cs"
  have adv: "running_candidates cfg (advance st) = running_candidates cfg st"
    "waiting_candidates cfg (advance st) = waiting_candidates cfg st" "requests (advance st) = requests st"
    "long_prefill_last_scheduled (advance st) = long_prefill_last_scheduled st"
    by (simp_all add: running_candidates_def waiting_candidates_def live_def advance_def)
  have sel: "selected = map request_id (take ?k ?o)"
    using step on k by (elim turn_stepE) (auto simp: select_long_prefill_request_ids_def Let_def)
  have cand: "request_id x \<in> set (candidate_ids cfg st)" if "x \<in> set ?cs" for x
    using that adv by (auto simp: candidate_ids_def admittable_waiting_def Let_def split: if_splits)
  have key: "fst (age_key ?a x) = stamp_of st (request_id x)" if "x \<in> set ?cs" for x
    using cand [OF that] store active_stamps_get [of "request_id x" "advance st"] adv
    by (auto simp: age_key_def stamp_of_def)
  obtain r where r: "r \<in> set ?o" "request_id r = i" using i(1) adv by auto
  then have "r \<notin> set (take ?k ?o)" using i(2) sel by auto
  then have rd: "r \<in> set (drop ?k ?o)" using r(1) by (metis Un_iff append_take_drop_id set_append)
  then have "?o \<noteq> []" "0 < ?k" using k by auto
  then obtain x where x: "x \<in> set (take ?k ?o)" by (cases ?o; cases ?k) auto
  have "sorted (map (age_key ?a) (take ?k ?o @ drop ?k ?o))" by (simp add: by_age_def)
  then have "age_key ?a x \<le> age_key ?a r" using x rd unfolding map_append sorted_append by auto
  then have "fst (age_key ?a x) \<le> fst (age_key ?a r)" by (cases "age_key ?a x"; cases "age_key ?a r") auto
  moreover have "x \<in> set ?cs" "r \<in> set ?cs" using x r(1) by (auto dest: in_set_takeD)
  ultimately show thesis using that [of "request_id x"] key cand x r(2) sel by auto
qed


text \<open>A scheduler whose steps never find work: every turn is wasted and debited.\<close>

definition idle_turns :: "sched_config \<Rightarrow> sched \<Rightarrow> string list" where
  "idle_turns cfg st = fst (select_long_prefill_request_ids cfg (advance st))"

definition idle_step :: "sched_config \<Rightarrow> sched \<Rightarrow> sched" where
  "idle_step cfg st = debit_unused_long_prefill_turns cfg (idle_turns cfg st) [] False
     (snd (select_long_prefill_request_ids cfg (advance st)))"

lemma idle_step_turn: "turn_step cfg st (idle_turns cfg st) (idle_step cfg st)"
proof (rule turn_step.turn)
  let ?st1 = "snd (select_long_prefill_request_ids cfg (advance st))"
  show "turns_scheduled (idle_turns cfg st) ?st1 [] ?st1"
    unfolding turns_scheduled_def by (intro exI [of _ "[]"]) (simp add: stamps_written_def dict_keys_def)
qed (simp_all add: idle_turns_def idle_step_def)

lemma debit_fold_frame:
  "requests (fold (debit_one num) is st) = requests st \<and> running (fold (debit_one num) is st) = running st
   \<and> waiting (fold (debit_one num) is st) = waiting st \<and> skipped_waiting (fold (debit_one num) is st) = skipped_waiting st
   \<and> sched_pause_state (fold (debit_one num) is st) = sched_pause_state st"
  by (induction "is" arbitrary: st) (auto simp: debit_one_def)

lemma idle_step_frame:
  "requests (idle_step cfg st) = requests st" "running (idle_step cfg st) = running st"
  "waiting (idle_step cfg st) = waiting st" "skipped_waiting (idle_step cfg st) = skipped_waiting st"
  "sched_pause_state (idle_step cfg st) = sched_pause_state st"
  by (simp_all add: idle_step_def debit_unused_long_prefill_turns_def select_long_prefill_request_ids_def
      Let_def advance_def debit_fold_frame)


subsection \<open>A passed-over request\<close>

definition skip_config :: sched_config where
  "skip_config = turn_config\<lparr>sched_policy := PRIORITY, enable_decode_aware_prefill := False\<rparr>"

definition decoding :: "string \<Rightarrow> rat \<Rightarrow> int \<Rightarrow> sreq" where
  "decoding i t computed = (long_request i RUNNING t)\<lparr>is_prefill_chunk := False, num_computed_tokens := computed\<rparr>"

definition skip_state :: sched where
  "skip_state = two_running\<lparr>
     requests := [(''x'', (decoding ''x'' 1 109)\<lparr>priority := 9, all_token_ids := replicate 109 7,
                            num_output_placeholders := 1\<rparr>),
       (''y'', decoding ''y'' 2 90), (''z'', decoding ''z'' 3 99)],
     running := [''x'', ''y'', ''z'']\<rparr>"

text \<open>
  Under the priority policy a preemption can make the loop pass over a request. When the victim
  stands before the current request and was skipped in this step (here because its output is
  already complete), it leaves the running list but the index is not moved back, so the request
  after the current one is not looked at although there is token budget and cache space for it.
\<close>

theorem priority_preemption_passes_over:
  "\<exists>env rn. schedule_running skip_config counting_api False skip_state 5 () [] = Inr (env, rn)
     \<and> running (rn_sched rn) = [''y'', ''z''] \<and> scheduled_running_reqs rn = [''y'']
     \<and> 1 \<le> token_budget rn \<and> 1 \<le> rn_kv rn
     \<and> running_num_new skip_config (decoding ''z'' 3 99) (token_budget rn) 0 = 1"
proof -
  have "case schedule_running skip_config counting_api False skip_state 5 () [] of
      Inl _ \<Rightarrow> False
    | Inr (env, rn) \<Rightarrow> running (rn_sched rn) = [''y'', ''z''] \<and> scheduled_running_reqs rn = [''y'']
     \<and> 1 \<le> token_budget rn \<and> 1 \<le> rn_kv rn
     \<and> running_num_new skip_config (decoding ''z'' 3 99) (token_budget rn) 0 = 1" by code_simp
  then show ?thesis by (auto split: sum.splits)
qed

end
