(* ===== verification/SchedBlocks.thy ===== *)
theory SchedBlocks
  imports SchedRunning "HOL-Library.Multiset"
begin

text \<open>
  Return of KV blocks to the pool in \<^verbatim>\<open>scheduler.py\<close>: the tail of \<^verbatim>\<open>schedule\<close> that releases the
  retentions of block copies and stamps the scheduled requests (\<^verbatim>\<open>_free_cow_retained_blocks\<close>,
  \<^verbatim>\<open>_update_after_schedule\<close>), \<^verbatim>\<open>_free_blocks\<close>, and the head of \<^verbatim>\<open>update_from_output\<close> with
  \<^verbatim>\<open>_drain_deferred_frees\<close>. With overlapping steps a block may be freed while a step in flight still
  writes it; the fences of the deferred frees keep such a block out of the pool. The theory states this
  over a step relation that interleaves scheduling, preemption, completion and the processing of
  outputs in any order.

  The KV-cache manager and the block pool are outside the repository: they enter as the functions of
  \<open>blocks_api\<close>, and \<open>kv_laws\<close> states what their reference counts promise.
\<close>

subsection \<open>Operations\<close>

record ('k, 'e) blocks_api =
  base_api :: "('k, 'e) sched_api"
  pool_free_blocks :: "int list \<Rightarrow> 'k \<Rightarrow> 'k"
  kv_take_block_copies :: "'k \<Rightarrow> (int \<times> int) list \<times> int list \<times> 'k"

definition is_finished :: "status \<Rightarrow> bool" where
  "is_finished s \<longleftrightarrow> s \<in> {FINISHED_STOPPED, FINISHED_ABORTED, FINISHED_ERROR, FINISHED_OTHER}"

definition free_blocks ::
    "sched_config \<Rightarrow> ('k, 'e) blocks_api \<Rightarrow> sreq \<Rightarrow> ('k, 'e, 'm) core_scheme \<Rightarrow> sched_error + ('k, 'e, 'm) core_scheme" where
  "free_blocks cfg api r c =
     bindE (raiseIf (\<not> is_finished (req_status r)) (NotFinished (request_id r))) (\<lambda>_.
     (let c = free_request_blocks cfg (base_api api) r c;
          st = rn_sched c in
      Inr (c\<lparr>rn_sched := st\<lparr>requests := dict_del (request_id r) (requests st)\<rparr>\<rparr>)))"

definition free_cow_retained_blocks ::
    "sched_config \<Rightarrow> ('k, 'e) blocks_api \<Rightarrow> int list \<Rightarrow> int \<Rightarrow> ('k, 'e, 'm) core_scheme \<Rightarrow> ('k, 'e, 'm) core_scheme" where
  "free_cow_retained_blocks cfg api blocks fence c =
     (if \<not> defer_block_free cfg \<or> fence \<le> processed_step_seq (rn_sched c)
      then c\<lparr>rn_kv := pool_free_blocks api blocks (rn_kv c)\<rparr>
      else c\<lparr>deferred_frees := deferred_frees c @ [(fence, rev blocks)]\<rparr>)"

fun drain :: "(int list \<Rightarrow> 'k \<Rightarrow> 'k) \<Rightarrow> int \<Rightarrow> (int \<times> int list) list \<Rightarrow> 'k \<Rightarrow> (int \<times> int list) list \<times> 'k" where
  "drain free processed [] kv = ([], kv)"
| "drain free processed ((fence, blocks) # ds) kv =
     (if processed < fence then ((fence, blocks) # ds, kv) else drain free processed ds (free (rev blocks) kv))"

definition drain_deferred_frees :: "('k, 'e) blocks_api \<Rightarrow> ('k, 'e, 'm) core_scheme \<Rightarrow> ('k, 'e, 'm) core_scheme" where
  "drain_deferred_frees api c =
     (case drain (pool_free_blocks api) (processed_step_seq (rn_sched c)) (deferred_frees c) (rn_kv c) of
        (ds, kv) \<Rightarrow> c\<lparr>deferred_frees := ds, rn_kv := kv\<rparr>)"

definition begin_output ::
    "sched_config \<Rightarrow> ('k, 'e) blocks_api \<Rightarrow> int \<Rightarrow> ('k, 'e, 'm) core_scheme \<Rightarrow> ('k, 'e, 'm) core_scheme" where
  "begin_output cfg api total_scheduled c =
     (if defer_block_free cfg \<and> total_scheduled > 0
      then drain_deferred_frees api
             (c\<lparr>rn_sched := (rn_sched c)\<lparr>processed_step_seq := processed_step_seq (rn_sched c) + 1\<rparr>\<rparr>)
      else c)"

definition advance_request :: "sched_config \<Rightarrow> int \<Rightarrow> int \<Rightarrow> sreq \<Rightarrow> sreq" where
  "advance_request cfg seq n r =
     (let r = r\<lparr>num_computed_tokens := num_computed_tokens r + n, num_in_flight_tokens := num_in_flight_tokens r + n\<rparr>;
          r = (if defer_block_free cfg then r\<lparr>last_sched_seq := seq\<rparr> else r) in
      r\<lparr>is_prefill_chunk := num_computed_tokens r < req_num_tokens r + num_output_placeholders r\<rparr>)"

text \<open>One iteration of \<^verbatim>\<open>_update_after_schedule\<close>; the flag is \<^verbatim>\<open>has_structured_output_requests\<close>.\<close>

definition after_schedule_one :: "sched_config \<Rightarrow> string \<times> int \<Rightarrow> bool \<times> sched \<Rightarrow> sched_error + bool \<times> sched" where
  "after_schedule_one cfg = (\<lambda>(i, n) (structured, st).
     case dict_get (requests st) i of
       None \<Rightarrow> Inl (UnknownRequest i)
     | Some r \<Rightarrow>
         (let r' = advance_request cfg (sched_step_seq st) n r;
              st = mutate i (\<lambda>_. r') st in
          Inr (structured \<or> (use_structured_output r' \<and> \<not> is_prefill_chunk r'),
               if is_prefill_chunk r' then st
               else st\<lparr>inflight_prefills := removeAll i (inflight_prefills st)\<rparr>)))"

definition update_after_schedule :: "sched_config \<Rightarrow> (string, int) dict \<Rightarrow> sched \<Rightarrow> sched_error + bool \<times> sched" where
  "update_after_schedule cfg num_scheduled st =
     bindE (foldE (after_schedule_one cfg) num_scheduled (False, st)) (\<lambda>(structured, st).
     Inr (structured, st\<lparr>finished_req_ids := [], reset_preempted_req_ids := []\<rparr>))"

text \<open>The tail of \<^verbatim>\<open>schedule\<close>: the retentions of block copies, the sequence number of a non-empty step, and
  the update of the scheduled requests.\<close>

definition release_copies :: "sched_config \<Rightarrow> ('k, 'e) blocks_api \<Rightarrow> ('k, 'e, 'm) core_scheme \<Rightarrow> ('k, 'e, 'm) core_scheme" where
  "release_copies cfg api c =
     (case kv_take_block_copies api (rn_kv c) of (copies, retained, kv) \<Rightarrow>
       (let c = c\<lparr>rn_kv := kv\<rparr> in
        if copies \<noteq> [] then free_cow_retained_blocks cfg api retained (sched_step_seq (rn_sched c) + 1) c else c))"

definition finish_step ::
    "sched_config \<Rightarrow> (string, int) dict \<Rightarrow> ('k, 'e, 'm) core_scheme \<Rightarrow> sched_error + bool \<times> ('k, 'e, 'm) core_scheme" where
  "finish_step cfg num_scheduled c =
     (let st = rn_sched c;
          st = (if defer_block_free cfg \<and> sum_list (map snd num_scheduled) > 0
                then st\<lparr>sched_step_seq := sched_step_seq st + 1\<rparr> else st) in
      bindE (update_after_schedule cfg num_scheduled st) (\<lambda>(structured, st).
      Inr (structured, c\<lparr>rn_sched := st\<rparr>)))"

definition conclude_schedule ::
    "sched_config \<Rightarrow> ('k, 'e) blocks_api \<Rightarrow> (string, int) dict \<Rightarrow> ('k, 'e, 'm) core_scheme
      \<Rightarrow> sched_error + bool \<times> ('k, 'e, 'm) core_scheme" where
  "conclude_schedule cfg api num_scheduled c = finish_step cfg num_scheduled (release_copies cfg api c)"

subsection \<open>Reference counts of the pool\<close>

text \<open>\<open>owned\<close> are the references requests hold, \<open>loose\<close> those handed to the scheduler and not returned yet.
  A block can be allocated again when nothing refers to it.\<close>

record 'k kv_view =
  owned :: "'k \<Rightarrow> (string \<times> int) multiset"
  loose :: "'k \<Rightarrow> int multiset"

definition available :: "'k kv_view \<Rightarrow> 'k \<Rightarrow> int \<Rightarrow> bool" where
  "available view k b \<longleftrightarrow> b \<notin># image_mset snd (owned view k) \<and> b \<notin># loose view k"

definition kv_laws :: "('k, 'e) blocks_api \<Rightarrow> 'k kv_view \<Rightarrow> bool" where
  "kv_laws api view \<longleftrightarrow>
     (\<forall>r k. owned view (kv_free (base_api api) r k) = {#p \<in># owned view k. fst p \<noteq> request_id r#}
        \<and> loose view (kv_free (base_api api) r k) = loose view k)
   \<and> (\<forall>r k bs k'. kv_pop_blocks_for_free (base_api api) r k = (bs, k')
        \<longrightarrow> mset bs = image_mset snd {#p \<in># owned view k. fst p = request_id r#}
          \<and> owned view k' = {#p \<in># owned view k. fst p \<noteq> request_id r#}
          \<and> loose view k' = loose view k + mset bs)
   \<and> (\<forall>bs k. mset bs \<subseteq># loose view k
        \<longrightarrow> owned view (pool_free_blocks api bs k) = owned view k
          \<and> loose view (pool_free_blocks api bs k) = loose view k - mset bs)
   \<and> (\<forall>k cs bs k'. kv_take_block_copies api k = (cs, bs, k')
        \<longrightarrow> owned view k' = owned view k \<and> loose view k' = loose view k + mset bs \<and> (cs = [] \<longrightarrow> bs = []))"

lemma kv_laws_free:
  assumes "kv_laws api view"
  shows "owned view (kv_free (base_api api) r k) = {#p \<in># owned view k. fst p \<noteq> request_id r#}"
    and "loose view (kv_free (base_api api) r k) = loose view k"
  using assms by (auto simp: kv_laws_def)

lemma kv_laws_pop:
  assumes "kv_laws api view" and "kv_pop_blocks_for_free (base_api api) r k = (bs, k')"
  shows "mset bs = image_mset snd {#p \<in># owned view k. fst p = request_id r#}"
    and "owned view k' = {#p \<in># owned view k. fst p \<noteq> request_id r#}"
    and "loose view k' = loose view k + mset bs"
  using assms by (auto simp: kv_laws_def)

lemma kv_laws_pool:
  assumes "kv_laws api view" and "mset bs \<subseteq># loose view k"
  shows "owned view (pool_free_blocks api bs k) = owned view k"
    and "loose view (pool_free_blocks api bs k) = loose view k - mset bs"
  using assms by (auto simp: kv_laws_def)

lemma kv_laws_copies:
  assumes "kv_laws api view" and "kv_take_block_copies api k = (cs, bs, k')"
  shows "owned view k' = owned view k" and "loose view k' = loose view k + mset bs" and "cs = [] \<Longrightarrow> bs = []"
  using assms by (auto simp: kv_laws_def)

subsection \<open>Steps in flight\<close>

text \<open>\<open>writes s\<close> are the blocks the step with sequence number \<open>s\<close> touches on the device: those of its requests
  and those of the block copies that run with it. Steps up to \<open>processed_step_seq\<close> have completed.\<close>

record ('k, 'e) gpu = "('k, 'e) core" +
  writes :: "int \<Rightarrow> int set"

definition busy :: "('k, 'e) gpu \<Rightarrow> int set" where
  "busy g = (\<Union>s \<in> {s. processed_step_seq (rn_sched g) < s}. writes g s)"

definition scheduled_blocks :: "'k kv_view \<Rightarrow> (string, int) dict \<Rightarrow> 'k \<Rightarrow> int set" where
  "scheduled_blocks view num_scheduled k = {b. \<exists>i \<in> set (dict_keys num_scheduled). (i, b) \<in># owned view k}"

definition copied_blocks :: "('k, 'e) blocks_api \<Rightarrow> 'k \<Rightarrow> int set" where
  "copied_blocks api k = set (fst (snd (kv_take_block_copies api k)))"

definition launch ::
    "('k, 'e) blocks_api \<Rightarrow> 'k kv_view \<Rightarrow> (string, int) dict \<Rightarrow> ('k, 'e) gpu \<Rightarrow> ('k, 'e) gpu \<Rightarrow> ('k, 'e) gpu" where
  "launch api view num_scheduled g g' =
     g'\<lparr>writes := (\<lambda>s. if s = sched_step_seq (rn_sched g) + 1
         then writes g s \<union> copied_blocks api (rn_kv g)
            \<union> (if sum_list (map snd num_scheduled) > 0 then scheduled_blocks view num_scheduled (rn_kv g') else {})
         else writes g s)\<rparr>"

text \<open>What the rest of the scheduler may do between these operations: the manager allocates blocks and drops
  references to blocks no step in flight touches (\<open>manages\<close>); requests are added and their other fields
  change (\<open>edits\<close>).\<close>

definition manages :: "'k kv_view \<Rightarrow> int set \<Rightarrow> 'k \<Rightarrow> 'k \<Rightarrow> bool" where
  "manages view blocks k k' \<longleftrightarrow>
     loose view k' = loose view k \<and> (\<forall>p. p \<in># owned view k \<and> snd p \<in> blocks \<longrightarrow> p \<in># owned view k')"

definition edits :: "sched \<Rightarrow> sched \<Rightarrow> bool" where
  "edits st st' \<longleftrightarrow>
     sched_step_seq st' = sched_step_seq st \<and> processed_step_seq st' = processed_step_seq st
   \<and> (\<forall>i r. dict_get (requests st) i = Some r
        \<longrightarrow> (\<exists>r'. dict_get (requests st') i = Some r' \<and> last_sched_seq r' = last_sched_seq r))
   \<and> (\<forall>i r. dict_get (requests st') i = Some r \<longrightarrow> request_id r = i
        \<and> (dict_get (requests st) i = None \<longrightarrow> last_sched_seq r \<le> sched_step_seq st))"

inductive bstep :: "sched_config \<Rightarrow> ('k, 'e) blocks_api \<Rightarrow> 'k kv_view \<Rightarrow> ('k, 'e) gpu \<Rightarrow> ('k, 'e) gpu \<Rightarrow> bool"
  for cfg :: sched_config and api :: "('k, 'e) blocks_api" and view :: "'k kv_view" where
  manage: "manages view (busy g) (rn_kv g) k \<Longrightarrow> bstep cfg api view g (g\<lparr>rn_kv := k, rn_enc := e\<rparr>)"
| edit: "edits (rn_sched g) st \<Longrightarrow> bstep cfg api view g (g\<lparr>rn_sched := st\<rparr>)"
| preempt: "dict_get (requests (rn_sched g)) i = Some r \<Longrightarrow> preempt_request cfg (base_api api) d r g = Inr g'
    \<Longrightarrow> bstep cfg api view g g'"
| finish: "dict_get (requests (rn_sched g)) i = Some r \<Longrightarrow> free_blocks cfg api r g = Inr g' \<Longrightarrow> bstep cfg api view g g'"
| schedule: "conclude_schedule cfg api toks g = Inr (b, g') \<Longrightarrow> bstep cfg api view g (launch api view toks g g')"
| complete: "processed_step_seq (rn_sched g) < sched_step_seq (rn_sched g) \<Longrightarrow> total_scheduled > 0
    \<Longrightarrow> bstep cfg api view g (begin_output cfg api total_scheduled g)"

definition pristine :: "'k kv_view \<Rightarrow> ('k, 'e) gpu \<Rightarrow> bool" where
  "pristine view g \<longleftrightarrow>
     requests (rn_sched g) = [] \<and> sched_step_seq (rn_sched g) = 0 \<and> processed_step_seq (rn_sched g) = 0
   \<and> deferred_frees g = [] \<and> loose view (rn_kv g) = {#} \<and> writes g = (\<lambda>_. {})"

subsection \<open>The invariant\<close>

definition fenced :: "'k kv_view \<Rightarrow> ('k, 'e) gpu \<Rightarrow> int \<Rightarrow> int \<Rightarrow> bool" where
  "fenced view g s b \<longleftrightarrow>
     (\<exists>i r. (i, b) \<in># owned view (rn_kv g) \<and> dict_get (requests (rn_sched g)) i = Some r \<and> s \<le> last_sched_seq r)
   \<or> (\<exists>f bs. (f, bs) \<in> set (deferred_frees g) \<and> b \<in> set bs \<and> s \<le> f)"

definition deferred_ok :: "int \<Rightarrow> (int \<times> int list) list \<Rightarrow> bool" where
  "deferred_ok seq ds \<longleftrightarrow> sorted_wrt (\<lambda>a b. fst a \<le> fst b + 1) ds \<and> (\<forall>d \<in> set ds. fst d \<le> seq + 1)"

definition stamps_ok :: "sched \<Rightarrow> bool" where
  "stamps_ok st \<longleftrightarrow>
     (\<forall>i r. dict_get (requests st) i = Some r \<longrightarrow> request_id r = i \<and> last_sched_seq r \<le> sched_step_seq st)"

definition blocks_inv :: "'k kv_view \<Rightarrow> ('k, 'e) gpu \<Rightarrow> bool" where
  "blocks_inv view g \<longleftrightarrow>
     processed_step_seq (rn_sched g) \<le> sched_step_seq (rn_sched g)
   \<and> stamps_ok (rn_sched g)
   \<and> mset (concat (map snd (deferred_frees g))) = loose view (rn_kv g)
   \<and> deferred_ok (sched_step_seq (rn_sched g)) (deferred_frees g)
   \<and> (\<forall>s b. processed_step_seq (rn_sched g) < s \<longrightarrow> b \<in> writes g s \<longrightarrow> fenced view g s b)"

lemma blocks_invI:
  assumes "processed_step_seq (rn_sched g) \<le> sched_step_seq (rn_sched g)" and "stamps_ok (rn_sched g)"
    and "mset (concat (map snd (deferred_frees g))) = loose view (rn_kv g)"
    and "deferred_ok (sched_step_seq (rn_sched g)) (deferred_frees g)"
    and "\<And>s b. processed_step_seq (rn_sched g) < s \<Longrightarrow> b \<in> writes g s \<Longrightarrow> fenced view g s b"
  shows "blocks_inv view g"
  using assms by (simp add: blocks_inv_def)

lemma blocks_invD:
  assumes "blocks_inv view g"
  shows "processed_step_seq (rn_sched g) \<le> sched_step_seq (rn_sched g)" and "stamps_ok (rn_sched g)"
    and "mset (concat (map snd (deferred_frees g))) = loose view (rn_kv g)"
    and "deferred_ok (sched_step_seq (rn_sched g)) (deferred_frees g)"
    and "processed_step_seq (rn_sched g) < s \<Longrightarrow> b \<in> writes g s \<Longrightarrow> fenced view g s b"
  using assms by (auto simp: blocks_inv_def)

lemma fenced_unavailable:
  assumes "mset (concat (map snd (deferred_frees g))) = loose view (rn_kv g)" and "fenced view g s b"
  shows "\<not> available view (rn_kv g) b"
proof -
  have "b \<in># loose view (rn_kv g)" if "(f, bs) \<in> set (deferred_frees g)" "b \<in> set bs" for f bs
    using that by (force simp flip: assms(1))
  moreover have "b \<in># image_mset snd (owned view (rn_kv g))" if "(i, b) \<in># owned view (rn_kv g)" for i
    using that by force
  ultimately show ?thesis using assms(2) by (auto simp: fenced_def available_def)
qed

lemma deferred_ok_snoc: "deferred_ok seq ds \<Longrightarrow> seq \<le> f \<Longrightarrow> f \<le> seq + 1 \<Longrightarrow> deferred_ok seq (ds @ [(f, bs)])"
  by (auto simp: deferred_ok_def sorted_wrt_append)

lemma deferred_ok_mono: "deferred_ok seq ds \<Longrightarrow> seq \<le> seq' \<Longrightarrow> deferred_ok seq' ds"
  by (force simp: deferred_ok_def)

subsection \<open>Draining\<close>

lemma drain_split:
  "drain free p ds k = (ds', k') \<Longrightarrow>
     \<exists>freed. ds = freed @ ds' \<and> (\<forall>d \<in> set freed. fst d \<le> p) \<and> (ds' = [] \<or> p < fst (hd ds'))"
proof (induction free p ds k rule: drain.induct)
  case (2 free p f bs ds k)
  show ?case
  proof (cases "p < f")
    case True
    with "2.prems" show ?thesis by auto
  next
    case False
    with "2.prems" have "drain free p ds (free (rev bs) k) = (ds', k')" by simp
    from "2.IH" [OF False this] obtain freed where
      "ds = freed @ ds'" "\<forall>d \<in> set freed. fst d \<le> p" "ds' = [] \<or> p < fst (hd ds')" by blast
    with False show ?thesis by (intro exI [of _ "(f, bs) # freed"]) simp
  qed
qed simp

lemma drain_view:
  assumes "kv_laws api view"
  shows "drain (pool_free_blocks api) p ds k = (ds', k') \<Longrightarrow> mset (concat (map snd ds)) = loose view k
     \<Longrightarrow> owned view k' = owned view k \<and> mset (concat (map snd ds')) = loose view k'"
proof (induction "pool_free_blocks api" p ds k rule: drain.induct)
  case (2 p f bs ds k)
  show ?case
  proof (cases "p < f")
    case False
    have loose: "loose view k = mset bs + mset (concat (map snd ds))" using "2.prems"(2) by simp
    then have sub: "mset (rev bs) \<subseteq># loose view k" by simp
    note freed = kv_laws_pool [OF assms sub]
    from False "2.prems"(1) have "drain (pool_free_blocks api) p ds (pool_free_blocks api (rev bs) k) = (ds', k')" by simp
    moreover have "mset (concat (map snd ds)) = loose view (pool_free_blocks api (rev bs) k)"
      using freed(2) loose by simp
    ultimately show ?thesis using "2.hyps" [OF False] freed(1) by simp
  qed (use "2.prems" in auto)
qed simp

subsection \<open>Every step keeps the invariant\<close>

lemma blocks_inv_edit:
  assumes inv: "blocks_inv view g"
    and seqs: "sched_step_seq st = sched_step_seq (rn_sched g)" "processed_step_seq st = processed_step_seq (rn_sched g)"
    and ok: "stamps_ok st"
    and keep: "\<And>i r b. (i, b) \<in># owned view (rn_kv g) \<Longrightarrow> dict_get (requests (rn_sched g)) i = Some r
      \<Longrightarrow> \<exists>r'. dict_get (requests st) i = Some r' \<and> last_sched_seq r \<le> last_sched_seq r'"
  shows "blocks_inv view (g\<lparr>rn_sched := st\<rparr>)"
proof (rule blocks_invI)
  fix s b assume s: "processed_step_seq (rn_sched (g\<lparr>rn_sched := st\<rparr>)) < s" and b: "b \<in> writes (g\<lparr>rn_sched := st\<rparr>) s"
  have "fenced view g s b" by (rule blocks_invD(5) [OF inv]) (use s b seqs in simp_all)
  then show "fenced view (g\<lparr>rn_sched := st\<rparr>) s b" using keep by (fastforce simp: fenced_def)
qed (use blocks_invD [OF inv] seqs ok in simp_all)

lemma manage_inv:
  assumes inv: "blocks_inv view g" and man: "manages view (busy g) (rn_kv g) k"
  shows "blocks_inv view (g\<lparr>rn_kv := k, rn_enc := e\<rparr>)"
proof (rule blocks_invI)
  fix s b assume s: "processed_step_seq (rn_sched (g\<lparr>rn_kv := k, rn_enc := e\<rparr>)) < s"
    and b: "b \<in> writes (g\<lparr>rn_kv := k, rn_enc := e\<rparr>) s"
  have "fenced view g s b" by (rule blocks_invD(5) [OF inv]) (use s b in simp_all)
  moreover have "b \<in> busy g" using s b by (auto simp: busy_def)
  ultimately show "fenced view (g\<lparr>rn_kv := k, rn_enc := e\<rparr>) s b"
    using man by (fastforce simp: fenced_def manages_def)
qed (use blocks_invD [OF inv] man in \<open>simp_all add: manages_def\<close>)

text \<open>Freeing the blocks of a request: either no step in flight touches them, or their references move to the
  deferred frees behind a fence that covers every step scheduled so far.\<close>

lemma fenced_request:
  assumes "fenced view g s b" and "dict_get (requests (rn_sched g)) i = Some r"
    and "rn_sched g' = rn_sched g" and "set (deferred_frees g) \<subseteq> set (deferred_frees g')"
    and "owned view (rn_kv g') = {#p \<in># owned view (rn_kv g). fst p \<noteq> i#}"
    and "(i, b) \<in># owned view (rn_kv g) \<Longrightarrow> s \<le> last_sched_seq r
      \<Longrightarrow> \<exists>f bs. (f, bs) \<in> set (deferred_frees g') \<and> b \<in> set bs \<and> s \<le> f"
  shows "fenced view g' s b"
  using assms(1) unfolding fenced_def
proof (elim disjE exE conjE)
  fix j q assume own: "(j, b) \<in># owned view (rn_kv g)" and q: "dict_get (requests (rn_sched g)) j = Some q" "s \<le> last_sched_seq q"
  show "(\<exists>i r. (i, b) \<in># owned view (rn_kv g') \<and> dict_get (requests (rn_sched g')) i = Some r \<and> s \<le> last_sched_seq r)
      \<or> (\<exists>f bs. (f, bs) \<in> set (deferred_frees g') \<and> b \<in> set bs \<and> s \<le> f)"
  proof (cases "j = i")
    case True
    with assms(2,6) own q show ?thesis by auto
  next
    case False
    with assms(3,5) own q show ?thesis by auto
  qed
qed (use assms(4) in blast)

lemma free_request_blocks_inv:
  assumes laws: "kv_laws api view" and inv: "blocks_inv view g" and dfb: "defer_block_free cfg"
    and r: "dict_get (requests (rn_sched g)) i = Some r"
  defines "g' \<equiv> free_request_blocks cfg (base_api api) r g"
  shows "blocks_inv view g'" and "owned view (rn_kv g') = {#p \<in># owned view (rn_kv g). fst p \<noteq> i#}"
proof -
  note D = blocks_invD [OF inv]
  from D(2) r have i: "request_id r = i" and seq: "last_sched_seq r \<le> sched_step_seq (rn_sched g)"
    by (auto simp: stamps_ok_def)
  obtain bs k where pop: "kv_pop_blocks_for_free (base_api api) r (rn_kv g) = (bs, k)" by fastforce
  note popped = kv_laws_pop [OF laws pop]
  have st: "rn_sched g' = rn_sched g" and wr: "writes g' = writes g"
    by (simp_all add: g'_def free_request_blocks_def pop Let_def)
  show own: "owned view (rn_kv g') = {#p \<in># owned view (rn_kv g). fst p \<noteq> i#}"
    using kv_laws_free [OF laws] popped i by (simp add: g'_def free_request_blocks_def pop Let_def)
  show "blocks_inv view g'"
  proof (cases "last_sched_seq r \<le> processed_step_seq (rn_sched g)")
    case True
    then have g': "g' = g\<lparr>rn_kv := kv_free (base_api api) r (rn_kv g)\<rparr>" by (simp add: g'_def free_request_blocks_def)
    show ?thesis
    proof (rule blocks_invI)
      fix s b assume s: "processed_step_seq (rn_sched g') < s" "b \<in> writes g' s"
      then have "fenced view g s b" by (intro D(5)) (simp_all add: st wr)
      then show "fenced view g' s b" by (rule fenced_request [OF _ r st _ own]) (use s True st in \<open>simp_all add: g'\<close>)
    qed (use D kv_laws_free [OF laws] in \<open>simp_all add: g'\<close>)
  next
    case False
    have dfr: "deferred_frees g' = deferred_frees g @ (if bs = [] then [] else [(sched_step_seq (rn_sched g), bs)])"
      and kv: "rn_kv g' = k"
      using False dfb by (simp_all add: g'_def free_request_blocks_def pop Let_def)
    have bs: "b \<in> set bs" if own_b: "(i, b) \<in># owned view (rn_kv g)" for b
    proof -
      have "b \<in># image_mset snd {#p \<in># owned view (rn_kv g). fst p = request_id r#}" using own_b i by force
      then show ?thesis by (simp flip: popped(1))
    qed
    show ?thesis
    proof (rule blocks_invI)
      fix s b assume "processed_step_seq (rn_sched g') < s" "b \<in> writes g' s"
      then have "fenced view g s b" by (intro D(5)) (simp_all add: st wr)
      then show "fenced view g' s b"
      proof (rule fenced_request [OF _ r st _ own])
        assume "(i, b) \<in># owned view (rn_kv g)" and s: "s \<le> last_sched_seq r"
        then have "b \<in> set bs" by (simp add: bs)
        with s seq dfr show "\<exists>f bs. (f, bs) \<in> set (deferred_frees g') \<and> b \<in> set bs \<and> s \<le> f"
          by (intro exI [of _ "sched_step_seq (rn_sched g)"] exI [of _ bs]) auto
      qed (simp add: dfr)
    next
      show "deferred_ok (sched_step_seq (rn_sched g')) (deferred_frees g')"
        using D(4) by (simp add: dfr st deferred_ok_snoc)
    qed (use D popped(3) in \<open>simp_all add: dfr st kv\<close>)
  qed
qed

lemma preempt_inv:
  assumes laws: "kv_laws api view" and inv: "blocks_inv view g" and dfb: "defer_block_free cfg"
    and r: "dict_get (requests (rn_sched g)) i = Some r"
    and p: "preempt_request cfg (base_api api) d r g = Inr g'"
  shows "blocks_inv view g'"
proof -
  define f where "f = free_request_blocks cfg (base_api api) r g"
  have fi: "blocks_inv view f" unfolding f_def by (rule free_request_blocks_inv(1) [OF laws inv dfb r])
  have st: "rn_sched f = rn_sched g" by (simp add: f_def free_request_blocks_sched)
  have i: "request_id r = i" using blocks_invD(2) [OF inv] r by (simp add: stamps_ok_def)
  define st' where "st' = rn_sched g'"
  have st': "g' = f\<lparr>rn_enc := rn_enc g', rn_sched := st'\<rparr>"
    and same: "sched_step_seq st' = sched_step_seq (rn_sched f)" "processed_step_seq st' = processed_step_seq (rn_sched f)"
    and get: "dict_get (requests st') j = (if j = i then Some (preempted d r) else dict_get (requests (rn_sched f)) j)" for j
    using p r by (auto simp: preempt_request_def bindE_raiseIf Let_def i st mutate_get st'_def simp flip: f_def split: if_splits)
  have "blocks_inv view ((f\<lparr>rn_enc := rn_enc g'\<rparr>)\<lparr>rn_sched := st'\<rparr>)"
  proof (rule blocks_inv_edit)
    show "blocks_inv view (f\<lparr>rn_enc := rn_enc g'\<rparr>)" using fi by (simp add: blocks_inv_def fenced_def)
    show "stamps_ok st'" using blocks_invD(2) [OF fi] r by (auto simp: stamps_ok_def get same st preempted_def)
  qed (use r same in \<open>auto simp: get st preempted_def\<close>)
  with st' show ?thesis by simp
qed

lemma finish_inv:
  assumes laws: "kv_laws api view" and inv: "blocks_inv view g" and dfb: "defer_block_free cfg"
    and r: "dict_get (requests (rn_sched g)) i = Some r" and f: "free_blocks cfg api r g = Inr g'"
  shows "blocks_inv view g'"
proof -
  define h where "h = free_request_blocks cfg (base_api api) r g"
  note hi = free_request_blocks_inv [OF laws inv dfb r, folded h_def]
  have i: "request_id r = i" using blocks_invD(2) [OF inv] r by (simp add: stamps_ok_def)
  have g': "g' = h\<lparr>rn_sched := (rn_sched h)\<lparr>requests := dict_del i (requests (rn_sched h))\<rparr>\<rparr>"
    using f by (auto simp: free_blocks_def bindE_raiseIf Let_def i simp flip: h_def split: if_splits)
  show ?thesis unfolding g'
    by (rule blocks_inv_edit [OF hi(1)]) (use blocks_invD(2) [OF hi(1)] hi(2) in \<open>auto simp: stamps_ok_def dict_get_del\<close>)
qed

lemma after_schedule_fold:
  assumes "foldE (after_schedule_one cfg) toks (b, st) = Inr (b', st')" and "defer_block_free cfg"
  shows "sched_step_seq st' = sched_step_seq st" and "processed_step_seq st' = processed_step_seq st"
    and "dict_get (requests st) j = None \<longleftrightarrow> dict_get (requests st') j = None"
    and "dict_get (requests st) j = Some r \<Longrightarrow> \<exists>r'. dict_get (requests st') j = Some r' \<and> request_id r' = request_id r
      \<and> last_sched_seq r' = (if j \<in> set (dict_keys toks) then sched_step_seq st else last_sched_seq r)"
    and "j \<in> set (dict_keys toks) \<Longrightarrow> dict_get (requests st) j \<noteq> None"
proof (atomize (full), use assms(1) in \<open>induction toks arbitrary: b st r\<close>)
  case Nil
  then show ?case by (simp add: dict_keys_def)
next
  case (Cons t toks)
  obtain i n where t: "t = (i, n)" by fastforce
  from Cons.prems obtain q where q: "dict_get (requests st) i = Some q"
    by (auto simp: t after_schedule_one_def bindE_eq_Inr split: option.splits)
  define q' where "q' = advance_request cfg (sched_step_seq st) n q"
  have q': "request_id q' = request_id q" "last_sched_seq q' = sched_step_seq st"
    using assms(2) by (simp_all add: q'_def advance_request_def Let_def)
  obtain st1 b1 where rest: "foldE (after_schedule_one cfg) toks (b1, st1) = Inr (b', st')"
    and st1: "sched_step_seq st1 = sched_step_seq st" "processed_step_seq st1 = processed_step_seq st"
      "\<And>k. dict_get (requests st1) k = (if k = i then Some q' else dict_get (requests st) k)"
    using Cons.prems q by (auto simp: t after_schedule_one_def Let_def mutate_get simp flip: q'_def split: if_splits)
  note IH = Cons.IH [OF rest, unfolded st1]
  have keys: "set (dict_keys (t # toks)) = insert i (set (dict_keys toks))" by (simp add: dict_keys_def t)
  show ?case
    using IH [of q'] IH [of r] q q' by (auto simp: keys split: if_splits)
qed

lemma release_copies_effect:
  assumes laws: "kv_laws api view" and dfb: "defer_block_free cfg"
    and seq: "processed_step_seq (rn_sched g) \<le> sched_step_seq (rn_sched g)"
  defines "g' \<equiv> release_copies cfg api g"
  obtains ret where "set ret = copied_blocks api (rn_kv g)" and "rn_sched g' = rn_sched g" and "writes g' = writes g"
    and "owned view (rn_kv g') = owned view (rn_kv g)" and "loose view (rn_kv g') = loose view (rn_kv g) + mset ret"
    and "deferred_frees g' = deferred_frees g @ [(sched_step_seq (rn_sched g) + 1, rev ret)]
      \<or> deferred_frees g' = deferred_frees g \<and> ret = []"
proof -
  obtain cs ret k where take: "kv_take_block_copies api (rn_kv g) = (cs, ret, k)" by (metis prod.exhaust)
  note law = kv_laws_copies [OF laws take]
  show thesis
    by (rule that [of ret])
      (use law seq dfb in \<open>auto simp: g'_def release_copies_def free_cow_retained_blocks_def take Let_def copied_blocks_def\<close>)
qed

lemma schedule_inv:
  assumes laws: "kv_laws api view" and inv: "blocks_inv view g" and dfb: "defer_block_free cfg"
    and c: "conclude_schedule cfg api toks g = Inr (b, g')"
  shows "blocks_inv view (launch api view toks g g')"
proof -
  note D = blocks_invD [OF inv]
  let ?seq = "sched_step_seq (rn_sched g)"
  define h where "h = release_copies cfg api g"
  obtain ret where ret: "set ret = copied_blocks api (rn_kv g)" and h: "rn_sched h = rn_sched g" "writes h = writes g"
      "owned view (rn_kv h) = owned view (rn_kv g)" "loose view (rn_kv h) = loose view (rn_kv g) + mset ret"
    and dfr: "deferred_frees h = deferred_frees g @ [(?seq + 1, rev ret)] \<or> deferred_frees h = deferred_frees g \<and> ret = []"
    unfolding h_def by (rule release_copies_effect [OF laws dfb D(1)])
  define st where "st = (if sum_list (map snd toks) > 0 then (rn_sched g)\<lparr>sched_step_seq := ?seq + 1\<rparr> else rn_sched g)"
  obtain b' st' where fold: "foldE (after_schedule_one cfg) toks (False, st) = Inr (b', st')"
    and g': "g' = h\<lparr>rn_sched := st'\<lparr>finished_req_ids := [], reset_preempted_req_ids := []\<rparr>\<rparr>"
    using c dfb by (auto simp: conclude_schedule_def finish_step_def update_after_schedule_def Let_def h bindE_eq_Inr st_def
      simp flip: h_def split: if_splits)
  note A = after_schedule_fold [OF fold dfb]
  have st: "requests st = requests (rn_sched g)" "processed_step_seq st = processed_step_seq (rn_sched g)"
    "?seq \<le> sched_step_seq st" "sched_step_seq st \<le> ?seq + 1"
    "sum_list (map snd toks) > 0 \<Longrightarrow> sched_step_seq st = ?seq + 1"
    by (simp_all add: st_def)
  let ?g = "launch api view toks g g'"
  have L: "rn_sched ?g = rn_sched g'" "rn_kv ?g = rn_kv h" "deferred_frees ?g = deferred_frees h"
    by (simp_all add: launch_def g')
  have get: "dict_get (requests (rn_sched ?g)) j = dict_get (requests st') j" for j by (simp add: launch_def g')
  have seqs: "sched_step_seq (rn_sched ?g) = sched_step_seq st"
    "processed_step_seq (rn_sched ?g) = processed_step_seq (rn_sched g)"
    using A(1,2) st(2) by (simp_all add: launch_def g')
  have newer: "\<exists>r'. dict_get (requests (rn_sched ?g)) j = Some r' \<and> last_sched_seq r \<le> last_sched_seq r'"
    if r: "dict_get (requests (rn_sched g)) j = Some r" for j r
  proof -
    have "last_sched_seq r \<le> ?seq" using D(2) r by (simp add: stamps_ok_def)
    with A(4) [of j r] r st(3) show ?thesis by (auto simp: get st(1))
  qed
  show ?thesis
  proof (rule blocks_invI)
    show "processed_step_seq (rn_sched ?g) \<le> sched_step_seq (rn_sched ?g)" using D(1) st(3) by (simp add: seqs)
    show "stamps_ok (rn_sched ?g)"
      unfolding stamps_ok_def
    proof (intro allI impI)
      fix j r' assume r': "dict_get (requests (rn_sched ?g)) j = Some r'"
      then obtain r where r: "dict_get (requests (rn_sched g)) j = Some r" using A(3) [of j] by (fastforce simp: get st(1))
      with D(2) have "request_id r = j" "last_sched_seq r \<le> ?seq" by (auto simp: stamps_ok_def)
      with A(4) [of j r] r r' st(1,3) show "request_id r' = j \<and> last_sched_seq r' \<le> sched_step_seq (rn_sched ?g)"
        by (auto simp: seqs get split: if_splits)
    qed
    show "mset (concat (map snd (deferred_frees ?g))) = loose view (rn_kv ?g)"
      using D(3) dfr by (auto simp: L h)
    show "deferred_ok (sched_step_seq (rn_sched ?g)) (deferred_frees ?g)"
    proof -
      have "deferred_ok ?seq (deferred_frees h)" using D(4) dfr deferred_ok_snoc by fastforce
      then show ?thesis using st(3) by (simp add: L(3) seqs deferred_ok_mono)
    qed
    fix s b assume s: "processed_step_seq (rn_sched ?g) < s" and b: "b \<in> writes ?g s"
    from b consider (old) "b \<in> writes g s" | (copy) "s = ?seq + 1" "b \<in> set ret"
      | (new) "s = ?seq + 1" "sum_list (map snd toks) > 0" "b \<in> scheduled_blocks view toks (rn_kv h)"
      by (auto simp: launch_def ret g' split: if_splits)
    then show "fenced view ?g s b"
    proof cases
      case old
      have "fenced view g s b" by (rule D(5)) (use s old in \<open>simp_all add: seqs\<close>)
      then show ?thesis
        unfolding fenced_def L h
      proof (elim disjE exE conjE)
        fix i r assume "(i, b) \<in># owned view (rn_kv g)" and r: "dict_get (requests (rn_sched g)) i = Some r" "s \<le> last_sched_seq r"
        with newer [OF r(1)] show "(\<exists>i r. (i, b) \<in># owned view (rn_kv g) \<and> dict_get (requests (rn_sched g')) i = Some r \<and> s \<le> last_sched_seq r)
          \<or> (\<exists>f bs. (f, bs) \<in> set (deferred_frees h) \<and> b \<in> set bs \<and> s \<le> f)" by (fastforce simp: L)
      qed (use dfr in \<open>metis Un_iff set_append\<close>)
    next
      case copy
      then have "(?seq + 1, rev ret) \<in> set (deferred_frees h)" using dfr by auto
      moreover have "b \<in> set (rev ret)" "s \<le> ?seq + 1" using copy by simp_all
      ultimately show ?thesis unfolding fenced_def L by blast
    next
      case new
      then obtain i where i: "i \<in> set (dict_keys toks)" "(i, b) \<in># owned view (rn_kv h)" by (auto simp: scheduled_blocks_def)
      with A(5) obtain r where "dict_get (requests st) i = Some r" by fastforce
      with A(4) [of i r] i st(5) new show ?thesis by (fastforce simp: fenced_def L(2) get)
    qed
  qed
qed

lemma complete_inv:
  assumes laws: "kv_laws api view" and inv: "blocks_inv view g" and dfb: "defer_block_free cfg"
    and lt: "processed_step_seq (rn_sched g) < sched_step_seq (rn_sched g)" and pos: "total_scheduled > 0"
  shows "blocks_inv view (begin_output cfg api total_scheduled g)"
proof -
  note D = blocks_invD [OF inv]
  let ?p = "processed_step_seq (rn_sched g) + 1"
  obtain ds k where dr: "drain (pool_free_blocks api) ?p (deferred_frees g) (rn_kv g) = (ds, k)" by fastforce
  from drain_split [OF dr] obtain freed where split: "deferred_frees g = freed @ ds" "\<forall>d \<in> set freed. fst d \<le> ?p" by blast
  note view = drain_view [OF laws dr D(3)]
  have g': "begin_output cfg api total_scheduled g
      = g\<lparr>rn_sched := (rn_sched g)\<lparr>processed_step_seq := ?p\<rparr>, deferred_frees := ds, rn_kv := k\<rparr>"
    using dfb pos dr by (simp add: begin_output_def drain_deferred_frees_def)
  show ?thesis unfolding g'
  proof (rule blocks_invI, goal_cases)
    case (5 s b)
    then have "fenced view g s b" by (intro D(5)) simp_all
    with 5 split view show ?case by (fastforce simp: fenced_def)
  qed (use D lt view split in \<open>auto simp: stamps_ok_def deferred_ok_def sorted_wrt_append\<close>)
qed

lemma bstep_inv:
  assumes "kv_laws api view" and "defer_block_free cfg" and "bstep cfg api view g g'" and "blocks_inv view g"
  shows "blocks_inv view g'"
  using assms(3)
proof cases
  case (edit st)
  note E = edit(2) [unfolded edits_def]
  have "stamps_ok st"
    unfolding stamps_ok_def
  proof (intro allI impI)
    fix i r assume r: "dict_get (requests st) i = Some r"
    show "request_id r = i \<and> last_sched_seq r \<le> sched_step_seq st"
    proof (cases "dict_get (requests (rn_sched g)) i")
      case None
      with E r show ?thesis by simp
    next
      case (Some q)
      with blocks_invD(2) [OF assms(4)] have "last_sched_seq q \<le> sched_step_seq (rn_sched g)" by (simp add: stamps_ok_def)
      with E r Some show ?thesis by fastforce
    qed
  qed
  moreover have "\<exists>r'. dict_get (requests st) i = Some r' \<and> last_sched_seq r \<le> last_sched_seq r'"
    if "dict_get (requests (rn_sched g)) i = Some r" for i r
    using that E by fastforce
  ultimately show ?thesis unfolding edit(1)
    using E by (intro blocks_inv_edit [OF assms(4)]) simp_all
qed (auto intro: manage_inv [OF assms(4)] preempt_inv [OF assms(1,4,2)] finish_inv [OF assms(1,4,2)]
    schedule_inv [OF assms(1,4,2)] complete_inv [OF assms(1,4,2)])

lemma reachable_blocks_inv:
  assumes "kv_laws api view" and "defer_block_free cfg" and "pristine view g\<^sub>0" and "(bstep cfg api view)\<^sup>*\<^sup>* g\<^sub>0 g"
  shows "blocks_inv view g"
  using assms(4)
proof (induction rule: rtranclp_induct)
  case base
  from assms(3) show ?case by (simp add: pristine_def blocks_inv_def stamps_ok_def deferred_ok_def)
next
  case (step g g')
  with bstep_inv [OF assms(1,2)] show ?case by blast
qed


text \<open>C13: deferred blocks are not held back: when an output has been processed, every entry whose fence lies
  more than one step behind has been returned, and nothing is left when all fences have been reached.\<close>

theorem deferred_frees_return:
  assumes "kv_laws api view" and "defer_block_free cfg" and "pristine view g\<^sub>0" and "(bstep cfg api view)\<^sup>*\<^sup>* g\<^sub>0 g"
    and "total_scheduled > 0"
  defines "g' \<equiv> begin_output cfg api total_scheduled g"
  shows "(\<forall>d \<in> set (deferred_frees g'). processed_step_seq (rn_sched g') \<le> fst d)
    \<and> ((\<forall>d \<in> set (deferred_frees g). fst d \<le> processed_step_seq (rn_sched g'))
        \<longrightarrow> deferred_frees g' = [] \<and> loose view (rn_kv g') = {#})"
proof -
  note D = blocks_invD [OF reachable_blocks_inv [OF assms(1-4)]]
  let ?p = "processed_step_seq (rn_sched g) + 1"
  obtain ds k where dr: "drain (pool_free_blocks api) ?p (deferred_frees g) (rn_kv g) = (ds, k)" by fastforce
  from drain_split [OF dr] obtain freed where split: "deferred_frees g = freed @ ds" "ds = [] \<or> ?p < fst (hd ds)" by blast
  have g': "deferred_frees g' = ds" "rn_kv g' = k" "processed_step_seq (rn_sched g') = ?p"
    using assms(2,5) dr by (simp_all add: g'_def begin_output_def drain_deferred_frees_def)
  have near: "sorted_wrt (\<lambda>a b. fst a \<le> fst b + 1) ds"
    using D(4) by (simp add: deferred_ok_def split(1) sorted_wrt_append)
  have "?p \<le> fst d" if d: "d \<in> set ds" for d
  proof (cases ds)
    case (Cons e es)
    with near d have "fst e \<le> fst d + 1" by auto
    with split(2) Cons show ?thesis by simp
  qed (use d in simp)
  moreover have "ds = []" if all: "\<forall>d \<in> set (deferred_frees g). fst d \<le> ?p"
  proof (rule ccontr)
    assume "ds \<noteq> []"
    then have "hd ds \<in> set (deferred_frees g)" by (simp add: split(1))
    with all have "fst (hd ds) \<le> ?p" by blast
    with split(2) \<open>ds \<noteq> []\<close> show False by simp
  qed
  moreover have "mset (concat (map snd ds)) = loose view k" using drain_view [OF assms(1) dr D(3)] by simp
  ultimately show ?thesis by (auto simp: g')
qed

subsection \<open>A pool with explicit references\<close>

text \<open>A manager whose state lists the references of the requests and those handed out.\<close>

type_synonym ref_pool = "(string \<times> int) list \<times> int list"

definition ref_api :: "(ref_pool, unit) blocks_api" where
  "ref_api = \<lparr>base_api =
     \<lparr>kv_new_step = (\<lambda>k. k), kv_allocate_slots = (\<lambda>r n l k. (None, k)),
      kv_free = (\<lambda>r (own, out). (filter (\<lambda>p. fst p \<noteq> request_id r) own, out)),
      kv_pop_blocks_for_free = (\<lambda>r (own, out).
        (let bs = map snd (filter (\<lambda>p. fst p = request_id r) own) in
         (bs, filter (\<lambda>p. fst p \<noteq> request_id r) own, bs @ out))),
      enc_check_and_update_cache = (\<lambda>r i e. (False, e)), enc_can_allocate = (\<lambda>r i a b e. (True, e)),
      enc_allocate = (\<lambda>r i e. e), enc_free = (\<lambda>r e. e), ec_has_cache_item = None,
      ec_update_state_after_alloc = (\<lambda>r i e. e), mm_features_in_window = (\<lambda>fs a b. (0, 0)),
      mm_embeds_in_range = (\<lambda>f a b. (0, 0)), queue_prepend = (\<lambda>r q. request_id r # q)\<rparr>,
     pool_free_blocks = (\<lambda>bs (own, out). (own, fold remove1 bs out)),
     kv_take_block_copies = (\<lambda>k. ([], [], k))\<rparr>"

definition ref_view :: "ref_pool kv_view" where
  "ref_view = \<lparr>owned = (\<lambda>k. mset (fst k)), loose = (\<lambda>k. mset (snd k))\<rparr>"

lemma mset_fold_remove1: "mset (fold remove1 bs xs) = mset xs - mset bs"
  by (induction bs arbitrary: xs) simp_all

lemma ref_laws: "kv_laws ref_api ref_view"
  by (auto simp: kv_laws_def ref_api_def ref_view_def mset_fold_remove1 Let_def mset_map mset_filter
      split: prod.splits)

definition fence_config :: sched_config where
  "fence_config = turn_config\<lparr>defer_block_free := True\<rparr>"

definition flight_request :: sreq where
  "flight_request = sample_request\<lparr>all_token_ids := replicate 8 7, num_computed_tokens := 0\<rparr>"

definition flight_sched :: sched where
  "flight_sched = turn_state\<lparr>requests := [], running := [], waiting := [], long_prefill_last_scheduled := []\<rparr>"

definition flight\<^sub>0 :: "(ref_pool, unit) gpu" where
  "flight\<^sub>0 = \<lparr>rn_sched = flight_sched, rn_kv = ([], []), rn_enc = (), deferred_frees = [], writes = (\<lambda>_. {})\<rparr>"

text \<open>A request is admitted with block 7, scheduled, and preempted before its step completes.\<close>

definition flight\<^sub>1 :: "(ref_pool, unit) gpu" where
  "flight\<^sub>1 = flight\<^sub>0\<lparr>rn_sched := flight_sched\<lparr>requests := [(''a'', flight_request)]\<rparr>\<rparr>"

definition flight\<^sub>2 :: "(ref_pool, unit) gpu" where
  "flight\<^sub>2 = flight\<^sub>1\<lparr>rn_kv := ([(''a'', 7)], []), rn_enc := ()\<rparr>"

definition flight_advanced :: sreq where
  "flight_advanced = advance_request fence_config 1 8 flight_request"

definition flight_scheduled :: sched where
  "flight_scheduled = flight_sched\<lparr>requests := [(''a'', flight_advanced)], sched_step_seq := 1\<rparr>"

definition flight\<^sub>3 :: "(ref_pool, unit) gpu" where
  "flight\<^sub>3 = launch ref_api ref_view [(''a'', 8)] flight\<^sub>2 (flight\<^sub>2\<lparr>rn_sched := flight_scheduled\<rparr>)"

definition flight\<^sub>4 :: "(ref_pool, unit) gpu" where
  "flight\<^sub>4 = flight\<^sub>3\<lparr>rn_sched := flight_scheduled\<lparr>requests := [(''a'', preempted False flight_advanced)],
       waiting := [''a''], reset_preempted_req_ids := [''a'']\<rparr>,
     rn_kv := ([], [7]), deferred_frees := [(1, [7])]\<rparr>"

lemmas flight_defs = fence_config_def flight_request_def flight_sched_def flight_advanced_def flight_scheduled_def
  turn_config_def split_config_def sample_request_def turn_state_def

lemma flight_pristine: "pristine ref_view flight\<^sub>0"
  by (simp add: pristine_def flight\<^sub>0_def flight_defs ref_view_def)

lemma flight_steps:
  "bstep fence_config ref_api ref_view flight\<^sub>0 flight\<^sub>1" "bstep fence_config ref_api ref_view flight\<^sub>1 flight\<^sub>2"
  "bstep fence_config ref_api ref_view flight\<^sub>2 flight\<^sub>3" "bstep fence_config ref_api ref_view flight\<^sub>3 flight\<^sub>4"
proof -
  show "bstep fence_config ref_api ref_view flight\<^sub>0 flight\<^sub>1"
    unfolding flight\<^sub>1_def by (rule bstep.edit) (simp add: edits_def flight\<^sub>0_def flight_defs dict_get_def)
  show "bstep fence_config ref_api ref_view flight\<^sub>1 flight\<^sub>2"
    unfolding flight\<^sub>2_def by (rule bstep.manage) (simp add: manages_def flight\<^sub>1_def flight\<^sub>0_def ref_view_def)
  have "conclude_schedule fence_config ref_api [(''a'', 8)] flight\<^sub>2 = Inr (False, flight\<^sub>2\<lparr>rn_sched := flight_scheduled\<rparr>)"
    by (simp add: conclude_schedule_def finish_step_def release_copies_def ref_api_def update_after_schedule_def after_schedule_one_def
        flight\<^sub>2_def flight\<^sub>1_def flight\<^sub>0_def flight_defs Let_def dict_get_def mutate_def advance_request_def)
  then show "bstep fence_config ref_api ref_view flight\<^sub>2 flight\<^sub>3" unfolding flight\<^sub>3_def by (rule bstep.schedule)
  have "dict_get (requests (rn_sched flight\<^sub>3)) ''a'' = Some flight_advanced"
    by (simp add: flight\<^sub>3_def launch_def flight_scheduled_def dict_get_def)
  moreover have "preempt_request fence_config (base_api ref_api) False flight_advanced flight\<^sub>3 = Inr flight\<^sub>4"
    by (simp add: preempt_request_def free_request_blocks_def flight\<^sub>4_def flight\<^sub>3_def flight\<^sub>2_def flight\<^sub>1_def flight\<^sub>0_def
        flight_defs launch_def ref_api_def advance_request_def bindE_raiseIf Let_def mutate_def dict_get_def preempted_def)
  ultimately show "bstep fence_config ref_api ref_view flight\<^sub>3 flight\<^sub>4" by (rule bstep.preempt)
qed

lemma flight_reachable: "(bstep fence_config ref_api ref_view)\<^sup>*\<^sup>* flight\<^sub>0 flight\<^sub>4"
  using flight_steps by (meson converse_rtranclp_into_rtranclp rtranclp.rtrancl_refl)


theorem deferred_frees_return_witness:
  "deferred_frees flight\<^sub>4 = [(1, [7])] \<and> deferred_frees (begin_output fence_config ref_api 8 flight\<^sub>4) = []"
proof
  show "deferred_frees flight\<^sub>4 = [(1, [7])]" by (simp add: flight\<^sub>4_def)
  moreover have "processed_step_seq (rn_sched (begin_output fence_config ref_api 8 flight\<^sub>4)) = 1"
    by (simp add: begin_output_def drain_deferred_frees_def flight\<^sub>4_def flight_defs split: prod.splits)
  moreover have "defer_block_free fence_config" by (simp add: fence_config_def)
  ultimately show "deferred_frees (begin_output fence_config ref_api 8 flight\<^sub>4) = []"
    using deferred_frees_return [OF ref_laws _ flight_pristine flight_reachable, of 8] by simp
qed

end
