(* ===== verification/SchedLife.thy ===== *)
theory SchedLife
  imports SchedBlocks
begin

text \<open>
  The life of a request in \<^verbatim>\<open>scheduler.py\<close> outside the scheduling step: admission (\<^verbatim>\<open>add_request\<close>),
  streaming sessions (\<^verbatim>\<open>_update_request_as_session\<close>, \<^verbatim>\<open>_handle_stopped_request\<close>), completion from outside
  (\<^verbatim>\<open>finish_requests\<close>) and from inside (\<^verbatim>\<open>_free_request\<close>, \<^verbatim>\<open>_connector_finished\<close>), blocked requests
  (\<^verbatim>\<open>_try_promote_blocked_waiting_request\<close>, \<^verbatim>\<open>_update_waiting_for_remote_kv\<close>), finished transfers
  (\<^verbatim>\<open>_update_from_kv_xfer_finished\<close>), the reset of the prefix cache and the counters the engine polls.

  The invariant \<open>queue_inv\<close> says that every unfinished request stands in exactly one of the three queues,
  with a status that fits it. Request queues, connectors, the KV-cache manager and \<^verbatim>\<open>StreamingUpdate\<close> are
  outside the repository and enter through \<open>life_api\<close>. The type \<open>'k\<close> is the joint state of the KV-cache
  manager and the KV connector. Event logs, per-client completion sets and the transfer parameters a
  connector returns are not modelled.
\<close>

subsection \<open>The services a request meets\<close>

text \<open>A connector says whether the blocks of a finished request must stay; one without hybrid-allocator
  support sees the blocks of the first group only.\<close>

datatype 'k connector =
    NoConn
  | PlainConn "sreq \<Rightarrow> int list \<Rightarrow> 'k \<Rightarrow> bool \<times> 'k"
  | HmaConn "sreq \<Rightarrow> int list list \<Rightarrow> 'k \<Rightarrow> bool \<times> 'k"

record ('k, 'e) life_api =
  blocks :: "('k, 'e) blocks_api"
  queue_add :: "sreq \<Rightarrow> string list \<Rightarrow> string list"
  queue_remove :: "string list \<Rightarrow> string list \<Rightarrow> string list"
  list_remove_all :: "string list \<Rightarrow> string list \<Rightarrow> string list"
  queue_less :: "sreq \<Rightarrow> sreq \<Rightarrow> bool"
  streaming_update_of :: "sreq \<Rightarrow> streaming_update option"
  kv_connector :: "'k connector"
  kv_on_new_request :: "sreq \<Rightarrow> 'k \<Rightarrow> 'k"
  kv_update_connector_output :: "string list \<Rightarrow> string list \<Rightarrow> 'k \<Rightarrow> 'k"
  kv_remove_skipped_blocks :: "string \<Rightarrow> int \<Rightarrow> int \<Rightarrow> 'k \<Rightarrow> 'k"
  kv_block_ids_for_computed :: "string \<Rightarrow> int \<Rightarrow> 'k \<Rightarrow> int list list"
  kv_cache_blocks :: "sreq \<Rightarrow> int \<Rightarrow> 'k \<Rightarrow> 'k"
  kv_record_blocks_for_zeroing :: "string \<Rightarrow> int \<Rightarrow> 'k \<Rightarrow> 'k"
  kv_reset_prefix_cache :: "'k \<Rightarrow> bool \<times> 'k"
  kv_reset_connector :: "'k \<Rightarrow> bool \<times> 'k"
  ec_request_finished :: "(sreq \<Rightarrow> 'e \<Rightarrow> bool \<times> 'e) option"

definition connected :: "('k, 'e) life_api \<Rightarrow> bool" where
  "connected api \<longleftrightarrow> (case kv_connector api of NoConn \<Rightarrow> False | _ \<Rightarrow> True)"

subsection \<open>Waiting queues\<close>

definition is_blocked_waiting_status :: "status \<Rightarrow> bool" where
  "is_blocked_waiting_status s \<longleftrightarrow>
     s \<in> {WAITING_FOR_STRUCTURED_OUTPUT_GRAMMAR, WAITING_FOR_REMOTE_KVS, WAITING_FOR_STREAMING_REQ}"

definition enqueue_waiting_request :: "('k, 'e) life_api \<Rightarrow> sreq \<Rightarrow> sched \<Rightarrow> sched" where
  "enqueue_waiting_request api r st =
     (if is_blocked_waiting_status (req_status r)
      then st\<lparr>skipped_waiting := queue_add api r (skipped_waiting st)\<rparr>
      else st\<lparr>waiting := queue_add api r (waiting st)\<rparr>)"

datatype queue_choice = UseWaiting | UseSkipped

definition select_waiting_queue_for_scheduling :: "sched_config \<Rightarrow> ('k, 'e) life_api \<Rightarrow> sched \<Rightarrow> queue_choice option" where
  "select_waiting_queue_for_scheduling cfg api st =
     (case sched_policy cfg of
        FCFS \<Rightarrow>
          (if skipped_waiting st \<noteq> [] then Some UseSkipped else if waiting st \<noteq> [] then Some UseWaiting else None)
      | PRIORITY \<Rightarrow>
          (case (live st (waiting st), live st (skipped_waiting st)) of
             (w # _, s # _) \<Rightarrow> Some (if queue_less api w s then UseWaiting else UseSkipped)
           | _ \<Rightarrow> if waiting st \<noteq> [] then Some UseWaiting
                  else if skipped_waiting st \<noteq> [] then Some UseSkipped else None))"

subsection \<open>Streaming sessions\<close>

text \<open>\<^verbatim>\<open>a[p:q]\<close> for a non-negative \<open>p\<close>.\<close>

definition py_slice :: "int \<Rightarrow> int \<Rightarrow> 'a list \<Rightarrow> 'a list" where
  "py_slice p q xs = List.drop (nat p) (py_take q xs)"

definition shift_feature :: "int \<Rightarrow> mm_feature \<Rightarrow> mm_feature" where
  "shift_feature base f = f\<lparr>mm_offset := mm_offset f + base\<rparr>"

definition session_next :: "streaming_update \<Rightarrow> sreq \<Rightarrow> sched_error + sreq" where
  "session_next upd r =
     (case prompt_token_ids r of
        None \<Rightarrow> Inl (NoPrompt (request_id r))
      | Some prompt \<Rightarrow>
          (let computed = num_computed_tokens r;
               kept = py_slice (num_prompt_tokens r) computed (all_token_ids r);
               tokens = py_take computed (all_token_ids r);
               new = (case su_prompt_token_ids upd of None \<Rightarrow> [] | Some ts \<Rightarrow> ts);
               prompt = prompt @ kept @ new in
           Inr (r\<lparr>all_token_ids := tokens @ new, output_token_ids := [], prompt_token_ids := Some prompt,
                  mm_features := mm_features r @ map (shift_feature (int (length tokens))) (su_mm_features upd),
                  num_prompt_tokens := int (length prompt), arrival_time := su_arrival_time upd,
                  req_status := WAITING\<rparr>)))"

definition update_request_as_session :: "string \<Rightarrow> streaming_update \<Rightarrow> sched \<Rightarrow> sched_error + sched" where
  "update_request_as_session i upd st =
     (case dict_get (requests st) i of
        None \<Rightarrow> Inl (UnknownRequest i)
      | Some r \<Rightarrow>
          bindE (session_next upd r) (\<lambda>r'.
          (let st = (if req_status r = WAITING_FOR_STREAMING_REQ
                     then st\<lparr>num_waiting_for_streaming_input := num_waiting_for_streaming_input st - 1\<rparr> else st) in
           Inr (mutate i (\<lambda>_. r') st))))"

text \<open>Whether a stopped request is finished; a resumable one continues with its next input chunk.\<close>

definition handle_stopped_request :: "('k, 'e) life_api \<Rightarrow> string \<Rightarrow> sched \<Rightarrow> sched_error + bool \<times> sched" where
  "handle_stopped_request api i st =
     (case dict_get (requests st) i of
        None \<Rightarrow> Inl (UnknownRequest i)
      | Some r \<Rightarrow>
          if \<not> resumable r then Inr (True, st)
          else
            (case streaming_queue r of
               Some (None # us) \<Rightarrow> Inr (True, mutate i (\<lambda>r. r\<lparr>streaming_queue := Some us\<rparr>) st)
             | Some (Some upd # us) \<Rightarrow>
                 bindE (update_request_as_session i upd (mutate i (\<lambda>r. r\<lparr>streaming_queue := Some us\<rparr>) st)) (\<lambda>st.
                 Inr (False, fold (enqueue_waiting_request api) (live st [i]) st))
             | _ \<Rightarrow>
                 (let st = mutate i (\<lambda>r. r\<lparr>req_status := WAITING_FOR_STREAMING_REQ\<rparr>) st;
                      st = st\<lparr>num_waiting_for_streaming_input := num_waiting_for_streaming_input st + 1\<rparr> in
                  Inr (False, fold (enqueue_waiting_request api) (live st [i]) st))))"

subsection \<open>Completion\<close>

definition connector_finished ::
    "sched_config \<Rightarrow> ('k, 'e) life_api \<Rightarrow> sreq \<Rightarrow> 'k \<Rightarrow> sched_error + bool \<times> 'k" where
  "connector_finished cfg api r k =
     (let k' = kv_remove_skipped_blocks api (request_id r) (max 0 (num_computed_tokens r - num_in_flight_tokens r))
                 (num_prompt_tokens r) k;
          ids = kv_block_ids_for_computed api (request_id r) (num_computed_tokens r) k' in
      case kv_connector api of
        NoConn \<Rightarrow> Inr (False, k)
      | HmaConn finished \<Rightarrow> Inr (finished r ids k')
      | PlainConn finished \<Rightarrow>
          (case ids of
             bs # _ \<Rightarrow> bindE (raiseIf (num_kv_cache_groups cfg \<noteq> 1) (NotOneGroup (request_id r))) (\<lambda>_.
               Inr (finished r bs k'))
           | [] \<Rightarrow> Inl (NotOneGroup (request_id r))))"

definition ec_finished :: "('k, 'e) life_api \<Rightarrow> sreq \<Rightarrow> 'e \<Rightarrow> bool \<times> 'e" where
  "ec_finished api r e = (case ec_request_finished api of None \<Rightarrow> (False, e) | Some finished \<Rightarrow> finished r e)"

definition free_request ::
    "sched_config \<Rightarrow> ('k, 'e) life_api \<Rightarrow> bool \<Rightarrow> sreq \<Rightarrow> ('k, 'e, 'm) core_scheme \<Rightarrow> sched_error + ('k, 'e, 'm) core_scheme" where
  "free_request cfg api delay r c =
     bindE (raiseIf (\<not> is_finished (req_status r)) (NotFinished (request_id r))) (\<lambda>_.
     bindE (connector_finished cfg api r (rn_kv c)) (\<lambda>(kv_delay, k).
     (case ec_finished api r (rn_enc c) of (ec_delay, e) \<Rightarrow>
       (let i = request_id r;
            st = rn_sched c;
            st = st\<lparr>inflight_prefills := removeAll i (inflight_prefills st),
                    finished_req_ids := List.insert i (finished_req_ids st)\<rparr>;
            c = c\<lparr>rn_sched := st, rn_kv := k, rn_enc := enc_free (base_api (blocks api)) r e\<rparr> in
        if delay \<or> kv_delay \<or> ec_delay then Inr c else free_blocks cfg (blocks api) r c))))"

text \<open>The queues give up all requests that finish before any of them is freed.\<close>

definition unfinished :: "sched \<Rightarrow> string \<Rightarrow> bool" where
  "unfinished st i \<longleftrightarrow> (case dict_get (requests st) i of None \<Rightarrow> False | Some r \<Rightarrow> \<not> is_finished (req_status r))"

definition status_is :: "status \<Rightarrow> sched \<Rightarrow> string \<Rightarrow> bool" where
  "status_is s st i \<longleftrightarrow> (case dict_get (requests st) i of None \<Rightarrow> False | Some r \<Rightarrow> req_status r = s)"

definition leave_queues :: "('k, 'e) life_api \<Rightarrow> string list \<Rightarrow> sched \<Rightarrow> sched" where
  "leave_queues api valid st =
     (let run = filter (status_is RUNNING st) valid;
          wait = filter (\<lambda>i. \<not> status_is RUNNING st i) valid;
          streaming = length (filter (status_is WAITING_FOR_STREAMING_REQ st) valid);
          st = st\<lparr>num_waiting_for_streaming_input := num_waiting_for_streaming_input st - int streaming\<rparr>;
          st = (if run \<noteq> [] then st\<lparr>running := list_remove_all api (running st) run\<rparr> else st) in
      if wait \<noteq> []
      then st\<lparr>waiting := queue_remove api wait (waiting st), skipped_waiting := queue_remove api wait (skipped_waiting st)\<rparr>
      else st)"

definition finish_one ::
    "sched_config \<Rightarrow> ('k, 'e) life_api \<Rightarrow> status \<Rightarrow> string \<Rightarrow> ('k, 'e, 'm) core_scheme \<Rightarrow> sched_error + ('k, 'e, 'm) core_scheme" where
  "finish_one cfg api finished_status i c =
     (let st = rn_sched c in
      case dict_get (requests st) i of
        None \<Rightarrow> Inl (UnknownRequest i)
      | Some r \<Rightarrow>
          (let remote = (req_status r = WAITING_FOR_REMOTE_KVS);
               delay = (remote \<and> i \<notin> set (finished_recving_kv_req_ids st));
               st = (if remote
                     then st\<lparr>finished_recving_kv_req_ids := removeAll i (finished_recving_kv_req_ids st),
                             failed_recving_kv_req_ids := removeAll i (failed_recving_kv_req_ids st)\<rparr> else st);
               r' = r\<lparr>req_status := finished_status\<rparr> in
           free_request cfg api delay r' (c\<lparr>rn_sched := mutate i (\<lambda>_. r') st\<rparr>)))"

text \<open>\<open>None\<close> finishes every request; the ids of a set come in some order, each once.\<close>

definition finish_requests ::
    "sched_config \<Rightarrow> ('k, 'e) life_api \<Rightarrow> string list option \<Rightarrow> status \<Rightarrow> ('k, 'e, 'm) core_scheme
      \<Rightarrow> sched_error + string list \<times> ('k, 'e, 'm) core_scheme" where
  "finish_requests cfg api request_ids finished_status c =
     bindE (raiseIf (\<not> is_finished finished_status) (NotFinished [])) (\<lambda>_.
     (let st = rn_sched c;
          ids = (case request_ids of None \<Rightarrow> dict_keys (requests st) | Some is \<Rightarrow> remdups is);
          valid = filter (unfinished st) ids in
      bindE (foldE (finish_one cfg api finished_status) valid (c\<lparr>rn_sched := leave_queues api valid st\<rparr>)) (\<lambda>c.
      Inr (valid, c))))"

subsection \<open>Admission\<close>

definition add_request ::
    "sched_config \<Rightarrow> ('k, 'e) life_api \<Rightarrow> sreq \<Rightarrow> ('k, 'e, 'm) core_scheme \<Rightarrow> sched_error + ('k, 'e, 'm) core_scheme" where
  "add_request cfg api r c =
     (let st = rn_sched c; i = request_id r in
      case dict_get (requests st) i of
        Some existing \<Rightarrow>
          (let upd = streaming_update_of api r in
           if req_status existing \<noteq> WAITING_FOR_STREAMING_REQ
           then
             (case streaming_queue existing of
                None \<Rightarrow> Inl (DuplicateRequest i)
              | Some us \<Rightarrow> Inr (c\<lparr>rn_sched := mutate i (\<lambda>q. q\<lparr>streaming_queue := Some (us @ [upd])\<rparr>) st\<rparr>))
           else
             (case upd of
                Some u \<Rightarrow> bindE (update_request_as_session i u st) (\<lambda>st. Inr (c\<lparr>rn_sched := st\<rparr>))
              | None \<Rightarrow> bindE (finish_requests cfg api (Some [i]) FINISHED_ABORTED c) (\<lambda>(_, c). Inr c)))
      | None \<Rightarrow>
          (let r = (if resumable r then r\<lparr>streaming_queue := Some []\<rparr> else r);
               st = enqueue_waiting_request api r st;
               st = st\<lparr>requests := dict_set i r (requests st)\<rparr>;
               k = (case kv_connector api of NoConn \<Rightarrow> rn_kv c | _ \<Rightarrow> kv_on_new_request api r (rn_kv c)) in
           Inr (c\<lparr>rn_sched := st, rn_kv := k\<rparr>)))"

subsection \<open>Blocked requests and transfers\<close>

definition update_waiting_for_remote_kv ::
    "sched_config \<Rightarrow> ('k, 'e) life_api \<Rightarrow> sreq \<Rightarrow> ('k, 'e, 'm) core_scheme \<Rightarrow> sched_error + ('k, 'e, 'm) core_scheme" where
  "update_waiting_for_remote_kv cfg api r c =
     (let i = request_id r; st = rn_sched c; k = rn_kv c; n = num_computed_tokens r in
      bindE (raiseIf (\<not> connected api) NoConnector) (\<lambda>_.
      bindE
        (if i \<in> set (failed_recving_kv_req_ids st)
         then
           (let k = (if n \<noteq> 0
                     then (let k = kv_cache_blocks api r n k in
                           if needs_kv_cache_zeroing cfg then kv_record_blocks_for_zeroing api i n k else k)
                     else kv_free (base_api (blocks api)) r k) in
            Inr (k, st\<lparr>failed_recving_kv_req_ids := removeAll i (failed_recving_kv_req_ids st)\<rparr>))
         else
           Inr (kv_cache_blocks api r n k,
                if n = req_num_tokens r then mutate i (\<lambda>q. q\<lparr>num_computed_tokens := req_num_tokens q - 1\<rparr>) st else st))
        (\<lambda>(k, st).
      bindE (raiseIf (i \<notin> set (finished_recving_kv_req_ids st)) (NotReceiving i)) (\<lambda>_.
      Inr (c\<lparr>rn_kv := k,
              rn_sched := st\<lparr>finished_recving_kv_req_ids := removeAll i (finished_recving_kv_req_ids st)\<rparr>\<rparr>)))))"

definition try_promote_blocked_waiting_request ::
    "sched_config \<Rightarrow> ('k, 'e) life_api \<Rightarrow> sreq \<Rightarrow> ('k, 'e, 'm) core_scheme
      \<Rightarrow> sched_error + bool \<times> ('k, 'e, 'm) core_scheme" where
  "try_promote_blocked_waiting_request cfg api r c =
     (let i = request_id r; st = rn_sched c in
      case req_status r of
        WAITING_FOR_REMOTE_KVS \<Rightarrow>
          if i \<notin> set (finished_recving_kv_req_ids st) then Inr (False, c)
          else
            bindE (update_waiting_for_remote_kv cfg api r c) (\<lambda>c.
            Inr (True, c\<lparr>rn_sched := mutate i (\<lambda>q. q\<lparr>req_status := if num_preemptions r \<noteq> 0 then PREEMPTED else WAITING\<rparr>)
                                      (rn_sched c)\<rparr>))
      | WAITING_FOR_STRUCTURED_OUTPUT_GRAMMAR \<Rightarrow>
          (case structured_output_request r of
             Some GrammarReady \<Rightarrow> Inr (True, c\<lparr>rn_sched := mutate i (\<lambda>q. q\<lparr>req_status := WAITING\<rparr>) st\<rparr>)
           | Some GrammarError \<Rightarrow>
               Inr (False, c\<lparr>rn_sched := st\<lparr>grammar_compile_error_reqs := List.insert i (grammar_compile_error_reqs st)\<rparr>\<rparr>)
           | _ \<Rightarrow> Inr (False, c))
      | WAITING_FOR_STREAMING_REQ \<Rightarrow>
          bindE (raiseIf (case streaming_queue r of Some (_ # _) \<Rightarrow> True | _ \<Rightarrow> False) (PendingStreamingInput i)) (\<lambda>_.
          Inr (False, c))
      | _ \<Rightarrow> Inl (UnexpectedStatus i))"

definition recv_finished ::
    "sched_config \<Rightarrow> ('k, 'e) life_api \<Rightarrow> string \<Rightarrow> ('k, 'e, 'm) core_scheme \<Rightarrow> sched_error + ('k, 'e, 'm) core_scheme" where
  "recv_finished cfg api i c =
     (let st = rn_sched c in
      case dict_get (requests st) i of
        None \<Rightarrow> Inl (UnknownRequest i)
      | Some r \<Rightarrow>
          if req_status r = WAITING_FOR_REMOTE_KVS
          then Inr (c\<lparr>rn_sched := st\<lparr>finished_recving_kv_req_ids := List.insert i (finished_recving_kv_req_ids st)\<rparr>\<rparr>)
          else bindE (raiseIf (\<not> is_finished (req_status r)) (UnexpectedStatus i)) (\<lambda>_. free_blocks cfg (blocks api) r c))"

definition send_finished ::
    "sched_config \<Rightarrow> ('k, 'e) life_api \<Rightarrow> string \<Rightarrow> ('k, 'e, 'm) core_scheme \<Rightarrow> sched_error + ('k, 'e, 'm) core_scheme" where
  "send_finished cfg api i c =
     (case dict_get (requests (rn_sched c)) i of
        None \<Rightarrow> Inl (UnknownRequest i)
      | Some r \<Rightarrow> free_blocks cfg (blocks api) r c)"

definition update_from_kv_xfer_finished ::
    "sched_config \<Rightarrow> ('k, 'e) life_api \<Rightarrow> string list \<Rightarrow> string list \<Rightarrow> ('k, 'e, 'm) core_scheme
      \<Rightarrow> sched_error + ('k, 'e, 'm) core_scheme" where
  "update_from_kv_xfer_finished cfg api recving sending c =
     (let c = (case kv_connector api of NoConn \<Rightarrow> c
               | _ \<Rightarrow> c\<lparr>rn_kv := kv_update_connector_output api recving sending (rn_kv c)\<rparr>) in
      bindE (foldE (recv_finished cfg api) recving c) (foldE (send_finished cfg api) sending))"

subsection \<open>What the engine polls\<close>

definition get_request_counts :: "sched \<Rightarrow> nat \<times> nat" where
  "get_request_counts st = (length (running st), length (waiting st) + length (skipped_waiting st))"

definition get_num_unfinished_requests :: "sched \<Rightarrow> int" where
  "get_num_unfinished_requests st =
     (case sched_pause_state st of
        PAUSED_ALL \<Rightarrow> 0
      | PAUSED_NEW \<Rightarrow> int (length (running st))
      | UNPAUSED \<Rightarrow> int (length (waiting st)) + int (length (skipped_waiting st)) - num_waiting_for_streaming_input st
                     + int (length (running st)))"

definition has_finished_requests :: "('k, 'e) life_api \<Rightarrow> sched \<Rightarrow> bool" where
  "has_finished_requests api st \<longleftrightarrow>
     finished_req_ids st \<noteq> []
   \<or> (connected api
      \<and> length (requests st) > length (waiting st) + length (skipped_waiting st) + length (running st))"

definition set_pause_state :: "pause_state \<Rightarrow> sched \<Rightarrow> sched" where
  "set_pause_state p st = st\<lparr>sched_pause_state := p\<rparr>"

text \<open>\<^verbatim>\<open>reset_prefix_cache\<close>: running requests are preempted from the last to the first.\<close>

fun preempt_all ::
    "sched_config \<Rightarrow> ('k, 'e) life_api \<Rightarrow> string list \<Rightarrow> ('k, 'e, 'm) core_scheme \<Rightarrow> sched_error + ('k, 'e, 'm) core_scheme" where
  "preempt_all cfg api [] c = Inr c"
| "preempt_all cfg api (i # rest) c =
     (let st = rn_sched c in
      case dict_get (requests st) i of
        None \<Rightarrow> Inl (UnknownRequest i)
      | Some r \<Rightarrow>
          bindE (preempt_request cfg (base_api (blocks api)) True r (c\<lparr>rn_sched := st\<lparr>running := butlast (running st)\<rparr>\<rparr>))
            (preempt_all cfg api rest))"

definition reset_connector_cache :: "('k, 'e) life_api \<Rightarrow> 'k \<Rightarrow> bool \<times> 'k" where
  "reset_connector_cache api k = (case kv_connector api of NoConn \<Rightarrow> (True, k) | _ \<Rightarrow> kv_reset_connector api k)"

definition reset_prefix_cache ::
    "sched_config \<Rightarrow> ('k, 'e) life_api \<Rightarrow> bool \<Rightarrow> bool \<Rightarrow> ('k, 'e, 'm) core_scheme
      \<Rightarrow> sched_error + bool \<times> ('k, 'e, 'm) core_scheme" where
  "reset_prefix_cache cfg api reset_running reset_connector c =
     bindE (if reset_running then preempt_all cfg api (rev (running (rn_sched c))) c else Inr c) (\<lambda>c.
     (case kv_reset_prefix_cache api (rn_kv c) of (ok, k) \<Rightarrow>
        bindE (raiseIf (reset_running \<and> \<not> ok) ResetFailed) (\<lambda>_.
        if \<not> reset_connector then Inr (ok, c\<lparr>rn_kv := k\<rparr>)
        else (case reset_connector_cache api k of (ok', k) \<Rightarrow> Inr (ok' \<and> ok, c\<lparr>rn_kv := k\<rparr>)))))"

subsection \<open>The queues\<close>

definition waiting_status :: "status \<Rightarrow> bool" where
  "waiting_status s \<longleftrightarrow> s \<noteq> RUNNING \<and> \<not> is_finished s"

definition queued :: "sched \<Rightarrow> string list" where
  "queued st = waiting st @ skipped_waiting st"

definition with_status :: "(status \<Rightarrow> bool) \<Rightarrow> sched \<Rightarrow> string set" where
  "with_status P st = {i. \<exists>r. dict_get (requests st) i = Some r \<and> P (req_status r)}"

text \<open>\<open>queue_inv_except V\<close> leaves out the requests \<open>V\<close> that an operation is about to settle.\<close>

definition queue_inv_except :: "string set \<Rightarrow> sched \<Rightarrow> bool" where
  "queue_inv_except V st \<longleftrightarrow>
     distinct (running st) \<and> distinct (queued st) \<and> distinct (dict_keys (requests st))
   \<and> (\<forall>i r. dict_get (requests st) i = Some r \<longrightarrow> request_id r = i)
   \<and> set (running st) = with_status (\<lambda>s. s = RUNNING) st - V
   \<and> set (queued st) = with_status waiting_status st - V
   \<and> num_waiting_for_streaming_input st = int (card (with_status (\<lambda>s. s = WAITING_FOR_STREAMING_REQ) st - V))"

definition queue_inv :: "sched \<Rightarrow> bool" where
  "queue_inv st \<longleftrightarrow> queue_inv_except {} st"

text \<open>What the queues promise: they add one request, and removal takes out exactly the given ones.\<close>

definition queue_laws :: "('k, 'e) life_api \<Rightarrow> bool" where
  "queue_laws api \<longleftrightarrow>
     (\<forall>r q. mset (queue_add api r q) = add_mset (request_id r) (mset q))
   \<and> (\<forall>r q. mset (queue_prepend (base_api (blocks api)) r q) = add_mset (request_id r) (mset q))
   \<and> (\<forall>xs q. mset (queue_remove api xs q) = {#i \<in># mset q. i \<notin> set xs#})
   \<and> (\<forall>xs q. list_remove_all api q xs = filter (\<lambda>i. i \<notin> set xs) q)"

lemma queue_add_perm: "queue_laws api \<Longrightarrow> mset (queue_add api r q) = mset (request_id r # q)"
  by (simp add: queue_laws_def)

lemma queue_prepend_perm:
  "queue_laws api \<Longrightarrow> mset (queue_prepend (base_api (blocks api)) r q) = mset (request_id r # q)"
  by (simp add: queue_laws_def)

lemma queue_remove_perm: "queue_laws api \<Longrightarrow> mset (queue_remove api xs q) = mset (filter (\<lambda>i. i \<notin> set xs) q)"
  by (simp add: queue_laws_def mset_filter)

lemma list_remove_all_eq: "queue_laws api \<Longrightarrow> list_remove_all api q xs = filter (\<lambda>i. i \<notin> set xs) q"
  by (simp add: queue_laws_def)

lemma queue_sets:
  assumes "queue_laws api"
  shows "set (queue_add api r q) = insert (request_id r) (set q)"
    and "set (queue_prepend (base_api (blocks api)) r q) = insert (request_id r) (set q)"
    and "set (queue_remove api xs q) = set q - set xs"
    and "distinct (queue_add api r q) \<longleftrightarrow> request_id r \<notin> set q \<and> distinct q"
    and "distinct (queue_prepend (base_api (blocks api)) r q) \<longleftrightarrow> request_id r \<notin> set q \<and> distinct q"
    and "distinct q \<Longrightarrow> distinct (queue_remove api xs q)"
  using mset_eq_setD [OF queue_add_perm [OF assms]] mset_eq_setD [OF queue_prepend_perm [OF assms]]
    mset_eq_setD [OF queue_remove_perm [OF assms]] mset_eq_imp_distinct_iff [OF queue_add_perm [OF assms]]
    mset_eq_imp_distinct_iff [OF queue_prepend_perm [OF assms]]
    mset_eq_imp_distinct_iff [OF queue_remove_perm [OF assms]]
  by auto

lemma finite_with_status [simp]: "finite (with_status P st)"
proof (rule finite_subset)
  show "with_status P st \<subseteq> set (dict_keys (requests st))"
    using dict_get_eq_None [of "requests st"] by (auto simp: with_status_def) (metis option.distinct(1))
qed simp

lemma with_status_iff: "dict_get (requests st) i = Some r \<Longrightarrow> i \<in> with_status P st \<longleftrightarrow> P (req_status r)"
  by (simp add: with_status_def)

lemma with_status_cong: "requests st = requests st' \<Longrightarrow> with_status P st = with_status P st'"
  by (simp add: with_status_def)

text \<open>Storing one object changes the membership of its identifier only.\<close>

lemma with_status_set:
  assumes "requests st' = dict_set i r (requests st)"
  shows "with_status P st' = (if P (req_status r) then insert i (with_status P st) else with_status P st - {i})"
  by (auto simp: with_status_def assms dict_get_set)

lemma with_status_del:
  assumes "requests st' = dict_del i (requests st)"
  shows "with_status P st' = with_status P st - {i}"
  by (auto simp: with_status_def assms dict_get_del)

lemma requests_mutate: "dict_get (requests st) i = Some r \<Longrightarrow> requests (mutate i f st) = dict_set i (f r) (requests st)"
  by (simp add: mutate_def)

subsection \<open>Completion settles a request\<close>

text \<open>The connector does not raise: there is none, it sees all groups, or there is one group.\<close>

definition connector_safe :: "sched_config \<Rightarrow> ('k, 'e) life_api \<Rightarrow> bool" where
  "connector_safe cfg api \<longleftrightarrow>
     (case kv_connector api of
        PlainConn _ \<Rightarrow> num_kv_cache_groups cfg = 1 \<and> (\<forall>i n k. kv_block_ids_for_computed api i n k \<noteq> [])
      | _ \<Rightarrow> True)"

lemma connector_finished_total:
  assumes "connector_safe cfg api"
  shows "\<exists>d k'. connector_finished cfg api r k = Inr (d, k')"
  using assms by (auto simp: connector_finished_def connector_safe_def Let_def bindE_raiseIf split: connector.splits list.splits)

definition same_queues :: "sched \<Rightarrow> sched \<Rightarrow> bool" where
  "same_queues st st' \<longleftrightarrow>
     running st' = running st \<and> waiting st' = waiting st \<and> skipped_waiting st' = skipped_waiting st
   \<and> num_waiting_for_streaming_input st' = num_waiting_for_streaming_input st"

lemma free_request_effect:
  assumes safe: "connector_safe cfg api" and fin: "is_finished (req_status r)"
  obtains c' where "free_request cfg api d r c = Inr c'" and "same_queues (rn_sched c) (rn_sched c')"
    and "requests (rn_sched c') = requests (rn_sched c) \<or> requests (rn_sched c') = dict_del (request_id r) (requests (rn_sched c))"
    and "set (finished_req_ids (rn_sched c')) = insert (request_id r) (set (finished_req_ids (rn_sched c)))"
proof -
  obtain kd k where k: "connector_finished cfg api r (rn_kv c) = Inr (kd, k)" using connector_finished_total [OF safe] by blast
  obtain ed e where e: "ec_finished api r (rn_enc c) = (ed, e)" by fastforce
  define b where "b = c\<lparr>rn_sched := (rn_sched c)\<lparr>inflight_prefills := removeAll (request_id r) (inflight_prefills (rn_sched c)),
      finished_req_ids := List.insert (request_id r) (finished_req_ids (rn_sched c))\<rparr>, rn_kv := k,
    rn_enc := enc_free (base_api (blocks api)) r e\<rparr>"
  have free: "free_request cfg api d r c = (if d \<or> kd \<or> ed then Inr b else free_blocks cfg (blocks api) r b)"
    using fin by (simp add: free_request_def k e Let_def b_def)
  have b: "same_queues (rn_sched c) (rn_sched b)" "requests (rn_sched b) = requests (rn_sched c)"
    "set (finished_req_ids (rn_sched b)) = insert (request_id r) (set (finished_req_ids (rn_sched c)))"
    by (simp_all add: b_def same_queues_def)
  show thesis
  proof (cases "d \<or> kd \<or> ed")
    case True
    with free b that [of b] show thesis by simp
  next
    case False
    define f where "f = free_request_blocks cfg (base_api (blocks api)) r b"
    have "rn_sched f = rn_sched b" by (simp add: f_def free_request_blocks_sched)
    moreover have "free_request cfg api d r c
      = Inr (f\<lparr>rn_sched := (rn_sched f)\<lparr>requests := dict_del (request_id r) (requests (rn_sched f))\<rparr>\<rparr>)"
      unfolding free using False fin by (simp add: free_blocks_def Let_def f_def)
    ultimately show thesis using b that by (simp add: same_queues_def)
  qed
qed

text \<open>A request that is finished, or no longer stored, settles.\<close>

lemma queue_inv_settle:
  assumes inv: "queue_inv_except (insert i V) st" and q: "same_queues st st'"
    and req: "requests st' = dict_del i (requests st)
      \<or> (\<exists>r. requests st' = dict_set i r (requests st) \<and> request_id r = i \<and> is_finished (req_status r))"
  shows "queue_inv_except V st'"
proof -
  have out: "i \<notin> with_status P st'" if "\<And>s. is_finished s \<Longrightarrow> \<not> P s" for P
    using req that by (auto simp: with_status_def dict_get_del dict_get_set)
  have others: "with_status P st' - {i} = with_status P st - {i}" for P
    using req by (auto simp: with_status_del with_status_set split: if_splits)
  have W: "with_status P st' - V = with_status P st - insert i V" if "\<And>s. is_finished s \<Longrightarrow> \<not> P s" for P
    using out [of P] that others [of P] by blast
  have ids: "\<forall>j r. dict_get (requests st') j = Some r \<longrightarrow> request_id r = j"
    using req inv by (auto simp: queue_inv_except_def dict_get_del dict_get_set split: if_splits)
  have keys: "distinct (dict_keys (requests st'))"
    using req inv by (auto simp: queue_inv_except_def dict_set_distinct distinct_removeAll)
  have "with_status (\<lambda>s. s = RUNNING) st' - V = with_status (\<lambda>s. s = RUNNING) st - insert i V"
    "with_status waiting_status st' - V = with_status waiting_status st - insert i V"
    "with_status (\<lambda>s. s = WAITING_FOR_STREAMING_REQ) st' - V = with_status (\<lambda>s. s = WAITING_FOR_STREAMING_REQ) st - insert i V"
    by (rule W; auto simp: waiting_status_def is_finished_def)+
  with inv q keys ids show ?thesis by (simp add: queue_inv_except_def same_queues_def queued_def)
qed

lemma finish_one_effect:
  assumes safe: "connector_safe cfg api" and fin: "is_finished s" and r: "dict_get (requests (rn_sched c)) i = Some r"
    and id: "request_id r = i"
  obtains c' where "finish_one cfg api s i c = Inr c'" and "same_queues (rn_sched c) (rn_sched c')"
    and "requests (rn_sched c') = dict_del i (requests (rn_sched c))
      \<or> requests (rn_sched c') = dict_set i (r\<lparr>req_status := s\<rparr>) (requests (rn_sched c))"
    and "set (finished_req_ids (rn_sched c')) = insert i (set (finished_req_ids (rn_sched c)))"
proof -
  let ?r = "r\<lparr>req_status := s\<rparr>"
  define st where "st = (if req_status r = WAITING_FOR_REMOTE_KVS
      then (rn_sched c)\<lparr>finished_recving_kv_req_ids := removeAll i (finished_recving_kv_req_ids (rn_sched c)),
                        failed_recving_kv_req_ids := removeAll i (failed_recving_kv_req_ids (rn_sched c))\<rparr>
      else rn_sched c)"
  have st: "same_queues (rn_sched c) (mutate i (\<lambda>_. ?r) st)" "requests st = requests (rn_sched c)"
    "finished_req_ids (mutate i (\<lambda>_. ?r) st) = finished_req_ids (rn_sched c)"
    by (simp_all add: st_def same_queues_def mutate_def split: option.splits)
  have store: "requests (mutate i (\<lambda>_. ?r) st) = dict_set i ?r (requests (rn_sched c))"
    using r by (simp add: requests_mutate st(2))
  have del: "dict_del i (dict_set i v d) = dict_del i d" for v and d :: "(string, sreq) dict"
    by (induction d) (auto simp: dict_del_def)
  have "is_finished (req_status ?r)" using fin by simp
  then obtain c' where
    "free_request cfg api (req_status r = WAITING_FOR_REMOTE_KVS \<and> i \<notin> set (finished_recving_kv_req_ids (rn_sched c))) ?r
       (c\<lparr>rn_sched := mutate i (\<lambda>_. ?r) st\<rparr>) = Inr c'"
    "same_queues (mutate i (\<lambda>_. ?r) st) (rn_sched c')"
    "requests (rn_sched c') = requests (mutate i (\<lambda>_. ?r) st)
      \<or> requests (rn_sched c') = dict_del i (requests (mutate i (\<lambda>_. ?r) st))"
    "set (finished_req_ids (rn_sched c')) = insert i (set (finished_req_ids (mutate i (\<lambda>_. ?r) st)))"
    by (rule free_request_effect [OF safe, where d = "req_status r = WAITING_FOR_REMOTE_KVS \<and> i \<notin> set (finished_recving_kv_req_ids (rn_sched c))"
          and c = "c\<lparr>rn_sched := mutate i (\<lambda>_. ?r) st\<rparr>"]) (simp add: id del: mutate_frame)
  then show thesis
    using st store r del by (intro that [of c']) (auto simp: finish_one_def Let_def st_def same_queues_def)
qed

lemma leave_queues_inv:
  assumes laws: "queue_laws api" and inv: "queue_inv st" and valid: "distinct valid" "\<forall>i \<in> set valid. unfinished st i"
  shows "queue_inv_except (set valid) (leave_queues api valid st)"
    and "requests (leave_queues api valid st) = requests st"
    and "finished_req_ids (leave_queues api valid st) = finished_req_ids st"
proof -
  let ?st = "leave_queues api valid st"
  let ?run = "filter (status_is RUNNING st) valid" and ?wait = "filter (\<lambda>i. \<not> status_is RUNNING st i) valid"
  have R: "running ?st = filter (\<lambda>i. i \<notin> set ?run) (running st)"
  proof (cases "?run = []")
    case True
    have "filter (\<lambda>i. i \<notin> set ?run) (running st) = running st" unfolding True by simp
    moreover have "running ?st = running st" using True by (simp add: leave_queues_def Let_def)
    ultimately show ?thesis by (simp only:)
  qed (simp add: leave_queues_def Let_def list_remove_all_eq [OF laws])
  have W: "set (waiting ?st) = set (waiting st) - set ?wait" "set (skipped_waiting ?st) = set (skipped_waiting st) - set ?wait"
    "distinct (waiting st) \<Longrightarrow> distinct (waiting ?st)" "distinct (skipped_waiting st) \<Longrightarrow> distinct (skipped_waiting ?st)"
    using queue_sets(3,6) [OF laws] by (auto simp: leave_queues_def Let_def filter_empty_conv)
  show req: "requests ?st = requests st" and "finished_req_ids ?st = finished_req_ids st"
    by (simp_all add: leave_queues_def Let_def)
  have same: "with_status P ?st = with_status P st" for P by (rule with_status_cong [OF req])
  note I = inv [unfolded queue_inv_def queue_inv_except_def]
  have run: "i \<in> with_status (\<lambda>s. s = RUNNING) st \<longleftrightarrow> status_is RUNNING st i" for i
    by (auto simp: with_status_def status_is_def split: option.splits)
  have wait: "status_is RUNNING st i \<Longrightarrow> i \<notin> with_status waiting_status st" for i
    by (auto simp: with_status_def waiting_status_def status_is_def)
  have "set (running ?st) = with_status (\<lambda>s. s = RUNNING) ?st - set valid"
    using I by (auto simp: R same run)
  moreover have "set (queued ?st) = with_status waiting_status ?st - set valid"
  proof -
    have "set (queued ?st) = set (queued st) - set ?wait" using W(1,2) by (auto simp: queued_def)
    moreover have "set (queued st) = with_status waiting_status st" using I by simp
    ultimately show ?thesis using wait by (auto simp: same)
  qed
  moreover have "num_waiting_for_streaming_input ?st
      = int (card (with_status (\<lambda>s. s = WAITING_FOR_STREAMING_REQ) ?st - set valid))"
  proof -
    let ?S = "with_status (\<lambda>s. s = WAITING_FOR_STREAMING_REQ) st"
    have "num_waiting_for_streaming_input ?st
        = num_waiting_for_streaming_input st - int (length (filter (status_is WAITING_FOR_STREAMING_REQ st) valid))"
      by (simp add: leave_queues_def Let_def)
    moreover have "length (filter (status_is WAITING_FOR_STREAMING_REQ st) valid) = card (?S \<inter> set valid)"
    proof -
      have "set (filter (status_is WAITING_FOR_STREAMING_REQ st) valid) = ?S \<inter> set valid"
        by (auto simp: with_status_def status_is_def split: option.splits)
      then show ?thesis using distinct_card [of "filter (status_is WAITING_FOR_STREAMING_REQ st) valid"] valid(1) by simp
    qed
    moreover have "card (?S - set valid) = card ?S - card (?S \<inter> set valid)" by (rule card_Diff_subset_Int) simp
    moreover have "card (?S \<inter> set valid) \<le> card ?S" by (intro card_mono) auto
    ultimately show ?thesis using I by (simp add: same of_nat_diff)
  qed
  moreover have "distinct (queued ?st)" using I W by (auto simp: queued_def)
  moreover have "distinct (running ?st)" using I by (simp add: R)
  ultimately show "queue_inv_except (set valid) ?st" using I by (simp add: queue_inv_except_def req)
qed

text \<open>The second pass of \<^verbatim>\<open>finish_requests\<close> settles one request after the other.\<close>

definition settled :: "sched \<Rightarrow> status \<Rightarrow> string \<Rightarrow> sched \<Rightarrow> bool" where
  "settled st s i st' \<longleftrightarrow>
     i \<in> set (finished_req_ids st')
   \<and> (dict_get (requests st') i = None
      \<or> dict_get (requests st') i = map_option (\<lambda>r. r\<lparr>req_status := s\<rparr>) (dict_get (requests st) i))"

lemma finish_fold:
  assumes safe: "connector_safe cfg api" and fin: "is_finished s"
  shows "distinct valid \<Longrightarrow> \<forall>i \<in> set valid. dict_get (requests (rn_sched c)) i \<noteq> None
    \<Longrightarrow> queue_inv_except (set valid) (rn_sched c)
    \<Longrightarrow> \<exists>c'. foldE (finish_one cfg api s) valid c = Inr c' \<and> queue_inv (rn_sched c')
        \<and> (\<forall>i \<in> set valid. settled (rn_sched c) s i (rn_sched c'))
        \<and> (\<forall>i. i \<notin> set valid \<longrightarrow> dict_get (requests (rn_sched c')) i = dict_get (requests (rn_sched c)) i)
        \<and> set (finished_req_ids (rn_sched c)) \<subseteq> set (finished_req_ids (rn_sched c'))"
proof (induction valid arbitrary: c)
  case Nil
  then show ?case by (simp add: queue_inv_def)
next
  case (Cons i valid)
  then obtain r where r: "dict_get (requests (rn_sched c)) i = Some r" by auto
  with Cons.prems(3) have id: "request_id r = i" by (simp add: queue_inv_except_def)
  obtain c1 where c1: "finish_one cfg api s i c = Inr c1" and q: "same_queues (rn_sched c) (rn_sched c1)"
    and req: "requests (rn_sched c1) = dict_del i (requests (rn_sched c))
      \<or> requests (rn_sched c1) = dict_set i (r\<lparr>req_status := s\<rparr>) (requests (rn_sched c))"
    and done1: "set (finished_req_ids (rn_sched c1)) = insert i (set (finished_req_ids (rn_sched c)))"
    by (rule finish_one_effect [OF safe fin r id])
  have get: "dict_get (requests (rn_sched c1)) j = dict_get (requests (rn_sched c)) j" if "j \<noteq> i" for j
    using req that by (auto simp: dict_get_del dict_get_set)
  have geti: "dict_get (requests (rn_sched c1)) i = None \<or> dict_get (requests (rn_sched c1)) i = Some (r\<lparr>req_status := s\<rparr>)"
    using req by (auto simp: dict_get_del dict_get_set)
  have inv: "queue_inv_except (set valid) (rn_sched c1)"
  proof (rule queue_inv_settle [OF _ q])
    show "queue_inv_except (insert i (set valid)) (rn_sched c)" using Cons.prems(3) by simp
    show "requests (rn_sched c1) = dict_del i (requests (rn_sched c))
        \<or> (\<exists>r. requests (rn_sched c1) = dict_set i r (requests (rn_sched c)) \<and> request_id r = i \<and> is_finished (req_status r))"
      using req id fin by (auto intro: exI [of _ "r\<lparr>req_status := s\<rparr>"])
  qed
  have "distinct valid" "i \<notin> set valid" "\<forall>j \<in> set valid. dict_get (requests (rn_sched c1)) j \<noteq> None"
    using Cons.prems(1,2) get by (auto, metis)
  from Cons.IH [OF this(1,3) inv] obtain c' where c': "foldE (finish_one cfg api s) valid c1 = Inr c'" "queue_inv (rn_sched c')"
    "\<forall>j \<in> set valid. settled (rn_sched c1) s j (rn_sched c')"
    "\<forall>j. j \<notin> set valid \<longrightarrow> dict_get (requests (rn_sched c')) j = dict_get (requests (rn_sched c1)) j"
    "set (finished_req_ids (rn_sched c1)) \<subseteq> set (finished_req_ids (rn_sched c'))" by blast
  have "settled (rn_sched c) s i (rn_sched c')"
    using c'(4,5) done1 geti r \<open>i \<notin> set valid\<close> by (auto simp: settled_def)
  moreover have "settled (rn_sched c) s j (rn_sched c')" if "j \<in> set valid" for j
    using c'(3) that get \<open>i \<notin> set valid\<close> by (metis settled_def)
  ultimately show ?case using c' c1 get done1 by (intro exI [of _ c']) (auto simp del: not_None_eq)
qed

lemma finish_requests_effect:
  assumes laws: "queue_laws api" and safe: "connector_safe cfg api" and inv: "queue_inv (rn_sched c)" and fin: "is_finished s"
  shows "\<exists>valid c'. finish_requests cfg api ids s c = Inr (valid, c')
    \<and> distinct valid
    \<and> set valid = {i. unfinished (rn_sched c) i \<and> (case ids of None \<Rightarrow> True | Some is \<Rightarrow> i \<in> set is)}
    \<and> queue_inv (rn_sched c')
    \<and> (\<forall>i \<in> set valid. settled (rn_sched c) s i (rn_sched c')
        \<and> i \<notin> set (running (rn_sched c')) \<and> i \<notin> set (queued (rn_sched c')))
    \<and> (\<forall>i. i \<notin> set valid \<longrightarrow> dict_get (requests (rn_sched c')) i = dict_get (requests (rn_sched c)) i)"
proof -
  let ?st = "rn_sched c"
  define named where "named = (case ids of None \<Rightarrow> dict_keys (requests ?st) | Some is \<Rightarrow> remdups is)"
  define valid where "valid = filter (unfinished ?st) named"
  have keys: "unfinished ?st i \<Longrightarrow> i \<in> set (dict_keys (requests ?st))" for i
    using dict_get_eq_None [of "requests ?st" i] by (auto simp: unfinished_def split: option.splits)
  have valid: "distinct valid" "\<forall>i \<in> set valid. unfinished ?st i"
    using inv by (auto simp: valid_def named_def queue_inv_def queue_inv_except_def split: option.splits)
  have sets: "set valid = {i. unfinished ?st i \<and> (case ids of None \<Rightarrow> True | Some is \<Rightarrow> i \<in> set is)}"
    using keys by (auto simp: valid_def named_def split: option.splits)
  note left = leave_queues_inv [OF laws inv valid]
  have "\<forall>i \<in> set valid. dict_get (requests (leave_queues api valid ?st)) i \<noteq> None"
    using valid(2) by (auto simp: left(2) unfinished_def split: option.splits)
  with finish_fold [OF safe fin valid(1), of "c\<lparr>rn_sched := leave_queues api valid ?st\<rparr>"] left obtain c' where c':
    "foldE (finish_one cfg api s) valid (c\<lparr>rn_sched := leave_queues api valid ?st\<rparr>) = Inr c'" "queue_inv (rn_sched c')"
    "\<forall>i \<in> set valid. settled ?st s i (rn_sched c')"
    "\<forall>i. i \<notin> set valid \<longrightarrow> dict_get (requests (rn_sched c')) i = dict_get (requests ?st) i"
    by (auto simp: settled_def)
  have "finish_requests cfg api ids s c = Inr (valid, c')"
    using fin c'(1) by (simp add: finish_requests_def Let_def flip: named_def valid_def)
  moreover have "i \<notin> set (running (rn_sched c')) \<and> i \<notin> set (queued (rn_sched c'))" if "i \<in> set valid" for i
  proof -
    note in_valid = that
    have "req_status q = s" if q: "dict_get (requests (rn_sched c')) i = Some q" for q
      using bspec [OF c'(3) in_valid] q by (cases "dict_get (requests ?st) i") (auto simp: settled_def)
    then have "i \<notin> with_status (\<lambda>s. s = RUNNING) (rn_sched c')" "i \<notin> with_status waiting_status (rn_sched c')"
      using fin by (auto simp: with_status_def waiting_status_def is_finished_def)
    then show ?thesis using c'(2) by (simp add: queue_inv_def queue_inv_except_def)
  qed
  ultimately show ?thesis using c' sets valid(1) by blast
qed

text \<open>C5: finishing requests from outside always succeeds, whatever their state. It reports exactly the
  unfinished ones among those named; each of them is announced as finished and is either gone or kept
  with the final status until its transfer ends; no other request changes; and afterwards every
  unfinished request stands in exactly one queue again.\<close>

theorem finish_requests_settles:
  assumes laws: "queue_laws api" and safe: "connector_safe cfg api" and inv: "queue_inv (rn_sched c)" and fin: "is_finished s"
  shows "\<exists>valid c'. finish_requests cfg api ids s c = Inr (valid, c')
    \<and> distinct valid
    \<and> set valid = {i. unfinished (rn_sched c) i \<and> (case ids of None \<Rightarrow> True | Some is \<Rightarrow> i \<in> set is)}
    \<and> queue_inv (rn_sched c')
    \<and> (\<forall>i \<in> set valid. settled (rn_sched c) s i (rn_sched c')
        \<and> i \<notin> set (running (rn_sched c')) \<and> i \<notin> set (queued (rn_sched c')))
    \<and> (\<forall>i. i \<notin> set valid \<longrightarrow> dict_get (requests (rn_sched c')) i = dict_get (requests (rn_sched c)) i)"
  by (rule finish_requests_effect [OF assms])

subsection \<open>Moving one request\<close>

text \<open>\<open>queue_inv_lift\<close> takes a request out of the queues, \<open>queue_inv_place\<close> puts it back with a new object.\<close>

lemma queue_inv_lift:
  assumes inv: "queue_inv_except V st" and req: "requests st' = requests st"
    and run: "distinct (running st')" "set (running st') = set (running st) - {i}"
    and wait: "distinct (queued st')" "set (queued st') = set (queued st) - {i}"
    and num: "num_waiting_for_streaming_input st'
      = num_waiting_for_streaming_input st - (if i \<in> with_status (\<lambda>s. s = WAITING_FOR_STREAMING_REQ) st - V then 1 else 0)"
  shows "queue_inv_except (insert i V) st'"
proof -
  have same: "with_status P st' = with_status P st" for P by (rule with_status_cong [OF req])
  let ?S = "with_status (\<lambda>s. s = WAITING_FOR_STREAMING_REQ) st - V"
  have diff: "X - insert i V = X - V - {i}" for X by blast
  have "int (card (?S - {i})) = int (card ?S) - (if i \<in> ?S then 1 else 0)"
    using card_Diff_singleton_if [of ?S i] card_gt_0_iff [of ?S] by auto
  with assms show ?thesis by (simp add: queue_inv_except_def same diff)
qed

lemma queue_inv_place:
  assumes inv: "queue_inv_except (insert i V) st" and new: "i \<notin> V"
    and req: "requests st' = dict_set i r (requests st)" and id: "request_id r = i"
    and run: "distinct (running st')" "set (running st') = set (running st) \<union> (if req_status r = RUNNING then {i} else {})"
    and wait: "distinct (queued st')" "set (queued st') = set (queued st) \<union> (if waiting_status (req_status r) then {i} else {})"
    and num: "num_waiting_for_streaming_input st'
      = num_waiting_for_streaming_input st + (if req_status r = WAITING_FOR_STREAMING_REQ then 1 else 0)"
  shows "queue_inv_except V st'"
proof -
  have W: "with_status P st' - V = (with_status P st - insert i V) \<union> (if P (req_status r) then {i} else {})" for P
    using new by (auto simp: with_status_set [OF req])
  have "card (with_status P st' - V) = card (with_status P st - insert i V) + (if P (req_status r) then 1 else 0)" for P
    by (simp add: W)
  moreover have "\<forall>j q. dict_get (requests st') j = Some q \<longrightarrow> request_id q = j" "distinct (dict_keys (requests st'))"
    using inv id by (auto simp: queue_inv_except_def req dict_get_set dict_set_distinct split: if_splits)
  ultimately show ?thesis using inv run wait num by (simp add: queue_inv_except_def W)
qed

lemma queue_inv_absent:
  assumes "queue_inv_except V st" and "dict_get (requests st) i = None"
  shows "queue_inv_except (insert i V) st"
proof (rule queue_inv_lift [OF assms(1) refl])
  have "i \<notin> with_status P st" for P using assms(2) by (simp add: with_status_def)
  then show "set (running st) = set (running st) - {i}" "set (queued st) = set (queued st) - {i}"
    "num_waiting_for_streaming_input st
      = num_waiting_for_streaming_input st - (if i \<in> with_status (\<lambda>s. s = WAITING_FOR_STREAMING_REQ) st - V then 1 else 0)"
    using assms(1) by (auto simp: queue_inv_except_def)
qed (use assms(1) in \<open>simp_all add: queue_inv_except_def\<close>)

text \<open>A request in no queue and with no status to count can be left out.\<close>

lemma queue_inv_drop:
  assumes "queue_inv_except V st" and "dict_get (requests st) i = Some r" and "is_finished (req_status r)"
  shows "queue_inv_except (insert i V) st"
proof (rule queue_inv_lift [OF assms(1) refl])
  have "i \<notin> with_status (\<lambda>s. s = RUNNING) st" "i \<notin> with_status waiting_status st"
    "i \<notin> with_status (\<lambda>s. s = WAITING_FOR_STREAMING_REQ) st"
    using assms(2,3) by (auto simp: with_status_def waiting_status_def is_finished_def)
  then show "set (running st) = set (running st) - {i}" "set (queued st) = set (queued st) - {i}"
    "num_waiting_for_streaming_input st
      = num_waiting_for_streaming_input st - (if i \<in> with_status (\<lambda>s. s = WAITING_FOR_STREAMING_REQ) st - V then 1 else 0)"
    using assms(1) by (auto simp: queue_inv_except_def)
qed (use assms(1) in \<open>simp_all add: queue_inv_except_def\<close>)

text \<open>An object that keeps its status keeps its place.\<close>

lemma queue_inv_update:
  assumes inv: "queue_inv_except V st" and q: "same_queues st st'"
    and old: "dict_get (requests st) i = Some r"
    and req: "requests st' = dict_set i r' (requests st)" and id: "request_id r' = request_id r"
    and status: "req_status r' = req_status r"
  shows "queue_inv_except V st'"
proof -
  have W: "with_status P st' = with_status P st" for P
    using old status by (auto simp: with_status_set [OF req] with_status_iff [OF old])
  have "\<forall>j q. dict_get (requests st') j = Some q \<longrightarrow> request_id q = j" "distinct (dict_keys (requests st'))"
    using inv old id by (auto simp: queue_inv_except_def req dict_get_set dict_set_distinct split: if_splits)
  with inv q show ?thesis by (simp add: queue_inv_except_def same_queues_def W queued_def)
qed

lemma enqueue_effect:
  assumes laws: "queue_laws api" and "request_id r \<notin> set (queued st)" and "distinct (queued st)"
  defines "st' \<equiv> enqueue_waiting_request api r st"
  shows "distinct (queued st')" and "set (queued st') = insert (request_id r) (set (queued st))"
    and "running st' = running st" and "requests st' = requests st"
    and "num_waiting_for_streaming_input st' = num_waiting_for_streaming_input st"
  using assms(2,3) by (auto simp: st'_def enqueue_waiting_request_def queued_def queue_sets [OF laws])

subsection \<open>Sessions and admission keep the queues\<close>

lemma session_next_fields:
  assumes "session_next upd r = Inr r'"
  shows "request_id r' = request_id r" and "req_status r' = WAITING" and "last_sched_seq r' = last_sched_seq r"
  using assms by (auto simp: session_next_def Let_def split: option.splits)

lemma update_request_as_session_inv:
  assumes inv: "queue_inv st" and r: "dict_get (requests st) i = Some r" and s: "req_status r = WAITING_FOR_STREAMING_REQ"
    and upd: "update_request_as_session i upd st = Inr st'"
  shows "queue_inv st'"
proof -
  note I = inv [unfolded queue_inv_def queue_inv_except_def]
  from upd r s obtain r' where r': "session_next upd r = Inr r'"
    and st': "st' = mutate i (\<lambda>_. r') (st\<lparr>num_waiting_for_streaming_input := num_waiting_for_streaming_input st - 1\<rparr>)"
    by (auto simp: update_request_as_session_def bindE_eq_Inr)
  let ?st = "st\<lparr>waiting := removeAll i (waiting st), skipped_waiting := removeAll i (skipped_waiting st),
    num_waiting_for_streaming_input := num_waiting_for_streaming_input st - 1\<rparr>"
  have i: "i \<in> set (queued st)" "i \<notin> set (running st)" "request_id r = i"
    using I r s by (auto simp: with_status_def waiting_status_def is_finished_def)
  have lifted: "queue_inv_except {i} ?st"
  proof (rule queue_inv_lift [OF inv [unfolded queue_inv_def]])
    show "num_waiting_for_streaming_input ?st = num_waiting_for_streaming_input st
        - (if i \<in> with_status (\<lambda>s. s = WAITING_FOR_STREAMING_REQ) st - {} then 1 else 0)"
      using r s by (simp add: with_status_def)
  qed (use I i(2) in \<open>auto simp: queued_def distinct_removeAll\<close>)
  have "queue_inv_except {} st'"
  proof (rule queue_inv_place [OF lifted])
    show "requests st' = dict_set i r' (requests ?st)" using r by (simp add: st' requests_mutate)
    show "request_id r' = i" using session_next_fields [OF r'] i by simp
    show "set (queued st') = set (queued ?st) \<union> (if waiting_status (req_status r') then {i} else {})"
      using session_next_fields [OF r'] i by (auto simp: st' queued_def waiting_status_def is_finished_def)
  qed (use session_next_fields [OF r'] I in \<open>auto simp: st' queued_def\<close>)
  then show ?thesis by (simp add: queue_inv_def)
qed

definition connector_notified :: "('k, 'e) life_api \<Rightarrow> sreq \<Rightarrow> 'k \<Rightarrow> 'k" where
  "connector_notified api r k = (case kv_connector api of NoConn \<Rightarrow> k | _ \<Rightarrow> kv_on_new_request api r k)"

lemma add_new_request:
  assumes laws: "queue_laws api" and inv: "queue_inv (rn_sched c)" and new: "dict_get (requests (rn_sched c)) (request_id r) = None"
    and status: "req_status r \<in> {WAITING, WAITING_FOR_STRUCTURED_OUTPUT_GRAMMAR}"
  obtains c' r' where "add_request cfg api r c = Inr c'" and "queue_inv (rn_sched c')"
    and "dict_get (requests (rn_sched c')) (request_id r) = Some r'" and "req_status r' = req_status r"
    and "request_id r \<in> set (if req_status r = WAITING then waiting (rn_sched c') else skipped_waiting (rn_sched c'))"
proof -
  let ?st = "rn_sched c" and ?i = "request_id r"
  define r' where "r' = (if resumable r then r\<lparr>streaming_queue := Some []\<rparr> else r)"
  define e where "e = enqueue_waiting_request api r' ?st"
  define c' where "c' = c\<lparr>rn_sched := e\<lparr>requests := dict_set ?i r' (requests e)\<rparr>, rn_kv := connector_notified api r' (rn_kv c)\<rparr>"
  have r': "request_id r' = ?i" "req_status r' = req_status r" by (simp_all add: r'_def)
  have add: "add_request cfg api r c = Inr c'"
    using new by (simp add: add_request_def Let_def c'_def e_def r'_def connector_notified_def)
  note lifted = queue_inv_absent [OF inv [unfolded queue_inv_def] new]
  have out: "?i \<notin> set (queued ?st)" "distinct (queued ?st)"
    using inv new by (auto simp: queue_inv_def queue_inv_except_def with_status_def)
  note E = enqueue_effect [OF laws, of r' ?st, unfolded r', OF out, folded e_def]
  have ws: "waiting_status (req_status r)" "req_status r \<noteq> RUNNING" "req_status r \<noteq> WAITING_FOR_STREAMING_REQ"
    using status by (auto simp: waiting_status_def is_finished_def)
  have "queue_inv_except {} (rn_sched c')"
  proof (rule queue_inv_place [OF lifted])
    have q: "queued (rn_sched c') = queued e" by (simp add: c'_def queued_def)
    show "distinct (queued (rn_sched c'))" using E(1) by (simp add: q)
    show "set (queued (rn_sched c')) = set (queued ?st) \<union> (if waiting_status (req_status r') then {?i} else {})"
      using E(2) r' ws by (simp add: q)
  qed (use E(3-5) r' ws inv in \<open>simp_all add: c'_def queue_inv_def queue_inv_except_def\<close>)
  moreover have "?i \<in> set (if req_status r = WAITING then waiting (rn_sched c') else skipped_waiting (rn_sched c'))"
    using status r' by (auto simp: c'_def e_def enqueue_waiting_request_def is_blocked_waiting_status_def queue_sets [OF laws])
  ultimately show thesis
    using add r' by (intro that [of c' r']) (simp_all add: queue_inv_def c'_def dict_get_set)
qed

text \<open>C6: admission keeps every unfinished request in exactly one queue, on every path: a new request is stored
  and enters the queue of its status, a further chunk of a session is queued or resumes the session,
  an end marker finishes it. It fails only on a duplicate identifier of a request that takes no input
  chunks, and for a session without prompt tokens.\<close>

theorem add_request_keeps_queues:
  assumes laws: "queue_laws api" and safe: "connector_safe cfg api" and inv: "queue_inv (rn_sched c)"
    and status: "req_status r \<in> {WAITING, WAITING_FOR_STRUCTURED_OUTPUT_GRAMMAR}"
  shows "case add_request cfg api r c of
      Inr c' \<Rightarrow> queue_inv (rn_sched c')
        \<and> (dict_get (requests (rn_sched c)) (request_id r) = None
            \<longrightarrow> request_id r \<in> set (if req_status r = WAITING then waiting (rn_sched c') else skipped_waiting (rn_sched c')))
    | Inl e \<Rightarrow> (\<exists>q. dict_get (requests (rn_sched c)) (request_id r) = Some q
        \<and> (e = DuplicateRequest (request_id r) \<and> streaming_queue q = None
          \<or> e = NoPrompt (request_id r) \<and> prompt_token_ids q = None))"
proof (cases "dict_get (requests (rn_sched c)) (request_id r)")
  case None
  obtain c' r' where "add_request cfg api r c = Inr c'" "queue_inv (rn_sched c')"
    "request_id r \<in> set (if req_status r = WAITING then waiting (rn_sched c') else skipped_waiting (rn_sched c'))"
    by (rule add_new_request [OF laws inv None status])
  then show ?thesis by simp
next
  case (Some q)
  let ?i = "request_id r" and ?st = "rn_sched c"
  have qi: "request_id q = ?i" using inv Some by (simp add: queue_inv_def queue_inv_except_def)
  show ?thesis
  proof (cases "req_status q = WAITING_FOR_STREAMING_REQ")
    case False
    show ?thesis
    proof (cases "streaming_queue q")
      case (Some us)
      let ?st' = "mutate ?i (\<lambda>q. q\<lparr>streaming_queue := Some (us @ [streaming_update_of api r])\<rparr>) ?st"
      have "queue_inv_except {} ?st'"
        by (rule queue_inv_update [OF inv [unfolded queue_inv_def] _ \<open>dict_get (requests ?st) ?i = Some q\<close>,
              where r' = "q\<lparr>streaming_queue := Some (us @ [streaming_update_of api r])\<rparr>"])
          (use \<open>dict_get (requests ?st) ?i = Some q\<close> in \<open>simp_all add: requests_mutate same_queues_def\<close>)
      then show ?thesis using False Some \<open>dict_get (requests ?st) ?i = Some q\<close> by (simp add: add_request_def Let_def queue_inv_def)
    qed (use False Some in \<open>simp add: add_request_def Let_def\<close>)
  next
    case streaming: True
    show ?thesis
    proof (cases "streaming_update_of api r")
      case None
      obtain v c' where "finish_requests cfg api (Some [?i]) FINISHED_ABORTED c = Inr (v, c')" "queue_inv (rn_sched c')"
        using finish_requests_effect [OF laws safe inv, of FINISHED_ABORTED "Some [?i]"] by (auto simp: is_finished_def)
      then show ?thesis using streaming None Some by (simp add: add_request_def Let_def)
    next
      case (Some u)
      show ?thesis
      proof (cases "update_request_as_session ?i u ?st")
        case (Inl e)
        then show ?thesis
          using streaming Some qi \<open>dict_get (requests ?st) ?i = Some q\<close>
          by (auto simp: add_request_def Let_def update_request_as_session_def session_next_def bindE_eq_Inl split: option.splits)
      next
        case (Inr st')
        with update_request_as_session_inv [OF inv \<open>dict_get (requests ?st) ?i = Some q\<close> streaming Inr]
        show ?thesis using streaming Some \<open>dict_get (requests ?st) ?i = Some q\<close> by (simp add: add_request_def Let_def)
      qed
    qed
  qed
qed

subsection \<open>The counters\<close>

lemma queue_inv_disjoint: "queue_inv st \<Longrightarrow> set (running st) \<inter> set (queued st) = {}"
  by (auto simp: queue_inv_def queue_inv_except_def with_status_def waiting_status_def)

lemma queue_inv_running:
  assumes "queue_inv st" and "i \<in> set (running st)"
  shows "\<exists>r. dict_get (requests st) i = Some r \<and> request_id r = i \<and> req_status r = RUNNING"
  using assms by (auto simp: queue_inv_def queue_inv_except_def with_status_def)

lemma queue_inv_lengths:
  assumes "queue_inv st"
  shows "length (running st) = card (with_status (\<lambda>s. s = RUNNING) st)"
    and "length (queued st) = card (with_status waiting_status st)"
  using assms distinct_card [of "running st"] distinct_card [of "queued st"] by (simp_all add: queue_inv_def queue_inv_except_def)

text \<open>While the queues are consistent, the count the engine polls is the number of stored requests that are
  neither finished nor waiting for their next input chunk, so it is never negative.\<close>

theorem unfinished_count_exact:
  assumes inv: "queue_inv st" and "sched_pause_state st = UNPAUSED"
  shows "get_num_unfinished_requests st
    = int (card {i. unfinished st i \<and> \<not> status_is WAITING_FOR_STREAMING_REQ st i})"
proof -
  note I = inv [unfolded queue_inv_def queue_inv_except_def, simplified]
  let ?R = "with_status (\<lambda>s. s = RUNNING) st" and ?W = "with_status waiting_status st"
    and ?S = "with_status (\<lambda>s. s = WAITING_FOR_STREAMING_REQ) st"
  have sub: "?S \<subseteq> ?W" by (auto simp: with_status_def waiting_status_def is_finished_def)
  have "{i. unfinished st i \<and> \<not> status_is WAITING_FOR_STREAMING_REQ st i} = ?R \<union> (?W - ?S)"
    by (auto simp: unfinished_def status_is_def with_status_def waiting_status_def is_finished_def split: option.splits)
  also have "card \<dots> = card ?R + card (?W - ?S)"
    by (rule card_Un_disjoint, simp, simp, auto simp: with_status_def waiting_status_def)
  also have "card (?W - ?S) = card ?W - card ?S" using sub by (simp add: card_Diff_subset)
  finally have "int (card {i. unfinished st i \<and> \<not> status_is WAITING_FOR_STREAMING_REQ st i})
      = int (card ?R) + (int (card ?W) - int (card ?S))"
    using card_mono [OF _ sub] by (simp add: of_nat_diff)
  then show ?thesis
    using assms(2) I queue_inv_lengths [OF inv] by (simp add: get_num_unfinished_requests_def queued_def)
qed

subsection \<open>Resetting the prefix cache\<close>

lemma preempt_request_queues:
  assumes laws: "queue_laws api" and inv: "queue_inv (rn_sched c)" and i_run: "i \<in> set (running (rn_sched c))"
    and run: "distinct xs" "set xs = set (running (rn_sched c)) - {i}"
    and r: "dict_get (requests (rn_sched c)) i = Some r"
  obtains c' where
    "preempt_request cfg (base_api (blocks api)) d r (c\<lparr>rn_sched := (rn_sched c)\<lparr>running := xs\<rparr>\<rparr>) = Inr c'"
    and "queue_inv (rn_sched c')" and "running (rn_sched c') = xs"
    and "waiting (rn_sched c') = queue_prepend (base_api (blocks api)) (preempted d r) (waiting (rn_sched c))"
    and "requests (rn_sched c') = dict_set i (preempted d r) (requests (rn_sched c))"
proof -
  note I = inv [unfolded queue_inv_def queue_inv_except_def, simplified]
  let ?st = "(rn_sched c)\<lparr>running := xs\<rparr>"
  have i: "request_id r = i" "req_status r = RUNNING" using queue_inv_running [OF inv, of i] r i_run by auto
  have out: "i \<notin> set xs" "i \<notin> set (queued (rn_sched c))" using run i_run queue_inv_disjoint [OF inv] by auto
  have lifted: "queue_inv_except {i} ?st"
    by (rule queue_inv_lift [OF inv [unfolded queue_inv_def]]) (use I run out i r in \<open>auto simp: queued_def with_status_def\<close>)
  define f where "f = free_request_blocks cfg (base_api (blocks api)) r (c\<lparr>rn_sched := ?st\<rparr>)"
  have f: "rn_sched f = ?st" by (simp add: f_def free_request_blocks_sched)
  obtain c' where c': "preempt_request cfg (base_api (blocks api)) d r (c\<lparr>rn_sched := ?st\<rparr>) = Inr c'"
    using i by (simp add: preempt_request_def Let_def)
  then have st': "rn_sched c' = (mutate i (\<lambda>_. preempted d r) ?st)
      \<lparr>inflight_prefills := removeAll i (inflight_prefills (mutate i (\<lambda>_. preempted d r) ?st)),
       waiting := queue_prepend (base_api (blocks api)) (preempted d r) (waiting ?st),
       reset_preempted_req_ids := List.insert i (reset_preempted_req_ids (mutate i (\<lambda>_. preempted d r) ?st))\<rparr>"
    using i by (auto simp: preempt_request_def Let_def free_request_blocks_sched)
  have pid: "request_id (preempted d r) = i" "req_status (preempted d r) = PREEMPTED" by (simp_all add: preempted_def i)
  have req: "requests (rn_sched c') = dict_set i (preempted d r) (requests ?st)" using r by (simp add: st' requests_mutate)
  have "queue_inv_except {} (rn_sched c')"
    by (rule queue_inv_place [OF lifted _ req pid(1)])
      (use I run out pid in \<open>auto simp: st' queued_def queue_sets [OF laws] waiting_status_def is_finished_def\<close>)
  then show thesis using c' req by (intro that [of c']) (simp_all add: queue_inv_def st')
qed

lemma preempt_all_effect:
  assumes laws: "queue_laws api" and fcfs: "\<And>r q. queue_prepend (base_api (blocks api)) r q = request_id r # q"
  shows "queue_inv (rn_sched c) \<Longrightarrow> running (rn_sched c) = xs
    \<Longrightarrow> \<exists>c'. preempt_all cfg api (rev xs) c = Inr c' \<and> queue_inv (rn_sched c') \<and> running (rn_sched c') = []
        \<and> waiting (rn_sched c') = xs @ waiting (rn_sched c)
        \<and> (\<forall>i. dict_get (requests (rn_sched c')) i
             = (if i \<in> set xs then map_option (preempted True) (dict_get (requests (rn_sched c)) i)
                else dict_get (requests (rn_sched c)) i))"
proof (induction xs arbitrary: c rule: rev_induct)
  case (snoc i xs)
  note I = snoc.prems(1) [unfolded queue_inv_def queue_inv_except_def, simplified]
  from queue_inv_running [OF snoc.prems(1), of i] snoc.prems(2) obtain r where
    r: "dict_get (requests (rn_sched c)) i = Some r" "request_id r = i" by auto
  obtain c1 where c1: "preempt_request cfg (base_api (blocks api)) True r (c\<lparr>rn_sched := (rn_sched c)\<lparr>running := xs\<rparr>\<rparr>) = Inr c1"
    "queue_inv (rn_sched c1)" "running (rn_sched c1) = xs"
    "waiting (rn_sched c1) = queue_prepend (base_api (blocks api)) (preempted True r) (waiting (rn_sched c))"
    "requests (rn_sched c1) = dict_set i (preempted True r) (requests (rn_sched c))"
    by (rule preempt_request_queues [OF laws snoc.prems(1) _ _ _ r(1), of xs]) (use I snoc.prems(2) in auto)
  from snoc.IH [OF c1(2,3)] obtain c' where c': "preempt_all cfg api (rev xs) c1 = Inr c'" "queue_inv (rn_sched c')"
    "running (rn_sched c') = []" "waiting (rn_sched c') = xs @ waiting (rn_sched c1)"
    "\<forall>j. dict_get (requests (rn_sched c')) j = (if j \<in> set xs then map_option (preempted True) (dict_get (requests (rn_sched c1)) j)
       else dict_get (requests (rn_sched c1)) j)" by blast
  have "i \<notin> set xs" using I snoc.prems(2) by auto
  moreover have "preempt_all cfg api (rev (xs @ [i])) c = Inr c'" using snoc.prems(2) r c1(1) c'(1) by (simp add: Let_def)
  ultimately show ?case
    using c' c1(4,5) r by (intro exI [of _ c']) (auto simp: fcfs preempted_def dict_get_set)
qed simp

text \<open>A reset that takes the running requests along puts all of them at the front of the waiting queue in
  their order, each with no computed tokens and with its output in flight marked to be dropped; no
  request is lost and no other changes. It fails only if the cache itself refuses the reset.\<close>

theorem reset_preempts_in_order:
  assumes laws: "queue_laws api" and fcfs: "\<And>r q. queue_prepend (base_api (blocks api)) r q = request_id r # q"
    and inv: "queue_inv (rn_sched c)"
  shows "case reset_prefix_cache cfg api True reset_connector c of
      Inl e \<Rightarrow> e = ResetFailed
    | Inr (b, c') \<Rightarrow> queue_inv (rn_sched c') \<and> running (rn_sched c') = []
        \<and> waiting (rn_sched c') = running (rn_sched c) @ waiting (rn_sched c)
        \<and> (\<forall>i \<in> set (running (rn_sched c)). \<exists>r. dict_get (requests (rn_sched c')) i = Some r
             \<and> req_status r = PREEMPTED \<and> num_computed_tokens r = 0 \<and> drop_stale_output r
             \<and> num_stale_output_tokens r = num_in_flight_tokens r)
        \<and> (\<forall>i. i \<notin> set (running (rn_sched c)) \<longrightarrow> dict_get (requests (rn_sched c')) i = dict_get (requests (rn_sched c)) i)"
proof -
  let ?st = "rn_sched c"
  obtain c1 where c1: "preempt_all cfg api (rev (running ?st)) c = Inr c1" "queue_inv (rn_sched c1)"
    "running (rn_sched c1) = []" "waiting (rn_sched c1) = running ?st @ waiting ?st"
    "\<And>i. dict_get (requests (rn_sched c1)) i = (if i \<in> set (running ?st) then map_option (preempted True) (dict_get (requests ?st) i)
       else dict_get (requests ?st) i)"
    using preempt_all_effect [OF laws fcfs inv refl] by blast
  have stored: "\<exists>r. dict_get (requests ?st) i = Some r" if "i \<in> set (running ?st)" for i
    using inv that by (auto simp: queue_inv_def queue_inv_except_def with_status_def)
  have moved: "\<exists>r. dict_get (requests (rn_sched c1)) i = Some r \<and> req_status r = PREEMPTED \<and> num_computed_tokens r = 0
      \<and> drop_stale_output r \<and> num_stale_output_tokens r = num_in_flight_tokens r" if "i \<in> set (running ?st)" for i
    using stored [OF that] that by (auto simp: c1(5) preempted_def)
  show ?thesis
    using c1 moved by (auto simp: reset_prefix_cache_def bindE_raiseIf split: prod.splits sum.splits)
qed

subsection \<open>A scheduler with three requests\<close>

text \<open>First-come-first-served queues over the pool with explicit references, without connector.\<close>

definition fifo_life :: "(ref_pool, unit) life_api" where
  "fifo_life = \<lparr>blocks = ref_api, queue_add = (\<lambda>r q. q @ [request_id r]),
     queue_remove = (\<lambda>xs q. filter (\<lambda>i. i \<notin> set xs) q), list_remove_all = (\<lambda>q xs. filter (\<lambda>i. i \<notin> set xs) q),
     queue_less = (\<lambda>a b. arrival_time a < arrival_time b),
     streaming_update_of = (\<lambda>r. if resumable r
       then Some \<lparr>su_prompt_token_ids = prompt_token_ids r, su_mm_features = mm_features r, su_arrival_time = arrival_time r\<rparr>
       else None),
     kv_connector = NoConn, kv_on_new_request = (\<lambda>r k. k), kv_update_connector_output = (\<lambda>a b k. k),
     kv_remove_skipped_blocks = (\<lambda>i a b k. k), kv_block_ids_for_computed = (\<lambda>i n k. [[]]),
     kv_cache_blocks = (\<lambda>r n k. k), kv_record_blocks_for_zeroing = (\<lambda>i n k. k),
     kv_reset_prefix_cache = (\<lambda>k. (True, k)), kv_reset_connector = (\<lambda>k. (True, k)), ec_request_finished = None\<rparr>"

lemma fifo_laws: "queue_laws fifo_life" "connector_safe cfg fifo_life"
  "queue_prepend (base_api (blocks fifo_life)) r q = request_id r # q"
  by (simp_all add: queue_laws_def connector_safe_def fifo_life_def ref_api_def mset_filter)

definition life_request :: "string \<Rightarrow> status \<Rightarrow> sreq" where
  "life_request i s = sample_request\<lparr>request_id := i, req_status := s\<rparr>"

definition life_sched :: sched where
  "life_sched = flight_sched\<lparr>requests := [(''a'', life_request ''a'' RUNNING), (''b'', life_request ''b'' RUNNING),
       (''c'', life_request ''c'' WAITING_FOR_STREAMING_REQ)],
     running := [''a'', ''b''], skipped_waiting := [''c''], num_waiting_for_streaming_input := 1\<rparr>"

definition life_core :: "(ref_pool, unit) core" where
  "life_core = \<lparr>rn_sched = life_sched, rn_kv = ([(''a'', 7)], []), rn_enc = (), deferred_frees = []\<rparr>"

lemmas life_defs = life_sched_def life_request_def flight_sched_def turn_state_def sample_request_def

lemma life_get:
  "dict_get (requests life_sched) i = (if i = ''a'' then Some (life_request ''a'' RUNNING)
     else if i = ''b'' then Some (life_request ''b'' RUNNING)
     else if i = ''c'' then Some (life_request ''c'' WAITING_FOR_STREAMING_REQ) else None)"
  by (simp add: life_sched_def dict_get_def)

lemma life_with_status:
  "with_status P life_sched = (if P RUNNING then {''a'', ''b''} else {}) \<union> (if P WAITING_FOR_STREAMING_REQ then {''c''} else {})"
proof -
  have "i \<in> with_status P life_sched \<longleftrightarrow> (i \<in> {''a'', ''b''} \<and> P RUNNING) \<or> (i = ''c'' \<and> P WAITING_FOR_STREAMING_REQ)" for i
    by (auto simp: with_status_def life_get life_request_def)
  then show ?thesis by auto
qed

lemma life_inv: "queue_inv (rn_sched life_core)"
proof -
  have "dict_keys (requests life_sched) = [''a'', ''b'', ''c'']" "running life_sched = [''a'', ''b'']"
    "queued life_sched = [''c'']" "num_waiting_for_streaming_input life_sched = 1"
    by (simp_all add: dict_keys_def queued_def life_defs)
  then show ?thesis
    by (auto simp: life_core_def queue_inv_def queue_inv_except_def life_with_status life_get life_request_def
        waiting_status_def is_finished_def split: if_splits)
qed

theorem finish_requests_settles_witness:
  "\<exists>c'. finish_requests fence_config fifo_life None FINISHED_ABORTED life_core = Inr ([''a'', ''b'', ''c''], c')
     \<and> running (rn_sched c') = [] \<and> queue_inv (rn_sched c')"
proof -
  have fin: "is_finished FINISHED_ABORTED" by (simp add: is_finished_def)
  obtain v c' where f: "finish_requests fence_config fifo_life None FINISHED_ABORTED life_core = Inr (v, c')"
    "queue_inv (rn_sched c')"
    "\<forall>i \<in> set v. settled (rn_sched life_core) FINISHED_ABORTED i (rn_sched c')
       \<and> i \<notin> set (running (rn_sched c')) \<and> i \<notin> set (queued (rn_sched c'))"
    "\<forall>i. i \<notin> set v \<longrightarrow> dict_get (requests (rn_sched c')) i = dict_get (requests (rn_sched life_core)) i"
    using finish_requests_settles [OF fifo_laws(1,2) life_inv fin] by blast
  have "v = filter (unfinished life_sched) (dict_keys (requests life_sched))"
    using f(1) fin by (auto simp: finish_requests_def Let_def bindE_eq_Inr life_core_def)
  moreover have "dict_keys (requests life_sched) = [''a'', ''b'', ''c'']" by (simp add: life_sched_def dict_keys_def)
  ultimately have v: "v = [''a'', ''b'', ''c'']" by (simp add: unfinished_def life_get life_request_def is_finished_def)
  have "i \<notin> set (running (rn_sched c'))" for i
  proof (cases "i \<in> set v")
    case False
    then have "dict_get (requests (rn_sched c')) i = None" using f(4) by (simp add: v life_core_def life_get)
    then show ?thesis using queue_inv_running [OF f(2)] by fastforce
  qed (use f(3) in blast)
  then have "running (rn_sched c') = []" using list.set_intros(1) by (metis neq_Nil_conv)
  with f v show ?thesis by blast
qed

theorem add_request_keeps_queues_witness:
  "\<exists>c'. add_request fence_config fifo_life (life_request ''d'' WAITING) life_core = Inr c'
     \<and> ''d'' \<in> set (waiting (rn_sched c')) \<and> queue_inv (rn_sched c')"
  using add_request_keeps_queues [OF fifo_laws(1,2) life_inv, of "life_request ''d'' WAITING" fence_config]
  by (auto simp: life_core_def life_get life_request_def sample_request_def split: sum.splits)

theorem unfinished_count_exact_witness: "get_num_unfinished_requests life_sched = 2"
proof -
  have "{i. unfinished life_sched i \<and> \<not> status_is WAITING_FOR_STREAMING_REQ life_sched i} = {''a'', ''b''}"
    by (auto simp: unfinished_def status_is_def life_get life_request_def is_finished_def split: if_splits)
  moreover have "sched_pause_state life_sched = UNPAUSED" by (simp add: life_defs)
  ultimately show ?thesis using unfinished_count_exact [of life_sched] life_inv by (simp add: life_core_def)
qed

theorem reset_preempts_in_order_witness:
  "\<exists>b c'. reset_prefix_cache fence_config fifo_life True False life_core = Inr (b, c')
     \<and> running (rn_sched c') = [] \<and> waiting (rn_sched c') = [''a'', ''b'']"
proof -
  obtain c1 where "preempt_all fence_config fifo_life (rev (running life_sched)) life_core = Inr c1"
    using preempt_all_effect [OF fifo_laws(1) fifo_laws(3) life_inv refl] by (auto simp: life_core_def)
  moreover have "rn_sched life_core = life_sched" "kv_reset_prefix_cache fifo_life k = (True, k)" for k
    by (simp_all add: life_core_def fifo_life_def)
  ultimately have "\<exists>b c'. reset_prefix_cache fence_config fifo_life True False life_core = Inr (b, c')"
    by (auto simp: reset_prefix_cache_def)
  then show ?thesis
    using reset_preempts_in_order [OF fifo_laws(1) fifo_laws(3) life_inv, of fence_config False]
    by (auto simp: life_core_def life_defs)
qed

end
