(* ===== verification/SchedInvalid.thy ===== *)
theory SchedInvalid
  imports SchedLife
begin

text \<open>
  Recovery from failed KV loads in \<^verbatim>\<open>scheduler.py\<close>: \<^verbatim>\<open>_update_requests_with_invalid_blocks\<close> truncates the
  computed tokens of the requests that refer to invalid blocks, so that exactly one request
  recomputes each of them, and \<^verbatim>\<open>_handle_invalid_blocks\<close> applies it to loads in progress and to running
  requests. \<open>invalid_repaired\<close> is the property the recovery rests on: a request keeps an invalid
  block among its computed ones only if an earlier request of the batch recomputes that block.
\<close>

subsection \<open>Scanning the blocks of one request\<close>

record scan =
  is_affected :: bool
  marked_invalid_block :: bool
  scan_computed :: int
  marked_ids :: "int list"
  affected_tokens :: int
  evict_ids :: "int list"

text \<open>\<open>rest\<close> are the blocks of the request from index \<open>idx\<close> on.\<close>

definition scan_block :: "int \<Rightarrow> int list \<Rightarrow> bool \<Rightarrow> int \<Rightarrow> nat \<Rightarrow> int list \<Rightarrow> int \<Rightarrow> scan \<Rightarrow> scan" where
  "scan_block bsz invalid evict req_computed idx rest b s =
     (if b \<notin> set invalid then s
      else
        (let s = s\<lparr>is_affected := True\<rparr> in
         if b \<in> set (marked_ids s) then s
         else
           (let s = s\<lparr>marked_ids := List.insert b (marked_ids s)\<rparr> in
            if marked_invalid_block s then s
            else
              s\<lparr>marked_invalid_block := True, scan_computed := int idx * bsz,
                affected_tokens := affected_tokens s + (req_computed - int idx * bsz),
                evict_ids := (if evict then remdups (evict_ids s @ rest) else evict_ids s)\<rparr>)))"

text \<open>\<^verbatim>\<open>for idx, block_id in zip(range(n), req_block_ids)\<close>\<close>

fun scan_blocks :: "int \<Rightarrow> int list \<Rightarrow> bool \<Rightarrow> int \<Rightarrow> nat \<Rightarrow> nat \<Rightarrow> int list \<Rightarrow> scan \<Rightarrow> scan" where
  "scan_blocks bsz invalid evict req_computed idx (Suc n) (b # bs) s =
     scan_blocks bsz invalid evict req_computed (Suc idx) n bs (scan_block bsz invalid evict req_computed idx (b # bs) b s)"
| "scan_blocks bsz invalid evict req_computed idx n bs s = s"

record inv_acc =
  affected_req_ids :: "string list"
  total_affected_tokens :: int
  blocks_to_evict :: "int list"
  marked_invalid_block_ids :: "int list"

definition req_computed_before :: "(string, int) dict \<Rightarrow> sreq \<Rightarrow> int" where
  "req_computed_before num_scheduled r =
     num_computed_tokens r - (case dict_get num_scheduled (request_id r) of None \<Rightarrow> 0 | Some n \<Rightarrow> n)"

definition computed_blocks :: "int \<Rightarrow> int \<Rightarrow> nat" where
  "computed_blocks bsz tokens = nat ((tokens + bsz - 1) div bsz)"

definition scan_request ::
    "sched_config \<Rightarrow> int list \<Rightarrow> (string, int) dict \<Rightarrow> bool \<Rightarrow> int list \<Rightarrow> sreq \<Rightarrow> inv_acc \<Rightarrow> sreq \<times> inv_acc" where
  "scan_request cfg invalid num_scheduled evict ids r acc =
     (let before = req_computed_before num_scheduled r;
          s = scan_blocks (sched_block_size cfg) invalid evict before 0
                (computed_blocks (sched_block_size cfg) before) ids
                \<lparr>is_affected = False, marked_invalid_block = False, scan_computed = num_computed_tokens r,
                 marked_ids = marked_invalid_block_ids acc, affected_tokens = total_affected_tokens acc,
                 evict_ids = blocks_to_evict acc\<rparr>;
          s = (if is_affected s \<and> \<not> marked_invalid_block s
               then s\<lparr>affected_tokens := affected_tokens s + (scan_computed s - before), scan_computed := before\<rparr> else s) in
      (r\<lparr>num_computed_tokens := scan_computed s\<rparr>,
       \<lparr>affected_req_ids = (if is_affected s then List.insert (request_id r) (affected_req_ids acc) else affected_req_ids acc),
        total_affected_tokens = affected_tokens s, blocks_to_evict = evict_ids s,
        marked_invalid_block_ids = marked_ids s\<rparr>))"

definition scan_one ::
    "sched_config \<Rightarrow> (string \<Rightarrow> int list list) \<Rightarrow> int list \<Rightarrow> (string, int) dict \<Rightarrow> bool \<Rightarrow> string \<Rightarrow> sched \<times> inv_acc
      \<Rightarrow> sched_error + sched \<times> inv_acc" where
  "scan_one cfg block_ids invalid num_scheduled evict i = (\<lambda>(st, acc).
     case dict_get (requests st) i of
       None \<Rightarrow> Inl (UnknownRequest i)
     | Some r \<Rightarrow>
         (case block_ids i of
            [ids] \<Rightarrow>
              (case scan_request cfg invalid num_scheduled evict ids r acc of
                 (r', acc') \<Rightarrow> Inr (mutate i (\<lambda>_. r') st, acc'))
          | _ \<Rightarrow> Inl (NotOneGroup i)))"

definition no_invalid :: inv_acc where
  "no_invalid = \<lparr>affected_req_ids = [], total_affected_tokens = 0, blocks_to_evict = [], marked_invalid_block_ids = []\<rparr>"

definition update_requests_with_invalid_blocks ::
    "sched_config \<Rightarrow> (string \<Rightarrow> int list list) \<Rightarrow> int list \<Rightarrow> (string, int) dict \<Rightarrow> bool \<Rightarrow> string list \<Rightarrow> sched
      \<Rightarrow> sched_error + sched \<times> inv_acc" where
  "update_requests_with_invalid_blocks cfg block_ids invalid num_scheduled evict reqs st =
     foldE (scan_one cfg block_ids invalid num_scheduled evict) reqs (st, no_invalid)"

text \<open>Loads in progress wait in the skipped queue; running requests may share and cache their blocks.\<close>

definition handle_invalid_blocks ::
    "sched_config \<Rightarrow> (string \<Rightarrow> 'k \<Rightarrow> int list list) \<Rightarrow> (int list \<Rightarrow> 'k \<Rightarrow> 'k) \<Rightarrow> int list \<Rightarrow> (string, int) dict
      \<Rightarrow> ('k, 'e, 'm) core_scheme \<Rightarrow> sched_error + string list \<times> ('k, 'e, 'm) core_scheme" where
  "handle_invalid_blocks cfg get_block_ids evict_blocks invalid num_scheduled c =
     (let st = rn_sched c; ids = (\<lambda>i. get_block_ids i (rn_kv c));
          loading = filter (status_is WAITING_FOR_REMOTE_KVS st) (skipped_waiting st) in
      bindE (update_requests_with_invalid_blocks cfg ids invalid num_scheduled False loading st) (\<lambda>(st, async).
      bindE (update_requests_with_invalid_blocks cfg ids invalid num_scheduled True (running st) st) (\<lambda>(st, sync).
      (let c = c\<lparr>rn_sched := st\<rparr> in
       if affected_req_ids async = [] \<and> affected_req_ids sync = [] then Inr ([], c)
       else
         (let c = (if blocks_to_evict sync \<noteq> [] \<and> \<not> recompute_kv_load_failures cfg
                   then c\<lparr>rn_kv := evict_blocks (blocks_to_evict sync) (rn_kv c)\<rparr> else c) in
          if \<not> recompute_kv_load_failures cfg
          then Inr (remdups (affected_req_ids async @ affected_req_ids sync), c)
          else
            Inr (affected_req_ids sync,
                 c\<lparr>rn_sched := st\<lparr>failed_recving_kv_req_ids
                      := remdups (failed_recving_kv_req_ids st @ affected_req_ids async)\<rparr>\<rparr>))))))"

subsection \<open>What one scan does\<close>

lemma scan_blocks_done:
  "marked_invalid_block s \<Longrightarrow>
     marked_invalid_block (scan_blocks bsz invalid evict before idx n bs s)
   \<and> scan_computed (scan_blocks bsz invalid evict before idx n bs s) = scan_computed s
   \<and> (is_affected s \<longrightarrow> is_affected (scan_blocks bsz invalid evict before idx n bs s))
   \<and> set (marked_ids (scan_blocks bsz invalid evict before idx n bs s))
       = set (marked_ids s) \<union> (set (take n bs) \<inter> set invalid)"
  by (induction bsz invalid evict before idx n bs s rule: scan_blocks.induct)
    (auto simp: scan_block_def Let_def)

text \<open>Either every invalid block in sight was marked before, or the first one that was not truncates the
  request; in both cases all invalid blocks in sight are marked afterwards.\<close>

lemma scan_blocks_spec:
  assumes "\<not> marked_invalid_block s" and "scan_blocks bsz invalid evict before idx n bs s = s'"
  shows "(\<not> marked_invalid_block s' \<and> scan_computed s' = scan_computed s \<and> set (marked_ids s') = set (marked_ids s)
      \<and> set (take n bs) \<inter> set invalid \<subseteq> set (marked_ids s)
      \<and> (is_affected s' \<longleftrightarrow> is_affected s \<or> set (take n bs) \<inter> set invalid \<noteq> {}))
    \<or> (\<exists>j < length (take n bs). marked_invalid_block s' \<and> is_affected s' \<and> scan_computed s' = int (idx + j) * bsz
        \<and> bs ! j \<in> set invalid \<and> set (take j bs) \<inter> set invalid \<subseteq> set (marked_ids s)
        \<and> set (marked_ids s') = set (marked_ids s) \<union> (set (take n bs) \<inter> set invalid))"
  using assms(1) unfolding assms(2) [symmetric]
proof (induction bsz invalid evict before idx n bs s rule: scan_blocks.induct)
  case (1 bsz invalid evict before idx n b bs s)
  let ?s = "scan_block bsz invalid evict before idx (b # bs) b s"
  show ?case
  proof (cases "b \<in> set invalid \<and> b \<notin> set (marked_ids s)")
    case True
    then have "marked_invalid_block ?s" "is_affected ?s" "scan_computed ?s = int idx * bsz"
      "set (marked_ids ?s) = insert b (set (marked_ids s))"
      using "1.prems" by (auto simp: scan_block_def Let_def)
    with True scan_blocks_done [of ?s bsz invalid evict before "Suc idx" n bs] show ?thesis
      by (intro disjI2 exI [of _ 0]) auto
  next
    case False
    then have step: "\<not> marked_invalid_block ?s" "scan_computed ?s = scan_computed s" "marked_ids ?s = marked_ids s"
      "is_affected ?s \<longleftrightarrow> is_affected s \<or> b \<in> set invalid"
      using "1.prems" by (auto simp: scan_block_def Let_def)
    from "1.IH" [OF step(1)] show ?thesis
    proof (elim disjE exE conjE)
      fix j assume j: "j < length (take n bs)"
        "marked_invalid_block (scan_blocks bsz invalid evict before (Suc idx) n bs ?s)"
        "is_affected (scan_blocks bsz invalid evict before (Suc idx) n bs ?s)"
        "scan_computed (scan_blocks bsz invalid evict before (Suc idx) n bs ?s) = int (Suc idx + j) * bsz"
        "bs ! j \<in> set invalid" "set (take j bs) \<inter> set invalid \<subseteq> set (marked_ids ?s)"
        "set (marked_ids (scan_blocks bsz invalid evict before (Suc idx) n bs ?s))
           = set (marked_ids ?s) \<union> (set (take n bs) \<inter> set invalid)"
      with step False show ?thesis by (intro disjI2 exI [of _ "Suc j"]) auto
    qed (use step False in auto)
  qed
qed auto

text \<open>The blocks of a request that may hold loaded tokens.\<close>

definition in_sight :: "sched_config \<Rightarrow> (string, int) dict \<Rightarrow> int list \<Rightarrow> sreq \<Rightarrow> int list" where
  "in_sight cfg num_scheduled ids r
     = take (computed_blocks (sched_block_size cfg) (req_computed_before num_scheduled r)) ids"

lemma computed_blocks_bound:
  assumes "0 < bsz" and "j < computed_blocks bsz tokens"
  shows "int j * bsz < tokens"
proof -
  have "int j + 1 \<le> (tokens + bsz - 1) div bsz" using assms(2) by (simp add: computed_blocks_def zless_nat_eq_int_zless)
  then have "(int j + 1) * bsz \<le> (tokens + bsz - 1) div bsz * bsz" using assms(1) by (simp add: mult_right_mono)
  also have "\<dots> \<le> tokens + bsz - 1" using pos_mod_sign [OF assms(1), of "tokens + bsz - 1"] by (simp add: minus_mod_eq_div_mult [symmetric])
  finally show ?thesis using assms(1) by (simp add: algebra_simps)
qed

lemma scan_request_spec:
  fixes cfg num_scheduled ids r
  assumes pos: "0 < sched_block_size cfg" and scan: "scan_request cfg invalid num_scheduled evict ids r acc = (r', acc')"
  defines "sight \<equiv> in_sight cfg num_scheduled ids r"
  shows "request_id r' = request_id r" and "req_status r' = req_status r"
    and "set (marked_invalid_block_ids acc') = set (marked_invalid_block_ids acc) \<union> (set sight \<inter> set invalid)"
    and "\<And>k. k < length sight \<Longrightarrow> sight ! k \<in> set invalid \<Longrightarrow> int k * sched_block_size cfg < num_computed_tokens r'
      \<Longrightarrow> sight ! k \<in> set (marked_invalid_block_ids acc)"
    and "\<And>k. k < length sight \<Longrightarrow> sight ! k \<in> set invalid \<Longrightarrow> sight ! k \<notin> set (marked_invalid_block_ids acc)
      \<Longrightarrow> num_computed_tokens r' \<le> int k * sched_block_size cfg"
    and "set (affected_req_ids acc')
      = set (affected_req_ids acc) \<union> (if set sight \<inter> set invalid \<noteq> {} then {request_id r} else {})"
    and "if set sight \<inter> set invalid \<noteq> {} then num_computed_tokens r' \<le> req_computed_before num_scheduled r else r' = r"
proof -
  let ?bs = "sched_block_size cfg" and ?before = "req_computed_before num_scheduled r"
  let ?n = "computed_blocks ?bs ?before"
  define s where "s = \<lparr>is_affected = False, marked_invalid_block = False, scan_computed = num_computed_tokens r,
     marked_ids = marked_invalid_block_ids acc, affected_tokens = total_affected_tokens acc, evict_ids = blocks_to_evict acc\<rparr>"
  define s' where "s' = scan_blocks ?bs invalid evict ?before 0 ?n ids s"
  define computed where "computed = (if is_affected s' \<and> \<not> marked_invalid_block s' then ?before else scan_computed s')"
  have r': "r' = r\<lparr>num_computed_tokens := computed\<rparr>"
    and acc': "marked_invalid_block_ids acc' = marked_ids s'"
      "affected_req_ids acc' = (if is_affected s' then List.insert (request_id r) (affected_req_ids acc) else affected_req_ids acc)"
    using scan by (auto simp: scan_request_def Let_def computed_def simp flip: s_def s'_def)
  have sight: "sight = take ?n ids" by (simp add: sight_def in_sight_def)
  show "request_id r' = request_id r" "req_status r' = req_status r" by (simp_all add: r')
  have s: "\<not> marked_invalid_block s" "\<not> is_affected s" "marked_ids s = marked_invalid_block_ids acc"
    "scan_computed s = num_computed_tokens r" by (simp_all add: s_def)
  consider (shared) "\<not> marked_invalid_block s'" "scan_computed s' = num_computed_tokens r"
      "set (marked_ids s') = set (marked_ids s)" "set sight \<inter> set invalid \<subseteq> set (marked_ids s)"
      "is_affected s' \<longleftrightarrow> set sight \<inter> set invalid \<noteq> {}"
    | (first) j where "j < length sight" "marked_invalid_block s'" "is_affected s'" "scan_computed s' = int j * ?bs"
      "sight ! j \<in> set invalid" "set (take j sight) \<inter> set invalid \<subseteq> set (marked_ids s)"
      "set (marked_ids s') = set (marked_ids s) \<union> (set sight \<inter> set invalid)"
    using scan_blocks_spec [OF s(1) s'_def [symmetric]] s by (auto simp: sight min_absorb1)
  then have all: "set (marked_ids s') = set (marked_ids s) \<union> (set sight \<inter> set invalid)
      \<and> (\<forall>k < length sight. sight ! k \<in> set invalid \<longrightarrow> int k * ?bs < computed \<longrightarrow> sight ! k \<in> set (marked_ids s))
      \<and> (\<forall>k < length sight. sight ! k \<in> set invalid \<longrightarrow> sight ! k \<notin> set (marked_ids s) \<longrightarrow> computed \<le> int k * ?bs)
      \<and> (is_affected s' \<longleftrightarrow> set sight \<inter> set invalid \<noteq> {})
      \<and> (is_affected s' \<longrightarrow> computed \<le> ?before) \<and> (\<not> is_affected s' \<longrightarrow> computed = num_computed_tokens r)"
  proof cases
    case shared
    have "sight ! k \<in> set (marked_ids s)" if "k < length sight" "sight ! k \<in> set invalid" for k
      using shared(4) that nth_mem by blast
    with shared show ?thesis by (auto simp: computed_def)
  next
    case (first j)
    have c: "computed = int j * ?bs" using first by (simp add: computed_def)
    have "int j * ?bs < ?before" by (rule computed_blocks_bound [OF pos]) (use first(1) in \<open>simp add: sight\<close>)
    moreover have "sight ! k \<in> set (marked_ids s)" if "k < j" "sight ! k \<in> set invalid" for k
    proof -
      have "take j sight ! k \<in> set (take j sight)" using first(1) that(1) by (intro nth_mem) simp
      with first(6) that show ?thesis by auto
    qed
    moreover have "int k * ?bs < int j * ?bs \<Longrightarrow> k < j" for k using pos by simp
    moreover have "\<not> k < j \<Longrightarrow> int j * ?bs \<le> int k * ?bs" for k using pos by simp
    moreover have "set sight \<inter> set invalid \<noteq> {}" using first(1,5) nth_mem by blast
    ultimately show ?thesis using first(3,7) c by auto
  qed
  then show "set (marked_invalid_block_ids acc') = set (marked_invalid_block_ids acc) \<union> (set sight \<inter> set invalid)"
    by (simp add: acc' s)
  show "sight ! k \<in> set (marked_invalid_block_ids acc)"
    if "k < length sight" "sight ! k \<in> set invalid" "int k * ?bs < num_computed_tokens r'" for k
    using all that by (simp add: r' s)
  show "num_computed_tokens r' \<le> int k * ?bs"
    if "k < length sight" "sight ! k \<in> set invalid" "sight ! k \<notin> set (marked_invalid_block_ids acc)" for k
    using all that by (simp add: r' s)
  show "set (affected_req_ids acc')
      = set (affected_req_ids acc) \<union> (if set sight \<inter> set invalid \<noteq> {} then {request_id r} else {})"
    using all by (auto simp: acc')
  show "if set sight \<inter> set invalid \<noteq> {} then num_computed_tokens r' \<le> ?before else r' = r"
    using all by (auto simp: r')
qed

subsection \<open>A batch of requests\<close>

text \<open>Request \<open>i\<close> computes block \<open>b\<close> again: it stands in its table at or after the truncated prefix.\<close>

definition recomputes :: "sched_config \<Rightarrow> (string \<Rightarrow> int list list) \<Rightarrow> sched \<Rightarrow> int \<Rightarrow> string \<Rightarrow> bool" where
  "recomputes cfg block_ids st b i \<longleftrightarrow>
     (\<exists>r ids k. dict_get (requests st) i = Some r \<and> block_ids i = [ids] \<and> k < length ids \<and> ids ! k = b
        \<and> num_computed_tokens r \<le> int k * sched_block_size cfg)"

definition truncated ::
    "sched_config \<Rightarrow> int list \<Rightarrow> (string, int) dict \<Rightarrow> string list \<Rightarrow> string list \<Rightarrow> int list \<Rightarrow> string \<Rightarrow> sreq \<Rightarrow> sreq \<Rightarrow> bool" where
  "truncated cfg invalid num_scheduled before after ids i r r' \<longleftrightarrow>
     (if set (in_sight cfg num_scheduled ids r) \<inter> set invalid \<noteq> {}
      then i \<in> set after \<and> num_computed_tokens r' \<le> req_computed_before num_scheduled r
      else (i \<in> set after \<longleftrightarrow> i \<in> set before) \<and> r' = r)"

lemma scan_fold:
  assumes pos: "0 < sched_block_size cfg"
  shows "foldE (scan_one cfg block_ids invalid num_scheduled evict) reqs (st, acc) = Inr (st', acc') \<Longrightarrow> distinct reqs
    \<Longrightarrow> \<forall>i r. dict_get (requests st) i = Some r \<longrightarrow> request_id r = i
    \<Longrightarrow> (\<forall>i. i \<notin> set reqs \<longrightarrow> dict_get (requests st') i = dict_get (requests st) i
          \<and> (i \<in> set (affected_req_ids acc') \<longleftrightarrow> i \<in> set (affected_req_ids acc)))
      \<and> (\<forall>pre i post. reqs = pre @ i # post \<longrightarrow>
          (\<exists>r r' ids. dict_get (requests st) i = Some r \<and> dict_get (requests st') i = Some r' \<and> block_ids i = [ids]
            \<and> truncated cfg invalid num_scheduled (affected_req_ids acc) (affected_req_ids acc') ids i r r'
            \<and> (\<forall>k < length (in_sight cfg num_scheduled ids r). ids ! k \<in> set invalid
                 \<longrightarrow> int k * sched_block_size cfg < num_computed_tokens r'
                 \<longrightarrow> ids ! k \<in> set (marked_invalid_block_ids acc) \<or> (\<exists>j \<in> set pre. recomputes cfg block_ids st' (ids ! k) j))))"
proof (induction reqs arbitrary: st acc)
  case (Cons i reqs)
  from Cons.prems(1) obtain r ids r1 acc1 where r: "dict_get (requests st) i = Some r" and ids: "block_ids i = [ids]"
    and scan: "scan_request cfg invalid num_scheduled evict ids r acc = (r1, acc1)"
    and rest: "foldE (scan_one cfg block_ids invalid num_scheduled evict) reqs (mutate i (\<lambda>_. r1) st, acc1) = Inr (st', acc')"
  proof -
    from Cons.prems(1) obtain st1 acc1 where one: "scan_one cfg block_ids invalid num_scheduled evict i (st, acc) = Inr (st1, acc1)"
      and "foldE (scan_one cfg block_ids invalid num_scheduled evict) reqs (st1, acc1) = Inr (st', acc')"
      by (auto simp: bindE_eq_Inr)
    with one that show thesis by (auto simp: scan_one_def split: option.splits list.splits prod.splits)
  qed
  let ?st = "mutate i (\<lambda>_. r1) st"
  note S = scan_request_spec [OF pos scan]
  have ri: "request_id r = i" using Cons.prems(3) r by blast
  have get: "dict_get (requests ?st) j = (if j = i then Some r1 else dict_get (requests st) j)" for j
    using r by (simp add: mutate_get)
  have idok: "\<forall>j q. dict_get (requests ?st) j = Some q \<longrightarrow> request_id q = j" using Cons.prems(3) S(1) ri by (simp add: get)
  have i: "i \<notin> set reqs" "distinct reqs" using Cons.prems(2) by simp_all
  note IH = Cons.IH [OF rest i(2) idok]
  have self: "dict_get (requests st') i = Some r1" "i \<in> set (affected_req_ids acc') \<longleftrightarrow> i \<in> set (affected_req_ids acc1)"
    using IH i(1) by (simp_all add: get)
  have other: "j \<in> set (affected_req_ids acc1) \<longleftrightarrow> j \<in> set (affected_req_ids acc)" if "j \<noteq> i" for j
    using S(6) that ri by auto
  have sight: "in_sight cfg num_scheduled ids r ! k = ids ! k" "k < length ids"
    if "k < length (in_sight cfg num_scheduled ids r)" for k
    using that by (auto simp: in_sight_def)
  have new: "b \<in> set (marked_invalid_block_ids acc) \<or> recomputes cfg block_ids st' b i"
    if b: "b \<in> set (marked_invalid_block_ids acc1)" for b
  proof (cases "b \<in> set (marked_invalid_block_ids acc)")
    case False
    with b S(3) obtain k where k: "k < length (in_sight cfg num_scheduled ids r)" "in_sight cfg num_scheduled ids r ! k = b"
      "b \<in> set invalid" by (auto simp: in_set_conv_nth)
    with S(5) [of k] False have "num_computed_tokens r1 \<le> int k * sched_block_size cfg" by simp
    with k sight [OF k(1)] self ids show ?thesis by (auto simp: recomputes_def)
  qed simp
  show ?case
  proof (intro conjI allI impI)
    fix j assume "j \<notin> set (i # reqs)"
    then show "dict_get (requests st') j = dict_get (requests st) j"
      and "j \<in> set (affected_req_ids acc') \<longleftrightarrow> j \<in> set (affected_req_ids acc)"
      using IH other by (simp_all add: get)
  next
    fix pre j post assume split: "i # reqs = pre @ j # post"
    show "\<exists>r r' ids. dict_get (requests st) j = Some r \<and> dict_get (requests st') j = Some r' \<and> block_ids j = [ids]
        \<and> truncated cfg invalid num_scheduled (affected_req_ids acc) (affected_req_ids acc') ids j r r'
        \<and> (\<forall>k < length (in_sight cfg num_scheduled ids r). ids ! k \<in> set invalid
             \<longrightarrow> int k * sched_block_size cfg < num_computed_tokens r'
             \<longrightarrow> ids ! k \<in> set (marked_invalid_block_ids acc) \<or> (\<exists>j \<in> set pre. recomputes cfg block_ids st' (ids ! k) j))"
    proof (cases pre)
      case Nil
      with split have "j = i" by simp
      moreover have "truncated cfg invalid num_scheduled (affected_req_ids acc) (affected_req_ids acc') ids i r r1"
        using S(6,7) self(2) ri by (auto simp: truncated_def)
      ultimately show ?thesis using r self(1) ids S(4) sight by (intro exI [of _ r] exI [of _ r1] exI [of _ ids]) auto
    next
      case (Cons x pre')
      with split have x: "x = i" "reqs = pre' @ j # post" by simp_all
      with i(1) have ji: "j \<noteq> i" by auto
      from IH x(2) obtain q q' qids where q: "dict_get (requests ?st) j = Some q" "dict_get (requests st') j = Some q'" "block_ids j = [qids]"
        "truncated cfg invalid num_scheduled (affected_req_ids acc1) (affected_req_ids acc') qids j q q'"
        "\<forall>k < length (in_sight cfg num_scheduled qids q). qids ! k \<in> set invalid
           \<longrightarrow> int k * sched_block_size cfg < num_computed_tokens q'
           \<longrightarrow> qids ! k \<in> set (marked_invalid_block_ids acc1) \<or> (\<exists>j \<in> set pre'. recomputes cfg block_ids st' (qids ! k) j)" by blast
      have "dict_get (requests st) j = Some q" using q(1) ji by (simp add: get)
      moreover have "truncated cfg invalid num_scheduled (affected_req_ids acc) (affected_req_ids acc') qids j q q'"
        using q(4) other [OF ji] by (simp add: truncated_def)
      ultimately show ?thesis
        using q(2,3,5) new by (intro exI [of _ q] exI [of _ q'] exI [of _ qids]) (auto simp: Cons x(1))
    qed
  qed
qed simp

text \<open>
  C9: after a failed load, every request of the batch that still counts an invalid block as computed does so
  because an earlier request of the batch computes that very block again. A request with an invalid
  block in sight is reported as affected and keeps at most the tokens it had before the step; any
  other request is unchanged and not reported.
\<close>

theorem invalid_repaired:
  assumes pos: "0 < sched_block_size cfg"
    and upd: "update_requests_with_invalid_blocks cfg block_ids invalid num_scheduled evict reqs st = Inr (st', acc)"
    and reqs: "distinct reqs" "reqs = pre @ i # post"
    and ids: "\<forall>i r. dict_get (requests st) i = Some r \<longrightarrow> request_id r = i"
  shows "\<exists>r r' ids. dict_get (requests st) i = Some r \<and> dict_get (requests st') i = Some r' \<and> block_ids i = [ids]
    \<and> (\<forall>k < length (in_sight cfg num_scheduled ids r). ids ! k \<in> set invalid
         \<longrightarrow> int k * sched_block_size cfg < num_computed_tokens r'
         \<longrightarrow> (\<exists>j \<in> set pre. recomputes cfg block_ids st' (ids ! k) j))
    \<and> (if set (in_sight cfg num_scheduled ids r) \<inter> set invalid \<noteq> {}
       then i \<in> set (affected_req_ids acc) \<and> num_computed_tokens r' \<le> req_computed_before num_scheduled r
       else i \<notin> set (affected_req_ids acc) \<and> r' = r)"
proof -
  from scan_fold [OF pos upd [unfolded update_requests_with_invalid_blocks_def] reqs(1) ids] reqs(2)
  obtain r r' ids where *: "dict_get (requests st) i = Some r" "dict_get (requests st') i = Some r'" "block_ids i = [ids]"
    "truncated cfg invalid num_scheduled (affected_req_ids no_invalid) (affected_req_ids acc) ids i r r'"
    "\<forall>k < length (in_sight cfg num_scheduled ids r). ids ! k \<in> set invalid
       \<longrightarrow> int k * sched_block_size cfg < num_computed_tokens r'
       \<longrightarrow> ids ! k \<in> set (marked_invalid_block_ids no_invalid) \<or> (\<exists>j \<in> set pre. recomputes cfg block_ids st' (ids ! k) j)"
    by blast
  then show ?thesis by (intro exI [of _ r] exI [of _ r'] exI [of _ ids]) (auto simp: truncated_def no_invalid_def split: if_splits)
qed

text \<open>Two requests share their first block, which failed to load: the first one computes it again.\<close>

definition shared_sched :: sched where
  "shared_sched = flight_sched\<lparr>requests := [(''a'', sample_request\<lparr>num_computed_tokens := 40\<rparr>),
       (''b'', sample_request\<lparr>request_id := ''b'', num_computed_tokens := 32\<rparr>)], running := [''a'', ''b'']\<rparr>"

definition shared_blocks :: "string \<Rightarrow> int list list" where
  "shared_blocks i = (if i = ''a'' then [[5, 6, 8]] else [[5, 7]])"

theorem invalid_repaired_witness:
  "\<exists>st' acc. update_requests_with_invalid_blocks split_config shared_blocks [5] [(''a'', 8)] True [''a'', ''b''] shared_sched
       = Inr (st', acc)
     \<and> recomputes split_config shared_blocks st' 5 ''a''
     \<and> (\<exists>r. dict_get (requests st') ''b'' = Some r \<and> num_computed_tokens r = 32)"
proof -
  have ids: "\<forall>i r. dict_get (requests shared_sched) i = Some r \<longrightarrow> request_id r = i"
    by (auto simp: shared_sched_def sample_request_def dict_get_def split: if_splits)
  have eval: "(case update_requests_with_invalid_blocks split_config shared_blocks [5] [(''a'', 8)] True [''a'', ''b''] shared_sched of
      Inl _ \<Rightarrow> None | Inr (st', _) \<Rightarrow> map_option num_computed_tokens (dict_get (requests st') ''b'')) = Some 32"
    by code_simp
  then obtain st' acc r' where upd: "update_requests_with_invalid_blocks split_config shared_blocks [5] [(''a'', 8)] True
      [''a'', ''b''] shared_sched = Inr (st', acc)" and b: "dict_get (requests st') ''b'' = Some r'" "num_computed_tokens r' = 32"
    by (auto split: sum.splits prod.splits)
  have pos: "0 < sched_block_size split_config" by code_simp
  have "distinct [''a'', ''b'']" "[''a'', ''b''] = [''a''] @ ''b'' # []" by simp_all
  from invalid_repaired [OF pos upd this ids] b obtain r ids where
    r: "dict_get (requests shared_sched) ''b'' = Some r" "shared_blocks ''b'' = [ids]"
    "\<forall>k < length (in_sight split_config [(''a'', 8)] ids r). ids ! k \<in> set [5] \<longrightarrow> int k * sched_block_size split_config < 32
       \<longrightarrow> (\<exists>j \<in> set [''a'']. recomputes split_config shared_blocks st' (ids ! k) j)" by auto
  have "in_sight split_config [(''a'', 8)] [5, 7] (sample_request\<lparr>request_id := ''b'', num_computed_tokens := 32\<rparr>) = [5, 7]"
    by code_simp
  moreover have "r = sample_request\<lparr>request_id := ''b'', num_computed_tokens := 32\<rparr>" "ids = [5, 7]"
    using r(1,2) by (auto simp: shared_sched_def shared_blocks_def dict_get_def)
  ultimately have "recomputes split_config shared_blocks st' 5 ''a''" using r(3) by fastforce
  with upd b show ?thesis by blast
qed

end
