(* ===== verification/SchedMtp.thy ===== *)
theory SchedMtp
  imports SchedPrefill AcceptanceLength
begin

text \<open>
  What \<^verbatim>\<open>Scheduler.update_from_output\<close> does with the acceptance of draft tokens: the per-request
  accounting of drafted, accepted and rejected tokens, the observation it passes to the
  acceptance-length controller, and the instrumentation window
  (\<^verbatim>\<open>_record_mtp_instrumentation\<close>, \<^verbatim>\<open>_reset_mtp_window\<close>) that reports them. The clock is an
  argument; the JSON line is the record \<open>mtp_record\<close>.
\<close>

subsection \<open>Counting positions\<close>

text \<open>The loop over the positions from \<open>pos\<close> on: it stops behind the last drafted token.\<close>

fun count_positions :: "int \<Rightarrow> int \<Rightarrow> int \<Rightarrow> int list \<Rightarrow> int list \<Rightarrow> int list \<times> int list" where
  "count_positions pos draft accepted (e # es) (a # as) =
     (if draft < pos then (e # es, a # as)
      else (case count_positions (pos + 1) draft accepted es as of (es', as') \<Rightarrow>
        ((if pos = 1 \<or> accepted \<ge> pos - 1 then e + 1 else e) # es',
         (if accepted \<ge> pos then a + 1 else a) # as')))"
| "count_positions pos draft accepted es as = (es, as)"

subsection \<open>The accounting of one step\<close>

type_synonym sample = "int \<times> int \<times> int \<times> int"

record spec_acc =
  adaptive_num_drafts :: int
  adaptive_num_draft_tokens :: int
  adaptive_num_accepted_tokens :: int
  adaptive_position_eligible :: "int list"
  adaptive_position_accepted :: "int list"
  mtp_samples :: "sample list"

definition no_drafts :: "int \<Rightarrow> spec_acc" where
  "no_drafts num_positions = \<lparr>adaptive_num_drafts = 0, adaptive_num_draft_tokens = 0,
     adaptive_num_accepted_tokens = 0, adaptive_position_eligible = replicate (nat num_positions) 0,
     adaptive_position_accepted = replicate (nat num_positions) 0, mtp_samples = []\<rparr>"

definition observe_draft :: "bool \<Rightarrow> int \<Rightarrow> int \<Rightarrow> int \<Rightarrow> sreq \<Rightarrow> spec_acc \<Rightarrow> spec_acc" where
  "observe_draft adaptive draft accepted num_sampled r acc =
     (let acc = acc\<lparr>mtp_samples := mtp_samples acc @ [(draft, accepted, num_computed_tokens r, num_sampled + accepted)]\<rparr> in
      if \<not> adaptive then acc
      else
        (case count_positions 1 draft accepted (adaptive_position_eligible acc) (adaptive_position_accepted acc) of
           (es, as) \<Rightarrow>
             acc\<lparr>adaptive_num_drafts := adaptive_num_drafts acc + 1,
                 adaptive_num_draft_tokens := adaptive_num_draft_tokens acc + draft,
                 adaptive_num_accepted_tokens := adaptive_num_accepted_tokens acc + accepted,
                 adaptive_position_eligible := es, adaptive_position_accepted := as\<rparr>))"

definition roll_back :: "int \<Rightarrow> sreq \<Rightarrow> sreq" where
  "roll_back num_rejected r =
     (let r = (if num_computed_tokens r > 0
               then r\<lparr>num_computed_tokens := num_computed_tokens r - num_rejected\<rparr> else r) in
      if num_output_placeholders r > 0
      then r\<lparr>num_output_placeholders := num_output_placeholders r - num_rejected\<rparr> else r)"

text \<open>\<open>spec_ids\<close> are the scheduled draft tokens of the request (none when it has no entry),
  \<open>generated\<close> the sampled tokens.\<close>

definition account_spec ::
    "bool \<Rightarrow> int \<Rightarrow> int list \<Rightarrow> int list \<Rightarrow> bool \<Rightarrow> sreq \<Rightarrow> spec_acc \<Rightarrow> sreq \<times> spec_acc" where
  "account_spec adaptive num_sampled spec_ids generated stale r acc =
     (if spec_ids \<noteq> [] \<and> (generated \<noteq> [] \<or> num_sampled = 0)
      then
        (let draft = int (length spec_ids);
             accepted = max (int (length generated) - num_sampled) 0;
             rejected = draft - accepted in
         if stale then (r, acc)
         else (roll_back rejected r, observe_draft adaptive draft accepted num_sampled r acc))
      else (r, acc))"

subsection \<open>The instrumentation window\<close>

record mtp_config =
  instrument_enabled :: bool
  instrument_window :: int
  mtp_num_positions :: int
  configured_max_k :: int
  mtp_depth_ladder :: "int list"
  adaptive_enabled :: bool

record mtp =
  mtp_window_index :: int
  selected_k_run :: "(int, int) dict"
  w_steps :: int
  w_batches :: int
  w_draft_tokens :: int
  w_accepted_tokens :: int
  w_output_tokens :: int
  w_started_ns :: int
  w_context_min :: "int option"
  w_context_max :: "int option"
  w_eligible :: "int list"
  w_accepted :: "int list"
  w_selected_k :: "(int, int) dict"
  w_active_k_first :: "int option"

datatype mtp_reason = Decided decision_reason | NoDecision | Fixed

record mtp_record =
  rec_window_index :: int
  rec_configured_max_k :: int
  rec_depth_ladder :: "int list"
  rec_adaptive_enabled :: bool
  rec_active_k :: int
  rec_active_k_at_window_start :: "int option"
  rec_controller_previous_k :: "int option"
  rec_controller_next_k :: "int option"
  rec_decision_reason :: mtp_reason
  rec_controller_window :: "int option"
  rec_acceptance_ratchet :: "bool option"
  rec_verification_steps :: int
  rec_draft_batches :: int
  rec_drafts_attempted :: int
  rec_drafts_accepted :: int
  rec_acceptance_ratio :: rat
  rec_mean_attempted_per_batch :: rat
  rec_mean_accepted_per_batch :: rat
  rec_position_eligible :: "int list"
  rec_position_accepted :: "int list"
  rec_position_conditional_acceptance :: "rat list"
  rec_position_unconditional_gain :: "rat list"
  rec_tail_gain_23 :: rat
  rec_position_4_gain :: rat
  rec_controller_tail_gain_23 :: "rat option"
  rec_controller_position_4_gain :: "rat option"
  rec_output_tokens_emitted :: int
  rec_window_elapsed_ms :: rat
  rec_context_tokens_min :: "int option"
  rec_context_tokens_max :: "int option"
  rec_selected_k_window :: "(int \<times> int) list"
  rec_selected_k_run :: "(int \<times> int) list"

definition reset_mtp_window :: "mtp_config \<Rightarrow> mtp \<Rightarrow> mtp" where
  "reset_mtp_window cfg m =
     m\<lparr>w_steps := 0, w_batches := 0, w_draft_tokens := 0, w_accepted_tokens := 0, w_output_tokens := 0,
       w_started_ns := 0, w_context_min := None, w_context_max := None,
       w_eligible := replicate (nat (mtp_num_positions cfg)) 0,
       w_accepted := replicate (nat (mtp_num_positions cfg)) 0,
       w_selected_k := [], w_active_k_first := None\<rparr>"

definition bump :: "int \<Rightarrow> (int, int) dict \<Rightarrow> (int, int) dict" where
  "bump k d = dict_set k ((case dict_get d k of Some n \<Rightarrow> n | None \<Rightarrow> 0) + 1) d"

definition add_sample :: "sample \<Rightarrow> mtp \<Rightarrow> mtp" where
  "add_sample s m =
     (case s of (draft, accepted, context, output) \<Rightarrow>
       (case count_positions 1 draft accepted (w_eligible m) (w_accepted m) of (es, as) \<Rightarrow>
         m\<lparr>w_draft_tokens := w_draft_tokens m + draft, w_accepted_tokens := w_accepted_tokens m + accepted,
           w_output_tokens := w_output_tokens m + output,
           w_context_min := (case w_context_min m of None \<Rightarrow> Some context | Some c \<Rightarrow> Some (min c context)),
           w_context_max := (case w_context_min m of None \<Rightarrow> Some context
             | Some _ \<Rightarrow> (case w_context_max m of None \<Rightarrow> Some context | Some c \<Rightarrow> Some (max c context))),
           w_eligible := es, w_accepted := as\<rparr>))"

definition add_step :: "sample list \<Rightarrow> int \<Rightarrow> int \<Rightarrow> mtp \<Rightarrow> mtp" where
  "add_step samples active now m =
     (let m = m\<lparr>w_steps := w_steps m + 1,
                w_active_k_first := (case w_active_k_first m of None \<Rightarrow> Some active | Some k \<Rightarrow> Some k),
                w_selected_k := bump active (w_selected_k m), selected_k_run := bump active (selected_k_run m)\<rparr> in
      if samples = [] then m
      else
        fold add_sample samples
          (m\<lparr>w_started_ns := (if w_started_ns m = 0 then now else w_started_ns m),
             w_batches := w_batches m + int (length samples)\<rparr>))"

definition ratio :: "int \<Rightarrow> int \<Rightarrow> rat" where
  "ratio a b = (if b \<noteq> 0 then int_truediv a b else 0)"

definition mtp_report :: "mtp_config \<Rightarrow> acl_update option \<Rightarrow> int \<Rightarrow> int \<Rightarrow> mtp \<Rightarrow> mtp_record" where
  "mtp_report cfg update active now m =
     (let batches = w_batches m; eligible = w_eligible m; accepted = w_accepted m in
      \<lparr>rec_window_index = mtp_window_index m, rec_configured_max_k = configured_max_k cfg,
       rec_depth_ladder = mtp_depth_ladder cfg, rec_adaptive_enabled = adaptive_enabled cfg,
       rec_active_k = active, rec_active_k_at_window_start = w_active_k_first m,
       rec_controller_previous_k = map_option upd_previous update,
       rec_controller_next_k = map_option upd_num_spec_tokens update,
       rec_decision_reason = (case update of Some u \<Rightarrow> Decided (upd_reason u)
          | None \<Rightarrow> if adaptive_enabled cfg then NoDecision else Fixed),
       rec_controller_window = map_option upd_window update,
       rec_acceptance_ratchet = map_option upd_ratchet update,
       rec_verification_steps = w_steps m, rec_draft_batches = batches,
       rec_drafts_attempted = w_draft_tokens m, rec_drafts_accepted = w_accepted_tokens m,
       rec_acceptance_ratio = ratio (w_accepted_tokens m) (w_draft_tokens m),
       rec_mean_attempted_per_batch = ratio (w_draft_tokens m) batches,
       rec_mean_accepted_per_batch = ratio (w_accepted_tokens m) batches,
       rec_position_eligible = eligible, rec_position_accepted = accepted,
       rec_position_conditional_acceptance =
         map (\<lambda>i. ratio (accepted ! i) (eligible ! i)) [0..<nat (mtp_num_positions cfg)],
       rec_position_unconditional_gain = map (\<lambda>i. ratio (accepted ! i) batches) [0..<nat (mtp_num_positions cfg)],
       rec_tail_gain_23 = (if batches \<noteq> 0 \<and> mtp_num_positions cfg \<ge> 4
         then int_truediv (accepted ! 2 + accepted ! 3) batches else 0),
       rec_position_4_gain = (if batches \<noteq> 0 \<and> mtp_num_positions cfg \<ge> 5
         then int_truediv (accepted ! 4) batches else 0),
       rec_controller_tail_gain_23 = map_option upd_tail_gain_23 update,
       rec_controller_position_4_gain = map_option upd_position_4_gain update,
       rec_output_tokens_emitted = w_output_tokens m,
       rec_window_elapsed_ms = (if w_started_ns m \<noteq> 0
         then float_div (fl (of_int (now - w_started_ns m))) (fl 1000000) else 0),
       rec_context_tokens_min = w_context_min m, rec_context_tokens_max = w_context_max m,
       rec_selected_k_window = sort_key fst (w_selected_k m), rec_selected_k_run = sort_key fst (selected_k_run m)\<rparr>)"

text \<open>\<open>start\<close> and \<open>now\<close> are the two readings of the clock.\<close>

definition record_mtp_instrumentation ::
    "mtp_config \<Rightarrow> sample list \<Rightarrow> acl_update option \<Rightarrow> int \<Rightarrow> int \<Rightarrow> int \<Rightarrow> mtp \<Rightarrow> mtp_record option \<times> mtp" where
  "record_mtp_instrumentation cfg samples update active start now m =
     (if \<not> instrument_enabled cfg then (None, m)
      else
        (let m = add_step samples active start m in
         if w_steps m < instrument_window cfg then (None, m)
         else (Some (mtp_report cfg update active now m),
               reset_mtp_window cfg (m\<lparr>mtp_window_index := mtp_window_index m + 1\<rparr>))))"

subsection \<open>Construction\<close>

text \<open>The switches of the instrumentation, read from the environment.\<close>

definition mtp_instrument_enabled :: "string option \<Rightarrow> bool" where
  "mtp_instrument_enabled env =
     (map ascii_lower (py_strip (case env of None \<Rightarrow> ''0'' | Some s \<Rightarrow> s))
       \<notin> {[], ''0'', ''false'', ''no'', ''off''})"

definition mtp_instrument_window :: "string option \<Rightarrow> int" where
  "mtp_instrument_window env =
     (case py_int (case env of None \<Rightarrow> ''32'' | Some s \<Rightarrow> s) of Some n \<Rightarrow> max 1 n | None \<Rightarrow> 32)"

text \<open>The controller exists when an observation window is configured; its ladder comes from the
  parser the graph capture uses.\<close>

datatype controller_error = ControllerLadder ladder_error | ControllerArgs acl_error

definition build_controller :: "string option \<Rightarrow> int \<Rightarrow> int option \<Rightarrow> controller_error + acl option" where
  "build_controller env k window =
     (case window of
        None \<Rightarrow> Inr None
      | Some w \<Rightarrow>
         (case parse_adaptive_spec_depth_ladder env k None of
            Inl e \<Rightarrow> Inl (ControllerLadder e)
          | Inr ladder \<Rightarrow>
             (case acl_init k w (Some ladder) of
                Inl e \<Rightarrow> Inl (ControllerArgs e)
              | Inr c \<Rightarrow> Inr (Some c))))"

text \<open>The depth of a step: the smaller of the controller's depth and the static schedule's, which
  is looked up by the number of scheduled requests.\<close>

definition num_spec_tokens_to_schedule :: "int \<Rightarrow> acl option \<Rightarrow> int list option \<Rightarrow> nat \<Rightarrow> int" where
  "num_spec_tokens_to_schedule configured controller lookup num_reqs =
     (let k = (case controller of Some c \<Rightarrow> num_spec_tokens c | None \<Rightarrow> configured) in
      case lookup of
        Some t \<Rightarrow> if num_reqs > 0 then min k (t ! num_reqs) else k
      | None \<Rightarrow> k)"

subsection \<open>The end of a step\<close>

definition active_num_spec_tokens :: "int \<Rightarrow> int \<Rightarrow> int" where
  "active_num_spec_tokens scheduled configured = (if scheduled \<noteq> 0 then scheduled else configured)"

definition feed_controller :: "spec_acc \<Rightarrow> acl option \<Rightarrow> (acl_error + acl_update option) \<times> acl option" where
  "feed_controller acc controller =
     (case controller of
        None \<Rightarrow> (Inr None, None)
      | Some c \<Rightarrow>
         (case observe_batch (adaptive_num_drafts acc) (adaptive_num_draft_tokens acc)
                 (adaptive_num_accepted_tokens acc) (Some (adaptive_position_eligible acc))
                 (Some (adaptive_position_accepted acc)) c of (u, c') \<Rightarrow> (u, Some c')))"

definition conclude_spec_step ::
    "mtp_config \<Rightarrow> int \<Rightarrow> spec_acc \<Rightarrow> int \<Rightarrow> int \<Rightarrow> acl option \<Rightarrow> mtp
      \<Rightarrow> acl_error + mtp_record option \<times> acl option \<times> mtp" where
  "conclude_spec_step cfg scheduled acc start now controller m =
     (case feed_controller acc controller of (res, controller') \<Rightarrow>
       bindE res (\<lambda>update.
       (case record_mtp_instrumentation cfg (mtp_samples acc) update
               (active_num_spec_tokens scheduled (configured_max_k cfg)) start now m of
          (report, m') \<Rightarrow> Inr (report, controller', m'))))"

subsection \<open>What the position loop counts\<close>

definition eligible_at :: "int \<Rightarrow> int \<Rightarrow> int \<Rightarrow> int" where
  "eligible_at pos draft accepted = (if pos \<le> draft \<and> (pos = 1 \<or> pos - 1 \<le> accepted) then 1 else 0)"

definition accepted_at :: "int \<Rightarrow> int \<Rightarrow> int \<Rightarrow> int" where
  "accepted_at pos draft accepted = (if pos \<le> draft \<and> pos \<le> accepted then 1 else 0)"

lemma count_positions_spec:
  "length es = length as \<Longrightarrow> \<exists>es' as'. count_positions pos draft accepted es as = (es', as')
     \<and> length es' = length es \<and> length as' = length as
     \<and> (\<forall>i < length es. es' ! i = es ! i + eligible_at (pos + int i) draft accepted
          \<and> as' ! i = as ! i + accepted_at (pos + int i) draft accepted)"
proof (induction es as arbitrary: pos rule: list_induct2)
  case (Cons e es a as)
  show ?case
  proof (cases "draft < pos")
    case True
    then have "\<forall>i. eligible_at (pos + int i) draft accepted = 0 \<and> accepted_at (pos + int i) draft accepted = 0"
      by (simp add: eligible_at_def accepted_at_def)
    with True Cons.hyps show ?thesis by simp
  next
    case False
    obtain es' as' where r: "count_positions (pos + 1) draft accepted es as = (es', as')"
      "length es' = length es" "length as' = length as"
      "\<forall>i < length es. es' ! i = es ! i + eligible_at (pos + 1 + int i) draft accepted
          \<and> as' ! i = as ! i + accepted_at (pos + 1 + int i) draft accepted" using Cons.IH [of "pos + 1"] by blast
    let ?es = "(e + eligible_at pos draft accepted) # es'" and ?as = "(a + accepted_at pos draft accepted) # as'"
    have "count_positions pos draft accepted (e # es) (a # as) = (?es, ?as)"
      using False r(1) by (simp add: eligible_at_def accepted_at_def)
    moreover have "?es ! i = (e # es) ! i + eligible_at (pos + int i) draft accepted
        \<and> ?as ! i = (a # as) ! i + accepted_at (pos + int i) draft accepted" if "i < length (e # es)" for i
      using that r(4) by (cases i) (simp_all add: add.assoc)
    ultimately show ?thesis using r(2,3) Cons.hyps by simp
  qed
qed simp

subsection \<open>The window as a log\<close>

text \<open>
  The specification of the window is the log of its steps: for each step the depth in force and the
  samples of the verified requests. Every counter is a function of the log.
\<close>

type_synonym mtp_log = "(int \<times> sample list) list"

definition log_samples :: "mtp_log \<Rightarrow> sample list" where
  "log_samples steps = concat (map snd steps)"

definition eligible_counts :: "nat \<Rightarrow> sample list \<Rightarrow> int list" where
  "eligible_counts n ss = map (\<lambda>i. sum_list (map (\<lambda>(d, a, _). eligible_at (1 + int i) d a) ss)) [0..<n]"

definition accepted_counts :: "nat \<Rightarrow> sample list \<Rightarrow> int list" where
  "accepted_counts n ss = map (\<lambda>i. sum_list (map (\<lambda>(d, a, _). accepted_at (1 + int i) d a) ss)) [0..<n]"

definition samples_abs :: "nat \<Rightarrow> sample list \<Rightarrow> mtp \<Rightarrow> bool" where
  "samples_abs n ss m \<longleftrightarrow>
     w_draft_tokens m = sum_list (map (\<lambda>(d, _). d) ss)
     \<and> w_accepted_tokens m = sum_list (map (\<lambda>(_, a, _). a) ss)
     \<and> w_output_tokens m = sum_list (map (\<lambda>(_, _, _, x). x) ss)
     \<and> w_context_min m = (if ss = [] then None else Some (Min (set (map (\<lambda>(_, _, c, _). c) ss))))
     \<and> w_context_max m = (if ss = [] then None else Some (Max (set (map (\<lambda>(_, _, c, _). c) ss))))
     \<and> w_eligible m = eligible_counts n ss \<and> w_accepted m = accepted_counts n ss"

definition window_abs :: "mtp_config \<Rightarrow> mtp_log \<Rightarrow> mtp \<Rightarrow> bool" where
  "window_abs cfg steps m \<longleftrightarrow>
     samples_abs (nat (mtp_num_positions cfg)) (log_samples steps) m
     \<and> w_steps m = int (length steps) \<and> w_batches m = int (length (log_samples steps))
     \<and> w_active_k_first m = (case steps of [] \<Rightarrow> None | x # _ \<Rightarrow> Some (fst x))
     \<and> (\<forall>k. dict_get (w_selected_k m) k
          = (if k \<in> set (map fst steps) then Some (int (count_list (map fst steps) k)) else None))"

lemma samples_abs_add:
  assumes "samples_abs n ss m"
  shows "samples_abs n (ss @ [s]) (add_sample s m)"
proof -
  obtain d a c x where s: "s = (d, a, c, x)" by (cases s)
  have len: "length (w_eligible m) = length (w_accepted m)" "length (w_eligible m) = n"
    using assms by (simp_all add: samples_abs_def eligible_counts_def accepted_counts_def)
  obtain es as where r: "count_positions 1 d a (w_eligible m) (w_accepted m) = (es, as)"
    "length es = n" "length as = n"
    "\<forall>i < n. es ! i = w_eligible m ! i + eligible_at (1 + int i) d a
        \<and> as ! i = w_accepted m ! i + accepted_at (1 + int i) d a"
    using count_positions_spec [OF len(1), of 1 d a] len by auto
  have "es = eligible_counts n (ss @ [s])" "as = accepted_counts n (ss @ [s])"
    using r assms by (auto intro!: nth_equalityI simp: eligible_counts_def accepted_counts_def samples_abs_def s)
  moreover have "Min (insert c (set (map (\<lambda>(_, _, c, _). c) ss))) = min (Min (set (map (\<lambda>(_, _, c, _). c) ss))) c"
    "Max (insert c (set (map (\<lambda>(_, _, c, _). c) ss))) = max (Max (set (map (\<lambda>(_, _, c, _). c) ss))) c"
    if "ss \<noteq> []" using that by (simp_all add: min.commute max.commute)
  ultimately show ?thesis
    using assms r(1) by (auto simp: samples_abs_def add_sample_def s split: option.splits)
qed

lemma samples_abs_fold: "samples_abs n ss m \<Longrightarrow> samples_abs n (ss @ ts) (fold add_sample ts m)"
proof (induction ts arbitrary: ss m)
  case (Cons t ts)
  then show ?case using samples_abs_add [OF Cons.prems, of t] Cons.IH [of "ss @ [t]"] by simp
qed simp

lemma add_sample_frame:
  "w_steps (fold add_sample ts m) = w_steps m" "w_batches (fold add_sample ts m) = w_batches m"
  "w_active_k_first (fold add_sample ts m) = w_active_k_first m"
  "w_selected_k (fold add_sample ts m) = w_selected_k m" "selected_k_run (fold add_sample ts m) = selected_k_run m"
  "mtp_window_index (fold add_sample ts m) = mtp_window_index m"
  by (induction ts arbitrary: m) (simp_all add: add_sample_def split: prod.splits)

lemma window_abs_step:
  assumes "window_abs cfg steps m"
  shows "window_abs cfg (steps @ [(active, samples)]) (add_step samples active start m)"
proof -
  have sel: "dict_get (bump active (w_selected_k m)) k = (if k \<in> set (map fst (steps @ [(active, samples)]))
      then Some (int (count_list (map fst (steps @ [(active, samples)])) k)) else None)" for k
    using assms by (auto simp: window_abs_def bump_def dict_get_set split: option.splits)
  have first: "(case steps of [] \<Rightarrow> Some active | x # _ \<Rightarrow> Some (fst x))
      = (case steps @ [(active, samples)] of [] \<Rightarrow> None | x # _ \<Rightarrow> Some (fst x))" by (cases steps) simp_all
  let ?m = "m\<lparr>w_steps := w_steps m + 1,
      w_active_k_first := (case w_active_k_first m of None \<Rightarrow> Some active | Some k \<Rightarrow> Some k),
      w_selected_k := bump active (w_selected_k m), selected_k_run := bump active (selected_k_run m),
      w_started_ns := (if w_started_ns m = 0 then start else w_started_ns m),
      w_batches := w_batches m + int (length samples)\<rparr>"
  have "samples_abs (nat (mtp_num_positions cfg)) (log_samples steps) ?m"
    using assms by (simp add: window_abs_def samples_abs_def)
  from samples_abs_fold [OF this, of samples] show ?thesis
    using assms sel first
    by (cases "samples = []")
      (auto simp: window_abs_def add_step_def Let_def log_samples_def add_sample_frame samples_abs_def split: list.splits)
qed

lemma window_abs_reset: "window_abs cfg [] (reset_mtp_window cfg m)"
  by (auto simp: window_abs_def reset_mtp_window_def samples_abs_def log_samples_def eligible_counts_def
      accepted_counts_def map_replicate_trivial intro!: nth_equalityI)

text \<open>What a report must say about the steps of its window.\<close>

definition report_matches :: "mtp_config \<Rightarrow> mtp_log \<Rightarrow> mtp_record \<Rightarrow> bool" where
  "report_matches cfg steps r \<longleftrightarrow>
     (let n = nat (mtp_num_positions cfg); ss = log_samples steps; batches = int (length ss) in
      rec_verification_steps r = int (length steps) \<and> rec_draft_batches r = batches
      \<and> rec_active_k_at_window_start r = Some (fst (hd steps)) \<and> rec_active_k r = fst (last steps)
      \<and> rec_drafts_attempted r = sum_list (map (\<lambda>(d, _). d) ss)
      \<and> rec_drafts_accepted r = sum_list (map (\<lambda>(_, a, _). a) ss)
      \<and> rec_output_tokens_emitted r = sum_list (map (\<lambda>(_, _, _, x). x) ss)
      \<and> rec_position_eligible r = eligible_counts n ss \<and> rec_position_accepted r = accepted_counts n ss
      \<and> (mtp_num_positions cfg \<ge> 4 \<and> ss \<noteq> [] \<longrightarrow> rec_tail_gain_23 r
           = int_truediv (accepted_counts n ss ! 2 + accepted_counts n ss ! 3) batches)
      \<and> (\<forall>k. map_of (rec_selected_k_window r) k
           = (if k \<in> set (map fst steps) then Some (int (count_list (map fst steps) k)) else None)))"

lemma map_of_sort_key:
  fixes d :: "(int, 'v) dict"
  assumes d: "distinct (map fst d)"
  shows "map_of (sort_key fst d) = map_of d"
proof -
  have "distinct d" "inj_on fst (set d)" using d by (simp_all add: distinct_map)
  then have "distinct (map fst (sort_key fst d))" by (simp add: distinct_map)
  with d show ?thesis by (subst map_of_inject_set) simp_all
qed

text \<open>
  C11: the instrumentation window refines the log of its steps. The counters kept by the scheduler
  are the counts of the log; a step is appended to it; before the window is full nothing is
  reported; the step that fills the window emits exactly one report, whose volumes, per-position
  counts, tail gain and depth distribution are those of the logged steps, and leaves an empty log.
\<close>

theorem mtp_window_refines_log:
  assumes on: "instrument_enabled cfg" and abs: "window_abs cfg steps m" and keys: "distinct (dict_keys (w_selected_k m))"
    and run: "record_mtp_instrumentation cfg samples update active start now m = (report, m')"
    and steps': "steps' = steps @ [(active, samples)]"
  shows "if int (length steps') < instrument_window cfg
     then report = None \<and> window_abs cfg steps' m'
     else window_abs cfg [] m' \<and> mtp_window_index m' = mtp_window_index m + 1
       \<and> (\<exists>r. report = Some r \<and> report_matches cfg steps' r)"
proof -
  let ?m = "add_step samples active start m"
  have abs': "window_abs cfg steps' ?m" unfolding steps' by (rule window_abs_step [OF abs])
  have idx: "mtp_window_index ?m = mtp_window_index m" by (simp add: add_step_def Let_def add_sample_frame)
  have full: "w_steps ?m < instrument_window cfg \<longleftrightarrow> int (length steps') < instrument_window cfg"
    using abs' by (simp add: window_abs_def)
  have "distinct (map fst (w_selected_k ?m))"
    using dict_set_distinct [OF keys] by (simp add: add_step_def Let_def add_sample_frame bump_def dict_keys_def)
  then have sel: "map_of (sort_key fst (w_selected_k ?m)) k = dict_get (w_selected_k ?m) k" for k
    by (simp add: map_of_sort_key dict_get_def)
  have ends: "w_active_k_first ?m = Some (fst (hd steps'))" "fst (last steps') = active"
    using abs' by (auto simp: window_abs_def steps' neq_Nil_conv split: list.splits)
  have "report_matches cfg steps' (mtp_report cfg update active now ?m)"
    using abs' sel ends unfolding report_matches_def window_abs_def samples_abs_def mtp_report_def Let_def by simp
  then show ?thesis
    using run on abs' full idx window_abs_reset
    by (auto simp: record_mtp_instrumentation_def Let_def reset_mtp_window_def split: if_splits)
qed

definition sample_mtp_config :: mtp_config where
  "sample_mtp_config = \<lparr>instrument_enabled = True, instrument_window = 1, mtp_num_positions = 5,
     configured_max_k = 5, mtp_depth_ladder = [2, 4, 5], adaptive_enabled = True\<rparr>"

definition empty_mtp :: mtp where
  "empty_mtp = reset_mtp_window sample_mtp_config \<lparr>mtp_window_index = 0, selected_k_run = [], w_steps = 0, w_batches = 0,
     w_draft_tokens = 0, w_accepted_tokens = 0, w_output_tokens = 0, w_started_ns = 0, w_context_min = None,
     w_context_max = None, w_eligible = [], w_accepted = [], w_selected_k = [], w_active_k_first = None\<rparr>"

theorem mtp_window_refines_log_witness:
  "\<exists>r m'. record_mtp_instrumentation sample_mtp_config [(4, 3, 120, 4), (2, 0, 50, 1)] None 4 1 2000001 empty_mtp = (Some r, m')
     \<and> report_matches sample_mtp_config [(4, [(4, 3, 120, 4), (2, 0, 50, 1)])] r"
proof -
  obtain report m' where run: "record_mtp_instrumentation sample_mtp_config [(4, 3, 120, 4), (2, 0, 50, 1)] None 4 1 2000001
      empty_mtp = (report, m')" by fastforce
  have "instrument_enabled sample_mtp_config" "instrument_window sample_mtp_config = 1"
    by (simp_all add: sample_mtp_config_def)
  moreover have "window_abs sample_mtp_config [] empty_mtp" unfolding empty_mtp_def by (rule window_abs_reset)
  moreover have "distinct (dict_keys (w_selected_k empty_mtp))"
    by (simp add: empty_mtp_def reset_mtp_window_def dict_keys_def)
  ultimately show ?thesis using mtp_window_refines_log [OF _ _ _ run refl, of "[]"] run by auto
qed

subsection \<open>The observation of a step\<close>

definition acc_ok :: "int \<Rightarrow> spec_acc \<Rightarrow> bool" where
  "acc_ok k acc \<longleftrightarrow> 0 \<le> adaptive_num_drafts acc
     \<and> 0 \<le> adaptive_num_accepted_tokens acc \<and> adaptive_num_accepted_tokens acc \<le> adaptive_num_draft_tokens acc
     \<and> (adaptive_num_drafts acc = 0 \<longrightarrow> adaptive_num_draft_tokens acc = 0)
     \<and> length (adaptive_position_eligible acc) = nat k \<and> length (adaptive_position_accepted acc) = nat k
     \<and> (\<forall>i < nat k. 0 \<le> adaptive_position_accepted acc ! i
          \<and> adaptive_position_accepted acc ! i \<le> adaptive_position_eligible acc ! i)"

text \<open>One request of a step: its scheduled drafts, its sampled tokens, whether the output is stale.\<close>

type_synonym step_output = "int list \<times> int list \<times> bool \<times> sreq"

definition account_output :: "bool \<Rightarrow> int \<Rightarrow> step_output \<Rightarrow> spec_acc \<Rightarrow> spec_acc" where
  "account_output adaptive num_sampled x acc =
     (case x of (spec_ids, generated, stale, r) \<Rightarrow> snd (account_spec adaptive num_sampled spec_ids generated stale r acc))"

lemma account_ok:
  assumes ok: "acc_ok k acc" and bound: "int (length generated) \<le> int (length spec_ids) + num_sampled"
  shows "acc_ok k (snd (account_spec adaptive num_sampled spec_ids generated stale r acc))"
proof -
  let ?d = "int (length spec_ids)" and ?a = "max (int (length generated) - num_sampled) 0"
  have ad: "0 \<le> ?a" "?a \<le> ?d" using bound by simp_all
  obtain es as where c: "count_positions 1 ?d ?a (adaptive_position_eligible acc) (adaptive_position_accepted acc) = (es, as)"
    "length es = nat k" "length as = nat k"
    "\<forall>i < nat k. es ! i = adaptive_position_eligible acc ! i + eligible_at (1 + int i) ?d ?a
        \<and> as ! i = adaptive_position_accepted acc ! i + accepted_at (1 + int i) ?d ?a"
    using count_positions_spec [of "adaptive_position_eligible acc" "adaptive_position_accepted acc" 1 ?d ?a] ok
    by (auto simp: acc_ok_def)
  have "0 \<le> accepted_at p ?d ?a \<and> accepted_at p ?d ?a \<le> eligible_at p ?d ?a" for p
    by (simp add: accepted_at_def eligible_at_def)
  with c(4) ok have "\<forall>i < nat k. 0 \<le> as ! i \<and> as ! i \<le> es ! i"
    by (simp add: acc_ok_def add_nonneg_nonneg add_mono)
  then show ?thesis
    using ok ad c by (auto simp: account_spec_def observe_draft_def Let_def acc_ok_def)
qed

text \<open>
  C12: the scheduler never makes the controller raise. Whatever the requests of a step drafted and
  whatever was sampled for them (at most the drafts and the newly sampled tokens), stale outputs
  included, the counts and the position vectors accumulated for the step are accepted by
  \<^verbatim>\<open>observe_batch\<close> of a consistent controller of the same maximum depth, which stays consistent.
\<close>

theorem step_observation_accepted:
  assumes inv: "acl_inv c"
    and outs: "\<forall>(spec_ids, generated, stale, r) \<in> set outs. int (length generated) \<le> int (length spec_ids) + num_sampled"
    and acc: "acc = fold (account_output True num_sampled) outs (no_drafts (max_num_spec_tokens c))"
  shows "\<exists>u c'. feed_controller acc (Some c) = (Inr u, Some c') \<and> acl_inv c'"
proof -
  have "acc_ok k (fold (account_output True num_sampled) xs a)"
    if "acc_ok k a" "\<forall>(spec_ids, generated, stale, r) \<in> set xs. int (length generated) \<le> int (length spec_ids) + num_sampled" for k xs a
    using that
  proof (induction xs arbitrary: a)
    case (Cons x xs)
    obtain s g st r where x: "x = (s, g, st, r)" by (cases x)
    have "acc_ok k (account_output True num_sampled x a)"
      using account_ok [OF Cons.prems(1), of g s num_sampled True st r] Cons.prems(2) by (simp add: account_output_def x)
    with Cons show ?case by simp
  qed simp
  from this [OF _ outs, of "max_num_spec_tokens c"] have ok: "acc_ok (max_num_spec_tokens c) acc"
    by (simp add: acc acc_ok_def no_drafts_def)
  let ?x = "\<lparr>obs_drafts = adaptive_num_drafts acc, obs_draft_tokens = adaptive_num_draft_tokens acc,
     obs_accepted_tokens = adaptive_num_accepted_tokens acc, obs_eligible = Some (adaptive_position_eligible acc),
     obs_accepted = Some (adaptive_position_accepted acc)\<rparr>"
  have "\<exists>u c'. observe ?x c = (Inr u, c')"
  proof (cases "adaptive_num_drafts acc = 0")
    case True
    then show ?thesis using ok by (auto simp: observe_batch_def acc_ok_def)
  next
    case False
    have "\<forall>(e, a) \<in> set (zip (adaptive_position_eligible acc) (adaptive_position_accepted acc)). 0 \<le> a \<and> a \<le> e"
      using ok by (auto simp: acc_ok_def in_set_zip)
    then have "valid_observation (max_num_spec_tokens c) ?x"
      using ok False inv by (auto simp: valid_observation_def acc_ok_def acl_inv_def)
    from observe_valid [OF inv this] show ?thesis by blast
  qed
  moreover have "acl_inv (snd (observe ?x c))" by (rule observe_batch_inv [OF inv])
  ultimately show ?thesis by (auto simp: feed_controller_def)
qed

theorem step_observation_accepted_witness:
  "\<exists>u c'. feed_controller (fold (account_output True 1) [([7, 8], [7, 9], False, sample_request), ([5], [], True, sample_request)]
       (no_drafts 5))
     (Some \<lparr>max_num_spec_tokens = 5, observation_window = 1, depth_ladder = [2, 4, 5], num_spec_tokens = 2,
        num_observation_steps = 0, num_drafts = 0, num_draft_tokens = 0, num_accepted_tokens = 0,
        position_eligible = [0, 0, 0, 0, 0], position_accepted = [0, 0, 0, 0, 0]\<rparr>) = (Inr u, Some c')"
proof -
  let ?c = "\<lparr>max_num_spec_tokens = 5, observation_window = 1, depth_ladder = [2, 4, 5], num_spec_tokens = 2,
        num_observation_steps = 0, num_drafts = 0, num_draft_tokens = 0, num_accepted_tokens = 0,
        position_eligible = [0, 0, 0, 0, 0], position_accepted = [0, 0, 0, 0, 0]\<rparr> :: acl"
  have "acl_inv ?c" by (simp add: acl_inv_def ladder_ok_def positions_ok_def)
  from step_observation_accepted [OF this, of "[([7, 8], [7, 9], False, sample_request), ([5], [], True, sample_request)]" 1]
  show ?thesis by auto
qed

end
