(* ===== verification/SchedOutput.thy ===== *)
theory SchedOutput
  imports SchedInvalid SchedMtp
begin

text \<open>
  The processing of a step's output in \<^verbatim>\<open>scheduler.py\<close>: \<^verbatim>\<open>update_from_output\<close> with
  \<^verbatim>\<open>_update_request_with_output\<close> and \<^verbatim>\<open>_free_encoder_inputs\<close>, and the two methods that install draft
  tokens (\<^verbatim>\<open>update_draft_token_ids\<close>, \<^verbatim>\<open>update_draft_token_ids_in_output\<close>). An output can arrive after its
  request was preempted, aborted or evicted from the runner's batch; the theory shows how the counters
  of tokens in flight tell a stale output from a current one, that the queues stay consistent, and
  where a streaming session is lost.

  The stop check, the structured-output manager and the encoder cache are outside the repository and
  enter through \<open>out_api\<close>; \<open>'e\<close> is the joint state of the encoder cache and of the grammars. Log
  probabilities, routed experts, pooling values, prefill statistics, events and metrics are not modelled:
  an engine output carries the identifier, the new tokens and the final status.
\<close>

subsection \<open>Interfaces and messages\<close>

record ('k, 'e) out_api =
  life :: "('k, 'e) life_api"
  check_stop :: "sreq \<Rightarrow> int \<Rightarrow> bool \<times> sreq"
  kv_get_block_ids :: "string \<Rightarrow> 'k \<Rightarrow> int list list"
  kv_evict_blocks :: "int list \<Rightarrow> 'k \<Rightarrow> 'k"
  enc_cached_input_ids :: "sreq \<Rightarrow> 'e \<Rightarrow> nat list"
  enc_free_input :: "sreq \<Rightarrow> nat \<Rightarrow> 'e \<Rightarrow> 'e"
  so_should_advance :: "sreq \<Rightarrow> int list option \<Rightarrow> 'e \<Rightarrow> bool"
  so_trim_reasoning :: "sreq \<Rightarrow> int list \<Rightarrow> 'e \<Rightarrow> int list"
  so_accept_tokens :: "string \<Rightarrow> int list \<Rightarrow> 'e \<Rightarrow> bool \<times> 'e"
  so_validate_tokens :: "sreq \<Rightarrow> int list \<Rightarrow> 'e \<Rightarrow> int list"

record sched_output =
  out_num_scheduled_tokens :: "(string, int) dict"
  out_spec_decode_tokens :: "(string, int list) dict"
  out_total_num_scheduled_tokens :: int
  out_num_spec_tokens_to_schedule :: int
  out_num_invalid_spec_tokens :: "(string, int) dict"

record kv_output =
  invalid_block_ids :: "int list"
  finished_recving :: "string list"
  finished_sending :: "string list"

record runner_output =
  req_id_to_index :: "(string, nat) dict"
  sampled_token_ids :: "int list list"
  pooler_outputs :: "bool list"
  kv_connector_output :: "kv_output option"

record engine_output =
  eo_request_id :: string
  eo_new_token_ids :: "int list"
  eo_finish :: "status option"

record ('k, 'e) upd = "('k, 'e) core" +
  u_acc :: spec_acc
  stopped_running :: "string list"
  stopped_preempted :: "string list"
  u_outputs :: "engine_output list"

subsection \<open>One request\<close>

text \<open>The tokens of the step leave the counters; the flag says whether the output is stale.\<close>

definition settle_in_flight :: "int \<Rightarrow> sreq \<Rightarrow> sched_error + bool \<times> sreq" where
  "settle_in_flight n r =
     (let r = r\<lparr>num_in_flight_tokens := num_in_flight_tokens r - n\<rparr> in
      if num_stale_output_tokens r > 0
      then
        (let r = r\<lparr>num_stale_output_tokens := num_stale_output_tokens r - n\<rparr> in
         bindE (raiseIf (num_stale_output_tokens r < 0) (NegativeStaleTokens (request_id r))) (\<lambda>_. Inr (True, r)))
      else Inr (False, r))"

definition append_output_token :: "int \<Rightarrow> sreq \<Rightarrow> sreq" where
  "append_output_token t r = r\<lparr>output_token_ids := output_token_ids r @ [t], all_token_ids := all_token_ids r @ [t]\<rparr>"

text \<open>Tokens after the one that stops the request are dropped.\<close>

fun update_request_with_output ::
    "(sreq \<Rightarrow> int \<Rightarrow> bool \<times> sreq) \<Rightarrow> int \<Rightarrow> int list \<Rightarrow> sreq \<Rightarrow> int list \<times> bool \<times> sreq" where
  "update_request_with_output check max_len [] r = ([], False, r)"
| "update_request_with_output check max_len (t # ts) r =
     (case check (append_output_token t r) max_len of (stop, r) \<Rightarrow>
        if stop then ([t], True, r)
        else (case update_request_with_output check max_len ts r of (us, stopped, r) \<Rightarrow> (t # us, stopped, r)))"

definition encoder_input_done :: "sched_config \<Rightarrow> sreq \<Rightarrow> mm_feature \<Rightarrow> bool" where
  "encoder_input_done cfg r f \<longleftrightarrow>
     (is_encoder_decoder cfg \<and> num_computed_tokens r > 0)
   \<or> mm_offset f + mm_length f + (if use_eagle cfg then 1 else 0) \<le> num_computed_tokens r - num_output_placeholders r"

definition free_encoder_inputs :: "sched_config \<Rightarrow> ('k, 'e) out_api \<Rightarrow> sreq \<Rightarrow> 'e \<Rightarrow> sched_error + 'e" where
  "free_encoder_inputs cfg api r e =
     foldE (\<lambda>i e. if i < length (mm_features r)
              then Inr (if encoder_input_done cfg r (mm_features r ! i) then enc_free_input api r i e else e)
              else Inl (NoSuchFeature i))
       (enc_cached_input_ids api r e) e"

definition advance_grammar ::
    "('k, 'e) out_api \<Rightarrow> int list \<Rightarrow> bool \<Rightarrow> sreq \<Rightarrow> 'e \<Rightarrow> sched_error + bool \<times> sreq \<times> 'e" where
  "advance_grammar api toks stopped r e =
     (if toks \<noteq> [] \<and> so_should_advance api r (Some toks) e
      then
        (case structured_output_request r of
           Some GrammarReady \<Rightarrow>
             (case so_trim_reasoning api r toks e of
                [] \<Rightarrow> Inr (stopped, r, e)
              | adv \<Rightarrow>
                  (case so_accept_tokens api (request_id r) adv e of
                     (ok, e) \<Rightarrow> Inr (if ok then (stopped, r, e)
                                     else (True, r\<lparr>req_status := FINISHED_ERROR, resumable := False\<rparr>, e))))
         | _ \<Rightarrow> Inl (NoGrammar (request_id r)))
      else Inr (stopped, r, e))"

definition runner_index :: "'a list \<Rightarrow> string \<Rightarrow> nat \<Rightarrow> sched_error + 'a" where
  "runner_index xs i k = (if k < length xs then Inr (xs ! k) else Inl (NoOutput i))"

definition receive_tokens :: "sched_config \<Rightarrow> ('k, 'e) out_api \<Rightarrow> int list \<Rightarrow> bool \<Rightarrow> sreq \<Rightarrow> int list \<times> bool \<times> sreq" where
  "receive_tokens cfg api generated pooled r =
     (if generated \<noteq> [] then update_request_with_output (check_stop api) (max_model_len cfg) generated r
      else if is_pooling r \<and> pooled then ([], True, r\<lparr>req_status := FINISHED_STOPPED\<rparr>)
      else ([], False, r))"

definition stop_request ::
    "sched_config \<Rightarrow> ('k, 'e) out_api \<Rightarrow> status \<Rightarrow> string \<Rightarrow> ('k, 'e) upd \<Rightarrow> sched_error + ('k, 'e) upd" where
  "stop_request cfg api status_before i u =
     bindE (handle_stopped_request (life api) i (rn_sched u)) (\<lambda>(finished, st).
     (let u = u\<lparr>rn_sched := st\<rparr> in
      bindE (if finished
             then (case dict_get (requests st) i of None \<Rightarrow> Inl (UnknownRequest i) | Some r \<Rightarrow> free_request cfg (life api) False r u)
             else Inr u) (\<lambda>u.
      Inr (if status_before = RUNNING then u\<lparr>stopped_running := List.insert i (stopped_running u)\<rparr>
           else u\<lparr>stopped_preempted := List.insert i (stopped_preempted u)\<rparr>))))"

definition finish_delivery ::
    "sched_config \<Rightarrow> ('k, 'e) out_api \<Rightarrow> status \<Rightarrow> string \<Rightarrow> int list \<Rightarrow> bool \<Rightarrow> bool \<Rightarrow> sreq \<Rightarrow> ('k, 'e) upd
      \<Rightarrow> sched_error + ('k, 'e) upd" where
  "finish_delivery cfg api status_before i toks pooled stopped r u =
     bindE (if stopped then stop_request cfg api status_before i u else Inr u) (\<lambda>u.
     Inr (if toks \<noteq> [] \<or> pooled \<or> stopped
          then u\<lparr>u_outputs := u_outputs u @
                   [\<lparr>eo_request_id = i, eo_new_token_ids = toks,
                     eo_finish = (if stopped then Some (req_status r) else None)\<rparr>]\<rparr>
          else u))"

text \<open>The part of the loop body behind the guards, for the request \<open>r\<close> at index \<open>k\<close> of the runner's output.\<close>

definition deliver_output ::
    "sched_config \<Rightarrow> ('k, 'e) out_api \<Rightarrow> bool \<Rightarrow> sched_output \<Rightarrow> runner_output \<Rightarrow> bool \<Rightarrow> nat \<Rightarrow> string \<Rightarrow> sreq
      \<Rightarrow> ('k, 'e) upd \<Rightarrow> sched_error + ('k, 'e) upd" where
  "deliver_output cfg api adaptive out ro stale k i r u =
     bindE (if sampled_token_ids ro \<noteq> [] then runner_index (sampled_token_ids ro) i k else Inr []) (\<lambda>generated.
     (case account_spec adaptive (num_sampled_tokens_per_step cfg)
             (case dict_get (out_spec_decode_tokens out) i of None \<Rightarrow> [] | Some ts \<Rightarrow> ts) generated stale r (u_acc u) of
        (r, acc) \<Rightarrow>
     bindE (if has_encoder_inputs r then free_encoder_inputs cfg api r (rn_enc u) else Inr (rn_enc u)) (\<lambda>e.
     bindE (if pooler_outputs ro \<noteq> [] then runner_index (pooler_outputs ro) i k else Inr False) (\<lambda>pooled.
     (case receive_tokens cfg api generated pooled r of (toks, stopped, r') \<Rightarrow>
     bindE (advance_grammar api toks stopped r' e) (\<lambda>(stopped, r', e).
     finish_delivery cfg api (req_status r) i toks pooled stopped r'
       (u\<lparr>u_acc := acc, rn_enc := e, rn_sched := mutate i (\<lambda>_. r') (rn_sched u)\<rparr>)))))))"

definition process_output ::
    "sched_config \<Rightarrow> ('k, 'e) out_api \<Rightarrow> bool \<Rightarrow> sched_output \<Rightarrow> runner_output \<Rightarrow> string list \<Rightarrow> string \<times> int
      \<Rightarrow> ('k, 'e) upd \<Rightarrow> sched_error + ('k, 'e) upd" where
  "process_output cfg api adaptive out ro failed = (\<lambda>(i, n) u.
     bindE (raiseIf (n \<le> 0) (NothingScheduled i)) (\<lambda>_.
     (case dict_get (requests (rn_sched u)) i of
        None \<Rightarrow> Inr u
      | Some r \<Rightarrow>
          bindE (settle_in_flight n r) (\<lambda>(stale, r).
          (let u = u\<lparr>rn_sched := mutate i (\<lambda>_. r) (rn_sched u)\<rparr> in
           if i \<in> set failed \<or> is_finished (req_status r) \<or> (stale \<and> drop_stale_output r) then Inr u
           else
             (case dict_get (req_id_to_index ro) i of
                None \<Rightarrow> Inr u
              | Some k \<Rightarrow> deliver_output cfg api adaptive out ro stale k i r u))))))"

subsection \<open>The step\<close>

definition remove_stopped :: "('k, 'e) out_api \<Rightarrow> string list \<Rightarrow> string list \<Rightarrow> sched \<Rightarrow> sched" where
  "remove_stopped api run pre st =
     (let st = (if run \<noteq> [] then st\<lparr>running := list_remove_all (life api) (running st) run\<rparr> else st) in
      if pre \<noteq> []
      then st\<lparr>waiting := queue_remove (life api) pre (waiting st), skipped_waiting := queue_remove (life api) pre (skipped_waiting st)\<rparr>
      else st)"

definition finish_failed ::
    "sched_config \<Rightarrow> ('k, 'e) out_api \<Rightarrow> string list \<Rightarrow> ('k, 'e) upd \<Rightarrow> sched_error + ('k, 'e) upd" where
  "finish_failed cfg api failed u =
     (let ids = remdups (grammar_compile_error_reqs (rn_sched u) @ (if recompute_kv_load_failures cfg then [] else failed));
          u = u\<lparr>rn_sched := (rn_sched u)\<lparr>grammar_compile_error_reqs := []\<rparr>\<rparr> in
      if ids = [] then Inr u
      else
        bindE (finish_requests cfg (life api) (Some ids) FINISHED_ERROR u) (\<lambda>(valid, u).
        Inr (u\<lparr>u_outputs := u_outputs u @
               map (\<lambda>i. \<lparr>eo_request_id = i, eo_new_token_ids = [], eo_finish = Some FINISHED_ERROR\<rparr>) valid\<rparr>)))"

definition process_requests ::
    "sched_config \<Rightarrow> ('k, 'e) out_api \<Rightarrow> bool \<Rightarrow> int \<Rightarrow> sched_output \<Rightarrow> runner_output \<Rightarrow> ('k, 'e) core
      \<Rightarrow> sched_error + string list \<times> ('k, 'e) upd" where
  "process_requests cfg api adaptive num_positions out ro c =
     (let c = begin_output cfg (blocks (life api)) (out_total_num_scheduled_tokens out) c in
      bindE (case kv_connector_output ro of
               Some kv \<Rightarrow>
                 if invalid_block_ids kv \<noteq> []
                 then handle_invalid_blocks cfg (kv_get_block_ids api) (kv_evict_blocks api) (invalid_block_ids kv)
                        (out_num_scheduled_tokens out) c
                 else Inr ([], c)
             | None \<Rightarrow> Inr ([], c)) (\<lambda>(failed, c).
      bindE (foldE (process_output cfg api adaptive out ro failed) (out_num_scheduled_tokens out)
               \<lparr>rn_sched = rn_sched c, rn_kv = rn_kv c, rn_enc = rn_enc c, deferred_frees = deferred_frees c,
                u_acc = no_drafts num_positions, stopped_running = [], stopped_preempted = [], u_outputs = []\<rparr>) (\<lambda>u.
      Inr (failed, u))))"

definition conclude_output ::
    "sched_config \<Rightarrow> ('k, 'e) out_api \<Rightarrow> runner_output \<Rightarrow> string list \<Rightarrow> ('k, 'e) upd \<Rightarrow> sched_error + ('k, 'e) upd" where
  "conclude_output cfg api ro failed u =
     (let u = u\<lparr>rn_sched := remove_stopped api (stopped_running u) (stopped_preempted u) (rn_sched u)\<rparr> in
      bindE (finish_failed cfg api failed u) (\<lambda>u.
      (case kv_connector_output ro of
         None \<Rightarrow> Inr u
       | Some kv \<Rightarrow> update_from_kv_xfer_finished cfg (life api) (finished_recving kv) (finished_sending kv) u)))"

datatype update_error = SchedError sched_error | ControllerError acl_error

text \<open>\<open>start\<close> and \<open>now\<close> are the two clock readings of the instrumentation.\<close>

definition update_from_output ::
    "sched_config \<Rightarrow> mtp_config \<Rightarrow> ('k, 'e) out_api \<Rightarrow> int \<Rightarrow> int \<Rightarrow> sched_output \<Rightarrow> runner_output \<Rightarrow> acl option \<Rightarrow> mtp
      \<Rightarrow> ('k, 'e) core \<Rightarrow> update_error + (mtp_record option \<times> acl option \<times> mtp) \<times> ('k, 'e) upd" where
  "update_from_output cfg mcfg api start now out ro controller m c =
     (case process_requests cfg api (controller \<noteq> None) (mtp_num_positions mcfg) out ro c of
        Inl e \<Rightarrow> Inl (SchedError e)
      | Inr (failed, u) \<Rightarrow>
          (case conclude_spec_step mcfg (out_num_spec_tokens_to_schedule out) (u_acc u) start now controller m of
             Inl e \<Rightarrow> Inl (ControllerError e)
           | Inr spec \<Rightarrow>
               (case conclude_output cfg api ro failed u of
                  Inl e \<Rightarrow> Inl (SchedError e)
                | Inr u \<Rightarrow> Inr (spec, u))))"

subsection \<open>Draft tokens\<close>

definition install_draft :: "('k, 'e) out_api \<Rightarrow> 'e \<Rightarrow> string \<times> int list \<Rightarrow> sched \<Rightarrow> sched" where
  "install_draft api e = (\<lambda>(i, drafts) st.
     case dict_get (requests st) i of
       None \<Rightarrow> st
     | Some r \<Rightarrow>
         if is_finished (req_status r) then st
         else
           mutate i (\<lambda>_. r\<lparr>spec_token_ids :=
             (if is_prefill_chunk r then []
              else if so_should_advance api r None e then so_validate_tokens api r drafts e else drafts)\<rparr>) st)"

definition update_draft_token_ids :: "('k, 'e) out_api \<Rightarrow> 'e \<Rightarrow> (string \<times> int list) list \<Rightarrow> sched \<Rightarrow> sched" where
  "update_draft_token_ids api e drafts st = fold (install_draft api e) drafts st"

text \<open>Drafts for tokens already scheduled as placeholders are cut and padded to the scheduled number.\<close>

definition fit_drafts :: "('k, 'e) out_api \<Rightarrow> 'e \<Rightarrow> sreq \<Rightarrow> nat \<Rightarrow> int list \<Rightarrow> int list \<times> int" where
  "fit_drafts api e r n drafts =
     (let ts = take n drafts;
          ts = (if so_should_advance api r None e then so_validate_tokens api r ts e else ts);
          missing = int n - int (length ts) in
      (ts @ replicate (nat missing) (- 1), missing))"

definition install_draft_in_output ::
    "('k, 'e) out_api \<Rightarrow> 'e \<Rightarrow> sched \<Rightarrow> string \<times> int list \<Rightarrow> sched_output \<Rightarrow> sched_output" where
  "install_draft_in_output api e st = (\<lambda>(i, drafts) out.
     case dict_get (requests st) i of
       None \<Rightarrow> out
     | Some r \<Rightarrow>
         if is_finished (req_status r) then out
         else
           (case dict_get (out_spec_decode_tokens out) i of
              None \<Rightarrow> out
            | Some placeholders \<Rightarrow>
                if placeholders = [] then out
                else
                  (case fit_drafts api e r (length placeholders) drafts of (ts, missing) \<Rightarrow>
                    out\<lparr>out_spec_decode_tokens := dict_set i ts (out_spec_decode_tokens out),
                        out_num_invalid_spec_tokens :=
                          (if missing \<noteq> 0 then dict_set i missing (out_num_invalid_spec_tokens out)
                           else out_num_invalid_spec_tokens out)\<rparr>)))"

definition update_draft_token_ids_in_output ::
    "('k, 'e) out_api \<Rightarrow> 'e \<Rightarrow> (string \<times> int list) list \<Rightarrow> sched \<Rightarrow> sched_output \<Rightarrow> sched_output" where
  "update_draft_token_ids_in_output api e drafts st out =
     fold (install_draft_in_output api e st) drafts (out\<lparr>out_num_invalid_spec_tokens := []\<rparr>)"

subsection \<open>Stale outputs\<close>

text \<open>The life of one request between scheduling and output: steps are scheduled, the request is preempted, and
  outputs come back in the order of the steps. The queue holds, for each step in flight, its tokens and
  the number of preemptions when it was scheduled; the log pairs the flag computed for each output with
  whether the request was preempted since its step was scheduled.\<close>

datatype flight_event = Scheduled int | Preempted bool | Returned

fun flight_step ::
    "sched_config \<Rightarrow> flight_event \<Rightarrow> sreq \<times> (int \<times> int) list \<times> (bool \<times> bool) list
      \<Rightarrow> sched_error + sreq \<times> (int \<times> int) list \<times> (bool \<times> bool) list" where
  "flight_step cfg (Scheduled n) (r, steps, flags) =
     Inr (advance_request cfg 0 n r, steps @ [(n, num_preemptions r)], flags)"
| "flight_step cfg (Preempted d) (r, steps, flags) = Inr (preempted d r, steps, flags)"
| "flight_step cfg Returned (r, [], flags) = Inr (r, [], flags)"
| "flight_step cfg Returned (r, (n, epoch) # steps, flags) =
     bindE (settle_in_flight n r) (\<lambda>(stale, r'). Inr (r', steps, flags @ [(stale, epoch < num_preemptions r)]))"

definition stale_share :: "int \<Rightarrow> (int \<times> int) list \<Rightarrow> int" where
  "stale_share epoch steps = sum_list (map fst (filter (\<lambda>s. snd s < epoch) steps))"

definition flight_inv :: "sreq \<times> (int \<times> int) list \<times> (bool \<times> bool) list \<Rightarrow> bool" where
  "flight_inv = (\<lambda>(r, steps, flags).
     (\<forall>s \<in> set steps. fst s > 0 \<and> snd s \<le> num_preemptions r) \<and> sorted (map snd steps)
   \<and> num_in_flight_tokens r = sum_list (map fst steps)
   \<and> num_stale_output_tokens r = stale_share (num_preemptions r) steps
   \<and> (\<forall>l \<in> set flags. fst l = snd l))"

lemma stale_share_Cons:
  "stale_share p (s # steps) = (if snd s < p then fst s else 0) + stale_share p steps"
  by (simp add: stale_share_def)

lemma stale_share_pos:
  assumes "\<forall>s \<in> set steps. fst s > 0"
  shows "0 \<le> stale_share p steps" and "0 < stale_share p steps \<longleftrightarrow> (\<exists>s \<in> set steps. snd s < p)"
proof -
  have "0 \<le> stale_share p steps \<and> (0 < stale_share p steps \<longleftrightarrow> (\<exists>s \<in> set steps. snd s < p))"
    using assms by (induction steps) (auto simp: stale_share_Cons stale_share_def add_pos_nonneg)
  then show "0 \<le> stale_share p steps" "0 < stale_share p steps \<longleftrightarrow> (\<exists>s \<in> set steps. snd s < p)" by simp_all
qed

lemma stale_share_all: "\<forall>s \<in> set steps. snd s < p \<Longrightarrow> stale_share p steps = sum_list (map fst steps)"
  by (simp add: stale_share_def)

lemma flight_step_inv:
  assumes inv: "flight_inv x" and pos: "\<And>n. e = Scheduled n \<Longrightarrow> n > 0"
  shows "\<exists>y. flight_step cfg e x = Inr y \<and> flight_inv y"
proof (cases "(cfg, e, x)" rule: flight_step.cases)
  case (1 _ n r steps flags)
  have "stale_share (num_preemptions r) (steps @ [(n, num_preemptions r)]) = stale_share (num_preemptions r) steps"
    by (simp add: stale_share_def)
  with 1 inv pos show ?thesis by (auto simp: flight_inv_def advance_request_def Let_def sorted_append)
next
  case (2 _ d r steps flags)
  have "stale_share (num_preemptions r + 1) steps = sum_list (map fst steps)"
    using inv 2 by (intro stale_share_all) (auto simp: flight_inv_def)
  with 2 inv show ?thesis by (auto simp: flight_inv_def preempted_def)
next
  case (3 _ r flags)
  with inv show ?thesis by simp
next
  case (4 _ r n epoch steps flags)
  then have x: "x = (r, (n, epoch) # steps, flags)" by simp
  note I = inv [unfolded x flight_inv_def, simplified]
  let ?p = "num_preemptions r"
  have rest: "\<forall>s \<in> set steps. fst s > 0" "0 \<le> stale_share ?p steps" using I stale_share_pos(1) [of steps] by auto
  have head: "0 < num_stale_output_tokens r \<longleftrightarrow> epoch < ?p"
  proof -
    have "0 < num_stale_output_tokens r \<longleftrightarrow> (\<exists>s \<in> set ((n, epoch) # steps). snd s < ?p)"
      using I stale_share_pos(2) [of "(n, epoch) # steps" ?p] by auto
    also have "\<dots> \<longleftrightarrow> epoch < ?p" using I by fastforce
    finally show ?thesis .
  qed
  have stale: "num_stale_output_tokens r = (if epoch < ?p then n else 0) + stale_share ?p steps"
    using I by (simp add: stale_share_Cons)
  have none: "stale_share ?p steps = 0" if "\<not> epoch < ?p" using that head stale rest(2) by auto
  have "settle_in_flight n r = Inr (epoch < ?p, r\<lparr>num_in_flight_tokens := num_in_flight_tokens r - n,
      num_stale_output_tokens := stale_share ?p steps\<rparr>)"
    using head stale rest(2) none I by (auto simp: settle_in_flight_def Let_def)
  with 4 I show ?thesis by (auto simp: flight_inv_def)
qed

text \<open>
  C8: in any interleaving of scheduling, preemption and returning outputs, the assertion on the stale
  tokens never fails and every output is treated as stale exactly when its request was preempted after
  the step was scheduled; the tokens in flight are those of the steps still out.
\<close>

theorem stale_flag_exact:
  assumes "num_in_flight_tokens r = 0" and "num_stale_output_tokens r = 0"
    and pos: "\<forall>n. Scheduled n \<in> set events \<longrightarrow> n > 0"
  shows "\<exists>r' steps flags. foldE (flight_step cfg) events (r, [], []) = Inr (r', steps, flags)
    \<and> (\<forall>(stale, preempted_since) \<in> set flags. stale = preempted_since)
    \<and> num_in_flight_tokens r' = sum_list (map fst steps)
    \<and> num_stale_output_tokens r' = stale_share (num_preemptions r') steps"
proof -
  have "\<exists>y. foldE (flight_step cfg) es x = Inr y \<and> flight_inv y"
    if "flight_inv x" "\<forall>n. Scheduled n \<in> set es \<longrightarrow> n > 0" for es x
    using that
  proof (induction es arbitrary: x)
    case (Cons e es)
    from flight_step_inv [OF Cons.prems(1), of e cfg] Cons.prems(2) obtain y where
      "flight_step cfg e x = Inr y" "flight_inv y" by auto
    with Cons.IH [of y] Cons.prems(2) show ?case by simp
  qed simp
  from this [OF _ pos, of "(r, [], [])"] assms(1,2) show ?thesis
    by (fastforce simp: flight_inv_def stale_share_def)
qed

theorem stale_flag_exact_witness:
  "\<exists>r' steps. foldE (flight_step fence_config) [Scheduled 4, Scheduled 1, Preempted False, Scheduled 5, Returned, Returned, Returned]
       (sample_request, [], []) = Inr (r', steps, [(True, True), (True, True), (False, False)])
     \<and> num_in_flight_tokens r' = 0"
proof -
  let ?es = "[Scheduled 4, Scheduled 1, Preempted False, Scheduled 5, Returned, Returned, Returned]"
  have "(case foldE (flight_step fence_config) ?es (sample_request, [], []) of
      Inl _ \<Rightarrow> None | Inr (r, steps, flags) \<Rightarrow> Some (steps, flags)) = Some ([], [(True, True), (True, True), (False, False)])"
    by code_simp
  then obtain r' where e: "foldE (flight_step fence_config) ?es (sample_request, [], [])
      = Inr (r', [], [(True, True), (True, True), (False, False)])" by (auto split: sum.splits prod.splits)
  have "num_in_flight_tokens sample_request = 0" "num_stale_output_tokens sample_request = 0"
    by (simp_all add: sample_request_def)
  from stale_flag_exact [OF this, of ?es fence_config] e show ?thesis by auto
qed

subsection \<open>Drafts keep their number\<close>

lemma install_draft_in_output_lengths:
  assumes valid: "\<And>r ts e. length (so_validate_tokens api r ts e) \<le> length ts"
  shows "map_option length (dict_get (out_spec_decode_tokens (install_draft_in_output api e st d out)) j)
    = map_option length (dict_get (out_spec_decode_tokens out) j)"
proof -
  have "length (fst (fit_drafts api e r n ts)) = n" for r n ts
    using valid [of r "take n ts" e] by (auto simp: fit_drafts_def Let_def)
  then show ?thesis
    by (auto simp: install_draft_in_output_def dict_get_set split: prod.splits option.splits) (metis fst_conv)
qed

text \<open>
  Installing drafts into an output already handed to the runner never changes how many speculative
  tokens a request was scheduled with, whatever the drafts and whatever the grammar rejects; so the
  number of scheduled tokens stays right.
\<close>

theorem drafts_keep_scheduled_number:
  assumes valid: "\<And>r ts e. length (so_validate_tokens api r ts e) \<le> length ts"
  shows "map_option length (dict_get (out_spec_decode_tokens (update_draft_token_ids_in_output api e drafts st out)) j)
    = map_option length (dict_get (out_spec_decode_tokens out) j)"
proof -
  have "map_option length (dict_get (out_spec_decode_tokens (fold (install_draft_in_output api e st) drafts o')) j)
      = map_option length (dict_get (out_spec_decode_tokens o') j)" for o'
    by (induction drafts arbitrary: o') (simp_all add: install_draft_in_output_lengths [OF valid])
  from this [of "out\<lparr>out_num_invalid_spec_tokens := []\<rparr>"] show ?thesis by (simp add: update_draft_token_ids_in_output_def)
qed

text \<open>A runner whose requests stop with their first token, over first-come-first-served queues.\<close>

definition stop_api :: "(ref_pool, unit) out_api" where
  "stop_api = \<lparr>life = fifo_life, check_stop = (\<lambda>r m. (True, r\<lparr>req_status := FINISHED_STOPPED\<rparr>)),
     kv_get_block_ids = (\<lambda>i k. [[]]), kv_evict_blocks = (\<lambda>bs k. k), enc_cached_input_ids = (\<lambda>r e. []),
     enc_free_input = (\<lambda>r i e. e), so_should_advance = (\<lambda>r ts e. ts = None), so_trim_reasoning = (\<lambda>r ts e. []),
     so_accept_tokens = (\<lambda>i ts e. (True, e)), so_validate_tokens = (\<lambda>r ts e. takeWhile (\<lambda>t. t < 100) ts)\<rparr>"

theorem drafts_keep_scheduled_number_witness:
  "map_option length (dict_get (out_spec_decode_tokens (update_draft_token_ids_in_output stop_api () [(''a'', [4, 300, 5])] life_sched
     \<lparr>out_num_scheduled_tokens = [(''a'', 3)], out_spec_decode_tokens = [(''a'', [-1, -1])],
      out_total_num_scheduled_tokens = 3, out_num_spec_tokens_to_schedule = 2, out_num_invalid_spec_tokens = []\<rparr>)) ''a'') = Some 2
   \<and> dict_get (out_spec_decode_tokens (update_draft_token_ids_in_output stop_api () [(''a'', [4, 300, 5])] life_sched
     \<lparr>out_num_scheduled_tokens = [(''a'', 3)], out_spec_decode_tokens = [(''a'', [-1, -1])],
      out_total_num_scheduled_tokens = 3, out_num_spec_tokens_to_schedule = 2, out_num_invalid_spec_tokens = []\<rparr>)) ''a'' = Some [4, -1]"
proof
  have "length (so_validate_tokens stop_api r ts e) \<le> length ts" for r ts e
    by (simp add: stop_api_def length_takeWhile_le)
  from drafts_keep_scheduled_number [of stop_api, OF this]
  show "map_option length (dict_get (out_spec_decode_tokens (update_draft_token_ids_in_output stop_api () [(''a'', [4, 300, 5])] life_sched
     \<lparr>out_num_scheduled_tokens = [(''a'', 3)], out_spec_decode_tokens = [(''a'', [-1, -1])],
      out_total_num_scheduled_tokens = 3, out_num_spec_tokens_to_schedule = 2, out_num_invalid_spec_tokens = []\<rparr>)) ''a'') = Some 2"
    by (simp add: dict_get_def)
qed code_simp

subsection \<open>A preempted streaming session\<close>

text \<open>A session was preempted while one token was in flight: it stands in the waiting queue.\<close>

definition session_request :: sreq where
  "session_request = life_request ''a'' PREEMPTED\<lparr>num_prompt_tokens := 2, prompt_token_ids := Some [3, 4],
     all_token_ids := [3, 4], num_computed_tokens := 0, num_in_flight_tokens := 2, num_stale_output_tokens := 2,
     resumable := True, streaming_queue := Some []\<rparr>"

definition session_core :: "(ref_pool, unit) core" where
  "session_core = \<lparr>rn_sched = flight_sched\<lparr>requests := [(''a'', session_request)], waiting := [''a'']\<rparr>,
     rn_kv = ([], []), rn_enc = (), deferred_frees = []\<rparr>"

definition session_output :: sched_output where
  "session_output = \<lparr>out_num_scheduled_tokens = [(''a'', 2)], out_spec_decode_tokens = [],
     out_total_num_scheduled_tokens = 2, out_num_spec_tokens_to_schedule = 0, out_num_invalid_spec_tokens = []\<rparr>"

definition session_runner :: runner_output where
  "session_runner = \<lparr>req_id_to_index = [(''a'', 0)], sampled_token_ids = [[9]], pooler_outputs = [],
     kv_connector_output = None\<rparr>"

definition next_chunk :: sreq where
  "next_chunk = session_request\<lparr>req_status := WAITING, prompt_token_ids := Some [5]\<rparr>"

definition queues_of :: "sched \<Rightarrow> string list \<times> string list \<times> string list" where
  "queues_of st = (running st, waiting st, skipped_waiting st)"


subsection \<open>The queues while outputs are processed\<close>

text \<open>Stopped requests leave the queues at the end of the loop; \<open>purge\<close> is the state as if they had left.\<close>

definition purge :: "string set \<Rightarrow> string set \<Rightarrow> sched \<Rightarrow> sched" where
  "purge run pre st = st\<lparr>running := filter (\<lambda>i. i \<notin> run) (running st),
     waiting := filter (\<lambda>i. i \<notin> pre) (waiting st), skipped_waiting := filter (\<lambda>i. i \<notin> pre) (skipped_waiting st)\<rparr>"

lemma purge_simps [simp]:
  "running (purge run pre st) = filter (\<lambda>i. i \<notin> run) (running st)"
  "waiting (purge run pre st) = filter (\<lambda>i. i \<notin> pre) (waiting st)"
  "skipped_waiting (purge run pre st) = filter (\<lambda>i. i \<notin> pre) (skipped_waiting st)"
  "queued (purge run pre st) = filter (\<lambda>i. i \<notin> pre) (queued st)"
  "requests (purge run pre st) = requests st"
  "num_waiting_for_streaming_input (purge run pre st) = num_waiting_for_streaming_input st"
  by (simp_all add: purge_def queued_def)

lemma with_status_purge [simp]: "with_status P (purge run pre st) = with_status P st"
  by (rule with_status_cong) simp

lemma same_queues_purge: "same_queues st st' \<Longrightarrow> same_queues (purge run pre st) (purge run pre st')"
  by (simp add: same_queues_def purge_def)

lemma dict_set_same: "dict_get d i = Some v \<Longrightarrow> dict_set i v d = d"
  by (induction d) (auto simp: dict_get_def split: if_splits)

lemma dict_set_twice: "dict_set i v (dict_set i w d) = dict_set i v d"
  by (induction d) auto

lemma queue_inv_except_store:
  assumes "queue_inv_except (insert i V) st" and "requests st' = dict_set i r (requests st)" and "request_id r = i"
    and "same_queues st st'"
  shows "queue_inv_except (insert i V) st'"
proof -
  have "with_status P st' - insert i V = with_status P st - insert i V" for P
    by (auto simp: with_status_set [OF assms(2)])
  moreover have "\<forall>j q. dict_get (requests st') j = Some q \<longrightarrow> request_id q = j" "distinct (dict_keys (requests st'))"
    using assms(1,3) by (auto simp: queue_inv_except_def assms(2) dict_get_set dict_set_distinct split: if_splits)
  ultimately show ?thesis using assms(1,4) by (simp add: queue_inv_except_def same_queues_def queued_def)
qed

lemma distinct_filter_more: "distinct (filter P xs) \<Longrightarrow> distinct (filter (\<lambda>x. Q x \<and> P x) xs)"
  by (induction xs) (auto split: if_splits)

lemma purge_lift_running:
  assumes inv: "queue_inv (purge S P st)" and r: "dict_get (requests st) i = Some r" "req_status r = RUNNING"
  shows "queue_inv_except {i} (purge (insert i S) P st)"
proof (rule queue_inv_lift [OF inv [unfolded queue_inv_def]])
  have "i \<notin> with_status waiting_status st" "i \<notin> with_status (\<lambda>s. s = WAITING_FOR_STREAMING_REQ) st"
    using r by (simp_all add: with_status_def waiting_status_def)
  then show "set (queued (purge (insert i S) P st)) = set (queued (purge S P st)) - {i}"
    "num_waiting_for_streaming_input (purge (insert i S) P st) = num_waiting_for_streaming_input (purge S P st)
      - (if i \<in> with_status (\<lambda>s. s = WAITING_FOR_STREAMING_REQ) (purge S P st) - {} then 1 else 0)"
    using inv by (auto simp: queue_inv_def queue_inv_except_def)
qed (use inv in \<open>auto simp: queue_inv_def queue_inv_except_def distinct_filter_more\<close>)

lemma purge_lift_waiting:
  assumes inv: "queue_inv (purge S P st)" and r: "dict_get (requests st) i = Some r" "waiting_status (req_status r)"
    and s: "req_status r \<noteq> WAITING_FOR_STREAMING_REQ"
  shows "queue_inv_except {i} (purge S (insert i P) st)"
proof (rule queue_inv_lift [OF inv [unfolded queue_inv_def]])
  have "i \<notin> with_status (\<lambda>s. s = RUNNING) st" "i \<notin> with_status (\<lambda>s. s = WAITING_FOR_STREAMING_REQ) st"
    using r s by (simp_all add: with_status_def waiting_status_def)
  then show "set (running (purge S (insert i P) st)) = set (running (purge S P st)) - {i}"
    "num_waiting_for_streaming_input (purge S (insert i P) st) = num_waiting_for_streaming_input (purge S P st)
      - (if i \<in> with_status (\<lambda>s. s = WAITING_FOR_STREAMING_REQ) (purge S P st) - {} then 1 else 0)"
    using inv by (auto simp: queue_inv_def queue_inv_except_def)
qed (use inv in \<open>auto simp: queue_inv_def queue_inv_except_def distinct_filter_more\<close>)

lemma handle_stopped_cases:
  assumes h: "handle_stopped_request api i st = Inr (fin, st')" and r: "dict_get (requests st) i = Some r" "request_id r = i"
    and s: "is_finished (req_status r)"
  obtains (over) q where "fin" and "same_queues st st'"
      and "requests st' = dict_set i (r\<lparr>streaming_queue := q\<rparr>) (requests st)"
    | (again) r' st1 where "\<not> fin" and "resumable r" and "request_id r' = i" and "waiting_status (req_status r')"
      and "st' = enqueue_waiting_request api r' st1" and "requests st1 = dict_set i r' (requests st)"
      and "queues_of st1 = queues_of st"
      and "num_waiting_for_streaming_input st1 = num_waiting_for_streaming_input st + (if req_status r' = WAITING_FOR_STREAMING_REQ then 1 else 0)"
proof (cases "resumable r")
  case False
  with h r over [of "streaming_queue r"] show thesis
    by (simp add: handle_stopped_request_def same_queues_def dict_set_same)
next
  case res: True
  have nw: "req_status r \<noteq> WAITING_FOR_STREAMING_REQ" using s by (auto simp: is_finished_def)
  let ?m = "\<lambda>us. mutate i (\<lambda>r. r\<lparr>streaming_queue := Some us\<rparr>) st"
  consider (fresh) "streaming_queue r = None \<or> streaming_queue r = Some []"
    | (stop) us where "streaming_queue r = Some (None # us)" | (upd) u us where "streaming_queue r = Some (Some u # us)"
    by (metis list.exhaust option.exhaust)
  then show thesis
  proof cases
    case fresh
    let ?r = "r\<lparr>req_status := WAITING_FOR_STREAMING_REQ\<rparr>"
    let ?st = "(mutate i (\<lambda>r. r\<lparr>req_status := WAITING_FOR_STREAMING_REQ\<rparr>) st)
      \<lparr>num_waiting_for_streaming_input := num_waiting_for_streaming_input st + 1\<rparr>"
    have "live ?st [i] = [?r]" using r by (simp add: live_def List.map_filter_def mutate_get)
    then have "fin = False" "st' = enqueue_waiting_request api ?r ?st"
      using h r res fresh by (auto simp: handle_stopped_request_def Let_def split: option.splits list.splits)
    then show thesis
      using r res by (intro again [of ?r ?st]) (auto simp: requests_mutate queues_of_def waiting_status_def is_finished_def)
  next
    case (stop us)
    with h r res show thesis
      by (intro over [of "Some us"]) (auto simp: handle_stopped_request_def requests_mutate same_queues_def)
  next
    case (upd u us)
    let ?r = "r\<lparr>streaming_queue := Some us\<rparr>"
    from h r res upd obtain st1 where u: "update_request_as_session i u (?m us) = Inr st1" "fin = False"
      "st' = fold (enqueue_waiting_request api) (live st1 [i]) st1"
      by (auto simp: handle_stopped_request_def bindE_eq_Inr)
    from u(1) r nw obtain r' where r': "session_next u ?r = Inr r'" and st1: "st1 = mutate i (\<lambda>_. r') (?m us)"
      by (auto simp: update_request_as_session_def mutate_get bindE_eq_Inr split: option.splits)
    have "live st1 [i] = [r']" using r by (simp add: live_def List.map_filter_def mutate_get st1)
    with u(3) have "st' = enqueue_waiting_request api r' st1" by simp
    moreover have "requests st1 = dict_set i r' (requests st)"
      using r by (simp add: st1 mutate_def dict_get_set dict_set_twice)
    ultimately show thesis
      using u(2) res r session_next_fields [OF r'] by (intro again [of r' st1]) (auto simp: st1 queues_of_def waiting_status_def is_finished_def)
  qed
qed

subsection \<open>One output keeps the queues\<close>

text \<open>What the stop check promises: it stops a request by giving it a final status and leaves the rest alone.\<close>

definition stop_laws :: "('k, 'e) out_api \<Rightarrow> bool" where
  "stop_laws api \<longleftrightarrow>
     (\<forall>r m stop r'. check_stop api r m = (stop, r') \<longrightarrow> request_id r' = request_id r \<and> resumable r' = resumable r
        \<and> (if stop then is_finished (req_status r') else req_status r' = req_status r))"

text \<open>The object after the tokens of a step: a stopped one is finished, the others keep their status.\<close>

definition stop_ok :: "sreq \<Rightarrow> bool \<Rightarrow> sreq \<Rightarrow> bool" where
  "stop_ok r stopped r' \<longleftrightarrow> request_id r' = request_id r \<and> (resumable r' \<longrightarrow> resumable r)
     \<and> (if stopped then is_finished (req_status r') else req_status r' = req_status r)"

lemma update_request_with_output_ok:
  assumes laws: "stop_laws api"
  shows "update_request_with_output (check_stop api) m ts r = (us, stopped, r') \<Longrightarrow> stop_ok r stopped r'"
proof (induction ts arbitrary: r us)
  case (Cons t ts)
  obtain stop q where q: "check_stop api (append_output_token t r) m = (stop, q)" by fastforce
  with laws have "request_id q = request_id r" "resumable q = resumable r"
    "if stop then is_finished (req_status q) else req_status q = req_status r"
    by (fastforce simp: stop_laws_def append_output_token_def)+
  with Cons.prems Cons.IH [of q] q show ?case
    by (auto simp: stop_ok_def split: if_splits prod.splits)
qed (simp add: stop_ok_def)

lemma receive_tokens_ok:
  "stop_laws api \<Longrightarrow> receive_tokens cfg api generated pooled r = (ts, stopped, r') \<Longrightarrow> stop_ok r stopped r'"
  by (auto simp: receive_tokens_def is_finished_def update_request_with_output_ok split: if_splits)
    (auto simp: stop_ok_def is_finished_def)

lemma advance_grammar_ok:
  assumes "stop_ok r stopped r'" and "advance_grammar api ts stopped r' e = Inr (stopped', r'', e')"
  shows "stop_ok r stopped' r''"
  using assms by (auto simp: advance_grammar_def stop_ok_def is_finished_def
      split: if_splits option.splits grammar_state.splits list.splits prod.splits)

definition same_place :: "sreq \<Rightarrow> sreq \<Rightarrow> bool" where
  "same_place r r' \<longleftrightarrow> request_id r' = request_id r \<and> req_status r' = req_status r \<and> (resumable r' \<longrightarrow> resumable r)"

lemma settle_in_flight_place: "settle_in_flight n r = Inr (stale, r') \<Longrightarrow> same_place r r'"
  by (auto simp: settle_in_flight_def Let_def bindE_raiseIf same_place_def split: if_splits)

lemma account_spec_place: "account_spec a s ids g stale r acc = (r', acc') \<Longrightarrow> same_place r r'"
  by (auto simp: account_spec_def Let_def roll_back_def same_place_def split: if_splits)

definition output_inv :: "('k, 'e) upd \<Rightarrow> bool" where
  "output_inv u \<longleftrightarrow> queue_inv (purge (set (stopped_running u)) (set (stopped_preempted u)) (rn_sched u))"

lemma output_inv_ids: "output_inv u \<Longrightarrow> dict_get (requests (rn_sched u)) i = Some r \<Longrightarrow> request_id r = i"
  by (simp add: output_inv_def queue_inv_def queue_inv_except_def)

lemma output_inv_update:
  assumes inv: "output_inv u" and r: "dict_get (requests (rn_sched u)) i = Some r" and p: "same_place r r'"
    and u': "rn_sched u' = mutate i (\<lambda>_. r') (rn_sched u)" "stopped_running u' = stopped_running u"
      "stopped_preempted u' = stopped_preempted u"
  shows "output_inv u'"
proof -
  have "same_queues (rn_sched u) (rn_sched u')" by (simp add: u' same_queues_def)
  then show ?thesis
    using queue_inv_update [OF inv [unfolded output_inv_def queue_inv_def] same_queues_purge, of "rn_sched u'" i r r'] r p
    by (simp add: output_inv_def queue_inv_def u' requests_mutate same_place_def)
qed

lemma free_request_blocks_upd [simp]:
  "stopped_running (free_request_blocks cfg api r u) = stopped_running u"
  "stopped_preempted (free_request_blocks cfg api r u) = stopped_preempted u"
  by (simp_all add: free_request_blocks_def Let_def split: prod.splits)

lemma free_blocks_upd:
  "free_blocks cfg api r u = Inr u' \<Longrightarrow> stopped_running u' = stopped_running u \<and> stopped_preempted u' = stopped_preempted u"
  by (auto simp: free_blocks_def Let_def bindE_raiseIf split: if_splits)

lemma free_request_upd:
  assumes "free_request cfg api d r u = Inr u'"
  shows "stopped_running u' = stopped_running u" and "stopped_preempted u' = stopped_preempted u"
proof -
  obtain ed e where ec: "ec_finished api r (rn_enc u) = (ed, e)" by fastforce
  from assms show "stopped_running u' = stopped_running u" "stopped_preempted u' = stopped_preempted u"
    by (auto simp: free_request_def ec Let_def bindE_eq_Inr dest!: free_blocks_upd split: if_splits)
qed

lemma enqueue_perm:
  "queue_laws api \<Longrightarrow> mset (queued (enqueue_waiting_request api r st)) = add_mset (request_id r) (mset (queued st))"
  by (simp add: enqueue_waiting_request_def queued_def queue_add_perm)

lemma enqueue_purge:
  assumes laws: "queue_laws api" and i: "request_id r \<notin> P" "request_id r \<notin> set (queued (purge S P st))"
    and d: "distinct (queued (purge S P st))"
  shows "distinct (queued (purge S P (enqueue_waiting_request api r st)))"
    and "set (queued (purge S P (enqueue_waiting_request api r st))) = insert (request_id r) (set (queued (purge S P st)))"
    and "running (enqueue_waiting_request api r st) = running st" and "requests (enqueue_waiting_request api r st) = requests st"
    and "num_waiting_for_streaming_input (enqueue_waiting_request api r st) = num_waiting_for_streaming_input st"
proof -
  have "mset (queued (purge S P (enqueue_waiting_request api r st))) = mset (request_id r # queued (purge S P st))"
    using i(1) by (simp add: mset_filter enqueue_perm [OF laws])
  from mset_eq_setD [OF this] mset_eq_imp_distinct_iff [OF this] i(2) d
  show "distinct (queued (purge S P (enqueue_waiting_request api r st)))"
    and "set (queued (purge S P (enqueue_waiting_request api r st))) = insert (request_id r) (set (queued (purge S P st)))" by simp_all
qed (simp_all add: enqueue_waiting_request_def)

text \<open>The stop of a request that was running, or that was waiting and takes no further input.\<close>

lemma stop_request_inv:
  assumes laws: "queue_laws (life api)" and safe: "connector_safe cfg (life api)" and inv: "output_inv u"
    and r: "dict_get (requests (rn_sched u)) i = Some r" and before: "\<not> is_finished (req_status r)"
      "req_status r \<noteq> RUNNING \<Longrightarrow> \<not> resumable r' \<and> req_status r \<noteq> WAITING_FOR_STREAMING_REQ"
    and r': "request_id r' = i" "is_finished (req_status r')"
    and new: "i \<notin> set (stopped_running u)" "i \<notin> set (stopped_preempted u)"
    and u0: "rn_sched u0 = mutate i (\<lambda>_. r') (rn_sched u)" "stopped_running u0 = stopped_running u"
      "stopped_preempted u0 = stopped_preempted u"
    and stop: "stop_request cfg api (req_status r) i u0 = Inr u'"
  shows "output_inv u' \<and> (\<forall>j. j \<noteq> i \<longrightarrow> dict_get (requests (rn_sched u')) j = dict_get (requests (rn_sched u)) j)
    \<and> set (stopped_running u') \<union> set (stopped_preempted u') \<subseteq> insert i (set (stopped_running u) \<union> set (stopped_preempted u))"
proof -
  let ?run = "req_status r = RUNNING"
  define S where "S = (if ?run then insert i (set (stopped_running u)) else set (stopped_running u))"
  define P where "P = (if ?run then set (stopped_preempted u) else insert i (set (stopped_preempted u)))"
  from stop obtain fin st u1 where h: "handle_stopped_request (life api) i (rn_sched u0) = Inr (fin, st)"
    and f: "(if fin then (case dict_get (requests st) i of None \<Rightarrow> Inl (UnknownRequest i)
               | Some q \<Rightarrow> free_request cfg (life api) False q (u0\<lparr>rn_sched := st\<rparr>)) else Inr (u0\<lparr>rn_sched := st\<rparr>)) = Inr u1"
    and u': "u' = (if ?run then u1\<lparr>stopped_running := List.insert i (stopped_running u1)\<rparr>
       else u1\<lparr>stopped_preempted := List.insert i (stopped_preempted u1)\<rparr>)"
    by (auto simp: stop_request_def Let_def bindE_eq_Inr)
  have i: "request_id r = i" using output_inv_ids [OF inv r] .
  have lifted: "queue_inv_except {i} (purge S P (rn_sched u))"
    using purge_lift_running [OF inv [unfolded output_inv_def] r] purge_lift_waiting [OF inv [unfolded output_inv_def] r] before
    by (auto simp: S_def P_def waiting_status_def)
  have req0: "requests (rn_sched u0) = dict_set i r' (requests (rn_sched u))" using r by (simp add: u0 requests_mutate)
  have get0: "dict_get (requests (rn_sched u0)) i = Some r'" by (simp add: req0 dict_get_set)
  have stored: "queue_inv_except {i} (purge S P (rn_sched u0))"
    by (rule queue_inv_except_store [OF lifted]) (use req0 r' in \<open>simp_all add: same_queues_purge same_queues_def u0\<close>)
  have main: "queue_inv (purge S P (rn_sched u1)) \<and> (\<forall>j. j \<noteq> i \<longrightarrow> dict_get (requests (rn_sched u1)) j = dict_get (requests (rn_sched u)) j)
      \<and> stopped_running u1 = stopped_running u \<and> stopped_preempted u1 = stopped_preempted u"
    using h get0 r'
  proof (cases rule: handle_stopped_cases)
    case (over q)
    let ?q = "r'\<lparr>streaming_queue := q\<rparr>"
    have get: "dict_get (requests st) i = Some ?q" by (simp add: over dict_get_set)
    have fin: "is_finished (req_status ?q)" "request_id ?q = i" using r' by simp_all
    obtain u2 where u2: "free_request cfg (life api) False ?q (u0\<lparr>rn_sched := st\<rparr>) = Inr u2" "same_queues st (rn_sched u2)"
      "requests (rn_sched u2) = requests st \<or> requests (rn_sched u2) = dict_del i (requests st)"
      using free_request_effect [OF safe fin(1), of False "u0\<lparr>rn_sched := st\<rparr>"] fin(2) by auto
    with f get over(1) have u1: "u1 = u2" by simp
    have "queue_inv_except {i} (purge S P st)"
      by (rule queue_inv_except_store [OF stored, of _ ?q]) (use over fin in \<open>simp_all add: same_queues_purge\<close>)
    then have "queue_inv_except {} (purge S P (rn_sched u1))"
    proof (rule queue_inv_settle)
      show "same_queues (purge S P st) (purge S P (rn_sched u1))" using u2(2) by (simp add: u1 same_queues_purge)
      show "requests (purge S P (rn_sched u1)) = dict_del i (requests (purge S P st))
          \<or> (\<exists>r. requests (purge S P (rn_sched u1)) = dict_set i r (requests (purge S P st)) \<and> request_id r = i
              \<and> is_finished (req_status r))"
        using u2(3)
      proof
        assume "requests (rn_sched u2) = requests st"
        with dict_set_same [OF get] fin show ?thesis by (intro disjI2 exI [of _ ?q]) (simp add: u1)
      qed (simp add: u1)
    qed
    moreover have "\<forall>j. j \<noteq> i \<longrightarrow> dict_get (requests (rn_sched u1)) j = dict_get (requests (rn_sched u)) j"
      using u2(3) by (auto simp: u1 over req0 dict_get_set dict_get_del)
    ultimately show ?thesis using free_request_upd [OF u2(1)] by (simp add: queue_inv_def u1 u0)
  next
    case (again r2 st1)
    then have run: ?run using before(2) by blast
    have u1: "u1 = u0\<lparr>rn_sched := st\<rparr>" using f again(1) by simp
    have SP: "i \<in> S" "i \<notin> P" using run new by (simp_all add: S_def P_def)
    have q1: "queued st1 = queued (rn_sched u0)" "running st1 = running (rn_sched u0)"
      using again(7) by (simp_all add: queues_of_def queued_def)
    have "set (queued (purge S P (rn_sched u0))) = with_status waiting_status (purge S P (rn_sched u0)) - {i}"
      "distinct (queued (purge S P (rn_sched u0)))" using stored unfolding queue_inv_except_def by blast+
    then have out: "i \<notin> set (queued (purge S P st1))" "distinct (queued (purge S P st1))"
      unfolding purge_simps q1 by blast+
    note E = enqueue_purge [OF laws, of r2 P S st1, unfolded again(3), OF SP(2) out, folded again(5)]
    have "queue_inv_except {} (purge S P st)"
    proof (rule queue_inv_place [OF stored])
      show "requests (purge S P st) = dict_set i r2 (requests (purge S P (rn_sched u0)))" using E(4) again(6) by simp
      show "set (running (purge S P st)) = set (running (purge S P (rn_sched u0))) \<union> (if req_status r2 = RUNNING then {i} else {})"
        using E(3) q1 again(4) by (simp add: waiting_status_def)
      show "set (queued (purge S P st)) = set (queued (purge S P (rn_sched u0))) \<union> (if waiting_status (req_status r2) then {i} else {})"
        using E(2) q1 again(4) by simp
      show "distinct (running (purge S P st))" using stored E(3) q1 by (simp add: queue_inv_except_def)
    qed (use again E(1,5) in simp_all)
    moreover have "\<forall>j. j \<noteq> i \<longrightarrow> dict_get (requests st) j = dict_get (requests (rn_sched u)) j"
      using E(4) again(6) by (simp add: req0 dict_get_set)
    ultimately show ?thesis by (simp add: queue_inv_def u1 u0)
  qed
  then have "output_inv u'" by (cases ?run) (simp_all add: output_inv_def u' S_def P_def)
  with main u' show ?thesis by (auto simp: u')
qed

lemma deliver_output_inv:
  assumes laws: "queue_laws (life api)" and safe: "connector_safe cfg (life api)" and stop: "stop_laws api" and inv: "output_inv u"
    and r: "dict_get (requests (rn_sched u)) i = Some r" and live: "\<not> is_finished (req_status r)"
    and session: "req_status r \<noteq> RUNNING \<Longrightarrow> \<not> resumable r \<and> req_status r \<noteq> WAITING_FOR_STREAMING_REQ"
    and new: "i \<notin> set (stopped_running u)" "i \<notin> set (stopped_preempted u)"
    and d: "deliver_output cfg api adaptive out ro stale k i r u = Inr u'"
  shows "output_inv u' \<and> (\<forall>j. j \<noteq> i \<longrightarrow> dict_get (requests (rn_sched u')) j = dict_get (requests (rn_sched u)) j)
    \<and> set (stopped_running u') \<union> set (stopped_preempted u') \<subseteq> insert i (set (stopped_running u) \<union> set (stopped_preempted u))"
proof -
  let ?spec = "case dict_get (out_spec_decode_tokens out) i of None \<Rightarrow> [] | Some ts \<Rightarrow> ts"
  from d obtain generated where g: "(case account_spec adaptive (num_sampled_tokens_per_step cfg) ?spec generated stale r (u_acc u) of
      (r, acc) \<Rightarrow>
     bindE (if has_encoder_inputs r then free_encoder_inputs cfg api r (rn_enc u) else Inr (rn_enc u)) (\<lambda>e.
     bindE (if pooler_outputs ro \<noteq> [] then runner_index (pooler_outputs ro) i k else Inr False) (\<lambda>pooled.
     (case receive_tokens cfg api generated pooled r of (toks, stopped, r') \<Rightarrow>
     bindE (advance_grammar api toks stopped r' e) (\<lambda>(stopped, r', e).
     finish_delivery cfg api (req_status r) i toks pooled stopped r'
       (u\<lparr>u_acc := acc, rn_enc := e, rn_sched := mutate i (\<lambda>_. r') (rn_sched u)\<rparr>)))))) = Inr u'"
    unfolding deliver_output_def by (auto simp only: bindE_eq_Inr)
  obtain q acc where q: "account_spec adaptive (num_sampled_tokens_per_step cfg) ?spec generated stale r (u_acc u) = (q, acc)"
    by fastforce
  from g obtain e pooled where p: "(case receive_tokens cfg api generated pooled q of (toks, stopped, r') \<Rightarrow>
     bindE (advance_grammar api toks stopped r' e) (\<lambda>(stopped, r', e).
     finish_delivery cfg api (req_status q) i toks pooled stopped r'
       (u\<lparr>u_acc := acc, rn_enc := e, rn_sched := mutate i (\<lambda>_. r') (rn_sched u)\<rparr>))) = Inr u'"
    unfolding q prod.case by (auto simp only: bindE_eq_Inr)
  obtain toks s0 q0 where rec: "receive_tokens cfg api generated pooled q = (toks, s0, q0)" by (metis prod.exhaust)
  from p obtain stopped q' e' where gram: "advance_grammar api toks s0 q0 e = Inr (stopped, q', e')"
    and f: "finish_delivery cfg api (req_status q) i toks pooled stopped q'
       (u\<lparr>u_acc := acc, rn_enc := e', rn_sched := mutate i (\<lambda>_. q') (rn_sched u)\<rparr>) = Inr u'"
    unfolding rec prod.case by (auto simp only: bindE_eq_Inr)
  let ?u0 = "u\<lparr>u_acc := acc, rn_enc := e', rn_sched := mutate i (\<lambda>_. q') (rn_sched u)\<rparr>"
  from f obtain u1 where u1: "(if stopped then stop_request cfg api (req_status q) i ?u0 else Inr ?u0) = Inr u1"
    and u': "rn_sched u' = rn_sched u1" "stopped_running u' = stopped_running u1" "stopped_preempted u' = stopped_preempted u1"
    unfolding finish_delivery_def bindE_eq_Inr by auto
  have place: "same_place r q" by (rule account_spec_place [OF q])
  have ok: "stop_ok q stopped q'" by (rule advance_grammar_ok [OF receive_tokens_ok [OF stop rec] gram])
  have ri: "request_id r = i" by (rule output_inv_ids [OF inv r])
  have "output_inv u1 \<and> (\<forall>j. j \<noteq> i \<longrightarrow> dict_get (requests (rn_sched u1)) j = dict_get (requests (rn_sched u)) j)
    \<and> set (stopped_running u1) \<union> set (stopped_preempted u1) \<subseteq> insert i (set (stopped_running u) \<union> set (stopped_preempted u))"
  proof (cases stopped)
    case True
    have stop: "stop_request cfg api (req_status r) i ?u0 = Inr u1" using u1 True place by (simp add: same_place_def)
    show ?thesis
      by (rule stop_request_inv [OF laws safe inv r live _ _ _ new _ _ _ stop])
        (use session ok place True ri in \<open>auto simp: stop_ok_def same_place_def\<close>)
  next
    case False
    then have u1: "u1 = ?u0" using u1 by simp
    have "same_place r q'" using ok place False by (auto simp: stop_ok_def same_place_def)
    with output_inv_update [OF inv r, of q' u1] u1 show ?thesis by (auto simp: mutate_get)
  qed
  then show ?thesis by (simp add: output_inv_def u')
qed

text \<open>A stopped request can leave its queue for good: it is running, or it takes no further input.\<close>

definition output_ready :: "sreq \<Rightarrow> bool" where
  "output_ready r \<longleftrightarrow> is_finished (req_status r) \<or> req_status r = RUNNING
     \<or> (\<not> resumable r \<and> req_status r \<noteq> WAITING_FOR_STREAMING_REQ)"

lemma output_ready_place: "same_place r r' \<Longrightarrow> output_ready r \<Longrightarrow> output_ready r'"
  by (auto simp: same_place_def output_ready_def)

lemma process_output_inv:
  assumes laws: "queue_laws (life api)" and safe: "connector_safe cfg (life api)" and stop: "stop_laws api" and inv: "output_inv u"
    and ready: "\<And>r. dict_get (requests (rn_sched u)) i = Some r \<Longrightarrow> output_ready r"
    and new: "i \<notin> set (stopped_running u)" "i \<notin> set (stopped_preempted u)"
    and p: "process_output cfg api adaptive out ro failed (i, n) u = Inr u'"
  shows "output_inv u' \<and> (\<forall>j. j \<noteq> i \<longrightarrow> dict_get (requests (rn_sched u')) j = dict_get (requests (rn_sched u)) j)
    \<and> set (stopped_running u') \<union> set (stopped_preempted u') \<subseteq> insert i (set (stopped_running u) \<union> set (stopped_preempted u))"
proof (cases "dict_get (requests (rn_sched u)) i")
  case None
  with p inv show ?thesis by (auto simp: process_output_def bindE_raiseIf split: if_splits)
next
  case (Some r)
  from p Some obtain stale q where q: "settle_in_flight n r = Inr (stale, q)"
    and rest: "(let u = u\<lparr>rn_sched := mutate i (\<lambda>_. q) (rn_sched u)\<rparr> in
       if i \<in> set failed \<or> is_finished (req_status q) \<or> (stale \<and> drop_stale_output q) then Inr u
       else (case dict_get (req_id_to_index ro) i of None \<Rightarrow> Inr u
             | Some k \<Rightarrow> deliver_output cfg api adaptive out ro stale k i q u)) = Inr u'"
    by (auto simp: process_output_def bindE_raiseIf bindE_eq_Inr split: if_splits)
  let ?u = "u\<lparr>rn_sched := mutate i (\<lambda>_. q) (rn_sched u)\<rparr>"
  have place: "same_place r q" by (rule settle_in_flight_place [OF q])
  have inv': "output_inv ?u" by (rule output_inv_update [OF inv Some place]) simp_all
  have get: "dict_get (requests (rn_sched ?u)) j = (if j = i then Some q else dict_get (requests (rn_sched u)) j)" for j
    using Some by (simp add: mutate_get)
  have rq: "output_ready q" by (rule output_ready_place [OF place ready [OF Some]])
  show ?thesis
  proof (cases "u' = ?u")
    case True
    then show ?thesis using inv' get by auto
  next
    case False
    with rest obtain k where live: "\<not> is_finished (req_status q)"
      and d: "deliver_output cfg api adaptive out ro stale k i q ?u = Inr u'"
      by (auto simp: Let_def split: if_splits option.splits)
    have "output_inv u' \<and> (\<forall>j. j \<noteq> i \<longrightarrow> dict_get (requests (rn_sched u')) j = dict_get (requests (rn_sched ?u)) j)
        \<and> set (stopped_running u') \<union> set (stopped_preempted u') \<subseteq> insert i (set (stopped_running ?u) \<union> set (stopped_preempted ?u))"
      by (rule deliver_output_inv [OF laws safe stop inv' _ live _ _ _ d]) (use get rq live new in \<open>auto simp: output_ready_def\<close>)
    then show ?thesis by (simp add: mutate_get)
  qed
qed

lemma process_fold_inv:
  assumes laws: "queue_laws (life api)" and safe: "connector_safe cfg (life api)" and stop: "stop_laws api"
  shows "foldE (process_output cfg api adaptive out ro failed) toks u = Inr u' \<Longrightarrow> distinct (dict_keys toks)
    \<Longrightarrow> set (dict_keys toks) \<inter> (set (stopped_running u) \<union> set (stopped_preempted u)) = {} \<Longrightarrow> output_inv u
    \<Longrightarrow> \<forall>i \<in> set (dict_keys toks). \<forall>r. dict_get (requests (rn_sched u)) i = Some r \<longrightarrow> output_ready r
    \<Longrightarrow> output_inv u'"
proof (induction toks arbitrary: u)
  case (Cons t toks)
  obtain i n where t: "t = (i, n)" by fastforce
  have keys: "dict_keys (t # toks) = i # dict_keys toks" by (simp add: t dict_keys_def)
  from Cons.prems(1) obtain u1 where u1: "process_output cfg api adaptive out ro failed (i, n) u = Inr u1"
    "foldE (process_output cfg api adaptive out ro failed) toks u1 = Inr u'" by (auto simp: t bindE_eq_Inr)
  have step: "output_inv u1 \<and> (\<forall>j. j \<noteq> i \<longrightarrow> dict_get (requests (rn_sched u1)) j = dict_get (requests (rn_sched u)) j)
    \<and> set (stopped_running u1) \<union> set (stopped_preempted u1) \<subseteq> insert i (set (stopped_running u) \<union> set (stopped_preempted u))"
    by (rule process_output_inv [OF laws safe stop Cons.prems(4) _ _ _ u1(1)]) (use Cons.prems(3,5) keys in auto)
  show ?case
  proof (rule Cons.IH [OF u1(2)])
    show "distinct (dict_keys toks)" using Cons.prems(2) keys by simp
    have i: "i \<notin> set (dict_keys toks)" using Cons.prems(2) keys by simp
    with step Cons.prems(3) keys show "set (dict_keys toks) \<inter> (set (stopped_running u1) \<union> set (stopped_preempted u1)) = {}"
      by auto
    show "\<forall>j \<in> set (dict_keys toks). \<forall>r. dict_get (requests (rn_sched u1)) j = Some r \<longrightarrow> output_ready r"
    proof
      fix j assume j: "j \<in> set (dict_keys toks)"
      with i have "j \<noteq> i" by blast
      with step Cons.prems(5) keys j show "\<forall>r. dict_get (requests (rn_sched u1)) j = Some r \<longrightarrow> output_ready r" by simp
    qed
  qed (use step in simp)
qed simp

subsection \<open>The whole step keeps the queues\<close>

definition placed :: "sched \<Rightarrow> sched \<Rightarrow> bool" where
  "placed st st' \<longleftrightarrow> queue_inv st'
     \<and> (\<forall>i r'. dict_get (requests st') i = Some r' \<longrightarrow> (\<exists>r. dict_get (requests st) i = Some r \<and> same_place r r'))"

lemma placed_trans: "placed a b \<Longrightarrow> placed b c \<Longrightarrow> placed a c"
  by (fastforce simp: placed_def same_place_def)

lemma placed_refl: "queue_inv st \<Longrightarrow> placed st st"
  by (auto simp: placed_def same_place_def)

lemma scan_request_place: "scan_request cfg invalid toks evict ids r acc = (r', acc') \<Longrightarrow> same_place r r'"
  by (auto simp: scan_request_def Let_def same_place_def)

lemma scan_one_placed:
  assumes inv: "queue_inv st" and s: "scan_one cfg ids invalid toks evict i (st, acc) = Inr (st', acc')"
  shows "placed st st'"
proof -
  from s obtain r r' where r: "dict_get (requests st) i = Some r" "same_place r r'" "st' = mutate i (\<lambda>_. r') st"
    by (auto simp: scan_one_def dest: scan_request_place split: option.splits list.splits prod.splits)
  have "queue_inv_except {} st'"
    by (rule queue_inv_update [OF inv [unfolded queue_inv_def] _ r(1), of st' r'])
      (use r in \<open>simp_all add: same_queues_def requests_mutate same_place_def\<close>)
  then show ?thesis using r by (auto simp: placed_def queue_inv_def mutate_get same_place_def)
qed

interpretation scans: preserved_step "scan_one cfg ids invalid toks evict" "\<lambda>s. placed st (fst s)"
  for cfg ids invalid toks evict st
proof
  fix s t i assume p: "placed st (fst s)" and s: "scan_one cfg ids invalid toks evict i s = Inr t"
  have "queue_inv (fst s)" using p by (simp add: placed_def)
  from scan_one_placed [OF this, of cfg ids invalid toks evict i "snd s" "fst t" "snd t"] s
  have "placed (fst s) (fst t)" by simp
  with p show "placed st (fst t)" by (rule placed_trans)
qed

lemma scan_placed:
  assumes "queue_inv st" and "foldE (scan_one cfg ids invalid toks evict) reqs (st, acc) = Inr (st', acc')"
  shows "placed st st'"
  using scans.loop_keeps [OF assms(2)] placed_refl [OF assms(1)] by simp

lemma handle_invalid_placed:
  assumes inv: "queue_inv (rn_sched c)" and h: "handle_invalid_blocks cfg get_ids evict invalid toks c = Inr (failed, c')"
  shows "placed (rn_sched c) (rn_sched c')"
proof -
  let ?ids = "\<lambda>i. get_ids i (rn_kv c)"
  from h obtain st1 a1 where s1: "update_requests_with_invalid_blocks cfg ?ids invalid toks False
      (filter (status_is WAITING_FOR_REMOTE_KVS (rn_sched c)) (skipped_waiting (rn_sched c))) (rn_sched c) = Inr (st1, a1)"
    unfolding handle_invalid_blocks_def Let_def bindE_eq_Inr by auto
  from h obtain st2 a2 where s2: "update_requests_with_invalid_blocks cfg ?ids invalid toks True (running st1) st1 = Inr (st2, a2)"
    unfolding handle_invalid_blocks_def Let_def s1 bindE_Inr prod.case bindE_eq_Inr by auto
  from h have c': "rn_sched c' = st2 \<or> (\<exists>f. rn_sched c' = st2\<lparr>failed_recving_kv_req_ids := f\<rparr>)"
    unfolding handle_invalid_blocks_def Let_def s1 s2 bindE_Inr prod.case by (auto split: if_splits)
  have p1: "placed (rn_sched c) st1" by (rule scan_placed [OF inv s1 [unfolded update_requests_with_invalid_blocks_def]])
  then have "queue_inv st1" by (simp add: placed_def)
  from placed_trans [OF p1 scan_placed [OF this s2 [unfolded update_requests_with_invalid_blocks_def]]]
  have p: "placed (rn_sched c) st2" .
  have "queue_inv (st2\<lparr>failed_recving_kv_req_ids := f\<rparr>) = queue_inv st2" for f
    by (simp add: queue_inv_def queue_inv_except_def queued_def with_status_def)
  with p c' show ?thesis by (auto simp: placed_def)
qed

lemma remove_stopped_inv:
  assumes laws: "queue_laws (life api)" and inv: "queue_inv (purge (set run) (set pre) st)"
  shows "queue_inv (remove_stopped api run pre st)"
proof -
  let ?st = "remove_stopped api run pre st" and ?p = "purge (set run) (set pre) st"
  have req: "requests ?st = requests ?p" "num_waiting_for_streaming_input ?st = num_waiting_for_streaming_input ?p"
    by (simp_all add: remove_stopped_def Let_def)
  have R: "running ?st = running ?p" by (simp add: remove_stopped_def Let_def list_remove_all_eq [OF laws])
  have Q: "mset (queued ?st) = mset (queued ?p)"
    by (simp add: remove_stopped_def Let_def queued_def queue_remove_perm [OF laws])
  have W: "with_status P ?st = with_status P ?p" for P by (rule with_status_cong [OF req(1)])
  from mset_eq_setD [OF Q] mset_eq_imp_distinct_iff [OF Q] inv show ?thesis
    unfolding queue_inv_def queue_inv_except_def W req R by metis
qed

lemma finish_failed_inv:
  assumes laws: "queue_laws (life api)" and safe: "connector_safe cfg (life api)" and inv: "queue_inv (rn_sched u)"
    and f: "finish_failed cfg api failed u = Inr u'"
  shows "queue_inv (rn_sched u')"
proof -
  let ?u = "u\<lparr>rn_sched := (rn_sched u)\<lparr>grammar_compile_error_reqs := []\<rparr>\<rparr>"
  have inv': "queue_inv (rn_sched ?u)" using inv by (simp add: queue_inv_def queue_inv_except_def queued_def with_status_def)
  define ids where "ids = remdups (grammar_compile_error_reqs (rn_sched u) @ (if recompute_kv_load_failures cfg then [] else failed))"
  obtain v w where w: "finish_requests cfg (life api) (Some ids) FINISHED_ERROR ?u = Inr (v, w)" "queue_inv (rn_sched w)"
    using finish_requests_effect [OF laws safe inv', of FINISHED_ERROR "Some ids"] by (auto simp: is_finished_def)
  show ?thesis
  proof (cases "ids = []")
    case True
    with f inv' show ?thesis by (auto simp: finish_failed_def Let_def simp flip: ids_def)
  next
    case False
    with f w show ?thesis by (auto simp: finish_failed_def Let_def simp flip: ids_def)
  qed
qed

lemma free_blocks_queues:
  assumes inv: "queue_inv (rn_sched c)" and r: "dict_get (requests (rn_sched c)) i = Some r"
    and f: "free_blocks cfg api r c = Inr c'"
  shows "queue_inv (rn_sched c')"
proof -
  have fin: "is_finished (req_status r)" using f by (auto simp: free_blocks_def bindE_raiseIf split: if_splits)
  have i: "request_id r = i" using inv r by (simp add: queue_inv_def queue_inv_except_def)
  have st: "rn_sched c' = (rn_sched c)\<lparr>requests := dict_del i (requests (rn_sched c))\<rparr>"
    using f fin by (auto simp: free_blocks_def Let_def i free_request_blocks_sched)
  have "queue_inv_except {} (rn_sched c')"
    by (rule queue_inv_settle [OF queue_inv_drop [OF inv [unfolded queue_inv_def] r fin]]) (simp_all add: st same_queues_def)
  then show ?thesis by (simp add: queue_inv_def)
qed

lemma queue_inv_recving [simp]: "queue_inv (st\<lparr>finished_recving_kv_req_ids := f\<rparr>) = queue_inv st"
  by (simp add: queue_inv_def queue_inv_except_def queued_def with_status_def)

interpretation receives: preserved_step "recv_finished cfg api" "\<lambda>c. queue_inv (rn_sched c)" for cfg api
  by unfold_locales
    (auto simp: recv_finished_def Let_def bindE_raiseIf dest: free_blocks_queues split: option.splits if_splits)

interpretation sends: preserved_step "send_finished cfg api" "\<lambda>c. queue_inv (rn_sched c)" for cfg api
  by unfold_locales (auto simp: send_finished_def dest: free_blocks_queues split: option.splits)

lemma xfer_inv:
  assumes inv: "queue_inv (rn_sched c)" and x: "update_from_kv_xfer_finished cfg api recving sending c = Inr c'"
  shows "queue_inv (rn_sched c')"
proof -
  define c0 where "c0 = (case kv_connector api of NoConn \<Rightarrow> c | _ \<Rightarrow> c\<lparr>rn_kv := kv_update_connector_output api recving sending (rn_kv c)\<rparr>)"
  have inv0: "queue_inv (rn_sched c0)" using inv by (simp add: c0_def split: connector.splits)
  from x obtain c1 where c1: "foldE (recv_finished cfg api) recving c0 = Inr c1" "foldE (send_finished cfg api) sending c1 = Inr c'"
    by (auto simp: update_from_kv_xfer_finished_def Let_def bindE_eq_Inr simp flip: c0_def)
  from sends.loop_keeps [OF c1(2) receives.loop_keeps [OF c1(1) inv0]] show ?thesis .
qed

lemma process_requests_inv:
  assumes laws: "queue_laws (life api)" and safe: "connector_safe cfg (life api)" and stop: "stop_laws api"
    and inv: "queue_inv (rn_sched c)" and keys: "distinct (dict_keys (out_num_scheduled_tokens out))"
    and ready: "\<forall>i \<in> set (dict_keys (out_num_scheduled_tokens out)). \<forall>r. dict_get (requests (rn_sched c)) i = Some r \<longrightarrow> output_ready r"
    and p: "process_requests cfg api adaptive num_positions out ro c = Inr (failed, u)"
  shows "output_inv u"
proof -
  define c0 where "c0 = begin_output cfg (blocks (life api)) (out_total_num_scheduled_tokens out) c"
  have "queue_inv (st\<lparr>processed_step_seq := n\<rparr>) = queue_inv st" for st n
    by (simp add: queue_inv_def queue_inv_except_def queued_def with_status_def)
  moreover have "requests (rn_sched c0) = requests (rn_sched c)"
    by (simp add: c0_def begin_output_def drain_deferred_frees_def split: prod.splits)
  ultimately have c0: "queue_inv (rn_sched c0)" "requests (rn_sched c0) = requests (rn_sched c)"
    using inv by (auto simp: c0_def begin_output_def drain_deferred_frees_def split: prod.splits)
  from p obtain c1 where c1: "(case kv_connector_output ro of
        Some kv \<Rightarrow> if invalid_block_ids kv \<noteq> []
          then handle_invalid_blocks cfg (kv_get_block_ids api) (kv_evict_blocks api) (invalid_block_ids kv) (out_num_scheduled_tokens out) c0
          else Inr ([], c0)
      | None \<Rightarrow> Inr ([], c0)) = Inr (failed, c1)"
    and fold: "foldE (process_output cfg api adaptive out ro failed) (out_num_scheduled_tokens out)
       \<lparr>rn_sched = rn_sched c1, rn_kv = rn_kv c1, rn_enc = rn_enc c1, deferred_frees = deferred_frees c1,
        u_acc = no_drafts num_positions, stopped_running = [], stopped_preempted = [], u_outputs = []\<rparr> = Inr u"
    unfolding process_requests_def Let_def c0_def [symmetric] by (auto simp: bindE_eq_Inr)
  have "placed (rn_sched c0) (rn_sched c1)"
    using c1 c0(1) by (auto simp: placed_refl intro: handle_invalid_placed split: option.splits if_splits)
  then have c1i: "queue_inv (rn_sched c1)"
    "\<forall>i r'. dict_get (requests (rn_sched c1)) i = Some r' \<longrightarrow> (\<exists>r. dict_get (requests (rn_sched c)) i = Some r \<and> same_place r r')"
    by (simp_all add: placed_def c0(2))
  show ?thesis
  proof (rule process_fold_inv [OF laws safe stop fold keys], goal_cases)
    case 2
    have "purge {} {} st = st" for st by (simp add: purge_def)
    with c1i(1) show ?case by (simp add: output_inv_def)
  next
    case 3
    show ?case using c1i(2) ready output_ready_place by fastforce
  qed simp
qed


text \<open>Both running requests of the example stop; the waiting session stays.\<close>

definition two_outputs :: sched_output where
  "two_outputs = session_output\<lparr>out_num_scheduled_tokens := [(''a'', 1), (''b'', 1)]\<rparr>"

definition two_sampled :: runner_output where
  "two_sampled = session_runner\<lparr>req_id_to_index := [(''b'', 0), (''a'', 1)], sampled_token_ids := [[8], [9]]\<rparr>"


end
