(* ===== verification/SchedWaiting.thy ===== *)
theory SchedWaiting
  imports SchedOutput
begin

text \<open>
  The second half of \<^verbatim>\<open>Scheduler.schedule\<close>: the loop over the waiting requests, with the lookup of cached
  tokens here and at the KV connector, the number of tokens of a new or resumed request, its admission or
  the start of an asynchronous load, the constraints checked at the end and the step as a whole.

  What the KV-cache manager, the connectors and the queues answer enters through \<open>wait_api\<close>; \<open>'k\<close> is the
  joint state of the KV-cache manager and the KV connector. Prefix-cache and prefill statistics, events and
  the metadata objects built for the workers are not modelled; \<open>carries_prefill_stats\<close> says whether a request
  still has the statistics object whose recording asserts a bound.
\<close>

subsection \<open>Interfaces\<close>

text \<open>The keyword arguments of \<^verbatim>\<open>allocate_slots\<close>.\<close>

record slot_request =
  sl_num_new_tokens :: int
  sl_num_new_computed_tokens :: int
  sl_new_computed_blocks :: kv_blocks
  sl_num_lookahead_tokens :: int
  sl_num_external_computed_tokens :: int
  sl_delay_cache_blocks :: bool
  sl_num_encoder_tokens :: int
  sl_full_sequence_must_fit :: bool
  sl_reserved_blocks :: int
  sl_has_scheduled_reqs :: bool

record ('k, 'e) wait_api =
  wlife :: "('k, 'e) life_api"
  kv_get_computed_blocks :: "sreq \<Rightarrow> 'k \<Rightarrow> (kv_blocks \<times> int \<times> int) \<times> 'k"
  kv_get_computed_blocks_for_connector :: "sreq \<Rightarrow> 'k \<Rightarrow> (kv_blocks \<times> int \<times> int \<times> bool) \<times> 'k"
  kv_truncate_computed_blocks :: "kv_blocks \<Rightarrow> int \<Rightarrow> kv_blocks"
  kv_empty_blocks :: kv_blocks
  kv_allocate :: "sreq \<Rightarrow> slot_request \<Rightarrow> 'k \<Rightarrow> kv_blocks option \<times> 'k"
  kv_get_blocks :: "string \<Rightarrow> 'k \<Rightarrow> kv_blocks"
  kv_num_blocks_to_allocate :: "string \<Rightarrow> int \<Rightarrow> int \<Rightarrow> 'k \<Rightarrow> int"
  kv_zeroing_block_ids_in_range :: "string \<Rightarrow> int \<Rightarrow> int \<Rightarrow> 'k \<Rightarrow> int list"
  kv_take_new_block_ids :: "'k \<Rightarrow> int list \<times> 'k"
  conn_num_new_matched_tokens :: "sreq \<Rightarrow> int \<Rightarrow> 'k \<Rightarrow> (int option \<times> bool) \<times> 'k"
  conn_update_state_after_alloc :: "sreq \<Rightarrow> kv_blocks \<Rightarrow> int \<Rightarrow> 'k \<Rightarrow> 'k"
  ec_ensure_cache_available :: "sreq \<Rightarrow> int \<Rightarrow> 'e \<Rightarrow> bool \<times> 'e"
  queue_prepend_all :: "string list \<Rightarrow> string list \<Rightarrow> string list"
  carries_prefill_stats :: "sreq \<Rightarrow> bool"
  is_kv_producer :: bool
  kv_take_partial_tail_offloads :: "'k \<Rightarrow> 'k"
  conn_build_connector_meta :: "sched_output \<Rightarrow> 'k \<Rightarrow> 'k"
  ec_build_connector_meta :: "sched_output \<Rightarrow> 'e \<Rightarrow> 'e"
  enc_get_freed_mm_hashes :: "'e \<Rightarrow> string list \<times> 'e"
  enc_get_manager_metadata :: "'e \<Rightarrow> 'e"

abbreviation sapi :: "('k, 'e) wait_api \<Rightarrow> ('k, 'e) sched_api" where
  "sapi api \<equiv> base_api (blocks (wlife api))"

abbreviation has_connector :: "('k, 'e) wait_api \<Rightarrow> bool" where
  "has_connector api \<equiv> connected (wlife api)"

text \<open>The state of the loop: the state of the running half and the lists of the waiting half.\<close>

record ('k, 'e) wait = "('k, 'e) run" +
  step_skipped_waiting :: "string list"
  scheduled_new_reqs :: "string list"
  scheduled_resumed_reqs :: "string list"
  scheduled_loras :: "int list"

text \<open>What becomes of the request at the head: it is skipped for this step, the loop ends, or it was taken.\<close>

datatype verdict = Skip | Stop | Taken

subsection \<open>Cached tokens\<close>

record lookup =
  lk_blocks :: kv_blocks
  lk_local :: int
  lk_external :: int
  lk_load_async :: bool
  lk_computed :: int

text \<open>The hits here and at the connector; \<open>None\<close> if the connector cannot tell yet.\<close>

definition external_hit ::
    "sched_config \<Rightarrow> ('k, 'e) wait_api \<Rightarrow> sreq \<Rightarrow> kv_blocks \<Rightarrow> int \<Rightarrow> bool \<Rightarrow> 'k \<Rightarrow> (sreq \<times> lookup option) \<times> 'k" where
  "external_hit cfg api r bs local diverged k =
     (let tail = local mod sched_block_size cfg; aligned = local - tail in
      case conn_num_new_matched_tokens api r aligned k of ((matched, async), k) \<Rightarrow>
        (case matched of
           None \<Rightarrow> ((r, None), k)
         | Some ext \<Rightarrow>
             (let (bs, local, external, async) =
                    (if tail \<noteq> 0 \<and> ext > tail then (kv_truncate_computed_blocks api bs aligned, aligned, ext, async)
                     else if tail \<noteq> 0 then (bs, local, 0, False)
                     else (bs, local, ext, async)) in
              if diverged \<and> external = 0
              then (case kv_get_computed_blocks api r k of ((bs, local, boundary), k) \<Rightarrow>
                     ((r\<lparr>shared_prefix_boundary := boundary\<rparr>,
                       Some \<lparr>lk_blocks = bs, lk_local = local, lk_external = external, lk_load_async = async,
                             lk_computed = local + external\<rparr>), k))
              else
                ((r, Some \<lparr>lk_blocks = bs, lk_local = local, lk_external = external, lk_load_async = async,
                           lk_computed = local + external\<rparr>), k))))"

definition prefix_lookup ::
    "sched_config \<Rightarrow> ('k, 'e) wait_api \<Rightarrow> sreq \<Rightarrow> 'k \<Rightarrow> (sreq \<times> lookup option) \<times> 'k" where
  "prefix_lookup cfg api r k =
     (if has_connector api
      then (case kv_get_computed_blocks_for_connector api r k of ((bs, local, boundary, diverged), k) \<Rightarrow>
             external_hit cfg api (r\<lparr>shared_prefix_boundary := boundary\<rparr>) bs local diverged k)
      else (case kv_get_computed_blocks api r k of ((bs, local, boundary), k) \<Rightarrow>
             ((r\<lparr>shared_prefix_boundary := boundary\<rparr>,
               Some \<lparr>lk_blocks = bs, lk_local = local, lk_external = 0, lk_load_async = False, lk_computed = local\<rparr>), k)))"

text \<open>The lookup with the checks behind it; the request that is returned has its prefix boundary set.\<close>

definition cached_tokens ::
    "sched_config \<Rightarrow> ('k, 'e) wait_api \<Rightarrow> sreq \<Rightarrow> 'k \<Rightarrow> 'e \<Rightarrow> sched_error + (sreq \<times> lookup option) \<times> 'k \<times> 'e" where
  "cached_tokens cfg api r k e =
     (if num_computed_tokens r = 0
      then
        (case prefix_lookup cfg api r k of ((r, found), k) \<Rightarrow>
          (case found of
             None \<Rightarrow> Inr ((r, None), k, e)
           | Some lk \<Rightarrow>
               bindE (raiseIf (lk_computed lk > req_num_tokens r) (TooManyComputed (request_id r))) (\<lambda>_.
               (case (if ec_has_cache_item (sapi api) \<noteq> None \<and> mm_features r \<noteq> []
                      then ec_ensure_cache_available api r (lk_computed lk) e else (True, e)) of
                  (ready, e) \<Rightarrow>
                    if \<not> ready then Inr ((r, None), k, e)
                    else
                      bindE (raiseIf (carries_prefill_stats api r \<and> num_preemptions r \<le> 0
                                      \<and> lk_computed lk > num_prompt_tokens r) (TooManyComputed (request_id r))) (\<lambda>_.
                      Inr ((r, Some lk), k, e))))))
      else
        Inr ((r, Some \<lparr>lk_blocks = kv_empty_blocks api, lk_local = 0, lk_external = 0, lk_load_async = False,
                       lk_computed = num_computed_tokens r\<rparr>), k, e))"

subsection \<open>The number of new tokens\<close>

text \<open>\<open>None\<close> ends the loop. The flag says that the request is padded with speculative tokens.\<close>

definition waiting_num_new ::
    "sched_config \<Rightarrow> step_env \<Rightarrow> ('k, 'e, 'm) run_scheme \<Rightarrow> sreq \<Rightarrow> int \<Rightarrow> sched_error + (int \<times> bool) option" where
  "waiting_num_new cfg env rn r computed =
     (if env_defer_prefills env \<and> computed < req_num_tokens r - 1 then Inr None
      else
        (let n = req_num_tokens r - computed;
             pad = (cfg_num_spec_tokens cfg > 0 \<and> \<not> dynamic_sd cfg \<and> num_sampled_tokens_per_step cfg > 0 \<and> n = 1
                    \<and> scheduled_running_reqs rn \<noteq> [] \<and> \<not> prefill_scheduled rn);
             n = (if pad then 1 + cfg_num_spec_tokens cfg else n) in
         if pad \<and> (n > token_budget rn \<or> computed + n > max_model_len cfg) then Inr None
         else
           (let threshold = long_prefill_token_threshold cfg;
                n = (if \<not> enable_decode_aware_prefill cfg \<and> 0 < threshold \<and> threshold < n then threshold else n) in
            if \<not> enable_chunked_prefill cfg \<and> n > token_budget rn then Inr None
            else
              (let n = min n (token_budget rn);
                   remaining = env_prefill_token_budget env - prefill_tokens_scheduled rn in
               if enable_decode_aware_prefill cfg \<and> remaining \<le> 0 then Inr None
               else
                 (let n = (if enable_decode_aware_prefill cfg then min n remaining else n) in
                  bindE (raiseIf (n \<le> 0) (NoNewTokens (request_id r))) (\<lambda>_. Inr (Some (n, pad))))))))"

text \<open>The tokens after the encoder inputs and the block alignment; \<open>None\<close> ends the loop. An asynchronous
  load computes nothing in this step.\<close>

definition waiting_fitted ::
    "sched_config \<Rightarrow> ('k, 'e) wait_api \<Rightarrow> step_env \<Rightarrow> sreq \<Rightarrow> lookup \<Rightarrow> ('k, 'e, 'm) run_scheme
      \<Rightarrow> sched_error + (int \<times> bool \<times> enc_acc option) option \<times> 'e" where
  "waiting_fitted cfg api env r lk rn =
     (let e = rn_enc rn in
      if lk_load_async lk
      then bindE (raiseIf (lk_external lk \<le> 0) (NoExternalTokens (request_id r))) (\<lambda>_. Inr (Some (0, False, None), e))
      else
        bindE (waiting_num_new cfg env rn r (lk_computed lk)) (\<lambda>new.
        (case new of
           None \<Rightarrow> Inr (None, e)
         | Some (n, pad) \<Rightarrow>
             bindE (if has_encoder_inputs r
                    then bindE (try_schedule_encoder_inputs cfg (sapi api) r (lk_computed lk) n (rn_encoder_budget rn)
                                  (if use_eagle cfg then 1 else 0) e) (\<lambda>(n, acc, e). Inr (n, Some acc, e))
                    else Inr (n, None, e)) (\<lambda>(n, acc, e).
             if n = 0 then Inr (None, e)
             else
               (let n = (if need_mamba_block_aligned_split cfg
                         then mamba_block_aligned_split cfg r n (lk_local lk) (lk_external lk) else n) in
                if need_mamba_block_aligned_split cfg \<and> n = 0 then Inr (None, e)
                else Inr (Some (n, pad, acc), e))))))"

subsection \<open>Allocation\<close>

definition request_remaining_blocks :: "sched_config \<Rightarrow> ('k, 'e) wait_api \<Rightarrow> 'k \<Rightarrow> sreq \<Rightarrow> int" where
  "request_remaining_blocks cfg api k r =
     kv_num_blocks_to_allocate api (request_id r) (min (req_num_tokens r) (max_model_len cfg)) (num_computed_tokens r) k"

definition inflight_prefill_reserved_blocks :: "sched_config \<Rightarrow> ('k, 'e) wait_api \<Rightarrow> sched \<Rightarrow> 'k \<Rightarrow> int" where
  "inflight_prefill_reserved_blocks cfg api st k =
     sum_list (map (request_remaining_blocks cfg api k) (live st (inflight_prefills st)))"

definition waiting_slots ::
    "sched_config \<Rightarrow> ('k, 'e) wait_api \<Rightarrow> sreq \<Rightarrow> lookup \<Rightarrow> int \<Rightarrow> enc_acc option \<Rightarrow> sched \<Rightarrow> 'k \<Rightarrow> slot_request" where
  "waiting_slots cfg api r lk n acc st k =
     \<lparr>sl_num_new_tokens = n, sl_num_new_computed_tokens = lk_local lk, sl_new_computed_blocks = lk_blocks lk,
      sl_num_lookahead_tokens = (if lk_load_async lk \<and> num_lookahead_tokens cfg > 0 then 0 else num_lookahead_tokens cfg),
      sl_num_external_computed_tokens = lk_external lk, sl_delay_cache_blocks = lk_load_async lk,
      sl_num_encoder_tokens =
        (if is_encoder_decoder cfg \<and> has_encoder_inputs r
         then (case acc of None \<Rightarrow> 0
               | Some a \<Rightarrow> sum_list (map (\<lambda>i. mm_embeds (mm_features r ! i)) (encoder_inputs_to_schedule a)))
         else 0),
      sl_full_sequence_must_fit = scheduler_reserve_full_isl cfg,
      sl_reserved_blocks = (if lk_load_async lk then inflight_prefill_reserved_blocks cfg api st k else 0),
      sl_has_scheduled_reqs = (running st \<noteq> [])\<rparr>"

subsection \<open>Admission\<close>

definition pop_request :: "queue_choice \<Rightarrow> sched \<Rightarrow> sched" where
  "pop_request q st =
     (case q of UseWaiting \<Rightarrow> st\<lparr>waiting := tl (waiting st)\<rparr> | UseSkipped \<Rightarrow> st\<lparr>skipped_waiting := tl (skipped_waiting st)\<rparr>)"

definition skip_request :: "('k, 'e) wait_api \<Rightarrow> queue_choice \<Rightarrow> sreq \<Rightarrow> ('k, 'e) wait \<Rightarrow> ('k, 'e) wait" where
  "skip_request api q r w =
     w\<lparr>rn_sched := pop_request q (rn_sched w),
       step_skipped_waiting := queue_prepend (sapi api) r (step_skipped_waiting w)\<rparr>"

definition start_load ::
    "sched_config \<Rightarrow> ('k, 'e) wait_api \<Rightarrow> queue_choice \<Rightarrow> sreq \<Rightarrow> lookup \<Rightarrow> ('k, 'e) wait \<Rightarrow> ('k, 'e) wait" where
  "start_load cfg api q r lk w =
     (let i = request_id r;
          r = r\<lparr>req_status := WAITING_FOR_REMOTE_KVS, num_computed_tokens := lk_computed lk\<rparr>;
          st = mutate i (\<lambda>_. r) (pop_request q (rn_sched w));
          st = st\<lparr>inflight_prefills := List.insert i (inflight_prefills st)\<rparr>;
          st = (if needs_kv_cache_zeroing cfg
                then st\<lparr>skip_zero_block_ids := remdups (skip_zero_block_ids st
                          @ kv_zeroing_block_ids_in_range api i (lk_local lk) (lk_computed lk) (rn_kv w))\<rparr>
                else st) in
      w\<lparr>rn_sched := st, step_skipped_waiting := queue_prepend (sapi api) r (step_skipped_waiting w)\<rparr>)"

text \<open>The bookkeeping of an admitted request; \<open>r\<close> still has its waiting status.\<close>

definition admit_request ::
    "sched_config \<Rightarrow> ('k, 'e) wait_api \<Rightarrow> queue_choice \<Rightarrow> sreq \<Rightarrow> lookup \<Rightarrow> int \<Rightarrow> bool \<Rightarrow> enc_acc option \<Rightarrow> ('k, 'e) wait
      \<Rightarrow> sched_error + ('k, 'e) wait" where
  "admit_request cfg api q r lk n pad acc w =
     bindE (raiseIf (req_status r \<notin> {WAITING, PREEMPTED}) (InvalidStatus (request_id r))) (\<lambda>_.
     (let i = request_id r;
          st = pop_request q (rn_sched w);
          st = st\<lparr>running := running st @ [i]\<rparr>;
          st = (if enable_decode_aware_prefill cfg \<and> is_long_prefill_request cfg r then stamp i st else st);
          st = mutate i (\<lambda>_. r\<lparr>req_status := RUNNING, num_computed_tokens := lk_computed lk\<rparr>) st;
          st = (if lk_computed lk + n < req_num_tokens r
                then st\<lparr>inflight_prefills := List.insert i (inflight_prefills st)\<rparr> else st);
          w = (if req_status r = WAITING then w\<lparr>scheduled_new_reqs := scheduled_new_reqs w @ [i]\<rparr>
               else w\<lparr>scheduled_resumed_reqs := scheduled_resumed_reqs w @ [i]\<rparr>) in
      Inr (record_encoder_inputs (sapi api) i r acc
            (w\<lparr>rn_sched := st,
               scheduled_loras := (case (max_loras cfg, lora_int_id r) of
                                     (Some _, Some l) \<Rightarrow> List.insert l (scheduled_loras w) | _ \<Rightarrow> scheduled_loras w),
               req_to_new_blocks := dict_set i (kv_get_blocks api i (rn_kv w)) (req_to_new_blocks w),
               num_scheduled_tokens := dict_set i n (num_scheduled_tokens w),
               token_budget := token_budget w - n,
               prefill_tokens_scheduled := prefill_tokens_scheduled w + (if enable_decode_aware_prefill cfg then n else 0),
               scheduled_spec_decode_tokens :=
                 (if pad then dict_set i (replicate (nat (cfg_num_spec_tokens cfg)) (- 1)) (scheduled_spec_decode_tokens w)
                  else scheduled_spec_decode_tokens w)\<rparr>))))"

text \<open>Allocation and what follows it.\<close>

definition allocate_waiting ::
    "sched_config \<Rightarrow> ('k, 'e) wait_api \<Rightarrow> queue_choice \<Rightarrow> sreq \<Rightarrow> lookup \<Rightarrow> int \<times> bool \<times> enc_acc option \<Rightarrow> ('k, 'e) wait
      \<Rightarrow> sched_error + verdict \<times> ('k, 'e) wait" where
  "allocate_waiting cfg api q r lk = (\<lambda>(n, pad, acc) w.
     (case kv_allocate api r (waiting_slots cfg api r lk n acc (rn_sched w) (rn_kv w)) (rn_kv w) of (granted, k) \<Rightarrow>
        (case granted of
           None \<Rightarrow>
             Inr (Stop, w\<lparr>rn_kv := k, rn_enc := (if has_encoder_inputs r then enc_free (sapi api) r (rn_enc w) else rn_enc w)\<rparr>)
         | Some _ \<Rightarrow>
             (let k = (if has_connector api
                       then conn_update_state_after_alloc api r (kv_get_blocks api (request_id r) k) (lk_external lk) k
                       else k);
                  w = w\<lparr>rn_kv := k\<rparr> in
              if lk_load_async lk then Inr (Taken, start_load cfg api q r lk w)
              else bindE (admit_request cfg api q r lk n pad acc w) (\<lambda>w. Inr (Taken, w))))))"

subsection \<open>One waiting request\<close>

definition lora_full :: "sched_config \<Rightarrow> int list \<Rightarrow> sreq \<Rightarrow> bool" where
  "lora_full cfg loras r \<longleftrightarrow>
     (case (max_loras cfg, lora_int_id r) of
        (Some m, Some l) \<Rightarrow> int (length loras) = m \<and> l \<notin> set loras
      | _ \<Rightarrow> False)"

text \<open>The part of the iteration behind the promotion; the request object is read again, the promotion may have
  changed it.\<close>

definition schedule_promoted ::
    "sched_config \<Rightarrow> ('k, 'e) wait_api \<Rightarrow> step_env \<Rightarrow> queue_choice \<Rightarrow> sreq \<Rightarrow> ('k, 'e) wait
      \<Rightarrow> sched_error + verdict \<times> ('k, 'e) wait" where
  "schedule_promoted cfg api env q r w =
     (if num_stale_output_tokens r > 0 \<and> \<not> drop_stale_output r then Inr (Skip, w)
      else if lora_full cfg (scheduled_loras w) r then Inr (Skip, w)
      else
        bindE (cached_tokens cfg api r (rn_kv w) (rn_enc w)) (\<lambda>((r, found), k, e).
        (let w = w\<lparr>rn_kv := k, rn_enc := e, rn_sched := mutate (request_id r) (\<lambda>_. r) (rn_sched w)\<rparr> in
         case found of
           None \<Rightarrow> Inr (Skip, w)
         | Some lk \<Rightarrow>
             bindE (waiting_fitted cfg api env r lk w) (\<lambda>(new, e).
             (let w = w\<lparr>rn_enc := e\<rparr> in
              case new of
                None \<Rightarrow> Inr (Stop, w)
              | Some x \<Rightarrow> allocate_waiting cfg api q r lk x w)))))"

definition waiting_head :: "queue_choice \<Rightarrow> sched \<Rightarrow> string list" where
  "waiting_head q st = (case q of UseWaiting \<Rightarrow> waiting st | UseSkipped \<Rightarrow> skipped_waiting st)"

definition waiting_step ::
    "sched_config \<Rightarrow> ('k, 'e) wait_api \<Rightarrow> step_env \<Rightarrow> ('k, 'e) wait \<Rightarrow> sched_error + bool \<times> ('k, 'e) wait" where
  "waiting_step cfg api env w =
     (let st = rn_sched w in
      if int (length (running st)) + num_waiting_for_streaming_input st \<ge> max_num_running_reqs cfg then Inr (False, w)
      else
        (case select_waiting_queue_for_scheduling cfg (wlife api) st of
           None \<Rightarrow> Inl EmptyQueue
         | Some q \<Rightarrow>
             (case waiting_head q st of
                [] \<Rightarrow> Inl EmptyQueue
              | i # _ \<Rightarrow>
                  (case dict_get (requests st) i of
                     None \<Rightarrow> Inl (UnknownRequest i)
                   | Some r \<Rightarrow>
                       bindE (if is_blocked_waiting_status (req_status r)
                              then try_promote_blocked_waiting_request cfg (wlife api) r w else Inr (True, w)) (\<lambda>(ready, w).
                       bindE (if ready
                              then (case dict_get (requests (rn_sched w)) i of
                                      None \<Rightarrow> Inl (UnknownRequest i)
                                    | Some r \<Rightarrow> schedule_promoted cfg api env q r w)
                              else Inr (Skip, w)) (\<lambda>(v, w).
                       (case v of
                          Stop \<Rightarrow> Inr (False, w)
                        | Taken \<Rightarrow> Inr (True, w)
                        | Skip \<Rightarrow>
                            (case dict_get (requests (rn_sched w)) i of
                               None \<Rightarrow> Inl (UnknownRequest i)
                             | Some r \<Rightarrow> Inr (True, skip_request api q r w)))))))))"

subsection \<open>Termination\<close>

lemma same_queues_refl [simp]: "same_queues st st"
  by (simp add: same_queues_def)

lemma same_queues_mutate [simp]: "same_queues st (mutate i f st)"
  by (simp add: same_queues_def)

lemma update_waiting_for_remote_kv_queues:
  assumes "update_waiting_for_remote_kv cfg api r c = Inr c'"
  shows "same_queues (rn_sched c) (rn_sched c')"
  using assms by (auto simp: update_waiting_for_remote_kv_def Let_def bindE_eq_Inr same_queues_def split: if_splits)

lemma promote_queues:
  assumes "try_promote_blocked_waiting_request cfg api r c = Inr (ready, c')"
  shows "same_queues (rn_sched c) (rn_sched c')"
  using assms update_waiting_for_remote_kv_queues
  by (fastforce simp: try_promote_blocked_waiting_request_def Let_def bindE_eq_Inr same_queues_def
      split: status.splits if_splits option.splits grammar_state.splits)

lemma record_encoder_inputs_sched [simp]: "rn_sched (record_encoder_inputs api i r acc w) = rn_sched w"
  by (auto simp: record_encoder_inputs_def Let_def split: option.splits)

lemma pop_request_simps [simp]:
  "requests (pop_request q st) = requests st" "running (pop_request q st) = running st"
  "num_waiting_for_streaming_input (pop_request q st) = num_waiting_for_streaming_input st"
  "failed_recving_kv_req_ids (pop_request q st) = failed_recving_kv_req_ids st"
  by (simp_all add: pop_request_def split: queue_choice.splits)

lemma waiting_head_pop: "waiting_head q (pop_request q st) = tl (waiting_head q st)"
  by (simp add: waiting_head_def pop_request_def split: queue_choice.splits)

lemma length_pop: "waiting_head q st \<noteq> [] \<Longrightarrow> length (queued (pop_request q st)) < length (queued st)"
  by (auto simp: waiting_head_def pop_request_def queued_def split: queue_choice.splits)

lemma stamp_simps [simp]:
  "requests (stamp i st) = requests st" "running (stamp i st) = running st" "waiting (stamp i st) = waiting st"
  "skipped_waiting (stamp i st) = skipped_waiting st"
  "num_waiting_for_streaming_input (stamp i st) = num_waiting_for_streaming_input st"
  by (simp_all add: stamp_def)

text \<open>The two ways a request is taken off its queue.\<close>

lemma start_load_queues:
  "waiting (rn_sched (start_load cfg api q r lk w)) = waiting (pop_request q (rn_sched w))"
  "skipped_waiting (rn_sched (start_load cfg api q r lk w)) = skipped_waiting (pop_request q (rn_sched w))"
  "running (rn_sched (start_load cfg api q r lk w)) = running (rn_sched w)"
  "num_waiting_for_streaming_input (rn_sched (start_load cfg api q r lk w)) = num_waiting_for_streaming_input (rn_sched w)"
  by (simp_all add: start_load_def Let_def)

lemma admit_request_queues:
  assumes "admit_request cfg api q r lk n pad acc w = Inr w'"
  shows "waiting (rn_sched w') = waiting (pop_request q (rn_sched w))"
    and "skipped_waiting (rn_sched w') = skipped_waiting (pop_request q (rn_sched w))"
    and "running (rn_sched w') = running (rn_sched w) @ [request_id r]"
    and "num_waiting_for_streaming_input (rn_sched w') = num_waiting_for_streaming_input (rn_sched w)"
  using assms by (auto simp: admit_request_def bindE_raiseIf Let_def split: if_splits)

text \<open>What one iteration does to the two queues: only a taken request leaves its queue.\<close>

lemma allocate_waiting_queues:
  assumes "allocate_waiting cfg api q r lk x w = Inr (v, w')"
  shows "v = Stop \<and> rn_sched w' = rn_sched w
    \<or> v = Taken \<and> waiting (rn_sched w') = waiting (pop_request q (rn_sched w))
       \<and> skipped_waiting (rn_sched w') = skipped_waiting (pop_request q (rn_sched w))"
  using assms
  by (cases x) (auto simp: allocate_waiting_def Let_def bindE_eq_Inr start_load_queues admit_request_queues
      split: prod.splits option.splits if_splits)

lemma schedule_promoted_cases:
  assumes "schedule_promoted cfg api env q r w = Inr (v, w')"
  obtains (skip) "v = Skip" "w' = w"
  | (unknown) r' k e where "cached_tokens cfg api r (rn_kv w) (rn_enc w) = Inr ((r', None), k, e)" "v = Skip"
      "w' = w\<lparr>rn_kv := k, rn_enc := e, rn_sched := mutate (request_id r') (\<lambda>_. r') (rn_sched w)\<rparr>"
  | (stop) r' lk k e e' w1 where "cached_tokens cfg api r (rn_kv w) (rn_enc w) = Inr ((r', Some lk), k, e)"
      "w1 = w\<lparr>rn_kv := k, rn_enc := e, rn_sched := mutate (request_id r') (\<lambda>_. r') (rn_sched w)\<rparr>"
      "waiting_fitted cfg api env r' lk w1 = Inr (None, e')" "v = Stop" "w' = w1\<lparr>rn_enc := e'\<rparr>"
  | (go) r' lk k e e' w1 x where "cached_tokens cfg api r (rn_kv w) (rn_enc w) = Inr ((r', Some lk), k, e)"
      "w1 = w\<lparr>rn_kv := k, rn_enc := e, rn_sched := mutate (request_id r') (\<lambda>_. r') (rn_sched w)\<rparr>"
      "waiting_fitted cfg api env r' lk w1 = Inr (Some x, e')"
      "allocate_waiting cfg api q r' lk x (w1\<lparr>rn_enc := e'\<rparr>) = Inr (v, w')"
proof (cases "num_stale_output_tokens r > 0 \<and> \<not> drop_stale_output r \<or> lora_full cfg (scheduled_loras w) r")
  case True
  then have "v = Skip" "w' = w" using assms by (auto simp only: schedule_promoted_def if_True if_False sum.inject prod.inject split: if_splits)
  then show thesis by (rule skip)
next
  case False
  let ?w1 = "\<lambda>r' k e. w\<lparr>rn_kv := k, rn_enc := e, rn_sched := mutate (request_id r') (\<lambda>_. r') (rn_sched w)\<rparr>"
  have off: "(num_stale_output_tokens r > 0 \<and> \<not> drop_stale_output r) = False" "lora_full cfg (scheduled_loras w) r = False"
    using False by blast+
  have "bindE (cached_tokens cfg api r (rn_kv w) (rn_enc w)) (\<lambda>((r', found), k, e). case found of None \<Rightarrow> Inr (Skip, ?w1 r' k e)
         | Some lk \<Rightarrow> bindE (waiting_fitted cfg api env r' lk (?w1 r' k e)) (\<lambda>(new, e').
             case new of None \<Rightarrow> Inr (Stop, ?w1 r' k e\<lparr>rn_enc := e'\<rparr>)
              | Some x \<Rightarrow> allocate_waiting cfg api q r' lk x (?w1 r' k e\<lparr>rn_enc := e'\<rparr>))) = Inr (v, w')"
    using assms unfolding schedule_promoted_def Let_def off if_False .
  then obtain t where t: "cached_tokens cfg api r (rn_kv w) (rn_enc w) = Inr t"
    and rest: "(\<lambda>((r', found), k, e). case found of None \<Rightarrow> Inr (Skip, ?w1 r' k e)
         | Some lk \<Rightarrow> bindE (waiting_fitted cfg api env r' lk (?w1 r' k e)) (\<lambda>(new, e').
             case new of None \<Rightarrow> Inr (Stop, ?w1 r' k e\<lparr>rn_enc := e'\<rparr>)
              | Some x \<Rightarrow> allocate_waiting cfg api q r' lk x (?w1 r' k e\<lparr>rn_enc := e'\<rparr>))) t = Inr (v, w')"
    by (elim bindE_InrE)
  obtain r' found k e where t': "t = ((r', found), k, e)" by (metis surj_pair)
  have c: "cached_tokens cfg api r (rn_kv w) (rn_enc w) = Inr ((r', found), k, e)" using t t' by (simp only:)
  note rest = rest [unfolded t' prod.case]
  show thesis
  proof (cases found)
    case None
    with c rest show thesis by (intro unknown [of r' k e]) auto
  next
    case (Some lk)
    with rest obtain new e' where f: "waiting_fitted cfg api env r' lk (?w1 r' k e) = Inr (new, e')"
      and rest': "(case new of None \<Rightarrow> Inr (Stop, ?w1 r' k e\<lparr>rn_enc := e'\<rparr>)
              | Some x \<Rightarrow> allocate_waiting cfg api q r' lk x (?w1 r' k e\<lparr>rn_enc := e'\<rparr>)) = Inr (v, w')"
      by (auto simp: bindE_eq_Inr)
    show thesis
    proof (cases new)
      case None
      with rest' f c Some show thesis by (intro stop [of r' lk k e "?w1 r' k e" e']) auto
    next
      case (Some x)
      with rest' f c \<open>found = Some lk\<close> show thesis by (intro go [of r' lk k e "?w1 r' k e" x e']) auto
    qed
  qed
qed

lemma schedule_promoted_queues:
  assumes "schedule_promoted cfg api env q r w = Inr (v, w')"
  shows "if v = Taken then waiting (rn_sched w') = waiting (pop_request q (rn_sched w))
           \<and> skipped_waiting (rn_sched w') = skipped_waiting (pop_request q (rn_sched w))
         else same_queues (rn_sched w) (rn_sched w')"
  using assms
proof (cases rule: schedule_promoted_cases)
  case (go r' lk k e e' w1 x)
  have "rn_sched (w1\<lparr>rn_enc := e'\<rparr>) = mutate (request_id r') (\<lambda>_. r') (rn_sched w)" using go(2) by simp
  with allocate_waiting_queues [OF go(4)] show ?thesis
    by (auto simp: pop_request_def split: queue_choice.splits)
qed auto

lemma waiting_step_cases:
  assumes "waiting_step cfg api env w = Inr (go, w')"
  obtains (full) "\<not> go" "w' = w"
  | (head) q i ids r ready w1 v w2 where "waiting_head q (rn_sched w) = i # ids" "dict_get (requests (rn_sched w)) i = Some r"
      "int (length (running (rn_sched w))) + num_waiting_for_streaming_input (rn_sched w) < max_num_running_reqs cfg"
      "(if is_blocked_waiting_status (req_status r)
        then try_promote_blocked_waiting_request cfg (wlife api) r w else Inr (True, w)) = Inr (ready, w1)"
      "(if ready then (case dict_get (requests (rn_sched w1)) i of None \<Rightarrow> Inl (UnknownRequest i)
          | Some r \<Rightarrow> schedule_promoted cfg api env q r w1) else Inr (Skip, w1)) = Inr (v, w2)"
      "v = Stop \<and> \<not> go \<and> w' = w2 \<or> v = Taken \<and> go \<and> w' = w2
         \<or> v = Skip \<and> go \<and> (\<exists>r. dict_get (requests (rn_sched w2)) i = Some r \<and> w' = skip_request api q r w2)"
proof (cases "int (length (running (rn_sched w))) + num_waiting_for_streaming_input (rn_sched w) \<ge> max_num_running_reqs cfg")
  case True
  with assms full show thesis by (simp add: waiting_step_def)
next
  case False
  with assms obtain q where q: "select_waiting_queue_for_scheduling cfg (wlife api) (rn_sched w) = Some q"
    by (cases "select_waiting_queue_for_scheduling cfg (wlife api) (rn_sched w)") (simp_all add: waiting_step_def Let_def)
  with False assms obtain i ids where h: "waiting_head q (rn_sched w) = i # ids"
    by (cases "waiting_head q (rn_sched w)") (simp_all add: waiting_step_def Let_def)
  with q False assms obtain r where r: "dict_get (requests (rn_sched w)) i = Some r"
    by (cases "dict_get (requests (rn_sched w)) i") (simp_all add: waiting_step_def Let_def)
  with h q False assms obtain ready w1 v w2 where
    *: "(if is_blocked_waiting_status (req_status r)
        then try_promote_blocked_waiting_request cfg (wlife api) r w else Inr (True, w)) = Inr (ready, w1)"
      "(if ready then (case dict_get (requests (rn_sched w1)) i of None \<Rightarrow> Inl (UnknownRequest i)
          | Some r \<Rightarrow> schedule_promoted cfg api env q r w1) else Inr (Skip, w1)) = Inr (v, w2)"
    and fin: "(case v of Stop \<Rightarrow> Inr (False, w2) | Taken \<Rightarrow> Inr (True, w2)
        | Skip \<Rightarrow> (case dict_get (requests (rn_sched w2)) i of None \<Rightarrow> Inl (UnknownRequest i)
                    | Some r \<Rightarrow> Inr (True, skip_request api q r w2))) = Inr (go, w')"
    unfolding waiting_step_def Let_def by (auto simp only: bindE_eq_Inr if_False option.case list.case prod.case split_paired_Ex)
  have "v = Stop \<and> \<not> go \<and> w' = w2 \<or> v = Taken \<and> go \<and> w' = w2
         \<or> v = Skip \<and> go \<and> (\<exists>r. dict_get (requests (rn_sched w2)) i = Some r \<and> w' = skip_request api q r w2)"
    using fin by (cases v) (auto split: option.splits)
  from head [OF h r _ * this] False show thesis by simp
qed

lemma waiting_head_same: "same_queues st st' \<Longrightarrow> waiting_head q st' = waiting_head q st"
  by (simp add: same_queues_def waiting_head_def split: queue_choice.splits)

lemma waiting_step_pops:
  assumes "waiting_step cfg api env w = Inr (True, w')"
  shows "length (queued (rn_sched w')) < length (queued (rn_sched w))"
  using assms
proof (cases rule: waiting_step_cases)
  case (head q i ids r ready w1 v w2)
  have "same_queues (rn_sched w) (rn_sched w1)" using head(4) promote_queues by (auto split: if_splits)
  then have head1: "waiting_head q (rn_sched w1) = i # ids" "length (queued (rn_sched w1)) = length (queued (rn_sched w))"
    using head(1) by (auto simp: waiting_head_same) (simp add: same_queues_def queued_def)
  have q2: "if v = Taken then queued (rn_sched w2) = queued (pop_request q (rn_sched w1))
      else same_queues (rn_sched w1) (rn_sched w2)"
    using head(5) schedule_promoted_queues [of cfg api env q _ w1 v w2]
    by (cases ready; cases "dict_get (requests (rn_sched w1)) i"; cases "v = Taken") (auto simp: queued_def)
  show ?thesis
  proof (cases "v = Taken")
    case True
    with q2 head(6) head1 length_pop [of q "rn_sched w1"] show ?thesis by simp
  next
    case False
    with q2 have s: "same_queues (rn_sched w1) (rn_sched w2)" by simp
    then have "waiting_head q (rn_sched w2) \<noteq> []" "length (queued (rn_sched w2)) = length (queued (rn_sched w))"
      using head1 by (auto simp: waiting_head_same) (simp add: same_queues_def queued_def)
    with False head(6) length_pop [of q "rn_sched w2"] show ?thesis by (auto simp: skip_request_def)
  qed
qed simp

function waiting_loop ::
    "sched_config \<Rightarrow> ('k, 'e) wait_api \<Rightarrow> step_env \<Rightarrow> ('k, 'e) wait \<Rightarrow> sched_error + ('k, 'e) wait" where
  "waiting_loop cfg api env w =
     (if (waiting (rn_sched w) \<noteq> [] \<or> skipped_waiting (rn_sched w) \<noteq> []) \<and> token_budget w > 0
      then bindE (waiting_step cfg api env w) (\<lambda>(go, w'). if go then waiting_loop cfg api env w' else Inr w')
      else Inr w)"
  by pat_completeness auto
termination
proof (relation "measure (\<lambda>(cfg, api, env, w). length (queued (rn_sched w)))", goal_cases)
  case (2 cfg api env w x go w')
  then have "waiting_step cfg api env w = Inr (True, w')" by simp
  then show ?case by (simp add: waiting_step_pops)
qed simp

subsection \<open>The step\<close>

text \<open>The adapters of the requests scheduled by the running half.\<close>

definition running_loras :: "sched \<Rightarrow> string list \<Rightarrow> int list" where
  "running_loras st ids =
     remdups (List.map_filter (\<lambda>r. case lora_int_id r of None \<Rightarrow> None | Some l \<Rightarrow> if l > 0 then Some l else None) (live st ids))"

definition initial_wait :: "sched_config \<Rightarrow> ('k, 'e) run \<Rightarrow> ('k, 'e) wait" where
  "initial_wait cfg rn =
     run.extend rn \<lparr>step_skipped_waiting = [], scheduled_new_reqs = [], scheduled_resumed_reqs = [],
       scheduled_loras = (case max_loras cfg of None \<Rightarrow> [] | Some _ \<Rightarrow> running_loras (rn_sched rn) (scheduled_running_reqs rn))\<rparr>"

definition requeue_skipped :: "('k, 'e) wait_api \<Rightarrow> step_env \<Rightarrow> ('k, 'e) wait \<Rightarrow> ('k, 'e) wait" where
  "requeue_skipped api env w =
     (let st = rn_sched w;
          st = (if step_skipped_waiting w \<noteq> []
                then st\<lparr>skipped_waiting := queue_prepend_all api (step_skipped_waiting w) (skipped_waiting st)\<rparr> else st);
          st = (if \<not> env_defer_prefills env then st\<lparr>prefill_capacity_bound := (waiting st \<noteq> [])\<rparr> else st) in
      w\<lparr>rn_sched := st\<rparr>)"

definition schedule_waiting ::
    "sched_config \<Rightarrow> ('k, 'e) wait_api \<Rightarrow> step_env \<Rightarrow> ('k, 'e) run \<Rightarrow> sched_error + ('k, 'e) wait" where
  "schedule_waiting cfg api env rn =
     (let w = initial_wait cfg rn in
      bindE (raiseIf (case max_loras cfg of None \<Rightarrow> False | Some m \<Rightarrow> int (length (scheduled_loras w)) > m) TooManyLoras) (\<lambda>_.
      if preempted_reqs rn = [] \<and> sched_pause_state (rn_sched rn) = UNPAUSED
      then bindE (waiting_loop cfg api env w) (\<lambda>w. Inr (requeue_skipped api env w))
      else Inr w))"

text \<open>The assertions behind the two loops.\<close>

definition check_step :: "sched_config \<Rightarrow> ('k, 'e) wait \<Rightarrow> sched_error + unit" where
  "check_step cfg w =
     raiseIf (\<not> (sum_list (map snd (num_scheduled_tokens w)) \<le> max_num_scheduled_tokens cfg
                 \<and> token_budget w \<ge> 0
                 \<and> int (length (running (rn_sched w))) \<le> max_num_running_reqs cfg
                 \<and> length (scheduled_new_reqs w) + length (scheduled_resumed_reqs w) + length (scheduled_running_reqs w)
                     \<le> length (running (rn_sched w)))) StepConstraint"

text \<open>New blocks are zeroed before they are used, except those an asynchronous load is about to overwrite.\<close>

definition get_new_block_ids_to_zero ::
    "sched_config \<Rightarrow> ('k, 'e) wait_api \<Rightarrow> ('k, 'e, 'm) core_scheme \<Rightarrow> int list option \<times> ('k, 'e, 'm) core_scheme" where
  "get_new_block_ids_to_zero cfg api c =
     (case kv_take_new_block_ids api (rn_kv c) of (ids, k) \<Rightarrow>
       (let c = c\<lparr>rn_kv := k\<rparr>; skip = skip_zero_block_ids (rn_sched c) in
        if \<not> needs_kv_cache_zeroing cfg then (None, c)
        else
          (let ids = filter (\<lambda>b. b \<notin> set skip) ids in
           (if ids = [] then None else Some ids, c\<lparr>rn_sched := (rn_sched c)\<lparr>skip_zero_block_ids := []\<rparr>\<rparr>))))"

text \<open>What the runner gets: the output processed later, the requests in the order the code lists them and the
  blocks to zero.\<close>

record step_output = sched_output +
  so_new_reqs :: "string list"
  so_resumed_reqs :: "string list"
  so_running_reqs :: "string list"
  so_finished_req_ids :: "string list"
  so_preempted_req_ids :: "string list"
  so_new_block_ids_to_zero :: "int list option"

definition output_of :: "int \<Rightarrow> ('k, 'e) wait \<Rightarrow> int list option \<Rightarrow> step_output" where
  "output_of num_spec w zero =
     \<lparr>out_num_scheduled_tokens = num_scheduled_tokens w, out_spec_decode_tokens = scheduled_spec_decode_tokens w,
      out_total_num_scheduled_tokens = sum_list (map snd (num_scheduled_tokens w)),
      out_num_spec_tokens_to_schedule = num_spec, out_num_invalid_spec_tokens = [],
      so_new_reqs = scheduled_new_reqs w, so_resumed_reqs = scheduled_resumed_reqs w,
      so_running_reqs = scheduled_running_reqs w, so_finished_req_ids = finished_req_ids (rn_sched w),
      so_preempted_req_ids = reset_preempted_req_ids (rn_sched w), so_new_block_ids_to_zero = zero\<rparr>"

text \<open>The output is built and the connectors see it.\<close>

definition build_output ::
    "sched_config \<Rightarrow> ('k, 'e) wait_api \<Rightarrow> int \<Rightarrow> ('k, 'e) wait \<Rightarrow> step_output \<times> ('k, 'e) wait" where
  "build_output cfg api num_spec w =
     (case enc_get_freed_mm_hashes api (rn_enc w) of (_, e) \<Rightarrow>
      (case get_new_block_ids_to_zero cfg api (w\<lparr>rn_enc := e\<rparr>) of (zero, w) \<Rightarrow>
        (let w = w\<lparr>rn_enc := enc_get_manager_metadata api (rn_enc w)\<rparr>;
             out = output_of num_spec w zero;
             so = sched_output.truncate out;
             w = (if has_connector api then w\<lparr>rn_kv := conn_build_connector_meta api so (rn_kv w)\<rparr> else w);
             w = (if ec_has_cache_item (sapi api) = None then w
                  else w\<lparr>rn_enc := ec_build_connector_meta api so (rn_enc w)\<rparr>) in
         (out, w))))"

text \<open>The part of \<^verbatim>\<open>schedule\<close> behind the assertions; \<open>controller\<close> and \<open>lookup\<close> choose the speculative depth of the step.\<close>

definition emit_step ::
    "sched_config \<Rightarrow> ('k, 'e) wait_api \<Rightarrow> acl option \<Rightarrow> int list option \<Rightarrow> step_env \<Rightarrow> ('k, 'e) wait
      \<Rightarrow> sched_error + step_output \<times> ('k, 'e) wait" where
  "emit_step cfg api controller lookup env w =
     (let w = (if has_connector api \<and> is_kv_producer api then w\<lparr>rn_kv := kv_take_partial_tail_offloads api (rn_kv w)\<rparr> else w);
          w = release_copies cfg (blocks (wlife api)) w;
          num_spec = num_spec_tokens_to_schedule (cfg_num_spec_tokens cfg) controller lookup (length (num_scheduled_tokens w));
          w = w\<lparr>rn_sched := debit_unused_long_prefill_turns cfg (env_selected env) (num_scheduled_tokens w)
                  (env_defer_prefills env) (rn_sched w)\<rparr> in
      case build_output cfg api num_spec w of (out, w) \<Rightarrow>
        bindE (finish_step cfg (num_scheduled_tokens w) w) (\<lambda>(_, w). Inr (out, w)))"

definition schedule ::
    "sched_config \<Rightarrow> ('k, 'e) wait_api \<Rightarrow> acl option \<Rightarrow> int list option \<Rightarrow> bool \<Rightarrow> ('k, 'e) core
      \<Rightarrow> sched_error + step_output \<times> ('k, 'e) wait" where
  "schedule cfg api controller lookup throttle_prefills c =
     bindE (schedule_running cfg (sapi api) throttle_prefills (rn_sched c) (rn_kv c) (rn_enc c) (deferred_frees c)) (\<lambda>(env, rn).
     bindE (schedule_waiting cfg api env rn) (\<lambda>w.
     bindE (check_step cfg w) (\<lambda>_. emit_step cfg api controller lookup env w)))"

subsection \<open>Examples\<close>

text \<open>First-come-first-served queues over a pool that grants every allocation; \<open>hits\<close> are the cached tokens of a
  request.\<close>

definition granting_life :: "(ref_pool, unit) life_api" where
  "granting_life = fifo_life\<lparr>blocks := ref_api\<lparr>base_api := (base_api ref_api)\<lparr>kv_allocate_slots := (\<lambda>r n l k. (Some [[]], k))\<rparr>\<rparr>\<rparr>"

definition granting_api :: "(sreq \<Rightarrow> int) \<Rightarrow> (ref_pool, unit) wait_api" where
  "granting_api hits =
     \<lparr>wlife = granting_life, kv_get_computed_blocks = (\<lambda>r k. (([[]], hits r, 0), k)),
      kv_get_computed_blocks_for_connector = (\<lambda>r k. (([[]], hits r, 0, False), k)),
      kv_truncate_computed_blocks = (\<lambda>bs n. bs), kv_empty_blocks = [], kv_allocate = (\<lambda>r s k. (Some [[]], k)),
      kv_get_blocks = (\<lambda>i k. [[]]), kv_num_blocks_to_allocate = (\<lambda>i n m k. 0),
      kv_zeroing_block_ids_in_range = (\<lambda>i a b k. []), kv_take_new_block_ids = (\<lambda>k. ([], k)),
      conn_num_new_matched_tokens = (\<lambda>r n k. ((Some 0, False), k)), conn_update_state_after_alloc = (\<lambda>r bs n k. k),
      ec_ensure_cache_available = (\<lambda>r n e. (True, e)), queue_prepend_all = (\<lambda>xs q. rev xs @ q),
      carries_prefill_stats = (\<lambda>r. False), is_kv_producer = False, kv_take_partial_tail_offloads = (\<lambda>k. k),
      conn_build_connector_meta = (\<lambda>out k. k), ec_build_connector_meta = (\<lambda>out e. e),
      enc_get_freed_mm_hashes = (\<lambda>e. ([], e)), enc_get_manager_metadata = (\<lambda>e. e)\<rparr>"

definition core_with :: "(string \<times> sreq) list \<Rightarrow> string list \<Rightarrow> string list \<Rightarrow> (ref_pool, unit) core" where
  "core_with rs run wait =
     \<lparr>rn_sched = turn_state\<lparr>requests := rs, running := run, waiting := wait, long_prefill_last_scheduled := []\<rparr>,
      rn_kv = ([], []), rn_enc = (), deferred_frees = []\<rparr>"

text \<open>A decoding request and two waiting ones; after the first of them two tokens of the prefill budget are left.\<close>

definition padded_core :: "(ref_pool, unit) core" where
  "padded_core = core_with
     [(''a'', long_request ''a'' RUNNING 1\<lparr>all_token_ids := replicate 101 7, num_computed_tokens := 100, is_prefill_chunk := False\<rparr>),
      (''b'', long_request ''b'' WAITING 2\<lparr>num_computed_tokens := 0\<rparr>),
      (''c'', long_request ''c'' WAITING 3\<lparr>num_computed_tokens := 0\<rparr>)] [''a''] [''b'', ''c'']"

definition padded_config :: sched_config where
  "padded_config = turn_config\<lparr>cfg_num_spec_tokens := 4\<rparr>"

definition padded_api :: "(ref_pool, unit) wait_api" where
  "padded_api = granting_api (\<lambda>r. if request_id r = ''b'' then 94 else 99)"


text \<open>Of two running long prefills only the one without adapter has the turn of this step.\<close>

definition lora_config :: sched_config where
  "lora_config = turn_config\<lparr>max_num_scheduled_tokens := 30, decode_prefill_token_budget := 30, max_loras := Some 1\<rparr>"

definition lora_core :: "(ref_pool, unit) core" where
  "lora_core = core_with
     [(''a'', long_request ''a'' RUNNING 1\<lparr>num_computed_tokens := 90\<rparr>),
      (''b'', long_request ''b'' RUNNING 2\<lparr>num_computed_tokens := 90, lora_int_id := Some 1\<rparr>),
      (''c'', long_request ''c'' WAITING 3\<lparr>num_computed_tokens := 0, num_prompt_tokens := 40, all_token_ids := replicate 40 7,
         lora_int_id := Some 2\<rparr>)] [''a'', ''b''] [''c'']"


end
