(* ===== verification/SchedStep.thy ===== *)
theory SchedStep
  imports SchedWaiting
begin

text \<open>
  Correctness of the whole scheduling step: from a consistent state \<^verbatim>\<open>schedule\<close> returns, none of its assertions
  fires, the budgets hold and every unfinished request is in exactly one queue again.
\<close>

subsection \<open>The running half and the queues\<close>

text \<open>\<open>st0\<close> is the scheduler at the beginning of the step.\<close>

definition half_inv :: "sched \<Rightarrow> ('k, 'e) run \<Rightarrow> bool" where
  "half_inv st0 rn \<longleftrightarrow>
     queue_inv (rn_sched rn)
   \<and> (\<forall>j. j \<notin> set (running st0) \<longrightarrow> dict_get (requests (rn_sched rn)) j = dict_get (requests st0) j)
   \<and> set (running (rn_sched rn)) \<subseteq> set (running st0)
   \<and> (preempted_reqs rn = [] \<longrightarrow> running (rn_sched rn) = running st0)
   \<and> failed_recving_kv_req_ids (rn_sched rn) = failed_recving_kv_req_ids st0
   \<and> num_waiting_for_streaming_input (rn_sched rn) = num_waiting_for_streaming_input st0"

lemma queue_inv_cong:
  assumes "requests st' = requests st" and "same_queues st st'"
  shows "queue_inv st' \<longleftrightarrow> queue_inv st"
  using assms with_status_cong [OF assms(1)] by (simp add: queue_inv_def queue_inv_except_def same_queues_def queued_def)

lemma half_inv_cong:
  assumes "half_inv st0 rn" and "rn_sched rn' = rn_sched rn" and "preempted_reqs rn' = preempted_reqs rn"
  shows "half_inv st0 rn'"
  using assms by (simp add: half_inv_def)

lemma preempt_victim_half:
  assumes laws: "queue_laws api" and inv: "half_inv st0 rn" and i: "i \<in> set (running (rn_sched rn))"
    and v: "dict_get (requests (rn_sched rn)) i = Some v"
    and xs: "distinct xs" "set xs = set (running (rn_sched rn)) - {i}"
    and r1: "rn_sched r1 = (rn_sched rn)\<lparr>running := xs\<rparr>"
    and p: "preempt_request cfg (base_api (blocks api)) d v r1 = Inr r2"
  shows "half_inv st0 (r2\<lparr>preempted_reqs := preempted_reqs r2 @ [i]\<rparr>) \<and> running (rn_sched r2) = xs"
proof -
  let ?c = "r1\<lparr>rn_sched := rn_sched rn\<rparr>"
  have c: "?c\<lparr>rn_sched := (rn_sched ?c)\<lparr>running := xs\<rparr>\<rparr> = r1" using r1 by simp
  have q: "queue_inv (rn_sched ?c)" using inv by (simp add: half_inv_def)
  obtain c' where c': "preempt_request cfg (base_api (blocks api)) d v (?c\<lparr>rn_sched := (rn_sched ?c)\<lparr>running := xs\<rparr>\<rparr>) = Inr c'"
    "queue_inv (rn_sched c')" "running (rn_sched c') = xs"
    "requests (rn_sched c') = dict_set i (preempted d v) (requests (rn_sched ?c))"
    by (rule preempt_request_queues [OF laws q, of i xs v cfg d]) (use i v xs in auto)
  have eq: "c' = r2" using p c'(1) unfolding c by simp
  have "failed_recving_kv_req_ids (rn_sched r2) = failed_recving_kv_req_ids (rn_sched rn)"
    "num_waiting_for_streaming_input (rn_sched r2) = num_waiting_for_streaming_input (rn_sched rn)"
    using p r1 by (auto simp: preempt_request_def bindE_raiseIf Let_def free_request_blocks_sched mutate_def
        split: if_splits option.splits)
  moreover have "i \<in> set (running st0)" using i inv by (auto simp: half_inv_def)
  ultimately show ?thesis using inv c' xs unfolding eq by (auto simp: half_inv_def dict_get_set)
qed

lemma preempt_one_half:
  assumes laws: "queue_laws api" and inv: "half_inv st0 rn" and p: "preempt_one cfg (base_api (blocks api)) rn = Inr (i, rn')"
  shows "half_inv st0 rn' \<and> set (running (rn_sched rn')) = set (running (rn_sched rn)) - {i}"
proof -
  let ?ids = "running (rn_sched rn)"
  have dist: "distinct ?ids" and run: "\<And>j. j \<in> set ?ids \<Longrightarrow> \<exists>r. dict_get (requests (rn_sched rn)) j = Some r"
    using inv queue_inv_running by (auto simp: half_inv_def queue_inv_def queue_inv_except_def)
  show ?thesis
  proof (cases "sched_policy cfg")
    case PRIORITY
    from p PRIORITY obtain v r2 where v: "priority_victim (rn_sched rn) = Some (i, v)"
      and r2: "preempt_request cfg (base_api (blocks api)) (requires_kv_delivery cfg) v
          (unschedule i v (drop_running (remove1 i ?ids) rn)) = Inr r2"
      and rn': "rn' = r2\<lparr>preempted_reqs := preempted_reqs r2 @ [i]\<rparr>"
      by (auto simp: preempt_one_def Let_def bindE_eq_Inr split: if_splits option.splits)
    note mem = priority_victim_mem [OF v]
    have "half_inv st0 rn' \<and> running (rn_sched r2) = remove1 i ?ids" unfolding rn'
      by (rule preempt_victim_half [OF laws inv mem _ _ _ r2]) (use dist in \<open>auto simp: drop_running_def\<close>)
    then show ?thesis using dist by (simp add: rn')
  next
    case FCFS
    from p FCFS obtain v r2 where ne: "?ids \<noteq> []" and i: "i = last ?ids" and v: "dict_get (requests (rn_sched rn)) i = Some v"
      and r2: "preempt_request cfg (base_api (blocks api)) (requires_kv_delivery cfg) v (drop_running (butlast ?ids) rn) = Inr r2"
      and rn': "rn' = r2\<lparr>preempted_reqs := preempted_reqs r2 @ [i]\<rparr>"
      by (auto simp: preempt_one_def Let_def bindE_eq_Inr split: if_splits option.splits)
    have split: "?ids = butlast ?ids @ [i]" using ne i by simp
    have "distinct (butlast ?ids @ [i])" using dist split by metis
    then have bl: "distinct (butlast ?ids)" "set (butlast ?ids) = set ?ids - {i}" "i \<in> set ?ids"
      using arg_cong [OF split, of set] by auto
    have "half_inv st0 rn' \<and> running (rn_sched r2) = butlast ?ids" unfolding rn'
      by (rule preempt_victim_half [OF laws inv bl(3) v bl(1,2) _ r2]) (simp add: drop_running_def)
    then show ?thesis using bl(2) by (simp add: rn')
  qed
qed

lemma alloc_loop_half:
  assumes "queue_laws api"
  shows "half_inv st0 rn \<Longrightarrow> alloc_loop cfg (base_api (blocks api)) i r n rn = Inr (b, rn')
    \<Longrightarrow> half_inv st0 rn' \<and> (b \<noteq> None \<and> i \<in> set (running (rn_sched rn)) \<longrightarrow> i \<in> set (running (rn_sched rn')))"
proof (induction cfg "base_api (blocks api)" i r n rn arbitrary: b rn' rule: alloc_loop.induct)
  case (1 cfg i r n rn)
  obtain granted kv where a: "kv_allocate_slots (base_api (blocks api)) r n (num_lookahead_tokens cfg) (rn_kv rn) = (granted, kv)"
    by (cases "kv_allocate_slots (base_api (blocks api)) r n (num_lookahead_tokens cfg) (rn_kv rn)")
  have inv: "half_inv st0 (rn\<lparr>rn_kv := kv\<rparr>)" using "1.prems"(1) by (simp add: half_inv_def)
  show ?case
  proof (cases granted)
    case (Some x)
    with a "1.prems"(2) inv show ?thesis by auto
  next
    case None
    with a "1.prems"(2) obtain j rn1 where p: "preempt_one cfg (base_api (blocks api)) (rn\<lparr>rn_kv := kv\<rparr>) = Inr (j, rn1)"
      and k: "if j = i then rn' = rn1 else alloc_loop cfg (base_api (blocks api)) i r n rn1 = Inr (b, rn')"
      by (auto simp: bindE_eq_Inr split: if_splits)
    have inv1: "half_inv st0 rn1" "set (running (rn_sched rn1)) = set (running (rn_sched rn)) - {j}"
      using preempt_one_half [OF assms inv p] by simp_all
    show ?thesis
    proof (cases "j = i")
      case False
      with k "1.hyps" [OF a [symmetric] refl None p refl False inv1(1)] inv1(2) show ?thesis by auto
    next
      case True
      with a None p "1.prems"(2) have "b = None" "rn' = rn1" by auto
      with inv1 show ?thesis by simp
    qed
  qed
qed

lemma same_status_half:
  assumes inv: "half_inv st0 rn" and i: "i \<in> set (running (rn_sched rn))"
    and f: "\<And>r. request_id (f r) = request_id r" "\<And>r. req_status (f r) = req_status r"
    and rn': "same_queues (rn_sched rn) (rn_sched rn')" "requests (rn_sched rn') = requests (mutate i f (rn_sched rn))"
      "preempted_reqs rn' = preempted_reqs rn" "failed_recving_kv_req_ids (rn_sched rn') = failed_recving_kv_req_ids (rn_sched rn)"
  shows "half_inv st0 rn'"
proof -
  obtain r where r: "dict_get (requests (rn_sched rn)) i = Some r"
    using inv i queue_inv_running by (auto simp: half_inv_def)
  have "queue_inv_except {} (rn_sched rn')"
    by (rule queue_inv_update [OF _ rn'(1) r, where r' = "f r"]) (use inv rn'(2) r f in \<open>auto simp: half_inv_def queue_inv_def requests_mutate\<close>)
  moreover have "i \<in> set (running st0)" using i inv by (auto simp: half_inv_def)
  ultimately show ?thesis using inv rn' by (auto simp: half_inv_def queue_inv_def same_queues_def mutate_get)
qed

lemma record_half:
  assumes inv: "half_inv st0 rn" and i: "i \<in> set (running (rn_sched rn))"
  shows "half_inv st0 (record_encoder_inputs api i r acc (record_spec_tokens i r n (record_scheduled cfg i r n bs rn)))"
proof (rule same_status_half [OF inv i, where f = "\<lambda>q. if spec_token_ids r = [] then q else q\<lparr>spec_token_ids := []\<rparr>"])
  let ?rn = "record_encoder_inputs api i r acc (record_spec_tokens i r n (record_scheduled cfg i r n bs rn))"
  have st: "rn_sched (record_spec_tokens i r n (record_scheduled cfg i r n bs rn)) = (if spec_token_ids r = [] then rn_sched (record_scheduled cfg i r n bs rn)
      else mutate i (\<lambda>q. q\<lparr>spec_token_ids := []\<rparr>) (rn_sched (record_scheduled cfg i r n bs rn)))"
    by (simp add: record_spec_tokens_def Let_def)
  have r: "same_queues (rn_sched rn) (rn_sched (record_scheduled cfg i r n bs rn))"
    "requests (rn_sched (record_scheduled cfg i r n bs rn)) = requests (rn_sched rn)"
    "failed_recving_kv_req_ids (rn_sched (record_scheduled cfg i r n bs rn)) = failed_recving_kv_req_ids (rn_sched rn)"
    by (auto simp: record_scheduled_def next_request_def stamp_def same_queues_def Let_def)
  show "same_queues (rn_sched rn) (rn_sched ?rn)" using r(1) by (simp add: st same_queues_def)
  show "failed_recving_kv_req_ids (rn_sched ?rn) = failed_recving_kv_req_ids (rn_sched rn)"
    using r(3) by (simp add: st mutate_def split: option.splits)
  show "requests (rn_sched ?rn) = requests (mutate i (\<lambda>q. if spec_token_ids r = [] then q else q\<lparr>spec_token_ids := []\<rparr>) (rn_sched rn))"
    using r(2) by (cases "dict_get (requests (rn_sched rn)) i") (auto simp: st mutate_def dict_set_same)
  show "preempted_reqs ?rn = preempted_reqs rn"
    by (auto simp: record_encoder_inputs_def record_spec_tokens_def record_scheduled_def next_request_def Let_def split: option.splits)
qed auto

lemma schedule_one_half:
  assumes laws: "queue_laws api" and inv: "half_inv st0 rn" and i: "i \<in> set (running (rn_sched rn))"
    and s: "schedule_one cfg (base_api (blocks api)) i r n rn = Inr (go, rn')"
  shows "half_inv st0 rn'"
proof -
  obtain m acc rn1 where f: "fitted_num_new cfg (base_api (blocks api)) r n rn = Inr (m, acc, rn1)"
    and rest: "(if m = 0 then Inr (True, next_request rn1)
       else bindE (alloc_loop cfg (base_api (blocks api)) i r m rn1) (\<lambda>(granted, rn).
         case granted of None \<Rightarrow> Inr (False, rn)
         | Some b \<Rightarrow> Inr (True, record_encoder_inputs (base_api (blocks api)) i r acc
              (record_spec_tokens i r m (record_scheduled cfg i r m b rn))))) = Inr (go, rn')"
    using s unfolding schedule_one_def by (elim bindE_InrE) auto
  have rn1: "half_inv st0 rn1" "running (rn_sched rn1) = running (rn_sched rn)"
    using fitted_num_new_frame [OF f] inv by (auto simp: half_inv_def)
  show ?thesis
  proof (cases "m = 0")
    case True
    with rest rn1(1) show ?thesis by (auto simp: half_inv_def next_request_def)
  next
    case False
    with rest obtain p where p: "alloc_loop cfg (base_api (blocks api)) i r m rn1 = Inr p"
      by (cases "alloc_loop cfg (base_api (blocks api)) i r m rn1") (simp_all del: alloc_loop.simps)
    obtain granted rn2 where "p = (granted, rn2)" by (cases p)
    with p have a: "alloc_loop cfg (base_api (blocks api)) i r m rn1 = Inr (granted, rn2)" by simp
    note half = alloc_loop_half [OF laws rn1(1) a]
    show ?thesis
    proof (cases granted)
      case None
      with rest False a half show ?thesis by (simp del: alloc_loop.simps)
    next
      case (Some b)
      with rest False a have "rn' = record_encoder_inputs (base_api (blocks api)) i r acc
          (record_spec_tokens i r m (record_scheduled cfg i r m b rn2))" by (simp del: alloc_loop.simps)
      with half i rn1(2) Some show ?thesis by (simp add: record_half)
    qed
  qed
qed

lemma running_step_half:
  assumes laws: "queue_laws api" and inv: "half_inv st0 rn" and at: "req_index rn < length (running (rn_sched rn))"
    and s: "running_step cfg (base_api (blocks api)) env rn = Inr (go, rn')"
  shows "half_inv st0 rn'"
proof -
  let ?i = "running (rn_sched rn) ! req_index rn"
  have next_ok: "half_inv st0 (next_request rn)"
    "half_inv st0 (next_request (rn\<lparr>gate_skipped_running := g, rn_sched := (rn_sched rn)\<lparr>long_prefill_gate_skips := x\<rparr>\<rparr>))" for g x
    using inv queue_inv_cong [of "(rn_sched rn)\<lparr>long_prefill_gate_skips := x\<rparr>" "rn_sched rn"]
    by (simp_all add: half_inv_def next_request_def same_queues_def)
  have one: "schedule_one cfg (base_api (blocks api)) ?i r n rn = Inr (go, rn') \<Longrightarrow> half_inv st0 rn'" for r n
    by (rule schedule_one_half [OF laws inv]) (use at in simp_all)
  show ?thesis
    using s next_ok one unfolding running_step_def Let_def
    by (cases "dict_get (requests (rn_sched rn)) ?i") (auto split: if_split_asm)
qed

lemma running_loop_half:
  assumes "queue_laws api"
  shows "half_inv st0 rn \<Longrightarrow> running_loop cfg (base_api (blocks api)) env rn = Inr rn' \<Longrightarrow> half_inv st0 rn'"
proof (induction cfg "base_api (blocks api)" env rn rule: running_loop.induct)
  case (1 cfg env rn)
  show ?case
  proof (cases "req_index rn < length (running (rn_sched rn)) \<and> 0 < token_budget rn")
    case True
    with "1.prems"(2) obtain go rn1 where s: "running_step cfg (base_api (blocks api)) env rn = Inr (go, rn1)"
      and k: "(if go then running_loop cfg (base_api (blocks api)) env rn1 else Inr rn1) = Inr rn'"
      by (auto simp: bindE_eq_Inr simp del: running_loop.simps simp add: running_loop.simps [of cfg _ env rn])
    have inv1: "half_inv st0 rn1" by (rule running_step_half [OF assms "1.prems"(1) _ s]) (use True in simp)
    show ?thesis
    proof (cases go)
      case True': True
      from "1.hyps" [OF True s refl True' inv1] k True' show ?thesis by (simp del: running_loop.simps)
    qed (use k inv1 in simp)
  next
    case False
    with "1.prems" show ?thesis by (auto simp: running_loop.simps [of cfg _ env rn] simp del: running_loop.simps)
  qed
qed

subsection \<open>What a waiting request meets\<close>

text \<open>The hypotheses on code outside the repository: the prefix cache never covers a whole request, a connector adds to
  the aligned local hit without exceeding the request, leaves a token to compute unless it loads
  asynchronously, and loads asynchronously only if there is something to load; a request carries its prefill
  statistics only until its first output.\<close>

definition lookup_laws :: "('k, 'e) wait_api \<Rightarrow> bool" where
  "lookup_laws api \<longleftrightarrow>
     (\<forall>r k bs n b k'. 0 < req_num_tokens r \<longrightarrow> kv_get_computed_blocks api r k = ((bs, n, b), k') \<longrightarrow> 0 \<le> n \<and> n < req_num_tokens r)
   \<and> (\<forall>r k bs n b d k'. 0 < req_num_tokens r \<longrightarrow> kv_get_computed_blocks_for_connector api r k = ((bs, n, b, d), k')
        \<longrightarrow> 0 \<le> n \<and> n < req_num_tokens r)
   \<and> (\<forall>r m k x async k'. 0 \<le> m \<longrightarrow> m < req_num_tokens r \<longrightarrow> conn_num_new_matched_tokens api r m k = ((Some x, async), k')
        \<longrightarrow> 0 \<le> x \<and> (if async then 0 < x \<and> m + x \<le> req_num_tokens r else m + x < req_num_tokens r))
   \<and> (\<forall>r. carries_prefill_stats api r \<and> num_preemptions r \<le> 0 \<longrightarrow> req_num_tokens r \<le> num_prompt_tokens r)
   \<and> (\<forall>xs q. mset (queue_prepend_all api xs q) = mset xs + mset q)"

lemma lookup_laws_hits:
  assumes "lookup_laws api" and "0 < req_num_tokens r"
  shows "kv_get_computed_blocks api r k = ((bs, n, b), k') \<Longrightarrow> 0 \<le> n \<and> n < req_num_tokens r"
    and "kv_get_computed_blocks_for_connector api r k = ((bs, n, b, d), k') \<Longrightarrow> 0 \<le> n \<and> n < req_num_tokens r"
  using assms(2) assms(1) [unfolded lookup_laws_def, THEN conjunct1] assms(1) [unfolded lookup_laws_def, THEN conjunct2, THEN conjunct1]
  by blast+

lemma lookup_laws_matched:
  assumes "lookup_laws api" and "0 \<le> m" and "m < req_num_tokens r"
    and "conn_num_new_matched_tokens api r m k = ((Some x, async), k')"
  shows "0 \<le> x \<and> (if async then 0 < x \<and> m + x \<le> req_num_tokens r else m + x < req_num_tokens r)"
  using assms unfolding lookup_laws_def by blast

lemma lookup_laws_stats:
  assumes "lookup_laws api" and "carries_prefill_stats api r" and "num_preemptions r \<le> 0"
  shows "req_num_tokens r \<le> num_prompt_tokens r"
  using assms by (simp add: lookup_laws_def)

lemma lookup_laws_prepend: "lookup_laws api \<Longrightarrow> mset (queue_prepend_all api xs q) = mset xs + mset q"
  by (simp add: lookup_laws_def)

text \<open>A consistent waiting request; a failed load has left tokens to compute.\<close>

definition wait_ok :: "sched_config \<Rightarrow> ('k, 'e) wait_api \<Rightarrow> string list \<Rightarrow> sreq \<Rightarrow> bool" where
  "wait_ok cfg api failed r \<longleftrightarrow>
     (if req_status r = WAITING_FOR_STREAMING_REQ then streaming_queue r \<in> {None, Some []}
      else 0 \<le> num_computed_tokens r \<and> 0 < req_num_tokens r
        \<and> (is_encoder_decoder cfg \<longrightarrow> (\<forall>f \<in> set (mm_features r). mm_offset f = 0))
        \<and> (if req_status r = WAITING_FOR_REMOTE_KVS
           then has_connector api \<and> num_computed_tokens r \<le> req_num_tokens r
             \<and> (request_id r \<in> set failed \<longrightarrow> num_computed_tokens r < req_num_tokens r)
           else num_computed_tokens r < req_num_tokens r \<and> request_id r \<notin> set failed))"

definition waiting_ok :: "sched_config \<Rightarrow> ('k, 'e) wait_api \<Rightarrow> sched \<Rightarrow> bool" where
  "waiting_ok cfg api st \<longleftrightarrow>
     (\<forall>i r. dict_get (requests st) i = Some r \<longrightarrow> waiting_status (req_status r)
        \<longrightarrow> wait_ok cfg api (failed_recving_kv_req_ids st) r)"

text \<open>A result of the lookup fits the request.\<close>

definition lookup_fits :: "('k, 'e) wait_api \<Rightarrow> sreq \<Rightarrow> lookup \<Rightarrow> bool" where
  "lookup_fits api r lk \<longleftrightarrow> 0 \<le> lk_computed lk \<and>
     (if lk_load_async lk then has_connector api \<and> 0 < lk_external lk \<and> lk_computed lk \<le> req_num_tokens r
      else lk_computed lk < req_num_tokens r)"

lemma aligned_below:
  fixes n b :: int
  assumes "0 \<le> n" and "0 < b"
  shows "0 \<le> n - n mod b" "n - n mod b \<le> n" "0 \<le> n mod b"
  using assms pos_mod_sign [of b n] by (simp_all add: minus_mod_eq_div_mult pos_imp_zdiv_nonneg_iff)
    (simp add: minus_mod_eq_div_mult [symmetric])

lemma external_hit_ok:
  assumes laws: "lookup_laws api" and "0 < req_num_tokens r" and bs: "0 < sched_block_size cfg"
    and local: "0 \<le> local" "local < req_num_tokens r" and conn: "has_connector api"
    and hit: "external_hit cfg api r bl local diverged k = ((r', found), k')"
  shows "\<exists>b. r' = r\<lparr>shared_prefix_boundary := b\<rparr>" and "found = Some lk \<Longrightarrow> lookup_fits api r lk"
proof -
  let ?tail = "local mod sched_block_size cfg" and ?aligned = "local - local mod sched_block_size cfg"
  note al = aligned_below [OF local(1) bs]
  have al2: "?aligned < req_num_tokens r" using al local(2) by linarith
  obtain matched async k1 where m: "conn_num_new_matched_tokens api r ?aligned k = ((matched, async), k1)"
    by (metis surj_pair)
  have law: "0 \<le> x \<and> (if async then 0 < x \<and> ?aligned + x \<le> req_num_tokens r else ?aligned + x < req_num_tokens r)"
    if "matched = Some x" for x using lookup_laws_matched [OF laws al(1) al2] m that by blast
  obtain bs2 n2 b2 k2 where g: "kv_get_computed_blocks api r k1 = ((bs2, n2, b2), k2)" by (metis surj_pair)
  then have g2: "0 \<le> n2" "n2 < req_num_tokens r" using lookup_laws_hits [OF laws assms(2)] by blast+
  have same: "r = r\<lparr>shared_prefix_boundary := shared_prefix_boundary r\<rparr>" by simp
  have "r' = r \<or> r' = r\<lparr>shared_prefix_boundary := b2\<rparr>"
    using hit m g by (auto simp: external_hit_def Let_def split: option.splits if_splits)
  then show "\<exists>b. r' = r\<lparr>shared_prefix_boundary := b\<rparr>" using same by metis
  show "lookup_fits api r lk" if f: "found = Some lk"
  proof (cases matched)
    case None
    with hit m f show ?thesis by (simp add: external_hit_def Let_def)
  next
    case (Some x)
    note law = law [OF Some]
    show ?thesis
      using hit m g f Some law al local g2 conn
      by (auto simp: external_hit_def Let_def lookup_fits_def split: if_splits)
  qed
qed

lemma prefix_lookup_ok:
  assumes laws: "lookup_laws api" and tok: "0 < req_num_tokens r" and bs: "0 < sched_block_size cfg"
    and p: "prefix_lookup cfg api r k = ((r', found), k')"
  shows "\<exists>b. r' = r\<lparr>shared_prefix_boundary := b\<rparr>" and "found = Some lk \<Longrightarrow> lookup_fits api r lk"
proof -
  have "(\<exists>b. r' = r\<lparr>shared_prefix_boundary := b\<rparr>) \<and> (found = Some lk \<longrightarrow> lookup_fits api r lk)"
  proof (cases "has_connector api")
    case True
    obtain bl n b d k1 where g: "kv_get_computed_blocks_for_connector api r k = ((bl, n, b, d), k1)" by (metis surj_pair)
    then have n: "0 \<le> n" "n < req_num_tokens r" using lookup_laws_hits [OF laws tok] by blast+
    let ?r = "r\<lparr>shared_prefix_boundary := b\<rparr>"
    have tok': "req_num_tokens ?r = req_num_tokens r" by (simp add: req_num_tokens_def)
    have "external_hit cfg api ?r bl n d k1 = ((r', found), k')" using p g True by (simp add: prefix_lookup_def)
    from external_hit_ok [OF laws _ bs n(1) _ True this] tok n(2)
    show ?thesis unfolding tok' by (auto simp: lookup_fits_def tok')
  next
    case False
    obtain bl n b k1 where g: "kv_get_computed_blocks api r k = ((bl, n, b), k1)" by (metis surj_pair)
    then have n: "0 \<le> n" "n < req_num_tokens r" using lookup_laws_hits [OF laws tok] by blast+
    then show ?thesis using p g False by (auto simp: prefix_lookup_def lookup_fits_def)
  qed
  then show "\<exists>b. r' = r\<lparr>shared_prefix_boundary := b\<rparr>" "found = Some lk \<Longrightarrow> lookup_fits api r lk" by simp_all
qed

lemma cached_tokens_ok:
  assumes laws: "lookup_laws api" and bs: "0 < sched_block_size cfg"
    and r: "0 < req_num_tokens r" "0 \<le> num_computed_tokens r" "num_computed_tokens r < req_num_tokens r"
  obtains r' found k' e' b where "cached_tokens cfg api r k e = Inr ((r', found), k', e')"
    "r' = r\<lparr>shared_prefix_boundary := b\<rparr>" "\<And>lk. found = Some lk \<Longrightarrow> lookup_fits api r lk"
proof (cases "num_computed_tokens r = 0")
  case False
  let ?lk = "\<lparr>lk_blocks = kv_empty_blocks api, lk_local = 0, lk_external = 0, lk_load_async = False, lk_computed = num_computed_tokens r\<rparr>"
  have "cached_tokens cfg api r k e = Inr ((r, Some ?lk), k, e)" using False by (simp add: cached_tokens_def)
  then show thesis by (rule that [of _ _ _ _ "shared_prefix_boundary r"]) (use r in \<open>auto simp: lookup_fits_def\<close>)
next
  case True
  obtain r' found k' where p: "prefix_lookup cfg api r k = ((r', found), k')" by (metis surj_pair)
  from prefix_lookup_ok(1) [OF laws r(1) bs p] obtain b where b: "r' = r\<lparr>shared_prefix_boundary := b\<rparr>" ..
  have fits: "found = Some lk \<Longrightarrow> lookup_fits api r lk" for lk by (rule prefix_lookup_ok(2) [OF laws r(1) bs p])
  have tok: "req_num_tokens r' = req_num_tokens r" by (simp add: b req_num_tokens_def)
  show thesis
  proof (cases found)
    case None
    with True p show thesis by (intro that [of r' None k' e b] b) (simp_all add: cached_tokens_def)
  next
    case (Some lk)
    note f = fits [OF Some]
    then have le: "\<not> lk_computed lk > req_num_tokens r'" unfolding tok lookup_fits_def by (auto split: if_splits)
    have stats: "\<not> (carries_prefill_stats api r' \<and> num_preemptions r' \<le> 0 \<and> lk_computed lk > num_prompt_tokens r')"
      using lookup_laws_stats [OF laws, of r'] le by linarith
    obtain ready e' where e: "(if ec_has_cache_item (sapi api) \<noteq> None \<and> mm_features r' \<noteq> []
        then ec_ensure_cache_available api r' (lk_computed lk) e else (True, e)) = (ready, e')" by (metis surj_pair)
    have "cached_tokens cfg api r k e = Inr ((r', if ready then Some lk else None), k', e')"
      unfolding cached_tokens_def p using True Some le stats e by (simp add: bindE_raiseIf del: de_Morgan_conj)
    then show thesis by (rule that [OF _ b]) (use f in \<open>auto split: if_splits\<close>)
  qed
qed

lemma waiting_num_new_ok:
  assumes "0 < token_budget rn" and "computed < req_num_tokens r"
  shows "\<exists>new. waiting_num_new cfg env rn r computed = Inr new
    \<and> (\<forall>n pad. new = Some (n, pad) \<longrightarrow> 0 < n \<and> n \<le> token_budget rn
         \<and> (enable_decode_aware_prefill cfg \<longrightarrow> n \<le> env_prefill_token_budget env - prefill_tokens_scheduled rn))"
proof -
  define pad where "pad \<longleftrightarrow> cfg_num_spec_tokens cfg > 0 \<and> \<not> dynamic_sd cfg \<and> num_sampled_tokens_per_step cfg > 0
    \<and> req_num_tokens r - computed = 1 \<and> scheduled_running_reqs rn \<noteq> [] \<and> \<not> prefill_scheduled rn"
  define n where "n = (if pad then 1 + cfg_num_spec_tokens cfg else req_num_tokens r - computed)"
  define n1 where "n1 = (if \<not> enable_decode_aware_prefill cfg \<and> 0 < long_prefill_token_threshold cfg
    \<and> long_prefill_token_threshold cfg < n then long_prefill_token_threshold cfg else n)"
  have pos: "0 < n" "0 < n1" using assms(2) by (auto simp: n_def n1_def pad_def)
  show ?thesis
    unfolding waiting_num_new_def Let_def pad_def [symmetric] n_def [symmetric] n1_def [symmetric]
    using pos assms(1) by (auto simp: bindE_raiseIf)
qed

lemma waiting_fitted_ok:
  assumes laws: "lookup_laws api" and win: "window_ok (sapi api)" and bs: "0 < cache_block_size cfg"
    and enc: "is_encoder_decoder cfg \<longrightarrow> (\<forall>f \<in> set (mm_features r). mm_offset f = 0)"
    and fits: "lookup_fits api r lk" and budget: "0 < token_budget rn"
  shows "\<exists>new e. waiting_fitted cfg api env r lk rn = Inr (new, e)
    \<and> (\<forall>n pad acc. new = Some (n, pad, acc) \<longrightarrow> (if lk_load_async lk then n = 0 else 0 < n \<and> n \<le> token_budget rn
         \<and> (enable_decode_aware_prefill cfg \<longrightarrow> n \<le> env_prefill_token_budget env - prefill_tokens_scheduled rn)))"
proof (cases "lk_load_async lk")
  case True
  with fits show ?thesis by (simp add: waiting_fitted_def lookup_fits_def raiseIf_def)
next
  case False
  obtain new where w: "waiting_num_new cfg env rn r (lk_computed lk) = Inr new"
    and new: "\<And>n pad. new = Some (n, pad) \<Longrightarrow> 0 < n \<and> n \<le> token_budget rn
         \<and> (enable_decode_aware_prefill cfg \<longrightarrow> n \<le> env_prefill_token_budget env - prefill_tokens_scheduled rn)"
    using waiting_num_new_ok [OF budget, of "lk_computed lk" r cfg env] fits False by (auto simp: lookup_fits_def)
  show ?thesis
  proof (cases new)
    case None
    with w False show ?thesis by (simp add: waiting_fitted_def)
  next
    case (Some p)
    then obtain n pad where p: "new = Some (n, pad)" by (cases p) auto
    note n = new [OF p]
    obtain k acc e where k: "(if has_encoder_inputs r
        then bindE (try_schedule_encoder_inputs cfg (sapi api) r (lk_computed lk) n (rn_encoder_budget rn)
               (if use_eagle cfg then 1 else 0) (rn_enc rn)) (\<lambda>(n, acc, e). Inr (n, Some acc, e))
        else Inr (n, None, rn_enc rn)) = Inr (k, acc, e)" "0 \<le> k" "k \<le> n"
    proof (cases "has_encoder_inputs r")
      case True
      obtain k acc e where "try_schedule_encoder_inputs cfg (sapi api) r (lk_computed lk) n (rn_encoder_budget rn)
          (if use_eagle cfg then 1 else 0) (rn_enc rn) = Inr (k, acc, e)" "0 \<le> k" "k \<le> n"
        using try_schedule_encoder_inputs_ok [OF win enc, of n] n by (metis less_imp_le)
      with that [of k "Some acc" e] True show thesis by simp
    qed (use that [of n None "rn_enc rn"] n in simp)
    let ?m = "if need_mamba_block_aligned_split cfg then mamba_block_aligned_split cfg r k (lk_local lk) (lk_external lk) else k"
    have m: "0 \<le> ?m" "?m \<le> k" using mamba_split_bounds [OF bs k(2)] k(2) by simp_all
    have "waiting_fitted cfg api env r lk rn = Inr (if k = 0 \<or> need_mamba_block_aligned_split cfg \<and> ?m = 0 then None
        else Some (?m, pad, acc), e)"
      unfolding waiting_fitted_def Let_def w using False p by (simp add: k(1))
    with m k n False show ?thesis by (auto split: if_splits)
  qed
qed

subsection \<open>The invariant of the waiting loop\<close>

text \<open>The requests skipped in this step count as waiting although they stand in a list of their own.\<close>

definition merged :: "('k, 'e) wait \<Rightarrow> sched" where
  "merged w = (rn_sched w)\<lparr>skipped_waiting := step_skipped_waiting w @ skipped_waiting (rn_sched w)\<rparr>"

definition wait_queues :: "sched_config \<Rightarrow> ('k, 'e) wait_api \<Rightarrow> ('k, 'e) wait \<Rightarrow> bool" where
  "wait_queues cfg api w \<longleftrightarrow> queue_inv (merged w) \<and> waiting_ok cfg api (rn_sched w)"

definition wait_budget :: "sched_config \<Rightarrow> step_env \<Rightarrow> int \<Rightarrow> ('k, 'e) wait \<Rightarrow> bool" where
  "wait_budget cfg env budget w \<longleftrightarrow>
     0 \<le> token_budget w \<and> token_budget w + sum_list (map snd (num_scheduled_tokens w)) = budget
   \<and> (\<forall>p \<in> set (num_scheduled_tokens w). 0 < snd p)
   \<and> distinct (dict_keys (num_scheduled_tokens w)) \<and> set (dict_keys (num_scheduled_tokens w)) \<subseteq> set (running (rn_sched w))
   \<and> length (num_scheduled_tokens w)
       = length (scheduled_new_reqs w) + length (scheduled_resumed_reqs w) + length (scheduled_running_reqs w)
   \<and> int (length (running (rn_sched w))) \<le> max_num_running_reqs cfg
   \<and> (enable_decode_aware_prefill cfg \<longrightarrow> prefill_tokens_scheduled w \<le> max 0 (env_prefill_token_budget env))"

lemma merged_simps [simp]:
  "requests (merged w) = requests (rn_sched w)" "running (merged w) = running (rn_sched w)"
  "waiting (merged w) = waiting (rn_sched w)"
  "skipped_waiting (merged w) = step_skipped_waiting w @ skipped_waiting (rn_sched w)"
  "num_waiting_for_streaming_input (merged w) = num_waiting_for_streaming_input (rn_sched w)"
  by (simp_all add: merged_def)

lemma mset_queued_merged:
  "mset (queued (merged w)) = mset (waiting (rn_sched w)) + mset (step_skipped_waiting w) + mset (skipped_waiting (rn_sched w))"
  by (simp add: queued_def)

text \<open>A waiting request that keeps waiting, possibly in another queue and with another status.\<close>

lemma queue_inv_requeue:
  assumes inv: "queue_inv st" and r: "dict_get (requests st) i = Some r"
    and req: "requests st' = dict_set i r' (requests st)" and id: "request_id r' = request_id r"
    and status: "waiting_status (req_status r)" "waiting_status (req_status r')"
      "req_status r = WAITING_FOR_STREAMING_REQ \<longleftrightarrow> req_status r' = WAITING_FOR_STREAMING_REQ"
    and q: "running st' = running st" "mset (queued st') = mset (queued st)"
      "num_waiting_for_streaming_input st' = num_waiting_for_streaming_input st"
  shows "queue_inv st'"
proof -
  note I = inv [unfolded queue_inv_def queue_inv_except_def]
  have W: "with_status P st' = with_status P st" if "P (req_status r) \<longleftrightarrow> P (req_status r')" for P
    using that by (auto simp: with_status_set [OF req] with_status_iff [OF r])
  have "with_status (\<lambda>s. s = RUNNING) st' = with_status (\<lambda>s. s = RUNNING) st"
    "with_status waiting_status st' = with_status waiting_status st"
    "with_status (\<lambda>s. s = WAITING_FOR_STREAMING_REQ) st' = with_status (\<lambda>s. s = WAITING_FOR_STREAMING_REQ) st"
    by (rule W; use status in \<open>auto simp: waiting_status_def\<close>)+
  moreover have "\<forall>j q. dict_get (requests st') j = Some q \<longrightarrow> request_id q = j" "distinct (dict_keys (requests st'))"
    using I r id by (auto simp: req dict_get_set dict_set_distinct split: if_splits)
  moreover have "distinct (queued st')" "set (queued st') = set (queued st)"
    using I mset_eq_imp_distinct_iff [OF q(2)] mset_eq_setD [OF q(2)] by simp_all
  ultimately show ?thesis using I q by (simp add: queue_inv_def queue_inv_except_def)
qed

lemma waiting_ok_update:
  assumes ok: "waiting_ok cfg api st" and req: "requests st' = dict_set i r' (requests st)"
    and failed: "set (failed_recving_kv_req_ids st') \<subseteq> set (failed_recving_kv_req_ids st)"
    and r': "waiting_status (req_status r') \<Longrightarrow> wait_ok cfg api (failed_recving_kv_req_ids st') r'"
  shows "waiting_ok cfg api st'"
proof -
  have "wait_ok cfg api (failed_recving_kv_req_ids st) r \<Longrightarrow> wait_ok cfg api (failed_recving_kv_req_ids st') r" for r
    using failed by (auto simp: wait_ok_def split: if_splits)
  then show ?thesis using assms by (auto simp: waiting_ok_def dict_get_set)
qed

text \<open>The head of the selected queue.\<close>

lemma select_some:
  assumes "waiting st \<noteq> [] \<or> skipped_waiting st \<noteq> []"
  shows "\<exists>q i ids. select_waiting_queue_for_scheduling cfg api st = Some q \<and> waiting_head q st = i # ids"
proof -
  have ne: "live st xs = y # ys \<Longrightarrow> xs \<noteq> []" for xs y ys by auto
  have "\<exists>q. select_waiting_queue_for_scheduling cfg api st = Some q \<and> waiting_head q st \<noteq> []"
    using assms ne [of "waiting st"] ne [of "skipped_waiting st"]
    by (cases "sched_policy cfg"; cases "live st (waiting st)"; cases "live st (skipped_waiting st)")
      (auto simp: select_waiting_queue_for_scheduling_def waiting_head_def)
  then show ?thesis by (metis neq_Nil_conv)
qed

lemma head_stored:
  assumes inv: "wait_queues cfg api w" and head: "waiting_head q (rn_sched w) = i # ids"
  obtains r where "dict_get (requests (rn_sched w)) i = Some r" "request_id r = i" "waiting_status (req_status r)"
    "wait_ok cfg api (failed_recving_kv_req_ids (rn_sched w)) r"
proof -
  have "i \<in> set (queued (merged w))" using head by (auto simp: queued_def waiting_head_def split: queue_choice.splits)
  then obtain r where "dict_get (requests (rn_sched w)) i = Some r" "waiting_status (req_status r)"
    using inv by (auto simp: wait_queues_def queue_inv_def queue_inv_except_def with_status_def)
  with inv that show thesis by (auto simp: wait_queues_def queue_inv_def queue_inv_except_def waiting_ok_def)
qed

text \<open>A request whose status changes among the waiting ones while the queues stay.\<close>

lemma wait_queues_update:
  assumes inv: "wait_queues cfg api w" and r: "dict_get (requests (rn_sched w)) i = Some r" "waiting_status (req_status r)"
    and req: "requests (rn_sched w') = dict_set i r' (requests (rn_sched w))" and id: "request_id r' = request_id r"
    and status: "waiting_status (req_status r')" "req_status r = WAITING_FOR_STREAMING_REQ \<longleftrightarrow> req_status r' = WAITING_FOR_STREAMING_REQ"
    and run: "running (rn_sched w') = running (rn_sched w)"
      "num_waiting_for_streaming_input (rn_sched w') = num_waiting_for_streaming_input (rn_sched w)"
    and q: "mset (queued (merged w')) = mset (queued (merged w))"
    and failed: "set (failed_recving_kv_req_ids (rn_sched w')) \<subseteq> set (failed_recving_kv_req_ids (rn_sched w))"
    and ok: "wait_ok cfg api (failed_recving_kv_req_ids (rn_sched w')) r'"
  shows "wait_queues cfg api w'"
proof -
  have "queue_inv (merged w')"
    by (rule queue_inv_requeue [where st = "merged w" and i = i and r = r and r' = r'])
      (use assms in \<open>simp_all add: wait_queues_def\<close>)
  moreover have "waiting_ok cfg api (rn_sched w')"
    by (rule waiting_ok_update [OF _ req failed ok]) (use inv in \<open>simp add: wait_queues_def\<close>)
  ultimately show ?thesis by (simp add: wait_queues_def)
qed

lemma mset_pop_merged:
  assumes "waiting_head q st = i # ids"
  shows "add_mset i (mset (waiting (pop_request q st)) + mset xs + mset (skipped_waiting (pop_request q st)))
    = mset (waiting st) + mset xs + mset (skipped_waiting st)"
  using assms by (auto simp: waiting_head_def pop_request_def split: queue_choice.splits)

lemma skip_request_queues:
  assumes laws: "queue_laws (wlife api)" and inv: "wait_queues cfg api w" and head: "waiting_head q (rn_sched w) = i # ids"
    and r: "dict_get (requests (rn_sched w)) i = Some r"
  shows "wait_queues cfg api (skip_request api q r w)"
proof -
  obtain r1 where "dict_get (requests (rn_sched w)) i = Some r1" and h: "request_id r1 = i" "waiting_status (req_status r1)"
    "wait_ok cfg api (failed_recving_kv_req_ids (rn_sched w)) r1" by (rule head_stored [OF inv head])
  with r have [simp]: "r1 = r" by simp
  let ?w = "skip_request api q r w"
  have m: "mset (queued (merged ?w)) = mset (queued (merged w))"
    using mset_pop_merged [OF head, of "step_skipped_waiting w"] h(1)
    by (simp add: mset_queued_merged skip_request_def queue_prepend_perm [OF laws] flip: add_mset_add_single)
  show ?thesis
    by (rule wait_queues_update [OF inv r _ _ _ _ _ _ _ m])
      (use h r in \<open>auto simp: skip_request_def dict_set_same\<close>)
qed

subsection \<open>Promotion\<close>

text \<open>After promotion the request is still stored, and a promoted one can be admitted.\<close>

definition promoted_ok :: "string \<Rightarrow> bool \<Rightarrow> ('k, 'e) wait \<Rightarrow> ('k, 'e) wait \<Rightarrow> bool" where
  "promoted_ok i ready w w1 \<longleftrightarrow>
     (\<exists>k st. w1 = w\<lparr>rn_kv := k, rn_sched := st\<rparr> \<and> same_queues (rn_sched w) st
        \<and> (\<exists>r. dict_get (requests st) i = Some r \<and> request_id r = i \<and> (ready \<longrightarrow> req_status r \<in> {WAITING, PREEMPTED})))"

lemma merged_same: "w1 = w\<lparr>rn_kv := k, rn_sched := st\<rparr> \<Longrightarrow> same_queues (rn_sched w) st \<Longrightarrow> queued (merged w1) = queued (merged w)"
  by (simp add: queued_def same_queues_def)

lemma promoted_by_update:
  assumes inv: "wait_queues cfg api w" and r: "dict_get (requests (rn_sched w)) i = Some r" "request_id r = i" "waiting_status (req_status r)"
    "req_status r \<noteq> WAITING_FOR_STREAMING_REQ"
    and w1: "w1 = w\<lparr>rn_kv := k, rn_sched := st\<rparr>" and q: "same_queues (rn_sched w) st"
    and req: "requests st = dict_set i r' (requests (rn_sched w))" and r': "request_id r' = i" "req_status r' \<in> {WAITING, PREEMPTED}"
    and failed: "set (failed_recving_kv_req_ids st) \<subseteq> set (failed_recving_kv_req_ids (rn_sched w))"
    and ok: "wait_ok cfg api (failed_recving_kv_req_ids st) r'"
  shows "wait_queues cfg api w1 \<and> promoted_ok i ready w w1"
proof
  show "wait_queues cfg api w1"
    by (rule wait_queues_update [OF inv r(1,3), where r' = r'])
      (use assms merged_same [OF w1 q] in \<open>auto simp: waiting_status_def is_finished_def same_queues_def\<close>)
  have "dict_get (requests st) i = Some r'" by (simp add: req dict_get_set)
  with w1 q r' show "promoted_ok i ready w w1" unfolding promoted_ok_def by blast
qed

lemma promote_remote:
  assumes inv: "wait_queues cfg api w" and r: "dict_get (requests (rn_sched w)) i = Some r" "request_id r = i"
    and status: "req_status r = WAITING_FOR_REMOTE_KVS" and ok: "wait_ok cfg api (failed_recving_kv_req_ids (rn_sched w)) r"
    and recv: "i \<in> set (finished_recving_kv_req_ids (rn_sched w))"
  shows "\<exists>w1. try_promote_blocked_waiting_request cfg (wlife api) r w = Inr (True, w1)
    \<and> wait_queues cfg api w1 \<and> promoted_ok i True w w1"
proof -
  let ?st = "rn_sched w" and ?n = "num_computed_tokens r"
  have conn: "connected (wlife api)" and n: "0 \<le> ?n" "0 < req_num_tokens r" "?n \<le> req_num_tokens r"
    "i \<in> set (failed_recving_kv_req_ids ?st) \<Longrightarrow> ?n < req_num_tokens r"
    "is_encoder_decoder cfg \<longrightarrow> (\<forall>f \<in> set (mm_features r). mm_offset f = 0)"
    using ok status r by (simp_all add: wait_ok_def)
  define st1 where "st1 = (if i \<in> set (failed_recving_kv_req_ids ?st)
      then ?st\<lparr>failed_recving_kv_req_ids := removeAll i (failed_recving_kv_req_ids ?st)\<rparr>
      else if ?n = req_num_tokens r then mutate i (\<lambda>q. q\<lparr>num_computed_tokens := req_num_tokens q - 1\<rparr>) ?st else ?st)"
  define k1 where "k1 = (if i \<in> set (failed_recving_kv_req_ids ?st)
      then (if ?n \<noteq> 0 then (let k = kv_cache_blocks (wlife api) r ?n (rn_kv w) in
               if needs_kv_cache_zeroing cfg then kv_record_blocks_for_zeroing (wlife api) i ?n k else k)
            else kv_free (sapi api) r (rn_kv w))
      else kv_cache_blocks (wlife api) r ?n (rn_kv w))"
  define r1 where "r1 = (if i \<notin> set (failed_recving_kv_req_ids ?st) \<and> ?n = req_num_tokens r
      then r\<lparr>num_computed_tokens := req_num_tokens r - 1\<rparr> else r)"
  have fin: "finished_recving_kv_req_ids st1 = finished_recving_kv_req_ids ?st"
    by (simp add: st1_def mutate_def split: option.splits)
  have req1: "requests st1 = dict_set i r1 (requests ?st)"
    using r(1) by (auto simp: st1_def r1_def requests_mutate dict_set_same)
  let ?f = "\<lambda>q. q\<lparr>req_status := if num_preemptions r \<noteq> 0 then PREEMPTED else WAITING\<rparr>"
  define st2 where "st2 = mutate i ?f (st1\<lparr>finished_recving_kv_req_ids := removeAll i (finished_recving_kv_req_ids st1)\<rparr>)"
  have u: "update_waiting_for_remote_kv cfg (wlife api) r w
      = Inr (w\<lparr>rn_kv := k1, rn_sched := st1\<lparr>finished_recving_kv_req_ids := removeAll i (finished_recving_kv_req_ids st1)\<rparr>\<rparr>)"
    using conn r(2) recv fin by (auto simp: update_waiting_for_remote_kv_def Let_def st1_def k1_def)
  have t: "try_promote_blocked_waiting_request cfg (wlife api) r w = Inr (True, w\<lparr>rn_kv := k1, rn_sched := st2\<rparr>)"
    using status r(2) recv u by (simp add: try_promote_blocked_waiting_request_def Let_def st2_def)
  have get1: "dict_get (requests st1) i = Some r1" by (simp add: req1 dict_get_set)
  have req2: "requests st2 = dict_set i (?f r1) (requests ?st)"
    using get1 by (simp add: st2_def requests_mutate req1 dict_set_twice)
  have failed: "failed_recving_kv_req_ids st2 = (if i \<in> set (failed_recving_kv_req_ids ?st)
      then removeAll i (failed_recving_kv_req_ids ?st) else failed_recving_kv_req_ids ?st)"
    by (simp add: st2_def st1_def mutate_def split: option.splits)
  have q: "same_queues ?st st2" by (simp add: st2_def st1_def same_queues_def)
  have "wait_queues cfg api (w\<lparr>rn_kv := k1, rn_sched := st2\<rparr>) \<and> promoted_ok i True w (w\<lparr>rn_kv := k1, rn_sched := st2\<rparr>)"
    by (rule promoted_by_update [OF inv r _ _ refl q req2])
      (use status n r in \<open>auto simp: waiting_status_def is_finished_def failed r1_def wait_ok_def req_num_tokens_def\<close>)
  with t show ?thesis by blast
qed

lemma promote_ok:
  assumes inv: "wait_queues cfg api w" and r: "dict_get (requests (rn_sched w)) i = Some r" "request_id r = i"
    and status: "waiting_status (req_status r)" and ok: "wait_ok cfg api (failed_recving_kv_req_ids (rn_sched w)) r"
  shows "\<exists>ready w1. (if is_blocked_waiting_status (req_status r)
      then try_promote_blocked_waiting_request cfg (wlife api) r w else Inr (True, w)) = Inr (ready, w1)
    \<and> wait_queues cfg api w1 \<and> promoted_ok i ready w w1"
proof -
  have stay: "promoted_ok i False w w" using r unfolding promoted_ok_def by (intro exI [of _ "rn_kv w"] exI [of _ "rn_sched w"]) auto
  show ?thesis
  proof (cases "req_status r")
    case WAITING_FOR_REMOTE_KVS
    show ?thesis
    proof (cases "i \<in> set (finished_recving_kv_req_ids (rn_sched w))")
      case True
      with promote_remote [OF inv r WAITING_FOR_REMOTE_KVS ok] WAITING_FOR_REMOTE_KVS show ?thesis
        by (auto simp: is_blocked_waiting_status_def)
    next
      case False
      with WAITING_FOR_REMOTE_KVS inv r stay show ?thesis
        by (intro exI [of _ False] exI [of _ w]) (simp add: is_blocked_waiting_status_def try_promote_blocked_waiting_request_def Let_def)
    qed
  next
    case WAITING_FOR_STREAMING_REQ
    with ok inv r stay show ?thesis
      by (auto simp: is_blocked_waiting_status_def try_promote_blocked_waiting_request_def wait_ok_def raiseIf_def)
  next
    case WAITING_FOR_STRUCTURED_OUTPUT_GRAMMAR
    let ?st = "mutate i (\<lambda>q. q\<lparr>req_status := WAITING\<rparr>) (rn_sched w)"
    let ?err = "(rn_sched w)\<lparr>grammar_compile_error_reqs := List.insert i (grammar_compile_error_reqs (rn_sched w))\<rparr>"
    have ready: "wait_queues cfg api (w\<lparr>rn_kv := rn_kv w, rn_sched := ?st\<rparr>) \<and> promoted_ok i True w (w\<lparr>rn_kv := rn_kv w, rn_sched := ?st\<rparr>)"
      by (rule promoted_by_update [OF inv r _ _ refl, where r' = "r\<lparr>req_status := WAITING\<rparr>"])
        (use WAITING_FOR_STRUCTURED_OUTPUT_GRAMMAR ok r
         in \<open>auto simp: waiting_status_def is_finished_def wait_ok_def req_num_tokens_def mutate_def same_queues_def\<close>)
    have err: "wait_queues cfg api (w\<lparr>rn_sched := ?err\<rparr>)"
      using inv queue_inv_cong [of "merged (w\<lparr>rn_sched := ?err\<rparr>)" "merged w"]
      by (simp add: wait_queues_def waiting_ok_def same_queues_def)
    have err2: "promoted_ok i False w (w\<lparr>rn_sched := ?err\<rparr>)"
      using r unfolding promoted_ok_def by (intro exI [of _ "rn_kv w"] exI [of _ ?err]) (auto simp: same_queues_def)
    show ?thesis
    proof (cases "structured_output_request r")
      case None
      with WAITING_FOR_STRUCTURED_OUTPUT_GRAMMAR inv r stay show ?thesis
        by (intro exI [of _ False] exI [of _ w]) (simp add: is_blocked_waiting_status_def try_promote_blocked_waiting_request_def Let_def)
    next
      case (Some g)
      with WAITING_FOR_STRUCTURED_OUTPUT_GRAMMAR inv r stay ready err err2 show ?thesis
        by (cases g) (auto simp: is_blocked_waiting_status_def try_promote_blocked_waiting_request_def Let_def)
    qed
  next
    case WAITING
    then have "promoted_ok i True w w" using r unfolding promoted_ok_def by (intro exI [of _ "rn_kv w"] exI [of _ "rn_sched w"]) auto
    with WAITING inv show ?thesis by (auto simp: is_blocked_waiting_status_def)
  next
    case PREEMPTED
    then have "promoted_ok i True w w" using r unfolding promoted_ok_def by (intro exI [of _ "rn_kv w"] exI [of _ "rn_sched w"]) auto
    with PREEMPTED inv show ?thesis by (auto simp: is_blocked_waiting_status_def)
  qed (use status in \<open>simp_all add: waiting_status_def is_finished_def\<close>)
qed

subsection \<open>Admission\<close>

lemma wait_budget_frame:
  assumes "wait_budget cfg env budget w" and "running st = running (rn_sched w)"
  shows "wait_budget cfg env budget (w\<lparr>rn_kv := k, rn_enc := e, rn_sched := st\<rparr>)"
  using assms by (simp add: wait_budget_def)

lemma record_encoder_inputs_frame [simp]:
  fixes w :: "('k, 'e) wait"
  shows "token_budget (record_encoder_inputs api i r acc w) = token_budget w"
    "num_scheduled_tokens (record_encoder_inputs api i r acc w) = num_scheduled_tokens w"
    "prefill_tokens_scheduled (record_encoder_inputs api i r acc w) = prefill_tokens_scheduled w"
    "scheduled_running_reqs (record_encoder_inputs api i r acc w) = scheduled_running_reqs w"
    "step_skipped_waiting (record_encoder_inputs api i r acc w) = step_skipped_waiting w"
    "scheduled_new_reqs (record_encoder_inputs api i r acc w) = scheduled_new_reqs w"
    "scheduled_resumed_reqs (record_encoder_inputs api i r acc w) = scheduled_resumed_reqs w"
  by (auto simp: record_encoder_inputs_def Let_def split: option.splits)

lemma admit_request_fields:
  assumes r: "dict_get (requests (rn_sched w)) i = Some r0" "request_id r = i" "req_status r \<in> {WAITING, PREEMPTED}"
  obtains w' where "admit_request cfg api q r lk n pad acc w = Inr w'"
    "requests (rn_sched w') = dict_set i (r\<lparr>req_status := RUNNING, num_computed_tokens := lk_computed lk\<rparr>) (requests (rn_sched w))"
    "failed_recving_kv_req_ids (rn_sched w') = failed_recving_kv_req_ids (rn_sched w)"
    "step_skipped_waiting w' = step_skipped_waiting w" "token_budget w' = token_budget w - n"
    "num_scheduled_tokens w' = dict_set i n (num_scheduled_tokens w)"
    "prefill_tokens_scheduled w' = prefill_tokens_scheduled w + (if enable_decode_aware_prefill cfg then n else 0)"
    "scheduled_running_reqs w' = scheduled_running_reqs w"
    "length (scheduled_new_reqs w') + length (scheduled_resumed_reqs w')
       = length (scheduled_new_reqs w) + length (scheduled_resumed_reqs w) + 1"
proof -
  have status: "\<not> (req_status r \<notin> {WAITING, PREEMPTED})" using r(3) by simp
  then have "\<exists>w'. admit_request cfg api q r lk n pad acc w = Inr w'"
    unfolding admit_request_def bindE_raiseIf by (simp only: if_False Let_def) blast
  then obtain w' where w': "admit_request cfg api q r lk n pad acc w = Inr w'" ..
  let ?st = "let st = pop_request q (rn_sched w); st = st\<lparr>running := running st @ [i]\<rparr> in
      if enable_decode_aware_prefill cfg \<and> is_long_prefill_request cfg r then stamp i st else st"
  have "requests ?st = requests (rn_sched w)" by (simp add: Let_def)
  with r(1) have m: "requests (mutate i f ?st) = dict_set i (f r0) (requests (rn_sched w))" for f
    by (simp add: requests_mutate)
  have fs: "failed_recving_kv_req_ids (mutate i f ?st) = failed_recving_kv_req_ids (rn_sched w)" for f
    by (simp add: Let_def mutate_def stamp_def split: option.splits)
  have "requests (rn_sched w') = dict_set i (r\<lparr>req_status := RUNNING, num_computed_tokens := lk_computed lk\<rparr>) (requests (rn_sched w))"
    "failed_recving_kv_req_ids (rn_sched w') = failed_recving_kv_req_ids (rn_sched w)"
    using w' status r(2) m fs by (auto simp: admit_request_def bindE_raiseIf Let_def)
  moreover have "step_skipped_waiting w' = step_skipped_waiting w" "token_budget w' = token_budget w - n"
    "num_scheduled_tokens w' = dict_set i n (num_scheduled_tokens w)"
    "prefill_tokens_scheduled w' = prefill_tokens_scheduled w + (if enable_decode_aware_prefill cfg then n else 0)"
    "scheduled_running_reqs w' = scheduled_running_reqs w"
    "length (scheduled_new_reqs w') + length (scheduled_resumed_reqs w')
       = length (scheduled_new_reqs w) + length (scheduled_resumed_reqs w) + 1"
    using w' status r(2) by (auto simp: admit_request_def bindE_raiseIf Let_def split: if_splits)
  ultimately show thesis by (rule that [OF w'])
qed

lemma admit_request_ok:
  assumes inv: "wait_queues cfg api w" and b: "wait_budget cfg env budget w"
    and head: "waiting_head q (rn_sched w) = i # ids"
    and r: "dict_get (requests (rn_sched w)) i = Some r" "request_id r = i" "req_status r \<in> {WAITING, PREEMPTED}"
    and n: "0 < n" "n \<le> token_budget w"
      "enable_decode_aware_prefill cfg \<Longrightarrow> n \<le> env_prefill_token_budget env - prefill_tokens_scheduled w"
    and room: "int (length (running (rn_sched w))) < max_num_running_reqs cfg"
  shows "\<exists>w'. admit_request cfg api q r lk n pad acc w = Inr w' \<and> wait_queues cfg api w' \<and> wait_budget cfg env budget w'"
proof -
  obtain w' where w': "admit_request cfg api q r lk n pad acc w = Inr w'"
    and req: "requests (rn_sched w') = dict_set i (r\<lparr>req_status := RUNNING, num_computed_tokens := lk_computed lk\<rparr>) (requests (rn_sched w))"
    and failed: "failed_recving_kv_req_ids (rn_sched w') = failed_recving_kv_req_ids (rn_sched w)"
    and f: "step_skipped_waiting w' = step_skipped_waiting w" "token_budget w' = token_budget w - n"
      "num_scheduled_tokens w' = dict_set i n (num_scheduled_tokens w)"
      "prefill_tokens_scheduled w' = prefill_tokens_scheduled w + (if enable_decode_aware_prefill cfg then n else 0)"
      "scheduled_running_reqs w' = scheduled_running_reqs w"
      "length (scheduled_new_reqs w') + length (scheduled_resumed_reqs w')
         = length (scheduled_new_reqs w) + length (scheduled_resumed_reqs w) + 1"
    by (rule admit_request_fields [OF r])
  note q = admit_request_queues [OF w', unfolded r(2)]
  have qi: "queue_inv (merged w)" using inv by (simp add: wait_queues_def)
  note I = qi [unfolded queue_inv_def queue_inv_except_def, simplified]
  have out: "i \<notin> set (running (rn_sched w))" using queue_inv_running [OF qi, of i] r by auto
  have pop: "add_mset i (mset (queued (merged w'))) = mset (queued (merged w))"
    using mset_pop_merged [OF head, of "step_skipped_waiting w"] by (simp add: mset_queued_merged f q)
  then have "distinct (i # queued (merged w'))" "set (i # queued (merged w')) = set (queued (merged w))"
    using I mset_eq_imp_distinct_iff [of "i # queued (merged w')"] mset_eq_setD [of "i # queued (merged w')"] by auto
  then have qs: "distinct (queued (merged w'))" "set (queued (merged w')) = set (queued (merged w)) - {i}" by auto
  let ?st = "(merged w')\<lparr>requests := requests (rn_sched w), running := running (rn_sched w)\<rparr>"
  have queued: "queued ?st = queued (merged w')" by (simp add: queued_def)
  have "queue_inv_except {i} ?st"
    by (rule queue_inv_lift [OF qi [unfolded queue_inv_def]])
      (use I out qs r queued in \<open>auto simp: q with_status_def\<close>)
  then have "queue_inv_except {} (merged w')"
    by (rule queue_inv_place [where r = "r\<lparr>req_status := RUNNING, num_computed_tokens := lk_computed lk\<rparr>"])
      (use I out qs r req queued in \<open>auto simp: q waiting_status_def\<close>)
  moreover have "waiting_ok cfg api (rn_sched w')"
    by (rule waiting_ok_update [OF _ req]) (use inv failed in \<open>auto simp: wait_queues_def waiting_status_def\<close>)
  ultimately have "wait_queues cfg api w'" by (simp add: wait_queues_def queue_inv_def)
  moreover have "wait_budget cfg env budget w'"
  proof -
    have fresh: "i \<notin> set (dict_keys (num_scheduled_tokens w))" using b out by (auto simp: wait_budget_def)
    show ?thesis using b n room unfolding wait_budget_def f q dict_set_fresh [OF fresh] by (auto simp: fresh)
  qed
  ultimately show ?thesis using w' by blast
qed

lemma start_load_ok:
  assumes laws: "queue_laws (wlife api)" and inv: "wait_queues cfg api w" and b: "wait_budget cfg env budget w"
    and head: "waiting_head q (rn_sched w) = i # ids"
    and r: "dict_get (requests (rn_sched w)) i = Some r" "request_id r = i" "req_status r \<in> {WAITING, PREEMPTED}"
    and ok: "wait_ok cfg api (failed_recving_kv_req_ids (rn_sched w)) r"
    and lk: "lookup_fits api r lk" "lk_load_async lk"
  shows "wait_queues cfg api (start_load cfg api q r lk w)" "wait_budget cfg env budget (start_load cfg api q r lk w)"
proof -
  let ?w = "start_load cfg api q r lk w" and ?r = "r\<lparr>req_status := WAITING_FOR_REMOTE_KVS, num_computed_tokens := lk_computed lk\<rparr>"
  have req: "requests (rn_sched ?w) = dict_set i ?r (requests (rn_sched w))"
    using r by (simp add: start_load_def Let_def requests_mutate)
  have failed: "failed_recving_kv_req_ids (rn_sched ?w) = failed_recving_kv_req_ids (rn_sched w)"
    by (simp add: start_load_def Let_def mutate_def split: option.splits)
  have step: "step_skipped_waiting ?w = queue_prepend (sapi api) ?r (step_skipped_waiting w)" by (simp add: start_load_def Let_def)
  have m: "mset (queued (merged ?w)) = mset (queued (merged w))"
    using mset_pop_merged [OF head, of "step_skipped_waiting w"] r(2)
    by (simp add: mset_queued_merged start_load_queues step queue_prepend_perm [OF laws])
  show "wait_queues cfg api ?w"
    by (rule wait_queues_update [OF inv r(1) _ req _ _ _ _ _ m])
      (use r ok lk in \<open>auto simp: start_load_queues failed waiting_status_def is_finished_def wait_ok_def lookup_fits_def req_num_tokens_def\<close>)
  show "wait_budget cfg env budget ?w"
    using b by (simp add: wait_budget_def start_load_queues) (simp add: start_load_def Let_def)
qed

subsection \<open>One iteration and the loop\<close>

text \<open>The hypotheses on the managers and the configuration, in one place.\<close>

definition step_laws :: "sched_config \<Rightarrow> ('k, 'e) wait_api \<Rightarrow> bool" where
  "step_laws cfg api \<longleftrightarrow> queue_laws (wlife api) \<and> lookup_laws api \<and> window_ok (sapi api)
     \<and> 0 < cache_block_size cfg \<and> 0 < sched_block_size cfg \<and> 0 \<le> max_num_scheduled_tokens cfg"

lemma allocate_waiting_ok:
  assumes laws: "step_laws cfg api" and inv: "wait_queues cfg api w" and b: "wait_budget cfg env budget w"
    and head: "waiting_head q (rn_sched w) = i # ids"
    and r: "dict_get (requests (rn_sched w)) i = Some r" "request_id r = i" "req_status r \<in> {WAITING, PREEMPTED}"
    and ok: "wait_ok cfg api (failed_recving_kv_req_ids (rn_sched w)) r"
    and lk: "lookup_fits api r lk"
    and n: "if lk_load_async lk then n = 0 else 0 < n \<and> n \<le> token_budget w
         \<and> (enable_decode_aware_prefill cfg \<longrightarrow> n \<le> env_prefill_token_budget env - prefill_tokens_scheduled w)"
    and room: "int (length (running (rn_sched w))) < max_num_running_reqs cfg"
  shows "\<exists>v w'. allocate_waiting cfg api q r lk (n, pad, acc) w = Inr (v, w') \<and> wait_queues cfg api w' \<and> wait_budget cfg env budget w'
    \<and> v \<noteq> Skip"
proof -
  have frame: "wait_queues cfg api (w\<lparr>rn_kv := k, rn_enc := e\<rparr>)" "wait_budget cfg env budget (w\<lparr>rn_kv := k, rn_enc := e\<rparr>)" for k e
    using inv b by (simp_all add: wait_queues_def merged_def wait_budget_def)
  obtain granted k where a: "kv_allocate api r (waiting_slots cfg api r lk n acc (rn_sched w) (rn_kv w)) (rn_kv w) = (granted, k)"
    by fastforce
  let ?k = "if has_connector api then conn_update_state_after_alloc api r (kv_get_blocks api (request_id r) k) (lk_external lk) k else k"
  let ?w = "w\<lparr>rn_kv := ?k\<rparr>"
  have w: "wait_queues cfg api ?w" "wait_budget cfg env budget ?w" using frame [where k = ?k and e = "rn_enc w"] by simp_all
  show ?thesis
  proof (cases granted)
    case None
    with a frame [where k = k and e = "if has_encoder_inputs r then enc_free (sapi api) r (rn_enc w) else rn_enc w"] show ?thesis
      by (simp add: allocate_waiting_def)
  next
    case (Some bs)
    show ?thesis
    proof (cases "lk_load_async lk")
      case True
      have "wait_queues cfg api (start_load cfg api q r lk ?w)" "wait_budget cfg env budget (start_load cfg api q r lk ?w)"
        by (rule start_load_ok [OF _ w, of q i ids]; use laws head r ok lk True in \<open>simp add: step_laws_def\<close>)+
      with a Some True show ?thesis by (simp add: allocate_waiting_def Let_def)
    next
      case False
      have "\<exists>w'. admit_request cfg api q r lk n pad acc ?w = Inr w' \<and> wait_queues cfg api w' \<and> wait_budget cfg env budget w'"
        by (rule admit_request_ok [OF w, of q i ids]) (use head r n False room in auto)
      with a Some False show ?thesis by (auto simp: allocate_waiting_def Let_def)
    qed
  qed
qed

lemma schedule_promoted_ok:
  assumes laws: "step_laws cfg api" and inv: "wait_queues cfg api w" and b: "wait_budget cfg env budget w"
    and head: "waiting_head q (rn_sched w) = i # ids"
    and r: "dict_get (requests (rn_sched w)) i = Some r" "request_id r = i" "req_status r \<in> {WAITING, PREEMPTED}"
    and room: "int (length (running (rn_sched w))) < max_num_running_reqs cfg" and pos: "0 < token_budget w"
  shows "\<exists>v w'. schedule_promoted cfg api env q r w = Inr (v, w') \<and> wait_queues cfg api w' \<and> wait_budget cfg env budget w'
    \<and> (v = Skip \<longrightarrow> waiting_head q (rn_sched w') = i # ids)"
proof (cases "num_stale_output_tokens r > 0 \<and> \<not> drop_stale_output r \<or> lora_full cfg (scheduled_loras w) r")
  case True
  then have "schedule_promoted cfg api env q r w = Inr (Skip, w)" by (auto simp: schedule_promoted_def)
  with inv b head show ?thesis by blast
next
  case False
  have ws: "waiting_status (req_status r)" using r(3) by (auto simp: waiting_status_def is_finished_def)
  have ok: "wait_ok cfg api (failed_recving_kv_req_ids (rn_sched w)) r" using inv r(1) ws by (simp add: wait_queues_def waiting_ok_def)
  then have num: "0 < req_num_tokens r" "0 \<le> num_computed_tokens r" "num_computed_tokens r < req_num_tokens r"
    "is_encoder_decoder cfg \<longrightarrow> (\<forall>f \<in> set (mm_features r). mm_offset f = 0)"
    using r(3) by (auto simp: wait_ok_def)
  from laws have L: "lookup_laws api" "window_ok (sapi api)" "0 < cache_block_size cfg" "0 < sched_block_size cfg"
    by (simp_all add: step_laws_def)
  obtain r' found k e bd where c: "cached_tokens cfg api r (rn_kv w) (rn_enc w) = Inr ((r', found), k, e)"
    and r': "r' = r\<lparr>shared_prefix_boundary := bd\<rparr>" and fits: "\<And>lk. found = Some lk \<Longrightarrow> lookup_fits api r lk"
    by (rule cached_tokens_ok [OF L(1,4) num(1-3), of "rn_kv w" "rn_enc w"]) (rule that)
  have id': "request_id r' = i" "req_status r' \<in> {WAITING, PREEMPTED}" "req_num_tokens r' = req_num_tokens r"
    "mm_features r' = mm_features r" using r by (simp_all add: r' req_num_tokens_def)
  have ok': "wait_ok cfg api (failed_recving_kv_req_ids (rn_sched w)) r'"
    using ok r(3) by (auto simp: wait_ok_def r' req_num_tokens_def)
  define w1 where "w1 = w\<lparr>rn_kv := k, rn_enc := e, rn_sched := mutate i (\<lambda>_. r') (rn_sched w)\<rparr>"
  have failed1: "failed_recving_kv_req_ids (rn_sched w1) = failed_recving_kv_req_ids (rn_sched w)"
    by (simp add: w1_def mutate_def split: option.splits)
  have w1: "wait_queues cfg api w1"
    by (rule wait_queues_update [OF inv r(1) ws, where r' = r'])
      (use r ok' failed1 ws in \<open>auto simp: w1_def requests_mutate r' queued_def\<close>)
  have b1: "wait_budget cfg env budget w1" unfolding w1_def by (rule wait_budget_frame [OF b]) simp
  have f1: "dict_get (requests (rn_sched w1)) i = Some r'" "waiting_head q (rn_sched w1) = i # ids"
    "running (rn_sched w1) = running (rn_sched w)" "token_budget w1 = token_budget w"
    using r head by (auto simp: w1_def mutate_get waiting_head_def split: queue_choice.splits)
  have off: "(num_stale_output_tokens r > 0 \<and> \<not> drop_stale_output r) = False" "lora_full cfg (scheduled_loras w) r = False"
    using False by blast+
  have s: "schedule_promoted cfg api env q r w = (case found of None \<Rightarrow> Inr (Skip, w1)
       | Some lk \<Rightarrow> bindE (waiting_fitted cfg api env r' lk w1) (\<lambda>(new, e').
           case new of None \<Rightarrow> Inr (Stop, w1\<lparr>rn_enc := e'\<rparr>)
           | Some x \<Rightarrow> allocate_waiting cfg api q r' lk x (w1\<lparr>rn_enc := e'\<rparr>)))"
    unfolding schedule_promoted_def Let_def off if_False c bindE_Inr prod.case id'(1) w1_def [symmetric] ..
  have frame: "wait_queues cfg api (w1\<lparr>rn_enc := e'\<rparr>)" "wait_budget cfg env budget (w1\<lparr>rn_enc := e'\<rparr>)" for e'
    using w1 b1 by (simp_all add: wait_queues_def merged_def wait_budget_def)
  show ?thesis
  proof (cases found)
    case None
    with s w1 b1 f1 show ?thesis by simp
  next
    case (Some lk)
    have lk: "lookup_fits api r' lk" using fits [OF Some] by (simp add: lookup_fits_def id')
    have enc': "is_encoder_decoder cfg \<longrightarrow> (\<forall>f \<in> set (mm_features r'). mm_offset f = 0)" and pos1: "0 < token_budget w1"
      using num(4) pos f1(4) id'(4) by simp_all
    obtain new e' where wf: "waiting_fitted cfg api env r' lk w1 = Inr (new, e')"
      and new: "\<And>n pad acc. new = Some (n, pad, acc) \<Longrightarrow> (if lk_load_async lk then n = 0 else 0 < n \<and> n \<le> token_budget w1
         \<and> (enable_decode_aware_prefill cfg \<longrightarrow> n \<le> env_prefill_token_budget env - prefill_tokens_scheduled w1))"
      using waiting_fitted_ok [OF L(1-3) enc' lk pos1, of env] by blast
    show ?thesis
    proof (cases new)
      case None
      with s Some wf frame [of e'] show ?thesis by simp
    next
      case (Some x)
      obtain n pad acc where x: "x = (n, pad, acc)" by (cases x)
      have "\<exists>v w'. allocate_waiting cfg api q r' lk (n, pad, acc) (w1\<lparr>rn_enc := e'\<rparr>) = Inr (v, w')
          \<and> wait_queues cfg api w' \<and> wait_budget cfg env budget w' \<and> v \<noteq> Skip"
        by (rule allocate_waiting_ok [OF laws frame, where i = i and ids = ids])
          (use f1(1-3) id' ok' failed1 lk new [OF Some [unfolded x]] room in simp_all)
      with s \<open>found = Some lk\<close> wf Some x show ?thesis by auto
    qed
  qed
qed

lemma waiting_step_ok:
  assumes laws: "step_laws cfg api" and inv: "wait_queues cfg api w" and b: "wait_budget cfg env budget w"
    and ne: "waiting (rn_sched w) \<noteq> [] \<or> skipped_waiting (rn_sched w) \<noteq> []" and pos: "0 < token_budget w"
  shows "\<exists>go w'. waiting_step cfg api env w = Inr (go, w') \<and> wait_queues cfg api w' \<and> wait_budget cfg env budget w'"
proof (cases "int (length (running (rn_sched w))) + num_waiting_for_streaming_input (rn_sched w) \<ge> max_num_running_reqs cfg")
  case True
  with inv b show ?thesis by (intro exI [of _ False] exI [of _ w]) (simp add: waiting_step_def)
next
  case False
  have qi: "queue_inv (merged w)" using inv by (simp add: wait_queues_def)
  have "0 \<le> num_waiting_for_streaming_input (rn_sched w)" using qi by (simp add: queue_inv_def queue_inv_except_def)
  with False have room: "int (length (running (rn_sched w))) < max_num_running_reqs cfg" by linarith
  obtain q i ids where q: "select_waiting_queue_for_scheduling cfg (wlife api) (rn_sched w) = Some q"
    and head: "waiting_head q (rn_sched w) = i # ids" using select_some [OF ne] by blast
  obtain r where r: "dict_get (requests (rn_sched w)) i = Some r" "request_id r = i" "waiting_status (req_status r)"
    "wait_ok cfg api (failed_recving_kv_req_ids (rn_sched w)) r" by (rule head_stored [OF inv head])
  obtain ready w1 where p: "(if is_blocked_waiting_status (req_status r)
      then try_promote_blocked_waiting_request cfg (wlife api) r w else Inr (True, w)) = Inr (ready, w1)"
    and w1: "wait_queues cfg api w1" and po: "promoted_ok i ready w w1" using promote_ok [OF inv r] by blast
  obtain k st r1 where eq: "w1 = w\<lparr>rn_kv := k, rn_sched := st\<rparr>" and sq: "same_queues (rn_sched w) st"
    and r1: "dict_get (requests st) i = Some r1" "request_id r1 = i" "ready \<longrightarrow> req_status r1 \<in> {WAITING, PREEMPTED}"
    using po by (auto simp: promoted_ok_def)
  have head1: "waiting_head q (rn_sched w1) = i # ids" using waiting_head_same [OF sq, of q] head by (simp add: eq)
  have b1: "wait_budget cfg env budget w1" using b sq by (simp add: eq wait_budget_def same_queues_def)
  have f1: "running (rn_sched w1) = running (rn_sched w)" "token_budget w1 = token_budget w"
    using sq by (simp_all add: eq same_queues_def)
  have "\<exists>v w2. (if ready then (case dict_get (requests (rn_sched w1)) i of None \<Rightarrow> Inl (UnknownRequest i)
          | Some r \<Rightarrow> schedule_promoted cfg api env q r w1) else Inr (Skip, w1)) = Inr (v, w2)
      \<and> wait_queues cfg api w2 \<and> wait_budget cfg env budget w2 \<and> (v = Skip \<longrightarrow> waiting_head q (rn_sched w2) = i # ids)"
  proof (cases ready)
    case True
    with schedule_promoted_ok [OF laws w1 b1 head1, of r1] r1 room pos f1 show ?thesis by (simp add: eq)
  qed (use w1 b1 head1 in simp)
  then obtain v w2 where s: "(if ready then (case dict_get (requests (rn_sched w1)) i of None \<Rightarrow> Inl (UnknownRequest i)
          | Some r \<Rightarrow> schedule_promoted cfg api env q r w1) else Inr (Skip, w1)) = Inr (v, w2)"
    and w2: "wait_queues cfg api w2" "wait_budget cfg env budget w2" "v = Skip \<longrightarrow> waiting_head q (rn_sched w2) = i # ids" by blast
  have step: "waiting_step cfg api env w = (case v of Stop \<Rightarrow> Inr (False, w2) | Taken \<Rightarrow> Inr (True, w2)
      | Skip \<Rightarrow> (case dict_get (requests (rn_sched w2)) i of None \<Rightarrow> Inl (UnknownRequest i)
                  | Some r \<Rightarrow> Inr (True, skip_request api q r w2)))"
    unfolding waiting_step_def Let_def q using False head r(1) p s by simp
  show ?thesis
  proof (cases v)
    case Skip
    with w2 have head2: "waiting_head q (rn_sched w2) = i # ids" by simp
    obtain r2 where r2: "dict_get (requests (rn_sched w2)) i = Some r2" by (rule head_stored [OF w2(1) head2])
    have "wait_queues cfg api (skip_request api q r2 w2)"
      by (rule skip_request_queues [OF _ w2(1) head2 r2]) (use laws in \<open>simp add: step_laws_def\<close>)
    moreover have "wait_budget cfg env budget (skip_request api q r2 w2)" using w2(2) by (simp add: wait_budget_def skip_request_def)
    ultimately show ?thesis using step Skip r2 by auto
  qed (use step w2 in auto)
qed

lemma waiting_loop_ok:
  assumes "step_laws cfg api"
  shows "wait_queues cfg api w \<Longrightarrow> wait_budget cfg env budget w
    \<Longrightarrow> \<exists>w'. waiting_loop cfg api env w = Inr w' \<and> wait_queues cfg api w' \<and> wait_budget cfg env budget w'"
  using assms
proof (induction cfg api env w rule: waiting_loop.induct)
  case (1 cfg api env w)
  show ?case
  proof (cases "(waiting (rn_sched w) \<noteq> [] \<or> skipped_waiting (rn_sched w) \<noteq> []) \<and> token_budget w > 0")
    case True
    then obtain go w1 where s: "waiting_step cfg api env w = Inr (go, w1)" and w1: "wait_queues cfg api w1" "wait_budget cfg env budget w1"
      using waiting_step_ok [OF "1.prems"(3,1,2)] by blast
    show ?thesis
    proof (cases go)
      case True': True
      from "1.IH" [OF True s refl True' w1 "1.prems"(3)] s True True' show ?thesis
        by (simp add: waiting_loop.simps [of cfg api env w] del: waiting_loop.simps)
    qed (use s True w1 in \<open>simp add: waiting_loop.simps [of cfg api env w] del: waiting_loop.simps\<close>)
  next
    case False
    then have "waiting_loop cfg api env w = Inr w" by (subst waiting_loop.simps) (simp only: if_False)
    with "1.prems" show ?thesis by simp
  qed
qed

subsection \<open>The two halves together\<close>

lemma initial_wait_simps [simp]:
  "rn_sched (initial_wait cfg rn) = rn_sched rn" "step_skipped_waiting (initial_wait cfg rn) = []"
  "token_budget (initial_wait cfg rn) = token_budget rn" "num_scheduled_tokens (initial_wait cfg rn) = num_scheduled_tokens rn"
  "prefill_tokens_scheduled (initial_wait cfg rn) = prefill_tokens_scheduled rn"
  "scheduled_running_reqs (initial_wait cfg rn) = scheduled_running_reqs rn"
  "scheduled_new_reqs (initial_wait cfg rn) = []" "scheduled_resumed_reqs (initial_wait cfg rn) = []"
  by (simp_all add: initial_wait_def run.defs)

lemma initial_wait_budget:
  assumes lists: "lists_inv st rn" and b: "budget_inv cfg env st budget rn"
    and room: "int (length (running st)) \<le> max_num_running_reqs cfg"
  shows "wait_budget cfg env budget (initial_wait cfg rn)"
proof -
  have "card (set (running (rn_sched rn))) \<le> card (set (running st))"
    using lists by (intro card_mono) (auto simp: lists_inv_def)
  then have "length (running (rn_sched rn)) \<le> length (running st)"
    using lists card_length [of "running st"] distinct_card [of "running (rn_sched rn)"] by (simp add: lists_inv_def)
  moreover have "length (num_scheduled_tokens rn) = length (scheduled_running_reqs rn)"
    using lists by (metis dict_keys_def length_map lists_inv_def)
  ultimately show ?thesis
    using lists b room by (auto simp: wait_budget_def lists_inv_def budget_inv_def dest: in_set_takeD)
qed

lemma initial_wait_queues:
  assumes half: "half_inv st rn" and ok: "waiting_ok cfg api st" and none: "preempted_reqs rn = []"
  shows "wait_queues cfg api (initial_wait cfg rn)"
proof -
  let ?st = "rn_sched rn"
  have q: "queue_inv ?st" and run: "running ?st = running st" using half none by (simp_all add: half_inv_def)
  have "wait_ok cfg api (failed_recving_kv_req_ids ?st) r"
    if "dict_get (requests ?st) i = Some r" "waiting_status (req_status r)" for i r
  proof -
    have "i \<notin> set (running st)" using queue_inv_running [OF q, of i] run that by (auto simp: waiting_status_def)
    with half that(1) have "dict_get (requests st) i = Some r" by (simp add: half_inv_def)
    with ok that(2) half show ?thesis by (simp add: waiting_ok_def half_inv_def)
  qed
  then have "waiting_ok cfg api ?st" by (simp add: waiting_ok_def)
  moreover have "queue_inv (merged (initial_wait cfg rn))"
    using q queue_inv_cong [of "merged (initial_wait cfg rn)" ?st] by (simp add: same_queues_def)
  ultimately show ?thesis by (simp add: wait_queues_def)
qed

lemma requeue_skipped_ok:
  assumes laws: "lookup_laws api" and inv: "wait_queues cfg api w" and b: "wait_budget cfg env budget w"
  shows "queue_inv (rn_sched (requeue_skipped api env w))" and "wait_budget cfg env budget (requeue_skipped api env w)"
proof -
  let ?st = "rn_sched (requeue_skipped api env w)"
  have qi: "queue_inv (merged w)" using inv by (simp add: wait_queues_def)
  note I = qi [unfolded queue_inv_def queue_inv_except_def, simplified]
  have f: "requests ?st = requests (rn_sched w)" "running ?st = running (rn_sched w)"
    "num_waiting_for_streaming_input ?st = num_waiting_for_streaming_input (rn_sched w)"
    by (simp_all add: requeue_skipped_def Let_def)
  have m: "mset (queued ?st) = mset (queued (merged w))"
    by (simp add: requeue_skipped_def Let_def queued_def lookup_laws_prepend [OF laws])
  have "distinct (queued ?st)" "set (queued ?st) = set (queued (merged w))"
    using I mset_eq_imp_distinct_iff [OF m] mset_eq_setD [OF m] by simp_all
  moreover have "with_status P ?st = with_status P (merged w)" for P by (rule with_status_cong) (simp add: f)
  ultimately show "queue_inv ?st" using I f by (simp add: queue_inv_def queue_inv_except_def)
  show "wait_budget cfg env budget (requeue_skipped api env w)"
    using b f(2) by (simp add: wait_budget_def) (simp add: requeue_skipped_def Let_def)
qed

lemma schedule_waiting_ok:
  assumes laws: "step_laws cfg api" and half: "half_inv st rn" and ok: "waiting_ok cfg api st" and lora: "max_loras cfg = None"
    and b: "wait_budget cfg env budget (initial_wait cfg rn)"
  shows "\<exists>w. schedule_waiting cfg api env rn = Inr w \<and> queue_inv (rn_sched w) \<and> wait_budget cfg env budget w"
proof (cases "preempted_reqs rn = [] \<and> sched_pause_state (rn_sched rn) = UNPAUSED")
  case True
  obtain w where w: "waiting_loop cfg api env (initial_wait cfg rn) = Inr w" "wait_queues cfg api w" "wait_budget cfg env budget w"
    using waiting_loop_ok [OF laws initial_wait_queues [OF half ok] b] True by blast
  have "schedule_waiting cfg api env rn = Inr (requeue_skipped api env w)"
    using True lora w(1) by (simp add: schedule_waiting_def raiseIf_def del: waiting_loop.simps)
  with requeue_skipped_ok [OF _ w(2,3)] laws show ?thesis by (simp add: step_laws_def)
next
  case False
  then have "schedule_waiting cfg api env rn = Inr (initial_wait cfg rn)"
    using lora by (auto simp: schedule_waiting_def raiseIf_def simp del: waiting_loop.simps)
  with half b show ?thesis by (simp add: half_inv_def)
qed

subsection \<open>The end of the step\<close>

lemma release_copies_frame [simp]:
  fixes w :: "('k, 'e) wait"
  shows "rn_sched (release_copies cfg api w) = rn_sched w"
    "num_scheduled_tokens (release_copies cfg api w) = num_scheduled_tokens w"
  by (auto simp: release_copies_def free_cow_retained_blocks_def Let_def split: prod.splits)

lemma debit_frame:
  "requests (debit_unused_long_prefill_turns cfg sel ns d st) = requests st"
  "same_queues st (debit_unused_long_prefill_turns cfg sel ns d st)"
proof -
  have "requests (fold (debit_one ns) sel st) = requests st \<and> same_queues st (fold (debit_one ns) sel st)" for st
  proof (induction sel arbitrary: st)
    case (Cons i sel)
    have "requests (debit_one ns i st) = requests st" "same_queues st (debit_one ns i st)"
      by (simp_all add: debit_one_def same_queues_def)
    with Cons [of "debit_one ns i st"] show ?case by (simp add: same_queues_def)
  qed simp
  then show "requests (debit_unused_long_prefill_turns cfg sel ns d st) = requests st"
    "same_queues st (debit_unused_long_prefill_turns cfg sel ns d st)"
    by (simp_all add: debit_unused_long_prefill_turns_def)
qed

lemma build_output_frame:
  assumes "build_output cfg api k w = (out, w')"
  shows "num_scheduled_tokens w' = num_scheduled_tokens w" "out_num_scheduled_tokens out = num_scheduled_tokens w"
    "requests (rn_sched w') = requests (rn_sched w)" "same_queues (rn_sched w) (rn_sched w')"
  using assms by (auto simp: build_output_def get_new_block_ids_to_zero_def output_of_def Let_def same_queues_def split: prod.splits if_splits)

lemma after_schedule_ok:
  assumes "queue_inv st" and "\<forall>p \<in> set ns. \<exists>r. dict_get (requests st) (fst p) = Some r"
  shows "\<exists>s' st'. foldE (after_schedule_one cfg) ns (s, st) = Inr (s', st') \<and> queue_inv st' \<and> same_queues st st'"
  using assms
proof (induction ns arbitrary: s st)
  case (Cons p ns)
  obtain i n where p: "p = (i, n)" by (cases p)
  obtain r where r: "dict_get (requests st) i = Some r" using Cons.prems(2) p by auto
  let ?r = "advance_request cfg (sched_step_seq st) n r"
  have keep: "request_id ?r = request_id r" "req_status ?r = req_status r" by (simp_all add: advance_request_def Let_def)
  obtain s1 st1 where one: "after_schedule_one cfg p (s, st) = Inr (s1, st1)" by (simp add: after_schedule_one_def p r Let_def)
  then have st1: "requests st1 = dict_set i ?r (requests st)" "same_queues st st1"
    using r by (auto simp: after_schedule_one_def p Let_def requests_mutate same_queues_def split: if_splits)
  have "queue_inv st1"
    unfolding queue_inv_def by (rule queue_inv_update [OF _ st1(2) r st1(1)]) (use Cons.prems(1) keep in \<open>simp_all add: queue_inv_def\<close>)
  moreover have "\<forall>p \<in> set ns. \<exists>r. dict_get (requests st1) (fst p) = Some r"
    using Cons.prems(2) by (auto simp: st1(1) dict_get_set)
  ultimately obtain s' st' where "foldE (after_schedule_one cfg) ns (s1, st1) = Inr (s', st')" "queue_inv st'" "same_queues st1 st'"
    using Cons.IH by blast
  with one st1(2) show ?case by (auto simp: same_queues_def)
qed simp

lemma finish_step_ok:
  assumes inv: "queue_inv (rn_sched w)" and keys: "set (dict_keys ns) \<subseteq> set (running (rn_sched w))"
  shows "\<exists>b w'. finish_step cfg ns w = Inr (b, w') \<and> queue_inv (rn_sched w') \<and> running (rn_sched w') = running (rn_sched w)"
proof -
  let ?st = "rn_sched w"
  define st1 where "st1 = (if defer_block_free cfg \<and> sum_list (map snd ns) > 0 then ?st\<lparr>sched_step_seq := sched_step_seq ?st + 1\<rparr> else ?st)"
  have st1: "requests st1 = requests ?st" "same_queues ?st st1" by (simp_all add: st1_def same_queues_def)
  have "queue_inv st1" using inv queue_inv_cong [OF st1] by simp
  moreover have "\<forall>p \<in> set ns. \<exists>r. dict_get (requests st1) (fst p) = Some r"
    using queue_inv_running [OF inv] keys by (fastforce simp: st1(1) dict_keys_def)
  ultimately obtain s' st' where f: "foldE (after_schedule_one cfg) ns (False, st1) = Inr (s', st')" "queue_inv st'" "same_queues st1 st'"
    using after_schedule_ok by blast
  have fs: "finish_step cfg ns w = Inr (s', w\<lparr>rn_sched := st'\<lparr>finished_req_ids := [], reset_preempted_req_ids := []\<rparr>\<rparr>)"
    using f(1) by (simp add: finish_step_def update_after_schedule_def Let_def st1_def)
  have "queue_inv (st'\<lparr>finished_req_ids := [], reset_preempted_req_ids := []\<rparr>)"
    using f(2) queue_inv_cong [of "st'\<lparr>finished_req_ids := [], reset_preempted_req_ids := []\<rparr>" st'] by (simp add: same_queues_def)
  with fs f(3) st1(2) show ?thesis by (simp add: same_queues_def)
qed

lemma emit_step_ok:
  assumes inv: "queue_inv (rn_sched w)" and keys: "set (dict_keys (num_scheduled_tokens w)) \<subseteq> set (running (rn_sched w))"
  shows "\<exists>out w'. emit_step cfg api controller lookup env w = Inr (out, w') \<and> queue_inv (rn_sched w')
    \<and> running (rn_sched w') = running (rn_sched w) \<and> out_num_scheduled_tokens out = num_scheduled_tokens w"
proof -
  define w1 where "w1 = release_copies cfg (blocks (wlife api)) (if has_connector api \<and> is_kv_producer api
      then w\<lparr>rn_kv := kv_take_partial_tail_offloads api (rn_kv w)\<rparr> else w)"
  define w2 where "w2 = w1\<lparr>rn_sched := debit_unused_long_prefill_turns cfg (env_selected env) (num_scheduled_tokens w1)
      (env_defer_prefills env) (rn_sched w1)\<rparr>"
  have f1: "rn_sched w1 = rn_sched w" "num_scheduled_tokens w1 = num_scheduled_tokens w" by (simp_all add: w1_def)
  have f2: "requests (rn_sched w2) = requests (rn_sched w)" "same_queues (rn_sched w) (rn_sched w2)"
    "num_scheduled_tokens w2 = num_scheduled_tokens w" using debit_frame f1 by (simp_all add: w2_def)
  let ?k = "num_spec_tokens_to_schedule (cfg_num_spec_tokens cfg) controller lookup (length (num_scheduled_tokens w1))"
  obtain out w3 where bo: "build_output cfg api ?k w2 = (out, w3)" by fastforce
  note f3 = build_output_frame [OF bo]
  have same: "requests (rn_sched w3) = requests (rn_sched w)" "same_queues (rn_sched w) (rn_sched w3)"
    using f2 f3 by (simp_all add: same_queues_def)
  have q3: "queue_inv (rn_sched w3)" "running (rn_sched w3) = running (rn_sched w)"
    using inv queue_inv_cong [OF same] same(2) by (simp_all add: same_queues_def)
  have keys3: "set (dict_keys (num_scheduled_tokens w3)) \<subseteq> set (running (rn_sched w3))"
    using keys f2 f3 q3 by simp
  obtain fl w4 where fin: "finish_step cfg (num_scheduled_tokens w3) w3 = Inr (fl, w4)" "queue_inv (rn_sched w4)"
    "running (rn_sched w4) = running (rn_sched w3)" using finish_step_ok [OF q3(1) keys3, of cfg] by blast
  have "emit_step cfg api controller lookup env w = Inr (out, w4)"
    unfolding emit_step_def Let_def w1_def [symmetric] w2_def [symmetric] bo prod.case fin(1) bindE_Inr ..
  with f2(3) f3(2) fin(2,3) q3(2) show ?thesis by simp
qed

text \<open>
  C2: a whole scheduling step. From a consistent scheduler, with managers and connectors that keep their
  contracts and without adapters, \<^verbatim>\<open>schedule\<close> returns: neither loop runs forever and no assertion of either half or
  of the end of the step fires, whatever is cached, loaded, preempted, blocked or refused. The tokens given
  out stay within the budget, every scheduled request gets at least one and is running, there are never more
  running requests than allowed, and every unfinished request is again in exactly one queue.
\<close>

theorem schedule_sound:
  assumes laws: "step_laws cfg api" and lora: "max_loras cfg = None"
    and q: "queue_inv (rn_sched c)" and run: "running_ok cfg (rn_sched c)" and wait: "waiting_ok cfg api (rn_sched c)"
    and room: "int (length (running (rn_sched c))) \<le> max_num_running_reqs cfg"
  shows "\<exists>out w. schedule cfg api controller lookup throttle c = Inr (out, w)
    \<and> queue_inv (rn_sched w)
    \<and> sum_list (map snd (out_num_scheduled_tokens out)) \<le> max_num_scheduled_tokens cfg
    \<and> (\<forall>p \<in> set (out_num_scheduled_tokens out). 0 < snd p)
    \<and> distinct (dict_keys (out_num_scheduled_tokens out))
    \<and> set (dict_keys (out_num_scheduled_tokens out)) \<subseteq> set (running (rn_sched w))
    \<and> int (length (running (rn_sched w))) \<le> max_num_running_reqs cfg"
proof -
  let ?st = "rn_sched c"
  from laws have L: "queue_laws (wlife api)" "window_ok (sapi api)" "0 < cache_block_size cfg" "0 \<le> max_num_scheduled_tokens cfg"
    by (simp_all add: step_laws_def)
  let ?B = "if sched_pause_state ?st = PAUSED_ALL then 0 else max_num_scheduled_tokens cfg"
  obtain env rn stamps where s: "schedule_running cfg (sapi api) throttle ?st (rn_kv c) (rn_enc c) (deferred_frees c) = Inr (env, rn)"
    and loop: "running_loop cfg (sapi api) env (initial_run cfg (?st\<lparr>current_step := current_step ?st + 1,
        long_prefill_last_scheduled := stamps\<rparr>) (kv_new_step (sapi api) (rn_kv c)) (rn_enc c) (deferred_frees c)) = Inr rn"
    and lists: "lists_inv ?st rn" and b: "budget_inv cfg env ?st ?B rn"
    by (rule schedule_running_parts [OF run L(2-4)])
  have "half_inv ?st rn"
    by (rule running_loop_half [OF L(1) _ loop])
      (use q queue_inv_cong [of "?st\<lparr>current_step := current_step ?st + 1, long_prefill_last_scheduled := stamps\<rparr>" ?st]
       in \<open>simp add: half_inv_def initial_run_def same_queues_def\<close>)
  then obtain w where w: "schedule_waiting cfg api env rn = Inr w" "queue_inv (rn_sched w)" "wait_budget cfg env ?B w"
    using schedule_waiting_ok [OF laws _ wait lora initial_wait_budget [OF lists b room]] by blast
  have keys: "length (num_scheduled_tokens w) \<le> length (running (rn_sched w))"
    using w(3) card_mono [of "set (running (rn_sched w))" "set (dict_keys (num_scheduled_tokens w))"]
      distinct_card [of "dict_keys (num_scheduled_tokens w)"] card_length [of "running (rn_sched w)"]
    by (simp add: wait_budget_def dict_keys_def)
  have check: "check_step cfg w = Inr ()"
    using w(3) L(4) keys by (auto simp: check_step_def wait_budget_def raiseIf_def split: if_splits)
  have "set (dict_keys (num_scheduled_tokens w)) \<subseteq> set (running (rn_sched w))" using w(3) by (simp add: wait_budget_def)
  from emit_step_ok [OF w(2) this] obtain out w4 where em: "emit_step cfg api controller lookup env w = Inr (out, w4)"
    and fin: "queue_inv (rn_sched w4)" "running (rn_sched w4) = running (rn_sched w)"
      "out_num_scheduled_tokens out = num_scheduled_tokens w" by blast
  have "schedule cfg api controller lookup throttle c = Inr (out, w4)"
    unfolding schedule_def s w(1) check em bindE_Inr prod.case ..
  moreover have "sum_list (map snd (num_scheduled_tokens w)) \<le> max_num_scheduled_tokens cfg"
    using w(3) L(4) by (auto simp: wait_budget_def split: if_splits)
  ultimately show ?thesis
    using w(3) fin by (intro exI [of _ out] exI [of _ w4]) (simp add: wait_budget_def)
qed

text \<open>One decoding request and two waiting ones of which all but the last token are cached.\<close>

definition cached_api :: "(ref_pool, unit) wait_api" where
  "cached_api = granting_api (\<lambda>r. req_num_tokens r - 1)"

lemma padded_get:
  "dict_get (requests (rn_sched padded_core)) i =
     (if i = ''a'' then Some (long_request ''a'' RUNNING 1\<lparr>all_token_ids := replicate 101 7, num_computed_tokens := 100, is_prefill_chunk := False\<rparr>)
      else if i = ''b'' then Some (long_request ''b'' WAITING 2\<lparr>num_computed_tokens := 0\<rparr>)
      else if i = ''c'' then Some (long_request ''c'' WAITING 3\<lparr>num_computed_tokens := 0\<rparr>) else None)"
  by (simp add: padded_core_def core_with_def dict_get_def)

lemma padded_lists:
  "running (rn_sched padded_core) = [''a'']" "queued (rn_sched padded_core) = [''b'', ''c'']"
  "dict_keys (requests (rn_sched padded_core)) = [''a'', ''b'', ''c'']"
  "num_waiting_for_streaming_input (rn_sched padded_core) = 0" "failed_recving_kv_req_ids (rn_sched padded_core) = []"
  by (simp_all add: padded_core_def core_with_def turn_state_def queued_def dict_keys_def)

lemma padded_inv: "queue_inv (rn_sched padded_core)"
proof -
  have "with_status P (rn_sched padded_core) = (if P RUNNING then {''a''} else {}) \<union> (if P WAITING then {''b'', ''c''} else {})" for P
  proof -
    have "i \<in> with_status P (rn_sched padded_core) \<longleftrightarrow> (i = ''a'' \<and> P RUNNING) \<or> (i \<in> {''b'', ''c''} \<and> P WAITING)" for i
      by (auto simp: with_status_def padded_get long_request_def)
    then show ?thesis by auto
  qed
  then show ?thesis
    by (auto simp: queue_inv_def queue_inv_except_def padded_lists padded_get long_request_def waiting_status_def is_finished_def
        split: if_splits)
qed

theorem schedule_sound_witness:
  "\<exists>out w. schedule padded_config cached_api None None False padded_core = Inr (out, w)
     \<and> queue_inv (rn_sched w) \<and> dict_keys (out_num_scheduled_tokens out) = [''a'', ''b'', ''c'']
     \<and> sum_list (map snd (out_num_scheduled_tokens out)) \<le> 64"
proof -
  have laws: "step_laws padded_config cached_api"
    by (simp add: step_laws_def queue_laws_def lookup_laws_def window_ok_def cached_api_def granting_api_def granting_life_def fifo_life_def
        ref_api_def mset_filter padded_config_def turn_config_def split_config_def)
  have run: "running_ok padded_config (rn_sched padded_core)"
    by (simp add: running_ok_def padded_lists padded_get request_ok_def long_request_def sample_request_def num_tokens_with_spec_def
        req_num_tokens_def padded_config_def turn_config_def split_config_def)
  have wait: "waiting_ok padded_config cached_api (rn_sched padded_core)"
    by (auto simp: waiting_ok_def padded_get wait_ok_def padded_lists long_request_def sample_request_def req_num_tokens_def
        waiting_status_def split: if_splits)
  have cfg: "max_loras padded_config = None" "int (length (running (rn_sched padded_core))) \<le> max_num_running_reqs padded_config"
    "max_num_scheduled_tokens padded_config = 64"
    by (simp_all add: padded_config_def turn_config_def split_config_def padded_lists)
  have "(case schedule padded_config cached_api None None False padded_core of Inl _ \<Rightarrow> None
      | Inr (out, _) \<Rightarrow> Some (dict_keys (out_num_scheduled_tokens out))) = Some [''a'', ''b'', ''c'']" by code_simp
  with schedule_sound [OF laws cfg(1) padded_inv run wait cfg(2), of None None False] cfg(3) show ?thesis by auto
qed

end
