(* ===== verification/PyValue.thy ===== *)
theory PyValue
  imports Json Float64 "HOL-Library.List_Lexorder" "HOL-Library.Char_ord" "HOL-Library.Multiset"
begin

text \<open>
  The Python operations the evidence evaluators apply to decoded JSON: truth values, numbers
  (unbounded integers, finite floats, the three special floats) with exact comparison and
  binary64 subtraction, equality and ordering of values, and \<^verbatim>\<open>sorted\<close> with a key.

  Every \<^verbatim>\<open>NaN\<close> that \<^verbatim>\<open>json.loads\<close> returns is one object, and the elements of containers are
  compared by identity before equality; so NaN differs from NaN as a value and equals it as
  an element.
\<close>

datatype py_error = TypeError | KeyError | IndexError | AttributeError | OverflowError | StatisticsError

subsection \<open>Numbers\<close>

datatype pynum = PInt int | PFloat rat | PSpecial nonfinite

text \<open>\<^verbatim>\<open>isinstance(value, (int, float))\<close>, with the value as a number.\<close>

fun num_of :: "json \<Rightarrow> pynum option" where
  "num_of (JInt n) = Some (PInt n)"
| "num_of (JBool b) = Some (PInt (if b then 1 else 0))"
| "num_of (JFloat x) = Some (PFloat x)"
| "num_of (JNonFinite k) = Some (PSpecial k)"
| "num_of _ = None"

abbreviation NAN :: pynum where
  "NAN \<equiv> PSpecial NaN"

text \<open>The value of a finite number, and the position of a number among the infinities.\<close>

fun num_val :: "pynum \<Rightarrow> rat" where
  "num_val (PInt n) = of_int n"
| "num_val (PFloat x) = x"
| "num_val (PSpecial k) = 0"

fun num_rank :: "pynum \<Rightarrow> int" where
  "num_rank (PSpecial k) = (case k of NegInf \<Rightarrow> - 1 | PosInf \<Rightarrow> 1 | NaN \<Rightarrow> 0)"
| "num_rank _ = 0"

fun is_finite :: "pynum \<Rightarrow> bool" where
  "is_finite (PSpecial k) = False"
| "is_finite _ = True"

definition num_less :: "pynum \<Rightarrow> pynum \<Rightarrow> bool" where
  "num_less a b \<longleftrightarrow> a \<noteq> NAN \<and> b \<noteq> NAN \<and>
     (num_rank a < num_rank b \<or> is_finite a \<and> is_finite b \<and> num_val a < num_val b)"

definition num_eq :: "pynum \<Rightarrow> pynum \<Rightarrow> bool" where
  "num_eq a b \<longleftrightarrow> a \<noteq> NAN \<and> b \<noteq> NAN \<and>
     num_rank a = num_rank b \<and> is_finite a = is_finite b \<and> num_val a = num_val b"

text \<open>
  A float result: rounded to nearest, infinite from \<open>2 ^ 1024\<close> on. \<^verbatim>\<open>float(n)\<close> of an integer
  that rounds beyond the range raises \<^verbatim>\<open>OverflowError\<close>.
\<close>

definition in_range :: "rat \<Rightarrow> bool" where
  "in_range r \<longleftrightarrow> r = 0 \<or> ilog2 \<bar>r\<bar> < 1024"

definition float_result :: "rat \<Rightarrow> pynum" where
  "float_result x = (let r = fl x in
     if in_range r then PFloat r else PSpecial (if 0 < r then PosInf else NegInf))"

fun to_float :: "pynum \<Rightarrow> pynum option" where
  "to_float (PInt n) = (let r = fl (of_int n) in if in_range r then Some (PFloat r) else None)"
| "to_float x = Some x"

fun num_neg :: "pynum \<Rightarrow> pynum" where
  "num_neg (PInt n) = PInt (- n)"
| "num_neg (PFloat x) = PFloat (- x)"
| "num_neg (PSpecial k) = PSpecial (case k of NegInf \<Rightarrow> PosInf | PosInf \<Rightarrow> NegInf | NaN \<Rightarrow> NaN)"

fun float_sub :: "pynum \<Rightarrow> pynum \<Rightarrow> pynum" where
  "float_sub (PSpecial k) (PSpecial l) = (if k = l then NAN else if k = NaN then NAN else if l = NaN then NAN else PSpecial k)"
| "float_sub (PSpecial k) y = PSpecial k"
| "float_sub x (PSpecial l) = num_neg (PSpecial l)"
| "float_sub x y = float_result (num_val x - num_val y)"

fun num_sub :: "pynum \<Rightarrow> pynum \<Rightarrow> pynum option" where
  "num_sub (PInt a) (PInt b) = Some (PInt (a - b))"
| "num_sub x y = (case to_float x of None \<Rightarrow> None
     | Some x' \<Rightarrow> (case to_float y of None \<Rightarrow> None | Some y' \<Rightarrow> Some (float_sub x' y')))"

fun num_abs :: "pynum \<Rightarrow> pynum" where
  "num_abs (PInt n) = PInt \<bar>n\<bar>"
| "num_abs (PFloat x) = PFloat \<bar>x\<bar>"
| "num_abs (PSpecial k) = PSpecial (case k of NegInf \<Rightarrow> PosInf | PosInf \<Rightarrow> PosInf | NaN \<Rightarrow> NaN)"

lemma num_less_NaN [simp]: "\<not> num_less NAN b" "\<not> num_less a NAN"
  by (simp_all add: num_less_def)

lemma num_less_finite: "is_finite a \<Longrightarrow> is_finite b \<Longrightarrow> num_less a b \<longleftrightarrow> num_val a < num_val b"
  by (cases a; cases b) (simp_all add: num_less_def)

subsection \<open>Values\<close>

text \<open>\<^verbatim>\<open>d.get(key)\<close>: the absent member is \<^verbatim>\<open>None\<close>, which is also the value of a null.\<close>

definition get_or_none :: "jobject \<Rightarrow> string \<Rightarrow> json" where
  "get_or_none d k = (case dict_get d k of None \<Rightarrow> JNull | Some v \<Rightarrow> v)"

fun hashable :: "json \<Rightarrow> bool" where
  "hashable (JArr js) = False"
| "hashable (JObj d) = False"
| "hashable _ = True"

text \<open>\<^verbatim>\<open>a == b\<close>; \<open>items_eq\<close> and \<open>members_eq\<close> compare containers element by element.\<close>

fun py_eq :: "json \<Rightarrow> json \<Rightarrow> bool"
  and items_eq :: "json list \<Rightarrow> json list \<Rightarrow> bool"
  and members_eq :: "(string \<times> json) list \<Rightarrow> jobject \<Rightarrow> bool" where
  "py_eq (JStr s) b = (b = JStr s)"
| "py_eq JNull b = (b = JNull)"
| "py_eq (JArr xs) b = (case b of JArr ys \<Rightarrow> items_eq xs ys | _ \<Rightarrow> False)"
| "py_eq (JObj d) b = (case b of JObj e \<Rightarrow> length d = length e \<and> members_eq d e | _ \<Rightarrow> False)"
| "py_eq (JInt n) b = (case num_of b of None \<Rightarrow> False | Some m \<Rightarrow> num_eq (PInt n) m)"
| "py_eq (JBool t) b = (case num_of b of None \<Rightarrow> False | Some m \<Rightarrow> num_eq (PInt (if t then 1 else 0)) m)"
| "py_eq (JFloat x) b = (case num_of b of None \<Rightarrow> False | Some m \<Rightarrow> num_eq (PFloat x) m)"
| "py_eq (JNonFinite k) b = (case num_of b of None \<Rightarrow> False | Some m \<Rightarrow> num_eq (PSpecial k) m)"
| "items_eq [] ys = (ys = [])"
| "items_eq (x # xs) ys = (case ys of [] \<Rightarrow> False
     | y # ys' \<Rightarrow> (x = JNonFinite NaN \<and> y = JNonFinite NaN \<or> py_eq x y) \<and> items_eq xs ys')"
| "members_eq [] e = True"
| "members_eq ((k, v) # d) e = (case dict_get e k of None \<Rightarrow> False
     | Some w \<Rightarrow> (v = JNonFinite NaN \<and> w = JNonFinite NaN \<or> py_eq v w) \<and> members_eq d e)"

definition item_eq :: "json \<Rightarrow> json \<Rightarrow> bool" where
  "item_eq a b \<longleftrightarrow> a = JNonFinite NaN \<and> b = JNonFinite NaN \<or> py_eq a b"

text \<open>\<^verbatim>\<open>a < b\<close>; \<open>None\<close> is \<^verbatim>\<open>TypeError\<close>.\<close>

fun py_less :: "json \<Rightarrow> json \<Rightarrow> bool option"
  and items_less :: "json list \<Rightarrow> json list \<Rightarrow> bool option" where
  "py_less (JStr s) b = (case b of JStr t \<Rightarrow> Some (s < t) | _ \<Rightarrow> None)"
| "py_less JNull b = None"
| "py_less (JArr xs) b = (case b of JArr ys \<Rightarrow> items_less xs ys | _ \<Rightarrow> None)"
| "py_less (JObj d) b = None"
| "py_less (JInt n) b = map_option (num_less (PInt n)) (num_of b)"
| "py_less (JBool t) b = map_option (num_less (PInt (if t then 1 else 0))) (num_of b)"
| "py_less (JFloat x) b = map_option (num_less (PFloat x)) (num_of b)"
| "py_less (JNonFinite k) b = map_option (num_less (PSpecial k)) (num_of b)"
| "items_less [] ys = Some (ys \<noteq> [])"
| "items_less (x # xs) ys = (case ys of [] \<Rightarrow> Some False
     | y # ys' \<Rightarrow> if item_eq x y then items_less xs ys' else py_less x y)"

subsection \<open>Sorting\<close>

text \<open>
  \<^verbatim>\<open>sorted(xs, key=...)\<close>: stable insertion by a comparison that may raise. The result is
  Python's wherever the comparison is an order.
\<close>

fun py_insort :: "('a \<Rightarrow> 'a \<Rightarrow> 'e + bool) \<Rightarrow> 'a \<Rightarrow> 'a list \<Rightarrow> 'e + 'a list" where
  "py_insort lt x [] = Inr [x]"
| "py_insort lt x (y # ys) =
     bindE (lt x y) (\<lambda>b. if b then Inr (x # y # ys) else bindE (py_insort lt x ys) (\<lambda>zs. Inr (y # zs)))"

definition py_sorted :: "('a \<Rightarrow> 'a \<Rightarrow> 'e + bool) \<Rightarrow> 'a list \<Rightarrow> 'e + 'a list" where
  "py_sorted lt xs = foldE (py_insort lt) xs []"

lemma py_insort_mset: "py_insort lt x ys = Inr zs \<Longrightarrow> mset zs = add_mset x (mset ys)"
  by (induction lt x ys arbitrary: zs rule: py_insort.induct)
    (auto simp: bindE_eq_Inr split: if_splits)

lemma py_sorted_mset: "py_sorted lt xs = Inr ys \<Longrightarrow> mset ys = mset xs"
proof -
  have "foldE (py_insort lt) xs acc = Inr ys \<Longrightarrow> mset ys = mset xs + mset acc" for acc
    by (induction xs arbitrary: acc) (auto simp: bindE_eq_Inr dest!: py_insort_mset)
  then show "py_sorted lt xs = Inr ys \<Longrightarrow> mset ys = mset xs" by (simp add: py_sorted_def)
qed

text \<open>Where the comparison is that of a linear order, the result is sorted.\<close>

locale total_comparison =
  fixes lt :: "'a \<Rightarrow> 'a \<Rightarrow> 'e + bool" and rank :: "'a \<Rightarrow> 'k :: linorder" and dom :: "'a \<Rightarrow> bool"
  assumes lt_rank: "dom x \<Longrightarrow> dom y \<Longrightarrow> lt x y = Inr (rank x < rank y)"
begin

lemma py_insort_sorted:
  "list_all dom (x # ys) \<Longrightarrow> sorted (map rank ys) \<Longrightarrow>
     \<exists>zs. py_insort lt x ys = Inr zs \<and> sorted (map rank zs) \<and> list_all dom zs"
proof (induction ys)
  case (Cons y ys)
  then obtain zs where zs: "py_insort lt x ys = Inr zs" "sorted (map rank zs)" "list_all dom zs"
    by auto
  have "set zs = insert x (set ys)" using py_insort_mset [OF zs(1)] by (metis set_mset_add_mset_insert set_mset_mset)
  with Cons.prems zs show ?case by (auto simp: lt_rank list_all_iff)
qed simp

lemma py_sorted_sorted:
  assumes "list_all dom xs"
  shows "\<exists>ys. py_sorted lt xs = Inr ys \<and> sorted (map rank ys) \<and> mset ys = mset xs"
proof -
  have "list_all dom xs \<Longrightarrow> list_all dom acc \<Longrightarrow> sorted (map rank acc) \<Longrightarrow>
      \<exists>ys. foldE (py_insort lt) xs acc = Inr ys \<and> sorted (map rank ys)" for acc
  proof (induction xs arbitrary: acc)
    case (Cons x xs)
    then show ?case using py_insort_sorted [of x acc] by fastforce
  qed simp
  from this [of "[]"] assms py_sorted_mset [of lt xs] show ?thesis by (auto simp: py_sorted_def)
qed

end

end
