(* ===== verification/Battery.thy ===== *)
theory Battery
  imports PyValue
begin

text \<open>
  The benchmark evaluator of \<^verbatim>\<open>scripts/evaluate_battery.py\<close>: attempts in chronological order,
  the first valid ones up to the required number, the individual and median floors of the
  profile. Attempts and baselines are decoded JSON objects; every \<^verbatim>\<open>BatteryError\<close> is a
  constructor, and \<open>PyError\<close> stands for the exceptions of malformed documents.
\<close>

subsection \<open>Evaluator\<close>

datatype battery_error =
    AttemptCount
  | NotChronological
  | BaselinesMismatch
  | AttemptSubjectMismatch
  | ProfileMismatch
  | PinRequired
  | RawHashRequired
  | ValidWithInvalidation
  | ValidIncomplete
  | UnknownInvalidation
  | TooFewValid
  | MissingMetric string
  | IndividualFailed string
  | MedianFailed string
  | PyError py_error

record battery_suite =
  bs_profile :: json
  bs_subject :: json
  bs_baselines :: string
  bs_selected :: "json list"
  bs_raw :: "string list"
  bs_medians :: "(string, pynum) dict"

datatype battery_result =
    Incomplete nat "string list" json
  | Suite battery_suite

definition INVALIDATIONS :: "string list" where
  "INVALIDATIONS = [''idle-preflight'', ''foreign-traffic'', ''unexpected-api-connection'',
     ''runtime-health-failure'', ''gpu-clock-cap-changed'', ''client-failure-before-acceptance'']"

text \<open>\<^verbatim>\<open>d[key]\<close>, and the use of a value as an object or a number.\<close>

definition subscript :: "json \<Rightarrow> string \<Rightarrow> battery_error + json" where
  "subscript j k = (case j of
      JObj d \<Rightarrow> (case dict_get d k of None \<Rightarrow> Inl (PyError KeyError) | Some v \<Rightarrow> Inr v)
    | _ \<Rightarrow> Inl (PyError TypeError))"

definition as_object :: "json \<Rightarrow> battery_error + jobject" where
  "as_object j = (case j of JObj d \<Rightarrow> Inr d | _ \<Rightarrow> Inl (PyError AttributeError))"

definition as_number :: "json \<Rightarrow> battery_error + pynum" where
  "as_number j = (case num_of j of None \<Rightarrow> Inl (PyError TypeError) | Some x \<Rightarrow> Inr x)"

text \<open>The sort key \<^verbatim>\<open>(item.get("created_at", ""), item.get("attempt", 0))\<close> and its order.\<close>

definition sort_key :: "jobject \<Rightarrow> json \<times> json" where
  "sort_key item =
     ((case dict_get item ''created_at'' of None \<Rightarrow> JStr '''' | Some v \<Rightarrow> v),
      (case dict_get item ''attempt'' of None \<Rightarrow> JInt 0 | Some v \<Rightarrow> v))"

definition attempt_less :: "jobject \<Rightarrow> jobject \<Rightarrow> battery_error + bool" where
  "attempt_less a b =
     (case (sort_key a, sort_key b) of ((c, m), (d, n)) \<Rightarrow>
        (case (if \<not> item_eq c d then py_less c d else if \<not> item_eq m n then py_less m n else Some False) of
           None \<Rightarrow> Inl (PyError TypeError)
         | Some l \<Rightarrow> Inr l))"

definition check_attempt_count :: "jobject list \<Rightarrow> json \<Rightarrow> battery_error + unit" where
  "check_attempt_count attempts maximum =
     (if attempts = [] then Inl AttemptCount
      else bindE (as_number maximum) (\<lambda>m.
           raiseIf (num_less m (PInt (int (length attempts)))) AttemptCount))"

text \<open>The attempts are numbered from one in the order of their times.\<close>

definition chronological :: "jobject list \<Rightarrow> bool" where
  "chronological ordered \<longleftrightarrow>
     list_all2 item_eq (map (\<lambda>item. get_or_none item ''attempt'') ordered)
       (map JInt (py_range 1 (int (length ordered) + 1)))"

definition check_identity :: "jobject list \<Rightarrow> string \<Rightarrow> battery_error + json \<times> json" where
  "check_identity ordered expected_hash =
    (let hashes = map (\<lambda>item. get_or_none item ''baselines_sha256'') ordered;
         subjects = map (\<lambda>item. get_or_none item ''subject'') ordered;
         profile = get_or_none (hd ordered) ''profile'' in
     bindE (raiseIf (\<not> list_all hashable hashes) (PyError TypeError)) (\<lambda>_.
     bindE (raiseIf (\<not> list_all (\<lambda>h. h = JStr expected_hash) hashes) BaselinesMismatch) (\<lambda>_.
     bindE (raiseIf (list_ex (\<lambda>s. \<not> py_eq s (hd subjects)) (tl subjects)) AttemptSubjectMismatch) (\<lambda>_.
     bindE (raiseIf (list_ex (\<lambda>item. \<not> py_eq (get_or_none item ''profile'') profile) ordered) ProfileMismatch) (\<lambda>_.
     bindE (if profile = JStr ''fast-320k''
            then bindE (as_object (hd subjects)) (\<lambda>s. raiseIf (\<not> truthy (get_or_none s ''pin_id'')) PinRequired)
            else Inr ()) (\<lambda>_.
     Inr (hd subjects, profile)))))))"

definition raw_hash :: "jobject \<Rightarrow> string option" where
  "raw_hash item = (case get_or_none item ''raw_sha256'' of
      JStr s \<Rightarrow> if length s = 64 then Some s else None
    | _ \<Rightarrow> None)"

definition is_valid :: "jobject \<Rightarrow> bool" where
  "is_valid item \<longleftrightarrow> get_or_none item ''valid'' = JBool True"

definition scan_attempt ::
    "jobject \<Rightarrow> string list \<times> jobject list \<Rightarrow> battery_error + string list \<times> jobject list" where
  "scan_attempt item = (\<lambda>(raw_hashes, valid).
     (case raw_hash item of
        None \<Rightarrow> Inl RawHashRequired
      | Some raw \<Rightarrow>
          if is_valid item then
            bindE (raiseIf (get_or_none item ''invalidation'' \<noteq> JNull) ValidWithInvalidation) (\<lambda>_.
            bindE (raiseIf (get_or_none item ''completed'' \<noteq> JBool True) ValidIncomplete) (\<lambda>_.
            Inr (raw_hashes @ [raw], valid @ [item])))
          else
            bindE (raiseIf (\<not> hashable (get_or_none item ''invalidation'')) (PyError TypeError)) (\<lambda>_.
            bindE (raiseIf (get_or_none item ''invalidation'' \<notin> set (map JStr INVALIDATIONS)) UnknownInvalidation) (\<lambda>_.
            Inr (raw_hashes @ [raw], valid)))))"

text \<open>\<^verbatim>\<open>statistics.median\<close> of floats.\<close>

definition float_less :: "pynum \<Rightarrow> pynum \<Rightarrow> battery_error + bool" where
  "float_less a b = Inr (num_less a b)"

fun float_half :: "pynum \<Rightarrow> pynum" where
  "float_half (PFloat x) = float_result (x / 2)"
| "float_half x = x"

definition median :: "pynum list \<Rightarrow> battery_error + pynum" where
  "median values = bindE (py_sorted float_less values) (\<lambda>data.
     (let n = length data in
      if n = 0 then Inl (PyError StatisticsError)
      else if odd n then Inr (data ! (n div 2))
      else Inr (float_half (float_sub (data ! (n div 2 - 1)) (num_neg (data ! (n div 2)))))))"

definition metric_value :: "string \<Rightarrow> jobject \<Rightarrow> battery_error + pynum" where
  "metric_value metric item =
     bindE (case dict_get item ''metrics'' of None \<Rightarrow> Inr [] | Some m \<Rightarrow> as_object m) (\<lambda>metrics.
     case num_of (get_or_none metrics metric) of None \<Rightarrow> Inl (MissingMetric metric) | Some x \<Rightarrow> Inr x)"

definition individual_value :: "string \<Rightarrow> json \<Rightarrow> jobject \<Rightarrow> battery_error + pynum" where
  "individual_value metric limits item =
     bindE (metric_value metric item) (\<lambda>v.
     bindE (subscript limits ''individual_floor'') (\<lambda>f.
     bindE (as_number f) (\<lambda>floor.
     bindE (raiseIf (num_less v floor) (IndividualFailed metric)) (\<lambda>_.
     case to_float v of None \<Rightarrow> Inl (PyError OverflowError) | Some x \<Rightarrow> Inr x))))"

definition metric_median :: "jobject list \<Rightarrow> string \<times> json \<Rightarrow> battery_error + string \<times> pynum" where
  "metric_median selected = (\<lambda>(metric, limits).
     bindE (mapE (individual_value metric limits) selected) (\<lambda>values.
     bindE (median values) (\<lambda>med.
     bindE (subscript limits ''median_floor'') (\<lambda>f.
     bindE (as_number f) (\<lambda>floor.
     bindE (raiseIf (num_less med floor) (MedianFailed metric)) (\<lambda>_.
     Inr (metric, med)))))))"

definition profile_metrics :: "jobject \<Rightarrow> json \<Rightarrow> battery_error + jobject" where
  "profile_metrics baselines profile =
     bindE (subscript (JObj baselines) ''profiles'') (\<lambda>profiles.
     bindE (case profile of
              JStr p \<Rightarrow> subscript profiles p
            | _ \<Rightarrow> Inl (PyError (if hashable profile then KeyError else TypeError))) (\<lambda>entry.
     bindE (subscript entry ''metrics'') as_object))"

definition evaluate_attempts ::
    "jobject list \<Rightarrow> jobject \<Rightarrow> string \<Rightarrow> battery_error + battery_result" where
  "evaluate_attempts attempts baselines expected_hash =
     bindE (subscript (JObj baselines) ''threshold_policy'') (\<lambda>policy.
     bindE (subscript policy ''max_attempts'') (\<lambda>maximum.
     bindE (subscript policy ''required_valid_batteries'') (\<lambda>required.
     bindE (check_attempt_count attempts maximum) (\<lambda>_.
     bindE (py_sorted attempt_less attempts) (\<lambda>ordered.
     bindE (raiseIf (\<not> chronological ordered) NotChronological) (\<lambda>_.
     bindE (check_identity ordered expected_hash) (\<lambda>(subject, profile).
     bindE (foldE scan_attempt ordered ([], [])) (\<lambda>(raw_hashes, valid).
     case json_int required of
       None \<Rightarrow> Inl (PyError TypeError)
     | Some k \<Rightarrow>
        (let selected = py_take k valid in
         if int (length selected) < k then
           if py_eq (JInt (int (length ordered))) maximum then Inl TooFewValid
           else Inr (Incomplete (length selected) raw_hashes subject)
         else
           bindE (profile_metrics baselines profile) (\<lambda>metric_policy.
           bindE (mapE (metric_median selected) metric_policy) (\<lambda>medians.
           Inr (Suite \<lparr>bs_profile = profile, bs_subject = subject, bs_baselines = expected_hash,
                 bs_selected = map (\<lambda>item. get_or_none item ''attempt'') selected,
                 bs_raw = raw_hashes, bs_medians = medians\<rparr>))))))))))))"

subsection \<open>Sorting and the median\<close>

interpretation floats: total_comparison float_less num_val is_finite
  by unfold_locales (simp add: float_less_def num_less_finite)

lemma median_majority:
  assumes med: "median values = Inr m" and fin: "list_all is_finite values" and odd: "odd (length values)"
  shows "m \<in> set values"
    and "length values < 2 * length (filter (\<lambda>v. num_val m \<le> num_val v) values)"
proof -
  obtain d where d: "py_sorted float_less values = Inr d" "sorted (map num_val d)" "mset d = mset values"
    using floats.py_sorted_sorted [OF fin] by blast
  have len: "length d = length values" using d(3) by (metis size_mset)
  let ?h = "length d div 2"
  have h: "?h < length d" using odd len by (cases d) auto
  have m: "m = d ! ?h" using med odd len by (simp add: median_def d(1) Let_def split: if_splits)
  show "m \<in> set values" using m h d(3) by (metis nth_mem set_mset_mset)
  have "num_val m \<le> num_val v" if "v \<in> set (drop ?h d)" for v
  proof -
    from that obtain i where i: "?h + i < length d" "v = d ! (?h + i)"
      by (auto simp: in_set_conv_nth add.commute less_diff_conv)
    then show ?thesis using d(2) h m by (simp add: sorted_iff_nth_mono)
  qed
  then have "filter (\<lambda>v. num_val m \<le> num_val v) (drop ?h d) = drop ?h d" by (simp add: filter_id_conv)
  then have "length d - ?h \<le> length (filter (\<lambda>v. num_val m \<le> num_val v) d)"
    by (metis append_take_drop_id filter_append le_add2 length_append length_drop)
  also have "\<dots> = length (filter (\<lambda>v. num_val m \<le> num_val v) values)"
    using d(3) by (metis mset_filter size_mset)
  finally have "length d - ?h \<le> length (filter (\<lambda>v. num_val m \<le> num_val v) values)" .
  moreover have "length d < 2 * (length d - ?h)" using odd len by presburger
  ultimately show "length values < 2 * length (filter (\<lambda>v. num_val m \<le> num_val v) values)"
    using len by linarith
qed

subsection \<open>Soundness\<close>

text \<open>What the loop over the attempts has checked of an accepted attempt.\<close>

definition attempt_ok :: "jobject \<Rightarrow> bool" where
  "attempt_ok item \<longleftrightarrow> raw_hash item \<noteq> None \<and>
     (if is_valid item
      then get_or_none item ''invalidation'' = JNull \<and> get_or_none item ''completed'' = JBool True
      else get_or_none item ''invalidation'' \<in> JStr ` set INVALIDATIONS)"

lemma scan_attempt_eq:
  "scan_attempt item (raws, valid) = Inr s \<longleftrightarrow>
     attempt_ok item \<and> s = (raws @ [the (raw_hash item)], valid @ filter is_valid [item])"
  by (auto simp: scan_attempt_def attempt_ok_def bindE_eq_Inr INVALIDATIONS_def split: option.splits)

lemma scan_attempts_eq:
  "foldE scan_attempt items (raws, valid) = Inr s \<longleftrightarrow>
     list_all attempt_ok items
     \<and> s = (raws @ map (the \<circ> raw_hash) items, valid @ filter is_valid items)"
  by (induction items arbitrary: raws valid) (auto simp: bindE_eq_Inr scan_attempt_eq)

text \<open>
  The numbers a report rests on: the measured value, its conversion to a float, the floor a
  limits entry names.
\<close>

definition measured :: "string \<Rightarrow> jobject \<Rightarrow> pynum" where
  "measured metric item = (case metric_value metric item of Inl _ \<Rightarrow> NAN | Inr v \<Rightarrow> v)"

definition measured_float :: "string \<Rightarrow> jobject \<Rightarrow> pynum" where
  "measured_float metric item = (case to_float (measured metric item) of None \<Rightarrow> NAN | Some x \<Rightarrow> x)"

definition floor_of :: "json \<Rightarrow> string \<Rightarrow> pynum" where
  "floor_of limits key = (case subscript limits key of Inl _ \<Rightarrow> NAN
     | Inr f \<Rightarrow> (case num_of f of None \<Rightarrow> NAN | Some x \<Rightarrow> x))"

lemma to_float_finite: "to_float x = Some y \<Longrightarrow> is_finite x \<Longrightarrow> is_finite y"
  by (cases x) (auto simp: Let_def split: if_splits)

lemma individual_value_eq_Inr:
  "individual_value metric limits item = Inr x \<Longrightarrow>
     metric_value metric item = Inr (measured metric item) \<and> x = measured_float metric item
     \<and> (is_finite (measured metric item) \<longrightarrow> is_finite x)
     \<and> \<not> num_less (measured metric item) (floor_of limits ''individual_floor'')"
  by (auto simp: individual_value_def bindE_eq_Inr measured_def measured_float_def floor_of_def as_number_def
      dest: to_float_finite split: option.splits)

lemma metric_median_eq_Inr:
  assumes "metric_median selected (metric, limits) = Inr out"
  obtains med where "out = (metric, med)" and "median (map (measured_float metric) selected) = Inr med"
    and "\<not> num_less med (floor_of limits ''median_floor'')"
    and "\<And>item. item \<in> set selected \<Longrightarrow> individual_value metric limits item = Inr (measured_float metric item)"
proof -
  from assms obtain vs med f x where
      vals: "mapE (individual_value metric limits) selected = Inr vs"
    and med: "median vs = Inr med" and f: "subscript limits ''median_floor'' = Inr f"
    and x: "as_number f = Inr x" and ok: "\<not> num_less med x" and out: "out = (metric, med)"
    by (auto simp: metric_median_def bindE_eq_Inr)
  have "vs = map (measured_float metric) selected"
    using vals by (auto simp: mapE_eq_Inr list_all2_conv_all_nth intro!: nth_equalityI dest!: individual_value_eq_Inr)
  moreover have "floor_of limits ''median_floor'' = x"
    using f x by (auto simp: floor_of_def as_number_def split: option.splits)
  moreover have "individual_value metric limits item = Inr (measured_float metric item)"
    if "item \<in> set selected" for item
    using mapE_mem_arg [OF vals that] individual_value_eq_Inr by blast
  ultimately show thesis using that med ok out by blast
qed

text \<open>The limits a baselines document sets: at most \<open>m\<close> attempts, of which \<open>k\<close> valid ones count.\<close>

definition policy_is :: "jobject \<Rightarrow> int \<Rightarrow> int \<Rightarrow> bool" where
  "policy_is baselines m k \<longleftrightarrow>
     (case dict_get baselines ''threshold_policy'' of
        Some (JObj policy) \<Rightarrow> dict_get policy ''max_attempts'' = Some (JInt m)
          \<and> dict_get policy ''required_valid_batteries'' = Some (JInt k)
      | _ \<Rightarrow> False)"

lemma evaluate_attempts_parts:
  assumes run: "evaluate_attempts attempts baselines h = Inr (Suite s)"
    and policy: "policy_is baselines m k"
  obtains ordered metrics where "mset ordered = mset attempts" and "attempts \<noteq> []"
    and "int (length ordered) \<le> m" and "chronological ordered"
    and "check_identity ordered h = Inr (bs_subject s, bs_profile s)"
    and "list_all attempt_ok ordered" and "bs_raw s = map (the \<circ> raw_hash) ordered"
    and "k \<le> int (length (py_take k (filter is_valid ordered)))"
    and "bs_selected s = map (\<lambda>item. get_or_none item ''attempt'') (py_take k (filter is_valid ordered))"
    and "profile_metrics baselines (bs_profile s) = Inr metrics"
    and "mapE (metric_median (py_take k (filter is_valid ordered))) metrics = Inr (bs_medians s)"
proof -
  obtain policy where p: "subscript (JObj baselines) ''threshold_policy'' = Inr (JObj policy)"
      "subscript (JObj policy) ''max_attempts'' = Inr (JInt m)"
      "subscript (JObj policy) ''required_valid_batteries'' = Inr (JInt k)"
    using policy by (auto simp: policy_is_def subscript_def split: option.splits json.splits)
  from run obtain ordered subject profile raws valid where
      count: "check_attempt_count attempts (JInt m) = Inr ()"
    and ord: "py_sorted attempt_less attempts = Inr ordered" and chron: "chronological ordered"
    and ident: "check_identity ordered h = Inr (subject, profile)"
    and scan: "foldE scan_attempt ordered ([], []) = Inr (raws, valid)"
    and rest: "(let selected = py_take k valid in
         if int (length selected) < k then
           if py_eq (JInt (int (length ordered))) (JInt m) then Inl TooFewValid
           else Inr (Incomplete (length selected) raws subject)
         else
           bindE (profile_metrics baselines profile) (\<lambda>metric_policy.
           bindE (mapE (metric_median selected) metric_policy) (\<lambda>medians.
           Inr (Suite \<lparr>bs_profile = profile, bs_subject = subject, bs_baselines = h,
                 bs_selected = map (\<lambda>item. get_or_none item ''attempt'') selected,
                 bs_raw = raws, bs_medians = medians\<rparr>)))) = Inr (Suite s)"
    unfolding evaluate_attempts_def p bindE_Inr
    by (force elim!: bindE_InrE)
  note same = py_sorted_mset [OF ord]
  have "int (length ordered) \<le> m"
    using count same by (auto simp: check_attempt_count_def as_number_def num_less_def
        dest: arg_cong [where f = size] split: if_splits)
  with that same chron ident scan rest count show thesis
    by (auto simp: scan_attempts_eq Let_def bindE_eq_Inr check_attempt_count_def split: if_splits)
qed

text \<open>
  A reported median against its limits: every selected attempt reaches the individual floor,
  the median reaches the median floor, and more than half of the attempts reach the median.
\<close>

definition floors_met :: "jobject list \<Rightarrow> string \<times> json \<Rightarrow> string \<times> pynum \<Rightarrow> bool" where
  "floors_met selected = (\<lambda>(metric, limits) (name, med). name = metric
     \<and> (\<forall>item \<in> set selected. num_val (floor_of limits ''individual_floor'') \<le> num_val (measured metric item))
     \<and> num_val (floor_of limits ''median_floor'') \<le> num_val med
     \<and> length selected < 2 * length (filter (\<lambda>item. num_val med \<le> num_val (measured_float metric item)) selected))"

lemma metric_median_sound:
  assumes med: "metric_median selected (metric, limits) = Inr out" and odd: "odd (length selected)"
    and fin: "\<And>item v. item \<in> set selected \<Longrightarrow> metric_value metric item = Inr v \<Longrightarrow> is_finite v"
    and floors: "is_finite (floor_of limits ''individual_floor'')" "is_finite (floor_of limits ''median_floor'')"
  shows "floors_met selected (metric, limits) out"
proof -
  from med obtain m where out: "out = (metric, m)" and m: "median (map (measured_float metric) selected) = Inr m"
    and mok: "\<not> num_less m (floor_of limits ''median_floor'')"
    and ind: "\<And>item. item \<in> set selected \<Longrightarrow> individual_value metric limits item = Inr (measured_float metric item)"
    by (rule metric_median_eq_Inr) blast
  note parts = individual_value_eq_Inr [OF ind]
  have finite: "is_finite (measured metric item)" "is_finite (measured_float metric item)"
    if "item \<in> set selected" for item
    using parts [OF that] fin [OF that] by blast+
  then have all: "list_all is_finite (map (measured_float metric) selected)" by (simp add: list_all_iff)
  have "is_finite m" using median_majority(1) [OF m all] odd finite(2) by auto
  then have "num_val (floor_of limits ''median_floor'') \<le> num_val m"
    using mok floors(2) by (simp add: num_less_finite)
  moreover have "num_val (floor_of limits ''individual_floor'') \<le> num_val (measured metric item)"
    if "item \<in> set selected" for item
    using parts [OF that] finite(1) [OF that] floors(1) by (simp add: num_less_finite)
  moreover have "length selected < 2 * length (filter (\<lambda>item. num_val m \<le> num_val (measured_float metric item)) selected)"
    using median_majority(2) [OF m all] odd by (simp add: filter_map comp_def)
  ultimately show ?thesis using out by (simp add: floors_met_def)
qed

lemma check_identity_sound:
  assumes "check_identity ordered h = Inr (subject, profile)" and "item \<in> set ordered"
  shows "get_or_none item ''baselines_sha256'' = JStr h" and "py_eq (get_or_none item ''profile'') profile"
  using assms by (auto simp: check_identity_def Let_def bindE_eq_Inr list_all_iff list_ex_iff)


text \<open>The run of a completed evaluation, from the results of its parts.\<close>

lemma evaluate_attempts_run:
  assumes "policy_is baselines m k" and "check_attempt_count attempts (JInt m) = Inr ()"
    and "py_sorted attempt_less attempts = Inr ordered" and "chronological ordered"
    and "check_identity ordered h = Inr (subject, profile)"
    and "foldE scan_attempt ordered ([], []) = Inr (raws, valid)"
    and "\<not> int (length (py_take k valid)) < k" and "profile_metrics baselines profile = Inr metrics"
    and "mapE (metric_median (py_take k valid)) metrics = Inr medians"
  shows "evaluate_attempts attempts baselines h = Inr (Suite \<lparr>bs_profile = profile, bs_subject = subject,
     bs_baselines = h, bs_selected = map (\<lambda>item. get_or_none item ''attempt'') (py_take k valid),
     bs_raw = raws, bs_medians = medians\<rparr>)"
proof -
  obtain policy where "subscript (JObj baselines) ''threshold_policy'' = Inr (JObj policy)"
      "subscript (JObj policy) ''max_attempts'' = Inr (JInt m)"
      "subscript (JObj policy) ''required_valid_batteries'' = Inr (JInt k)"
    using assms(1) by (auto simp: policy_is_def subscript_def split: option.splits json.splits)
  then show ?thesis
    using assms(2-9) by (simp add: evaluate_attempts_def Let_def)
qed

subsection \<open>Special floats\<close>

text \<open>
  The Fast profile of \<^verbatim>\<open>benchmarks/baselines.json\<close> with its threshold policy (the decimal
  floors as the doubles the decoder reads), and three complete attempts that report the same value for every metric.
\<close>

definition fast_limits :: "rat \<Rightarrow> rat \<Rightarrow> json" where
  "fast_limits individual med = JObj [(''individual_floor'', JFloat individual), (''median_floor'', JFloat med)]"

definition fast_metrics :: jobject where
  "fast_metrics = [(''peak_c1'', fast_limits (160190048073941 / 2 ^ 42) (2705431923026559 / 2 ^ 46)),
     (''peak_c4'', fast_limits (641393510993363 / 2 ^ 43) (1354052967652655 / 2 ^ 44)),
     (''prefill'', fast_limits (1373707837510779 / 2 ^ 41) (1450024939594711 / 2 ^ 41)),
     (''prose_c1'', fast_limits (6729644480686719 / 2 ^ 48) (887939202312831 / 2 ^ 45)),
     (''prose_c4'', fast_limits (7086836226132541 / 2 ^ 47) (1870137337451643 / 2 ^ 45))]"

definition fast_names :: "string list" where
  "fast_names = [''peak_c1'', ''peak_c4'', ''prefill'', ''prose_c1'', ''prose_c4'']"

definition fast_baselines :: jobject where
  "fast_baselines = [(''profiles'', JObj [(''fast-320k'', JObj [(''metrics'', JObj fast_metrics)])]),
     (''threshold_policy'', JObj [(''max_attempts'', JInt 5), (''required_valid_batteries'', JInt 3)])]"

definition fast_attempt :: "json \<Rightarrow> int \<Rightarrow> jobject" where
  "fast_attempt v n = [(''attempt'', JInt n), (''created_at'', JStr ''2026-07-01''),
     (''baselines_sha256'', JStr ''b''), (''subject'', JObj [(''pin_id'', JStr ''p'')]),
     (''profile'', JStr ''fast-320k''), (''raw_sha256'', JStr (replicate 64 CHR ''a'')),
     (''valid'', JBool True), (''completed'', JBool True),
     (''metrics'', JObj (map (\<lambda>metric. (metric, v)) fast_names))]"

definition fast_suite :: "pynum \<Rightarrow> battery_suite" where
  "fast_suite med = \<lparr>bs_profile = JStr ''fast-320k'', bs_subject = JObj [(''pin_id'', JStr ''p'')],
     bs_baselines = ''b'', bs_selected = [JInt 1, JInt 2, JInt 3],
     bs_raw = replicate 3 (replicate 64 CHR ''a''),
     bs_medians = map (\<lambda>metric. (metric, med)) fast_names\<rparr>"

abbreviation fast_attempts :: "json \<Rightarrow> jobject list" where
  "fast_attempts v \<equiv> map (fast_attempt v) [1, 2, 3]"

lemma fast_run:
  assumes "py_sorted attempt_less (map (fast_attempt v) [2, 3, 1]) = Inr (fast_attempts v)"
    and "mapE (metric_median (fast_attempts v)) fast_metrics = Inr (map (\<lambda>metric. (metric, med)) fast_names)"
  shows "evaluate_attempts (map (fast_attempt v) [2, 3, 1]) fast_baselines ''b'' = Inr (Suite (fast_suite med))"
proof -
  have scan: "foldE scan_attempt (fast_attempts v) ([], []) = Inr (replicate 3 (replicate 64 CHR ''a''), fast_attempts v)"
    by code_simp
  have ident: "check_identity (fast_attempts v) ''b'' = Inr (JObj [(''pin_id'', JStr ''p'')], JStr ''fast-320k'')"
    by code_simp
  have pol: "policy_is fast_baselines 5 3" and met: "profile_metrics fast_baselines (JStr ''fast-320k'') = Inr fast_metrics"
    by code_simp+
  have "check_attempt_count (map (fast_attempt v) [2, 3, 1]) (JInt 5) = Inr ()" "chronological (fast_attempts v)"
    by code_simp+
  from evaluate_attempts_run [OF pol this(1) assms(1) this(2) ident scan _ met] assms(2)
  show ?thesis by (simp add: fast_suite_def get_or_none_def fast_attempt_def dict_get_def)
qed


lemma fast_run_700:
  "evaluate_attempts (map (fast_attempt (JFloat 700)) [2, 3, 1]) fast_baselines ''b'' = Inr (Suite (fast_suite (PFloat 700)))"
proof (rule fast_run)
  show "py_sorted attempt_less (map (fast_attempt (JFloat 700)) [2, 3, 1]) = Inr (fast_attempts (JFloat 700))"
    by code_simp
  show "mapE (metric_median (fast_attempts (JFloat 700))) fast_metrics = Inr (map (\<lambda>metric. (metric, PFloat 700)) fast_names)"
    by code_simp
qed


end
