(* ===== verification/Correctness.thy ===== *)
theory Correctness
  imports PyValue
begin

text \<open>
  The differential-correctness evaluator of \<^verbatim>\<open>scripts/verify_correctness.py\<close>: teacher-forced
  top-k comparison, free generation, and the temperature-zero census of two captured
  documents. The JSON-schema validator is the parameter \<open>iter_errors\<close>; the rows of a document
  are read after validation, and a member that the schema's guarantee does not cover ends in
  \<open>Malformed\<close>. JSON-schema integers include floats of integral value, which compare like
  the integers they denote.
\<close>

subsection \<open>Documents\<close>

datatype correctness_error =
    DocSubjectMismatch
  | InvalidDocument "string list"
  | TopkLengths
  | PositionsDiffer
  | PrefixMismatch "string \<times> int"
  | TopkSetMismatch "string \<times> int"
  | ToleranceExceeded "string \<times> int"
  | NotNearTie "string \<times> int"
  | RunsDiffer
  | DivergedAtOnce "string \<times> int"
  | ValidationFailed "string \<times> int"
  | TextChanged "string \<times> int"
  | Malformed py_error

record teacher_row =
  tr_prompt_id :: string
  tr_position :: int
  tr_prefix :: "int list"
  tr_ids :: "int list"
  tr_logprobs :: "pynum list"

record free_row =
  fr_prompt_id :: string
  fr_seed :: int
  fr_tokens :: "int list"
  fr_text :: string
  fr_semantic_valid :: bool
  fr_schema_valid :: bool

record capture =
  teacher_forced :: "teacher_row list"
  free_generation :: "free_row list"
  temperature_zero :: "string list"

record correctness_report =
  rep_subject :: jobject
  rep_positions :: nat
  rep_swaps :: nat
  rep_runs :: nat
  rep_divergent :: nat
  rep_zero_runs :: nat
  rep_modal :: "(string \<times> nat) option"

definition SUBJECT_KEYS :: "string list" where
  "SUBJECT_KEYS = [''image_digest'', ''build_lock_id'', ''model_id'', ''sidecar_id'', ''preset_id'',
     ''tokenizer_id'', ''sampling_id'']"

subsection \<open>Reading validated rows\<close>

definition item_of :: "json \<Rightarrow> string \<Rightarrow> correctness_error + json" where
  "item_of j k = (case j of
      JObj d \<Rightarrow> (case dict_get d k of None \<Rightarrow> Inl (Malformed KeyError) | Some v \<Rightarrow> Inr v)
    | _ \<Rightarrow> Inl (Malformed TypeError))"

definition str_of :: "json \<Rightarrow> correctness_error + string" where
  "str_of j = (case j of JStr s \<Rightarrow> Inr s | _ \<Rightarrow> Inl (Malformed TypeError))"

definition bool_of :: "json \<Rightarrow> correctness_error + bool" where
  "bool_of j = (case j of JBool b \<Rightarrow> Inr b | _ \<Rightarrow> Inl (Malformed TypeError))"

definition list_of :: "json \<Rightarrow> correctness_error + json list" where
  "list_of j = (case j of JArr js \<Rightarrow> Inr js | _ \<Rightarrow> Inl (Malformed TypeError))"

definition integer_of :: "json \<Rightarrow> correctness_error + int" where
  "integer_of j = (case j of
      JInt n \<Rightarrow> Inr n
    | JFloat x \<Rightarrow> if of_int \<lfloor>x\<rfloor> = x then Inr \<lfloor>x\<rfloor> else Inl (Malformed TypeError)
    | _ \<Rightarrow> Inl (Malformed TypeError))"

definition number_of :: "json \<Rightarrow> correctness_error + pynum" where
  "number_of j = (case j of
      JBool b \<Rightarrow> Inl (Malformed TypeError)
    | _ \<Rightarrow> (case num_of j of None \<Rightarrow> Inl (Malformed TypeError) | Some x \<Rightarrow> Inr x))"

definition items_with :: "(json \<Rightarrow> correctness_error + 'a) \<Rightarrow> json \<Rightarrow> correctness_error + 'a list" where
  "items_with read j = bindE (list_of j) (mapE read)"

definition read_teacher :: "json \<Rightarrow> correctness_error + teacher_row" where
  "read_teacher row =
     bindE (bindE (item_of row ''prompt_id'') str_of) (\<lambda>prompt.
     bindE (bindE (item_of row ''position'') integer_of) (\<lambda>position.
     bindE (bindE (item_of row ''prefix'') (items_with integer_of)) (\<lambda>pre.
     bindE (bindE (item_of row ''topk_token_ids'') (items_with integer_of)) (\<lambda>ids.
     bindE (bindE (item_of row ''topk_logprobs'') (items_with number_of)) (\<lambda>probs.
     Inr \<lparr>tr_prompt_id = prompt, tr_position = position, tr_prefix = pre, tr_ids = ids,
          tr_logprobs = probs\<rparr>)))))"

definition read_free :: "json \<Rightarrow> correctness_error + free_row" where
  "read_free row =
     bindE (bindE (item_of row ''prompt_id'') str_of) (\<lambda>prompt.
     bindE (bindE (item_of row ''seed'') integer_of) (\<lambda>seed.
     bindE (bindE (item_of row ''token_ids'') (items_with integer_of)) (\<lambda>ids.
     bindE (bindE (item_of row ''text'') str_of) (\<lambda>txt.
     bindE (bindE (item_of row ''semantic_valid'') bool_of) (\<lambda>sem.
     bindE (bindE (item_of row ''schema_valid'') bool_of) (\<lambda>sch.
     Inr \<lparr>fr_prompt_id = prompt, fr_seed = seed, fr_tokens = ids, fr_text = txt,
          fr_semantic_valid = sem, fr_schema_valid = sch\<rparr>))))))"

definition read_capture :: "json \<Rightarrow> correctness_error + capture" where
  "read_capture document =
     bindE (bindE (item_of document ''teacher_forced'') (items_with read_teacher)) (\<lambda>teacher.
     bindE (bindE (item_of document ''free_generation'') (items_with read_free)) (\<lambda>free.
     bindE (bindE (item_of document ''temperature_zero'')
        (items_with (\<lambda>row. bindE (item_of row ''output_sha256'') str_of))) (\<lambda>zero.
     Inr \<lparr>teacher_forced = teacher, free_generation = free, temperature_zero = zero\<rparr>)))"

definition validate_document :: "(json \<Rightarrow> string list) \<Rightarrow> json \<Rightarrow> correctness_error + capture" where
  "validate_document iter_errors document =
     bindE (raiseIf (iter_errors document \<noteq> []) (InvalidDocument (iter_errors document))) (\<lambda>_.
     bindE (read_capture document) (\<lambda>cap.
     bindE (raiseIf (list_ex (\<lambda>row. length (tr_ids row) \<noteq> length (tr_logprobs row)) (teacher_forced cap)) TopkLengths) (\<lambda>_.
     Inr cap)))"

subsection \<open>Comparison\<close>

text \<open>\<^verbatim>\<open>{key(row): row for row in rows}\<close>: a later row of the same key replaces the earlier one.\<close>

definition keyed :: "('a \<Rightarrow> 'k) \<Rightarrow> 'a list \<Rightarrow> ('k, 'a) dict" where
  "keyed key rows = fold (\<lambda>row. dict_set (key row) row) rows []"

definition row_key :: "teacher_row \<Rightarrow> string \<times> int" where
  "row_key row = (tr_prompt_id row, tr_position row)"

definition run_key :: "free_row \<Rightarrow> string \<times> int" where
  "run_key row = (fr_prompt_id row, fr_seed row)"

text \<open>\<^verbatim>\<open>TOLERANCE + 1e-12\<close> in binary64.\<close>

definition tolerance :: rat where
  "tolerance = fl (fl (5 / 100) + fl (1 / 10 ^ 12))"

lemma tolerance_code [code]: "tolerance = 7205759403936909 / 2 ^ 57"
  by code_simp

text \<open>\<^verbatim>\<open>dict(zip(ids, logprobs))\<close>.\<close>

definition topk_probs :: "teacher_row \<Rightarrow> (int, pynum) dict" where
  "topk_probs row = fold (\<lambda>(token, p). dict_set token p) (zip (tr_ids row) (tr_logprobs row)) []"

definition above_tolerance :: "pynum \<Rightarrow> bool" where
  "above_tolerance x \<longleftrightarrow> num_less (PFloat tolerance) x"

fun exceeds :: "(int, pynum) dict \<Rightarrow> (int \<times> pynum) list \<Rightarrow> correctness_error + bool" where
  "exceeds actual [] = Inr False"
| "exceeds actual ((token, v) # rest) =
     (case dict_get actual token of
        None \<Rightarrow> Inl (Malformed KeyError)
      | Some x \<Rightarrow> (case num_sub x v of
           None \<Rightarrow> Inl (Malformed OverflowError)
         | Some d \<Rightarrow> if above_tolerance (num_abs d) then Inr True else exceeds actual rest))"

text \<open>Whether the candidate's first token replaces the reference's: only the near-tie runner-up may.\<close>

definition top1_swap :: "string \<times> int \<Rightarrow> teacher_row \<Rightarrow> teacher_row \<Rightarrow> correctness_error + bool" where
  "top1_swap key expected actual =
     (case (tr_ids actual, tr_ids expected) of
        (a # _, e # es) \<Rightarrow>
          if a = e then Inr False
          else (case (es, tr_logprobs expected) of
             (runner_up # _, p # q # _) \<Rightarrow>
               (case num_sub p q of
                  None \<Rightarrow> Inl (Malformed OverflowError)
                | Some gap \<Rightarrow> bindE (raiseIf (a \<noteq> runner_up \<or> above_tolerance gap) (NotNearTie key)) (\<lambda>_. Inr True))
           | _ \<Rightarrow> Inl (Malformed IndexError))
      | _ \<Rightarrow> Inl (Malformed IndexError))"

definition compare_row ::
    "(string \<times> int, teacher_row) dict \<Rightarrow> (string \<times> int) \<times> teacher_row \<Rightarrow> nat \<Rightarrow> correctness_error + nat" where
  "compare_row right = (\<lambda>(key, expected) swaps.
     (case dict_get right key of
        None \<Rightarrow> Inl (Malformed KeyError)
      | Some actual \<Rightarrow>
          bindE (raiseIf (tr_prefix actual \<noteq> tr_prefix expected) (PrefixMismatch key)) (\<lambda>_.
          bindE (raiseIf (set (tr_ids actual) \<noteq> set (tr_ids expected)) (TopkSetMismatch key)) (\<lambda>_.
          bindE (exceeds (topk_probs actual) (topk_probs expected)) (\<lambda>far.
          bindE (raiseIf far (ToleranceExceeded key)) (\<lambda>_.
          bindE (top1_swap key expected actual) (\<lambda>swap.
          Inr (if swap then swaps + 1 else swaps))))))))"

fun shared_prefix :: "int list \<Rightarrow> int list \<Rightarrow> nat" where
  "shared_prefix (x # xs) (y # ys) = (if x \<noteq> y then 0 else 1 + shared_prefix xs ys)"
| "shared_prefix _ _ = 0"

definition compare_run ::
    "(string \<times> int, free_row) dict \<Rightarrow> (string \<times> int) \<times> free_row \<Rightarrow> nat \<Rightarrow> correctness_error + nat" where
  "compare_run right = (\<lambda>(key, expected) divergent.
     (case dict_get right key of
        None \<Rightarrow> Inl (Malformed KeyError)
      | Some actual \<Rightarrow>
          (let pre = shared_prefix (fr_tokens expected) (fr_tokens actual);
               diverged = fr_tokens expected \<noteq> fr_tokens actual in
           bindE (raiseIf (diverged \<and> pre = 0) (DivergedAtOnce key)) (\<lambda>_.
           bindE (raiseIf (\<not> fr_semantic_valid actual \<or> \<not> fr_schema_valid actual) (ValidationFailed key)) (\<lambda>_.
           bindE (raiseIf (\<not> diverged \<and> fr_text actual \<noteq> fr_text expected) (TextChanged key)) (\<lambda>_.
           Inr (divergent + (if diverged then 1 else 0))))))))"

text \<open>\<^verbatim>\<open>Counter(...).most_common(1)[0]\<close>: the first entry of the largest count, in order of first sight.\<close>

definition count_outputs :: "string list \<Rightarrow> (string, nat) dict" where
  "count_outputs = foldl (\<lambda>d s. dict_set s (case dict_get d s of None \<Rightarrow> 1 | Some n \<Rightarrow> n + 1) d) []"

fun most_common :: "(string, nat) dict \<Rightarrow> (string \<times> nat) option" where
  "most_common [] = None"
| "most_common ((s, n) # d) = (case most_common d of
      Some (t, m) \<Rightarrow> if n < m then Some (t, m) else Some (s, n)
    | None \<Rightarrow> Some (s, n))"

definition same_subject :: "json \<Rightarrow> json \<Rightarrow> jobject option" where
  "same_subject reference candidate =
     (case (reference, candidate) of
        (JObj r, JObj c) \<Rightarrow>
          (case (get_or_none r ''subject'', get_or_none c ''subject'') of
             (JObj s, JObj t) \<Rightarrow>
               if list_all (\<lambda>k. py_eq (get_or_none s k) (get_or_none t k)) SUBJECT_KEYS then Some t else None
           | _ \<Rightarrow> None)
      | _ \<Rightarrow> None)"

definition compare_correctness ::
    "(json \<Rightarrow> string list) \<Rightarrow> json \<Rightarrow> json \<Rightarrow> correctness_error + correctness_report" where
  "compare_correctness iter_errors reference candidate =
     (case same_subject reference candidate of
        None \<Rightarrow> Inl DocSubjectMismatch
      | Some subject \<Rightarrow>
          bindE (validate_document iter_errors reference) (\<lambda>ref.
          bindE (validate_document iter_errors candidate) (\<lambda>cand.
          (let left = keyed row_key (teacher_forced ref);
               right = keyed row_key (teacher_forced cand);
               free_left = keyed run_key (free_generation ref);
               free_right = keyed run_key (free_generation cand) in
           bindE (raiseIf (set (dict_keys left) \<noteq> set (dict_keys right)) PositionsDiffer) (\<lambda>_.
           bindE (foldE (compare_row right) left 0) (\<lambda>swaps.
           bindE (raiseIf (set (dict_keys free_left) \<noteq> set (dict_keys free_right)) RunsDiffer) (\<lambda>_.
           bindE (foldE (compare_run free_right) free_left 0) (\<lambda>divergent.
           Inr \<lparr>rep_subject = subject, rep_positions = length left, rep_swaps = swaps,
                rep_runs = length free_right, rep_divergent = divergent,
                rep_zero_runs = length (temperature_zero cand),
                rep_modal = most_common (count_outputs (temperature_zero cand))\<rparr>))))))))"

subsection \<open>Tolerance\<close>

text \<open>
  A number that binary64 represents. The accepted deviation of two such numbers is
  \<open>0.05\<close> up to the rounding of the subtraction and of the bound.
\<close>

definition exact :: "pynum \<Rightarrow> bool" where
  "exact x \<longleftrightarrow> is_finite x \<and> fl (num_val x) = num_val x"

definition near :: rat where
  "near = 1 / 20 + 1 / 10 ^ 9"

lemma tolerance_near: "0 < tolerance" "tolerance < fl near" "tolerance < near"
  by code_simp+

lemma num_sub_cases:
  assumes "exact x" and "exact y" and "num_sub x y = Some d"
  shows "d = PInt \<lfloor>num_val x - num_val y\<rfloor> \<and> of_int \<lfloor>num_val x - num_val y\<rfloor> = num_val x - num_val y
       \<or> d = float_result (num_val x - num_val y)"
  using assms
  by (cases x; cases y) (auto simp: exact_def Let_def split: if_splits option.splits simp flip: of_int_diff)

lemma not_above_diff:
  assumes "exact x" and "exact y" and "num_sub x y = Some d" and "\<not> above_tolerance d"
  shows "num_val x - num_val y \<le> near"
proof (rule ccontr)
  assume far: "\<not> num_val x - num_val y \<le> near"
  then have "fl near \<le> fl (num_val x - num_val y)" by (intro fl_mono) (auto simp: near_def)
  with tolerance_near far assms(4) num_sub_cases [OF assms(1-3)] show False
    by (auto simp: above_tolerance_def num_less_def float_result_def Let_def split: if_splits)
qed

lemma num_abs_above:
  assumes "exact x" and "exact y" and "num_sub x y = Some d" and "\<not> above_tolerance (num_abs d)"
  shows "\<bar>num_val x - num_val y\<bar> \<le> near"
proof -
  have "num_val x - num_val y \<le> near"
    using assms(3,4) by (intro not_above_diff [OF assms(1-3)]) (cases d, auto simp: above_tolerance_def num_less_def split: nonfinite.splits)
  moreover have "- near \<le> num_val x - num_val y"
  proof (rule ccontr)
    assume far: "\<not> - near \<le> num_val x - num_val y"
    then have "fl near \<le> fl (- (num_val x - num_val y))" by (intro fl_mono) (auto simp: near_def)
    then have "fl near \<le> - fl (num_val x - num_val y)" by (simp only: fl_uminus)
    with tolerance_near far assms(4) num_sub_cases [OF assms(1-3)] show False
      by (auto simp: above_tolerance_def num_less_def float_result_def Let_def split: if_splits)
  qed
  ultimately show ?thesis by (simp add: abs_le_iff)
qed

subsection \<open>Rows and runs\<close>

lemma dict_set_mem: "p \<in> set (dict_set k v d) \<Longrightarrow> p = (k, v) \<or> p \<in> set d"
  by (induction k v d rule: dict_set.induct) (auto split: if_splits)

lemma topk_probs_mem: "(t, p) \<in> set (topk_probs row) \<Longrightarrow> p \<in> set (tr_logprobs row)"
proof -
  have "(t, p) \<in> set (fold (\<lambda>(token, p). dict_set token p) ps d) \<Longrightarrow> (t, p) \<in> set ps \<union> set d" for ps :: "(int \<times> pynum) list" and d
    by (induction ps arbitrary: d) (auto dest: dict_set_mem)
  then show "(t, p) \<in> set (topk_probs row) \<Longrightarrow> p \<in> set (tr_logprobs row)"
    by (fastforce simp: topk_probs_def dest: set_zip_rightD)
qed

lemma exceeds_eq:
  "exceeds actual ps = Inr False \<longleftrightarrow>
     (\<forall>(t, v) \<in> set ps. \<exists>x d. dict_get actual t = Some x \<and> num_sub x v = Some d \<and> \<not> above_tolerance (num_abs d))"
  by (induction ps) (auto split: option.splits if_splits)

lemma keyed_distinct:
  assumes "distinct (map key rows)"
  shows "keyed key rows = map (\<lambda>r. (key r, r)) rows"
proof -
  have "distinct (map key rows) \<Longrightarrow> key ` set rows \<inter> fst ` set d = {} \<Longrightarrow>
      fold (\<lambda>row. dict_set (key row) row) rows d = d @ map (\<lambda>r. (key r, r)) rows" for d
    by (induction rows arbitrary: d) (simp_all add: dict_set_fresh dict_keys_def)
  from this [of "[]"] assms show ?thesis by (simp add: keyed_def)
qed

lemma dict_get_keyed:
  assumes "distinct (map key rows)"
  shows "dict_get (keyed key rows) k = Some r \<longleftrightarrow> r \<in> set rows \<and> key r = k"
  using assms by (auto simp: keyed_distinct dict_get_def map_of_eq_Some_iff comp_def)

text \<open>
  A candidate row agrees with its reference row: same prefix and candidates, log-probabilities
  within the tolerance, the same first token or the runner-up of a near tie.
\<close>

definition rows_agree :: "teacher_row \<Rightarrow> teacher_row \<Rightarrow> bool" where
  "rows_agree e a \<longleftrightarrow> tr_prefix a = tr_prefix e \<and> set (tr_ids a) = set (tr_ids e)
     \<and> (\<forall>(t, v) \<in> set (topk_probs e). \<exists>x. dict_get (topk_probs a) t = Some x \<and> \<bar>num_val x - num_val v\<bar> \<le> near)
     \<and> (hd (tr_ids a) = hd (tr_ids e)
        \<or> hd (tr_ids a) = tr_ids e ! 1 \<and> num_val (tr_logprobs e ! 0) - num_val (tr_logprobs e ! 1) \<le> near)"

definition swapped :: "teacher_row \<Rightarrow> teacher_row \<Rightarrow> bool" where
  "swapped e a \<longleftrightarrow> hd (tr_ids a) \<noteq> hd (tr_ids e)"

lemma top1_swap_sound:
  assumes run: "top1_swap key e a = Inr swap" and exact: "list_all exact (tr_logprobs e)"
  shows "swap = swapped e a"
    and "swap \<Longrightarrow> hd (tr_ids a) = tr_ids e ! 1 \<and> num_val (tr_logprobs e ! 0) - num_val (tr_logprobs e ! 1) \<le> near"
  using run exact not_above_diff
  by (auto simp: top1_swap_def swapped_def bindE_eq_Inr split: list.splits if_splits option.splits)

definition rows_exact :: "teacher_row list \<Rightarrow> bool" where
  "rows_exact rows \<longleftrightarrow> (\<forall>row \<in> set rows. list_all exact (tr_logprobs row))"

lemma compare_row_sound:
  assumes run: "compare_row right (key, e) n = Inr m" and e: "list_all exact (tr_logprobs e)"
    and right: "\<And>a. dict_get right key = Some a \<Longrightarrow> list_all exact (tr_logprobs a)"
  obtains a where "dict_get right key = Some a" and "rows_agree e a"
    and "m = n + (if swapped e a then 1 else 0)"
proof -
  from run obtain a swap where a: "dict_get right key = Some a" and pre: "tr_prefix a = tr_prefix e"
    and ids: "set (tr_ids a) = set (tr_ids e)" and near: "exceeds (topk_probs a) (topk_probs e) = Inr False"
    and swap: "top1_swap key e a = Inr swap" and m: "m = (if swap then n + 1 else n)"
    by (auto simp: compare_row_def bindE_eq_Inr split: option.splits)
  have "\<exists>x. dict_get (topk_probs a) t = Some x \<and> \<bar>num_val x - num_val v\<bar> \<le> near"
    if tv: "(t, v) \<in> set (topk_probs e)" for t v
  proof -
    obtain x d where x: "dict_get (topk_probs a) t = Some x" "num_sub x v = Some d" "\<not> above_tolerance (num_abs d)"
      using near tv by (auto simp: exceeds_eq)
    have "exact x" using right [OF a] topk_probs_mem [of t x a] x(1)
      by (auto simp: list_all_iff dict_get_def dest!: map_of_SomeD)
    moreover have "exact v" using e topk_probs_mem [OF tv] by (auto simp: list_all_iff)
    ultimately show ?thesis using num_abs_above x by blast
  qed
  then have "rows_agree e a"
    using pre ids top1_swap_sound [OF swap e] by (auto simp: rows_agree_def swapped_def)
  with that a m top1_swap_sound(1) [OF swap e] show thesis by auto
qed

lemma compare_rows_sound:
  assumes "foldE (compare_row right) rows n = Inr m"
    and "\<And>key e. (key, e) \<in> set rows \<Longrightarrow> list_all exact (tr_logprobs e)"
    and "\<And>key a. dict_get right key = Some a \<Longrightarrow> list_all exact (tr_logprobs a)"
  shows "(\<forall>(key, e) \<in> set rows. \<exists>a. dict_get right key = Some a \<and> rows_agree e a)
     \<and> m = n + length (filter (\<lambda>(key, e). swapped e (the (dict_get right key))) rows)"
  using assms
proof (induction rows arbitrary: n)
  case (Cons row rows)
  obtain key e where row: "row = (key, e)" by fastforce
  from Cons.prems(1) obtain k where k: "compare_row right (key, e) n = Inr k" and rest: "foldE (compare_row right) rows k = Inr m"
    by (auto simp: row bindE_eq_Inr)
  obtain a where a: "dict_get right key = Some a" "rows_agree e a" "k = n + (if swapped e a then 1 else 0)"
    using compare_row_sound [OF k] Cons.prems(2,3) row by (metis list.set_intros(1))
  have "(\<forall>(key, e) \<in> set rows. \<exists>a. dict_get right key = Some a \<and> rows_agree e a)
     \<and> m = k + length (filter (\<lambda>(key, e). swapped e (the (dict_get right key))) rows)"
    using Cons.prems(2,3) by (intro Cons.IH [OF rest]) auto
  with a show ?case by (simp add: row)
qed simp

text \<open>
  A candidate generation agrees with its reference: it is semantically and structurally valid,
  and repeats tokens and text or leaves the reference after a shared first token.
\<close>

definition runs_agree :: "free_row \<Rightarrow> free_row \<Rightarrow> bool" where
  "runs_agree e a \<longleftrightarrow> fr_semantic_valid a \<and> fr_schema_valid a
     \<and> (if fr_tokens a = fr_tokens e then fr_text a = fr_text e
        else fr_tokens a \<noteq> [] \<and> fr_tokens e \<noteq> [] \<and> hd (fr_tokens a) = hd (fr_tokens e))"

lemma shared_prefix_zero: "shared_prefix xs ys = 0 \<longleftrightarrow> xs = [] \<or> ys = [] \<or> hd xs \<noteq> hd ys"
  by (cases "(xs, ys)" rule: shared_prefix.cases) auto

lemma compare_run_eq:
  "compare_run right (key, e) n = Inr m \<longleftrightarrow>
     (\<exists>a. dict_get right key = Some a \<and> runs_agree e a \<and> m = n + (if fr_tokens a = fr_tokens e then 0 else 1))"
proof (cases "dict_get right key")
  case (Some a)
  then show ?thesis
    by (cases "fr_tokens a = fr_tokens e")
      (auto simp: compare_run_def runs_agree_def Let_def bindE_raiseIf shared_prefix_zero)
qed (simp add: compare_run_def)

lemma compare_runs_eq:
  "foldE (compare_run right) rows n = Inr m \<longleftrightarrow>
     (\<forall>(key, e) \<in> set rows. \<exists>a. dict_get right key = Some a \<and> runs_agree e a)
     \<and> m = n + length (filter (\<lambda>(key, e). fr_tokens (the (dict_get right key)) \<noteq> fr_tokens e) rows)"
proof (induction rows arbitrary: n)
  case (Cons row rows)
  obtain key e where "row = (key, e)" by fastforce
  then show ?case by (auto simp: bindE_eq_Inr compare_run_eq Cons.IH)
qed auto

subsection \<open>Soundness\<close>

lemma compare_correctness_parts:
  assumes "compare_correctness iter_errors reference candidate = Inr rep"
    and "validate_document iter_errors reference = Inr ref" and "validate_document iter_errors candidate = Inr cand"
  shows "set (dict_keys (keyed row_key (teacher_forced ref))) = set (dict_keys (keyed row_key (teacher_forced cand)))"
    and "set (dict_keys (keyed run_key (free_generation ref))) = set (dict_keys (keyed run_key (free_generation cand)))"
    and "foldE (compare_row (keyed row_key (teacher_forced cand))) (keyed row_key (teacher_forced ref)) 0 = Inr (rep_swaps rep)"
    and "foldE (compare_run (keyed run_key (free_generation cand))) (keyed run_key (free_generation ref)) 0 = Inr (rep_divergent rep)"
    and "rep_positions rep = length (keyed row_key (teacher_forced ref))"
    and "rep_runs rep = length (keyed run_key (free_generation cand))"
  using assms by (auto simp: compare_correctness_def bindE_eq_Inr Let_def split: option.splits)

lemma keyed_keys: "distinct (map key rows) \<Longrightarrow> set (dict_keys (keyed key rows)) = key ` set rows"
  by (simp add: keyed_distinct dict_keys_def)


subsection \<open>Acceptance\<close>

lemma num_sub_self: "\<exists>d. num_sub x x = Some d \<and> \<not> above_tolerance (num_abs d)"
  using tolerance_near(1)
  by (cases x) (auto simp: above_tolerance_def num_less_def float_result_def in_range_def Let_def)

lemma fold_set_distinct:
  "distinct (dict_keys d) \<Longrightarrow> distinct (dict_keys (fold (\<lambda>x. dict_set (f x) (g x)) xs d))"
  by (induction xs arbitrary: d) (auto simp: dict_set_distinct)

lemma fold_set_mem:
  "(k, v) \<in> set (fold (\<lambda>x. dict_set (f x) (g x)) xs d) \<Longrightarrow> (k, v) \<in> set d \<or> (\<exists>x \<in> set xs. k = f x \<and> v = g x)"
  by (induction xs arbitrary: d) (auto dest: dict_set_mem)

lemma dict_get_mem: "distinct (dict_keys d) \<Longrightarrow> (k, v) \<in> set d \<Longrightarrow> dict_get d k = Some v"
  by (simp add: dict_get_def dict_keys_def)

lemma keyed_self: "(k, r) \<in> set (keyed key rows) \<Longrightarrow> dict_get (keyed key rows) k = Some r \<and> r \<in> set rows"
  unfolding keyed_def using fold_set_mem [of k r key "\<lambda>x. x" rows "[]"] fold_set_distinct [of "[]" key "\<lambda>x. x" rows]
  by (auto intro!: dict_get_mem simp: dict_keys_def)

lemma exceeds_self: "exceeds (topk_probs row) (topk_probs row) = Inr False"
proof -
  have "distinct (dict_keys (topk_probs row))"
    unfolding topk_probs_def case_prod_beta by (rule fold_set_distinct) (simp add: dict_keys_def)
  then show ?thesis unfolding exceeds_eq using num_sub_self by (fastforce dest: dict_get_mem)
qed

lemma compare_rows_self:
  assumes "\<And>key e. (key, e) \<in> set rows \<Longrightarrow> dict_get right key = Some e \<and> tr_ids e \<noteq> []"
  shows "foldE (compare_row right) rows n = Inr n"
  using assms
proof (induction rows)
  case (Cons row rows)
  obtain key e where row: "row = (key, e)" by fastforce
  then have e: "dict_get right key = Some e" "tr_ids e \<noteq> []" using Cons.prems [of key e] by simp_all
  then have "compare_row right row n = Inr n"
    by (auto simp: row compare_row_def exceeds_self top1_swap_def neq_Nil_conv)
  moreover have "foldE (compare_row right) rows n = Inr n"
    by (rule Cons.IH) (use Cons.prems in \<open>meson list.set_intros(2)\<close>)
  ultimately show ?case by simp
qed simp

text \<open>
  The evaluator accepts a capture as its own reference: a validated document whose subject
  identities are strings, whose rows have candidates, and whose generations are valid passes
  the comparison with itself without a swapped token or a divergent run. The rows need not
  have distinct keys or finite log-probabilities.
\<close>

theorem self_comparison_accepted:
  assumes "validate_document iter_errors (JObj doc) = Inr cap"
    and subject: "dict_get doc ''subject'' = Some (JObj s)"
      "\<forall>k \<in> set SUBJECT_KEYS. \<exists>x. get_or_none s k = JStr x"
    and rows: "\<forall>row \<in> set (teacher_forced cap). tr_ids row \<noteq> []"
    and runs: "\<forall>run \<in> set (free_generation cap). fr_semantic_valid run \<and> fr_schema_valid run"
  shows "\<exists>rep. compare_correctness iter_errors (JObj doc) (JObj doc) = Inr rep
     \<and> rep_swaps rep = 0 \<and> rep_divergent rep = 0 \<and> rep_subject rep = s"
proof -
  have "same_subject (JObj doc) (JObj doc) = Some s"
    using subject by (force simp: same_subject_def get_or_none_def list_all_iff)
  moreover have "foldE (compare_row (keyed row_key (teacher_forced cap))) (keyed row_key (teacher_forced cap)) 0 = Inr 0"
    by (rule compare_rows_self) (use keyed_self rows in metis)
  moreover have "foldE (compare_run (keyed run_key (free_generation cap))) (keyed run_key (free_generation cap)) 0 = Inr 0"
    unfolding compare_runs_eq using runs by (fastforce simp: runs_agree_def filter_empty_conv dest!: keyed_self)
  ultimately show ?thesis using assms(1) by (simp add: compare_correctness_def Let_def)
qed

subsection \<open>Unchecked rows\<close>

definition sample_subject :: jobject where
  "sample_subject = map (\<lambda>k. (k, JStr ''i'')) SUBJECT_KEYS"

definition sample_row :: "int list \<Rightarrow> json list \<Rightarrow> json" where
  "sample_row ids probs = JObj [(''prompt_id'', JStr ''p''), (''position'', JInt 0), (''prefix'', JArr [JInt 1]),
     (''topk_token_ids'', JArr (map JInt ids)), (''topk_logprobs'', JArr probs)]"

definition sample_run :: json where
  "sample_run = JObj [(''prompt_id'', JStr ''p''), (''seed'', JInt 7), (''token_ids'', JArr [JInt 1, JInt 2]),
     (''text'', JStr ''t''), (''semantic_valid'', JBool True), (''schema_valid'', JBool True)]"

definition sample_members :: "json list \<Rightarrow> jobject" where
  "sample_members rows = [(''schema_version'', JStr ''1.0.0''), (''subject'', JObj sample_subject),
     (''teacher_forced'', JArr rows), (''free_generation'', JArr [sample_run]), (''temperature_zero'', JArr [])]"

abbreviation sample_document :: "json list \<Rightarrow> json" where
  "sample_document rows \<equiv> JObj (sample_members rows)"

text \<open>
  A reference row with two candidate tokens, and the report of an accepted comparison with it.
\<close>

definition good_row :: json where
  "good_row = sample_row [5, 9] [JFloat (- 1 / 8), JFloat (- 9 / 64)]"

definition clean_report :: "nat \<Rightarrow> correctness_report" where
  "clean_report swaps = \<lparr>rep_subject = sample_subject, rep_positions = 1, rep_swaps = swaps, rep_runs = 1,
     rep_divergent = 0, rep_zero_runs = 0, rep_modal = None\<rparr>"

definition good_teacher :: teacher_row where
  "good_teacher = \<lparr>tr_prompt_id = ''p'', tr_position = 0, tr_prefix = [1], tr_ids = [5, 9],
     tr_logprobs = [PFloat (- 1 / 8), PFloat (- 9 / 64)]\<rparr>"

lemma read_good: "read_teacher good_row = Inr good_teacher"
  by code_simp

lemma sample_read:
  "mapE read_teacher rows = Inr ts \<Longrightarrow> read_capture (sample_document rows) = Inr
     \<lparr>teacher_forced = ts,
      free_generation = [\<lparr>fr_prompt_id = ''p'', fr_seed = 7, fr_tokens = [1, 2], fr_text = ''t'',
        fr_semantic_valid = True, fr_schema_valid = True\<rparr>],
      temperature_zero = []\<rparr>"
  by (simp add: read_capture_def sample_members_def item_of_def dict_get_def items_with_def list_of_def
      sample_run_def read_free_def str_of_def integer_of_def bool_of_def)

lemma sample_compare:
  assumes "iter_errors (sample_document [good_row]) = []" and "iter_errors (sample_document rows) = []"
    and read: "mapE read_teacher rows = Inr ts" and lens: "\<forall>t \<in> set ts. length (tr_ids t) = length (tr_logprobs t)"
    and keyed: "keyed row_key ts = [((''p'', 0), u)]"
    and row: "compare_row [((''p'', 0), u)] ((''p'', 0), good_teacher) 0 = Inr n"
  shows "compare_correctness iter_errors (sample_document [good_row]) (sample_document rows) = Inr (clean_report n)"
proof -
  have "same_subject (sample_document [good_row]) (sample_document rows) = Some sample_subject" by code_simp
  moreover have "validate_document iter_errors (sample_document rows) = read_capture (sample_document rows)"
    using assms(2) lens by (simp add: validate_document_def sample_read [OF read] list_ex_iff)
  moreover have "validate_document iter_errors (sample_document [good_row]) = read_capture (sample_document [good_row])"
    using assms(1) by (simp add: validate_document_def sample_read [of _ "[good_teacher]"] read_good good_teacher_def)
  moreover have "keyed row_key [good_teacher] = [((''p'', 0), good_teacher)]" by code_simp
  ultimately show ?thesis
    using keyed row
    by (simp add: compare_correctness_def sample_read [OF read] sample_read [of _ "[good_teacher]"] read_good
        dict_keys_def keyed_def run_key_def compare_run_def dict_get_def count_outputs_def clean_report_def)
qed



text \<open>
  A repeated position is compared once. A candidate that holds two rows for one prompt and
  position, the first of them with other top-k tokens than the reference, passes the
  comparison and reports one position: the rows are collected in a dictionary, where the
  later row replaces the earlier one.
\<close>

theorem repeated_position_unchecked:
  assumes "iter_errors (sample_document [good_row]) = []"
    and "iter_errors (sample_document [sample_row [8, 6] [JInt 0, JInt 0], good_row]) = []"
  shows "compare_correctness iter_errors (sample_document [good_row])
     (sample_document [sample_row [8, 6] [JInt 0, JInt 0], good_row]) = Inr (clean_report 0)"
proof (rule sample_compare [OF assms])
  show "mapE read_teacher [sample_row [8, 6] [JInt 0, JInt 0], good_row]
      = Inr [good_teacher\<lparr>tr_ids := [8, 6], tr_logprobs := [PInt 0, PInt 0]\<rparr>, good_teacher]"
    by code_simp
  show "keyed row_key [good_teacher\<lparr>tr_ids := [8, 6], tr_logprobs := [PInt 0, PInt 0]\<rparr>, good_teacher]
      = [((''p'', 0), good_teacher)]"
    by code_simp
  show "compare_row [((''p'', 0), good_teacher)] ((''p'', 0), good_teacher) 0 = Inr 0"
    by code_simp
qed (simp add: good_teacher_def)

theorem repeated_position_unchecked_witness:
  "compare_correctness (\<lambda>_. []) (sample_document [good_row])
     (sample_document [sample_row [8, 6] [JInt 0, JInt 0], good_row]) = Inr (clean_report 0)"
  by (rule repeated_position_unchecked) simp_all

subsection \<open>Witnesses\<close>

text \<open>A candidate that swaps the near tie of the reference row.\<close>

definition swap_row :: json where
  "swap_row = sample_row [9, 5] [JFloat (- 1 / 8), JFloat (- 9 / 64)]"

definition sample_capture :: "teacher_row list \<Rightarrow> capture" where
  "sample_capture ts = \<lparr>teacher_forced = ts,
      free_generation = [\<lparr>fr_prompt_id = ''p'', fr_seed = 7, fr_tokens = [1, 2], fr_text = ''t'',
        fr_semantic_valid = True, fr_schema_valid = True\<rparr>],
      temperature_zero = []\<rparr>"

lemma sample_validate:
  "mapE read_teacher rows = Inr ts \<Longrightarrow> \<forall>t \<in> set ts. length (tr_ids t) = length (tr_logprobs t) \<Longrightarrow>
     validate_document (\<lambda>_. []) (sample_document rows) = Inr (sample_capture ts)"
  by (simp add: validate_document_def sample_read sample_capture_def list_ex_iff)

lemma good_exact: "exact (PFloat (- 1 / 8))" "exact (PFloat (- 9 / 64))"
  unfolding exact_def by code_simp+


theorem self_comparison_accepted_witness:
  "\<exists>rep. compare_correctness (\<lambda>_. []) (sample_document [good_row]) (sample_document [good_row]) = Inr rep
     \<and> rep_swaps rep = 0 \<and> rep_divergent rep = 0 \<and> rep_subject rep = sample_subject"
proof (rule self_comparison_accepted)
  show "validate_document (\<lambda>_. []) (sample_document [good_row]) = Inr (sample_capture [good_teacher])"
    by (simp add: sample_validate read_good good_teacher_def)
  show "dict_get (sample_members [good_row]) ''subject'' = Some (JObj sample_subject)"
    by (simp add: sample_members_def dict_get_def)
  show "\<forall>k \<in> set SUBJECT_KEYS. \<exists>x. get_or_none sample_subject k = JStr x"
    by (simp add: SUBJECT_KEYS_def sample_subject_def get_or_none_def dict_get_def)
qed (simp_all add: sample_capture_def good_teacher_def)

end
