(* ===== verification/Captures.thy ===== *)
theory Captures
  imports Correctness
begin

text \<open>
  The fixed work of the live captures: \<^verbatim>\<open>capture_plan\<close> and \<^verbatim>\<open>validate_capture_preconditions\<close> of
  \<^verbatim>\<open>scripts/capture_reference.py\<close>, and \<^verbatim>\<open>stress_plan\<close> and \<^verbatim>\<open>validate_executor_contract\<close> of
  \<^verbatim>\<open>scripts/stress_champion.py\<close>. The requests themselves go to a live server and are not
  modelled. \<open>CapturePy\<close> stands for the exceptions of malformed documents.
\<close>

subsection \<open>Capture plan\<close>

datatype capture_error =
    InvalidSuite
  | TeacherForcedRequired json
  | FiveFreeRuns json
  | TenRepeats json
  | OutputExists
  | IncompleteIdentity
  | NotIdle
  | CountersShared
  | CapturePy py_error

datatype plan_entry =
    TeacherForced json
  | FreeGeneration json json
  | TemperatureZero json int

definition as_dict :: "json \<Rightarrow> capture_error + jobject" where
  "as_dict j = (case j of JObj d \<Rightarrow> Inr d | _ \<Rightarrow> Inl (CapturePy AttributeError))"

definition get_default :: "jobject \<Rightarrow> string \<Rightarrow> json \<Rightarrow> json" where
  "get_default d k v = (case dict_get d k of None \<Rightarrow> v | Some w \<Rightarrow> w)"

text \<open>\<^verbatim>\<open>set(values)\<close> keeps the first of equal values.\<close>

fun py_set :: "json list \<Rightarrow> json list" where
  "py_set [] = []"
| "py_set (x # xs) = x # filter (\<lambda>y. \<not> item_eq x y) (py_set xs)"

definition five_seeds :: "jobject \<Rightarrow> json \<Rightarrow> capture_error + json list" where
  "five_seeds sampling prompt_id =
     (if \<not> py_eq (get_or_none sampling ''free_runs'') (JInt 5) then Inl (FiveFreeRuns prompt_id)
      else case get_or_none sampling ''seeds'' of
        JArr seeds \<Rightarrow>
          if length seeds \<noteq> 5 then Inl (FiveFreeRuns prompt_id)
          else if \<not> list_all hashable seeds then Inl (CapturePy TypeError)
          else if length (py_set seeds) \<noteq> 5 then Inl (FiveFreeRuns prompt_id)
          else Inr seeds
      | _ \<Rightarrow> Inl (FiveFreeRuns prompt_id))"

definition prompt_entries :: "json \<Rightarrow> capture_error + plan_entry list" where
  "prompt_entries p =
     bindE (as_dict p) (\<lambda>prompt.
     bindE (as_dict (get_default prompt ''sampling'' (JObj []))) (\<lambda>sampling.
     (let prompt_id = get_or_none prompt ''id'' in
      bindE (raiseIf (get_or_none sampling ''teacher_forced'' \<noteq> JBool True) (TeacherForcedRequired prompt_id)) (\<lambda>_.
      bindE (five_seeds sampling prompt_id) (\<lambda>seeds.
      bindE (raiseIf (\<not> py_eq (get_or_none sampling ''temperature_zero_repeats'') (JInt 10)) (TenRepeats prompt_id)) (\<lambda>_.
      Inr (TeacherForced prompt_id # map (FreeGeneration prompt_id) seeds
             @ map (TemperatureZero prompt_id) (py_range 1 11))))))))"

definition capture_plan :: "jobject \<Rightarrow> capture_error + plan_entry list" where
  "capture_plan prompt_suite =
     (case get_or_none prompt_suite ''prompts'' of
        JArr prompts \<Rightarrow>
          bindE (raiseIf (get_or_none prompt_suite ''schema_version'' \<noteq> JStr ''1.0.0'') InvalidSuite) (\<lambda>_.
          bindE (mapE prompt_entries prompts) (\<lambda>rows. Inr (concat rows)))
      | _ \<Rightarrow> Inl InvalidSuite)"

definition validate_capture_preconditions ::
    "bool \<Rightarrow> jobject \<Rightarrow> bool \<Rightarrow> bool \<Rightarrow> bool \<Rightarrow> capture_error + unit" where
  "validate_capture_preconditions output_exists subject idle complete_identity counters_isolated =
     bindE (raiseIf output_exists OutputExists) (\<lambda>_.
     bindE (raiseIf (set (dict_keys subject) \<noteq> set SUBJECT_KEYS \<or> \<not> complete_identity) IncompleteIdentity) (\<lambda>_.
     bindE (raiseIf (\<not> idle) NotIdle) (\<lambda>_.
     raiseIf (\<not> counters_isolated) CountersShared)))"

subsection \<open>Stress plan\<close>

datatype stress_error =
    UnknownStressProfile string
  | TokenizeRequired
  | PostIdleRequired
  | TokenCountRequired
  | OutputRequired
  | HealthRequired
  | StressPy py_error

record stress_leg =
  leg_name :: string
  context_tokens :: int
  idle_before_seconds :: int

definition stress_contexts :: "(string, (string \<times> int) list) dict" where
  "stress_contexts =
    [(''fast-320k'', [(''immediate'', 0), (''c4'', 0), (''context-8k'', 8192), (''context-65k'', 65536),
        (''context-240k'', 240000), (''context-capacity'', 299000)]),
     (''balanced-650k'', [(''immediate'', 0), (''c4'', 0), (''context-capacity'', 600000)]),
     (''large-1m'', [(''immediate'', 0), (''c4'', 0), (''context-capacity'', 900000)])]"

definition stress_plan :: "string \<Rightarrow> stress_error + stress_leg list" where
  "stress_plan profile =
     (case dict_get stress_contexts profile of
        None \<Rightarrow> Inl (UnknownStressProfile profile)
      | Some legs \<Rightarrow> Inr (map (\<lambda>(name, tokens). \<lparr>leg_name = name, context_tokens = tokens, idle_before_seconds = 0\<rparr>) legs
          @ [\<lparr>leg_name = ''post-idle'', context_tokens = 0, idle_before_seconds = 300\<rparr>]))"

definition check_leg :: "json \<Rightarrow> stress_error + unit" where
  "check_leg j = (case j of
      JObj leg \<Rightarrow>
        (case json_int (get_or_none leg ''token_count'') of
           None \<Rightarrow> Inl TokenCountRequired
         | Some n \<Rightarrow>
             bindE (raiseIf (n < 0) TokenCountRequired) (\<lambda>_.
             bindE (case get_or_none leg ''output'' of
                      JStr s \<Rightarrow> raiseIf (s = []) OutputRequired
                    | _ \<Rightarrow> Inl OutputRequired) (\<lambda>_.
             raiseIf (get_or_none leg ''health'' \<noteq> JBool True \<or> get_or_none leg ''idle'' \<noteq> JBool True)
               HealthRequired)))
    | _ \<Rightarrow> Inl (StressPy AttributeError))"

text \<open>The number of legs of an accepted report.\<close>

definition validate_executor_contract :: "jobject \<Rightarrow> stress_error + nat" where
  "validate_executor_contract report =
     bindE (raiseIf (get_or_none report ''tokenizer_endpoint'' \<noteq> JStr ''/tokenize'') TokenizeRequired) (\<lambda>_.
     bindE (raiseIf (get_or_none report ''post_idle_generation'' \<noteq> JBool True) PostIdleRequired) (\<lambda>_.
     case get_default report ''legs'' (JArr []) of
       JArr legs \<Rightarrow> bindE (mapE check_leg legs) (\<lambda>_. Inr (length legs))
     | JObj d \<Rightarrow> if d = [] then Inr 0 else Inl (StressPy AttributeError)
     | JStr s \<Rightarrow> if s = [] then Inr 0 else Inl (StressPy AttributeError)
     | _ \<Rightarrow> Inl (StressPy TypeError)))"

subsection \<open>Coverage of the plan\<close>

lemma item_eq_refl: "hashable x \<Longrightarrow> item_eq x x"
  by (cases x rule: hashable.cases) (auto simp: item_eq_def num_eq_def split: nonfinite.splits)

lemma length_py_set: "length (py_set xs) \<le> length xs"
  by (induction xs) (auto intro: order_trans [OF length_filter_le])

lemma py_set_full:
  "length (py_set xs) = length xs \<Longrightarrow> list_all hashable xs \<Longrightarrow> py_set xs = xs \<and> distinct xs"
proof (induction xs)
  case (Cons x xs)
  let ?f = "filter (\<lambda>y. \<not> item_eq x y) (py_set xs)"
  have "length ?f = length xs" using Cons.prems(1) by simp
  moreover have "length ?f \<le> length (py_set xs)" "length (py_set xs) \<le> length xs"
    by (rule length_filter_le, rule length_py_set)
  ultimately have full: "length (py_set xs) = length xs" "length ?f = length (py_set xs)" by linarith+
  with Cons have xs: "py_set xs = xs" "distinct xs" by auto
  then have "\<forall>y \<in> set xs. \<not> item_eq x y" using full(2) by (metis filter_id_conv length_filter_less less_irrefl)
  with xs item_eq_refl [of x] Cons.prems(2) show ?case by (auto simp: filter_id_conv)
qed simp

lemma five_seeds_eq_Inr:
  "five_seeds sampling i = Inr seeds \<Longrightarrow> length seeds = 5 \<and> distinct seeds"
  using py_set_full [of seeds] by (auto simp: five_seeds_def split: if_splits json.splits)

definition prompt_id_of :: "json \<Rightarrow> json" where
  "prompt_id_of p = (case p of JObj d \<Rightarrow> get_or_none d ''id'' | _ \<Rightarrow> JNull)"

fun entry_prompt :: "plan_entry \<Rightarrow> json" where
  "entry_prompt (TeacherForced p) = p"
| "entry_prompt (FreeGeneration p s) = p"
| "entry_prompt (TemperatureZero p n) = p"

text \<open>The captures of one prompt: one teacher-forced, five seeded, ten at temperature zero.\<close>

definition full_matrix :: "json \<Rightarrow> plan_entry list \<Rightarrow> bool" where
  "full_matrix i es \<longleftrightarrow> (\<exists>seeds. length seeds = 5 \<and> distinct seeds \<and>
     mset es = {#TeacherForced i#} + mset (map (FreeGeneration i) seeds) + mset (map (TemperatureZero i) [1..10]))"

lemma prompt_entries_eq_Inr:
  assumes "prompt_entries p = Inr es"
  obtains seeds where "length seeds = 5" and "distinct seeds"
    and "es = TeacherForced (prompt_id_of p) # map (FreeGeneration (prompt_id_of p)) seeds
       @ map (TemperatureZero (prompt_id_of p)) [1..10]"
  using assms
  by (auto simp: prompt_entries_def bindE_eq_Inr as_dict_def prompt_id_of_def Let_def py_range_def
      split: json.splits dest!: five_seeds_eq_Inr)

lemma prompt_entries_sound:
  assumes "prompt_entries p = Inr es"
  shows "full_matrix (prompt_id_of p) es" and "e \<in> set es \<Longrightarrow> entry_prompt e = prompt_id_of p"
    and "length es = 16" and "distinct es"
  using assms
  by (auto elim!: prompt_entries_eq_Inr simp: full_matrix_def distinct_map inj_on_def)


subsection \<open>Witness\<close>

definition sample_prompt :: "string \<Rightarrow> json" where
  "sample_prompt i = JObj [(''id'', JStr i), (''sampling'', JObj [(''teacher_forced'', JBool True),
     (''free_runs'', JInt 5), (''seeds'', JArr (map JInt [11, 12, 13, 14, 15])), (''temperature_zero_repeats'', JInt 10)])]"

definition sample_suite :: jobject where
  "sample_suite = [(''schema_version'', JStr ''1.0.0''), (''prompts'', JArr [sample_prompt ''a'', sample_prompt ''b''])]"

definition sample_plan :: "plan_entry list" where
  "sample_plan = concat (map (\<lambda>i. TeacherForced (JStr i) # map (FreeGeneration (JStr i) \<circ> JInt) [11, 12, 13, 14, 15]
     @ map (TemperatureZero (JStr i)) [1..10]) [''a'', ''b''])"


end
