(* ===== verification/Spec2Isabelle.thy ===== *)
theory Spec2Isabelle
  imports AcceptanceLength UnifiedMemory GateStatus Attestation KVCacheSpec CudaGraphs SchedRotation SchedStep
    Battery Captures
begin

text \<open>
  Verification library of the champion runtime: the vLLM overlays that serve GLM-5.2 on a small
  cluster of unified-memory machines, and the release tooling that decides what may be published.

  \<^bold>\<open>Parts of the program and how they interact.\<close> A worker process budgets the unified memory shared
  by CPU and GPU (\<^verbatim>\<open>vllm/utils/mem_utils.py\<close>, \<^verbatim>\<open>vllm/v1/worker/gpu_worker.py\<close>), sizes the KV cache from the
  layer specs (\<^verbatim>\<open>vllm/v1/kv_cache_interface.py\<close>) and captures CUDA graphs for the batch shapes it expects
  (\<^verbatim>\<open>vllm/v1/worker/gpu/cudagraph_utils.py\<close>). The scheduler (\<^verbatim>\<open>vllm/v1/core/sched/scheduler.py\<close>) distributes a
  token budget over requests, feeds the acceptance of draft tokens to a controller
  (\<^verbatim>\<open>vllm/v1/spec_decode/dynamic\<close>) and uses the depth it selects for the next step. Controller and graph manager
  share one ladder of depths. The tooling (\<^verbatim>\<open>champion_runtime\<close>, \<^verbatim>\<open>scripts\<close>) turns test and build results into
  receipts, verifies their attestations, and promotes publication claims from verified receipts only.

  \<^bold>\<open>Theories.\<close>
    \<^item> \<^verbatim>\<open>Prelude\<close>: fallible code (\<open>bindE\<close>, \<open>raiseIf\<close>, \<open>mapE\<close>, \<open>foldE\<close>), Python ranges, dictionaries, sets in sorted
      order, string stripping, splitting and \<^verbatim>\<open>int\<close>; the lemma collections \<open>result_simps\<close> and \<open>result_elims\<close>.
    \<^item> \<^verbatim>\<open>Float64\<close>: binary64 rounding of rationals and the divisions Python performs, with the bounds used later.
    \<^item> \<^verbatim>\<open>DepthLadder\<close>: \<^verbatim>\<open>depth_ladder.py\<close>; every parse gives an increasing ladder in \<open>[1, K]\<close> that contains \<open>K\<close>.
    \<^item> \<^verbatim>\<open>AcceptanceLength\<close>: \<^verbatim>\<open>acceptance_length.py\<close>; the controller is the record \<open>acl\<close>, one call of
      \<^verbatim>\<open>observe_batch\<close> is a step of \<open>acl_step\<close>. Invariant over all reachable controllers, exact decisions of the
      production ladder in integers, progress of the window.
    \<^item> \<^verbatim>\<open>UnifiedMemory\<close>: memory snapshots, profiling, the ceiling formula and its application to the allocator,
      the strict byte parsers and the worker methods that use them.
    \<^item> \<^verbatim>\<open>KVCacheSpec\<close>: all KV-cache spec classes: page sizes, padding, merging, memory bounds, uniform groups.
    \<^item> \<^verbatim>\<open>CudaGraphs\<close>: \<^verbatim>\<open>CudaGraphManager\<close>: candidate tables, the two fail-closed checks of adaptive depth, capture
      and dispatch. A FULL descriptor handed out is captured and fits the batch; ladder batches get one;
      the precomputed tables agree with a direct search.
    \<^item> \<^verbatim>\<open>SchedState\<close>, \<^verbatim>\<open>SchedPrefill\<close>, \<^verbatim>\<open>SchedRunning\<close>, \<^verbatim>\<open>SchedRotation\<close>: requests and the scheduler's state; chunk
      alignment and turns of long prefills; the running half of \<^verbatim>\<open>schedule\<close> with encoder inputs and preemption;
      fairness of the turns over many steps.
    \<^item> \<^verbatim>\<open>SchedMtp\<close>: acceptance accounting of \<^verbatim>\<open>update_from_output\<close>, the observation passed to the controller, the
      instrumentation window as a refinement of a log.
    \<^item> \<^verbatim>\<open>SchedBlocks\<close>: deferred return of KV blocks; steps in flight are a queue of an \<open>inductive\<close> step relation, and
      in every interleaving a block in flight is not available for allocation.
    \<^item> \<^verbatim>\<open>SchedLife\<close>: admission, streaming sessions, completion, blocked requests, finished transfers and the reset of
      the prefix cache; every unfinished request stays in exactly one queue (\<open>queue_inv\<close>).
    \<^item> \<^verbatim>\<open>SchedInvalid\<close>, \<^verbatim>\<open>SchedOutput\<close>: recovery from failed KV loads; \<^verbatim>\<open>update_from_output\<close> and the installation of draft
      tokens. Staleness of outputs is exact, \<open>queue_inv\<close> is kept, and the case it excludes loses a session.
      Loops that keep an invariant of the scheduler instantiate the contract \<open>preserved_step\<close> of \<^verbatim>\<open>Prelude\<close>.
    \<^item> \<^verbatim>\<open>SchedWaiting\<close>, \<^verbatim>\<open>SchedStep\<close>: the waiting half of \<^verbatim>\<open>schedule\<close> (cached and external tokens, asynchronous loads,
      admission) and the step as a whole; a step from a consistent state returns within its limits and leaves
      consistent queues. Two executions show where padding and the adapter limit go wrong.
    \<^item> \<^verbatim>\<open>Json\<close>, \<^verbatim>\<open>Receipts\<close>, \<^verbatim>\<open>Attestation\<close>: JSON values; receipt content policy, identifiers, construction and
      verification; contract loading, normalization of verifier output and verification of attestations.
    \<^item> \<^verbatim>\<open>GateStatus\<close>: \<^verbatim>\<open>scripts/gate_status.py\<close>: derivation of the ten publication claims from verified receipts and
      their promotion in the status document.
    \<^item> \<^verbatim>\<open>PyValue\<close>: numbers with the special floats, equality, ordering and sorting of decoded JSON as Python
      performs them; a comparison that is a linear order (\<open>total_comparison\<close>) sorts.
    \<^item> \<^verbatim>\<open>Battery\<close>, \<^verbatim>\<open>Correctness\<close>, \<^verbatim>\<open>Captures\<close>: the evaluators \<^verbatim>\<open>evaluate_battery.py\<close>, \<^verbatim>\<open>verify_correctness.py\<close>,
      \<^verbatim>\<open>capture_reference.py\<close> and \<^verbatim>\<open>stress_champion.py\<close>. What a completed battery and an accepted candidate
      guarantee for finite numbers, that NaN passes both evaluators, that a capture compared with itself is
      accepted, and that a capture plan is the full matrix of its prompts.
  This theory connects the controller with the captured graphs through the contract \<open>shared_ladder\<close>.

  \<^bold>\<open>How the model corresponds to the code.\<close> Objects are records with the source's field names; a method that
  mutates its object returns the new record; exceptions, assertions and early returns are \<open>Inl\<close> values. Python
  integers are \<open>int\<close>; floats are rationals rounded to binary64. Objects reached from several lists (requests) live
  in one store and lists hold their identifiers. Loops are recursion over the list they walk; the scheduler's three
  while loops are proved to terminate by the distance between index and list end, by the length of the
  running list and by the length of the queues. No definition uses fuel. Code outside the repository (torch,
  psutil, the KV-cache manager, encoder cache and request queue, \<^verbatim>\<open>CUDAGraphMode\<close>, \<^verbatim>\<open>round_up\<close> and \<^verbatim>\<open>cdiv\<close>,
  SHA-256, RFC 8785, the JSON-schema validator, the \<^verbatim>\<open>gh\<close> verifier) is an argument of the definitions that call it; what a theorem needs of it is a named
  hypothesis, and its witness instantiates it with a concrete function.

  \<^bold>\<open>Not modelled.\<close> Statistics, events, log probabilities, routed experts and worker metadata of the scheduler;
  warm-up and forward passes, graph pools and \<^verbatim>\<open>ModelCudaGraphManager\<close>; the model runner, speculators,
  attention backends, CuTe and CUDA kernels and model definitions, whose results are device tensors; engine
  arguments and configuration classes beyond the fields read here; \<^verbatim>\<open>verify_runtime.py\<close>; launch, packaging and scanning scripts,
  which drive external programs; tests, fixtures and schemas.
\<close>

section \<open>The scheduler's depths and the captured graphs\<close>

text \<open>
  The controller of the scheduler and the CUDA-graph manager run in different processes; what
  connects them is the ladder both parse from the environment. \<open>controller_reaches\<close> are the
  depths a controller built by the scheduler can hold, \<open>graphs_serve\<close> the depths whose
  verification batches every built and captured manager of a separate decode routine replays.
\<close>

definition controller_reaches :: "string option \<Rightarrow> int \<Rightarrow> int \<Rightarrow> bool" where
  "controller_reaches env k depth \<longleftrightarrow>
     (\<exists>window ladder c. parse_adaptive_spec_depth_ladder env k None = Inr ladder
        \<and> acl_reach k window (Some ladder) c \<and> acl.num_spec_tokens c = depth)"

definition adapts :: "cg_config \<Rightarrow> bool" where
  "adapts cfg \<longleftrightarrow> 1 < decode_query_len cfg \<and> separate_routine (cg_api cfg)
     \<and> (case speculative cfg of None \<Rightarrow> False | Some sc \<Rightarrow> uses_acceptance_length_adaptation sc)"

definition graphs_serve :: "string option \<Rightarrow> int \<Rightarrow> int \<Rightarrow> bool" where
  "graphs_serve env k depth \<longleftrightarrow>
     (\<forall>cfg st st' n l. config_ok cfg \<and> adapts cfg \<and> ladder_env cfg = env \<and> cg_config.num_spec_tokens cfg = k
        \<and> init_candidates cfg = Inr st \<and> capture st = Inr st'
        \<and> 1 \<le> n \<and> n \<le> max_captured_reqs cfg
        \<and> resolve_effective_loras cfg l \<in> set (lora_capture_cases cfg)
      \<longrightarrow> (let q = depth + (decode_query_len cfg - k); d = dispatch cfg st' n (q * n) (Some q) l in
           cg_mode d = CG_FULL \<and> run_fullgraph st' d = Inr ()))"

locale shared_ladder =
  fixes parse :: "string option \<Rightarrow> int \<Rightarrow> 'err + int list"
    and reaches :: "string option \<Rightarrow> int \<Rightarrow> int \<Rightarrow> bool"
    and serve :: "string option \<Rightarrow> int \<Rightarrow> int \<Rightarrow> bool"
  assumes reach_parsed: "reaches env k d \<Longrightarrow> \<exists>ladder. parse env k = Inr ladder \<and> d \<in> set ladder"
    and parsed_served: "parse env k = Inr ladder \<Longrightarrow> d \<in> set ladder \<Longrightarrow> serve env k d"
begin

lemma reached_served: "reaches env k d \<Longrightarrow> serve env k d"
  using reach_parsed parsed_served by blast

end

lemma controller_reaches_ladder:
  assumes "controller_reaches env k d"
  shows "\<exists>ladder. parse_adaptive_spec_depth_ladder env k None = Inr ladder \<and> d \<in> set ladder"
proof -
  obtain w ladder c where p: "parse_adaptive_spec_depth_ladder env k None = Inr ladder"
    and r: "acl_reach k w (Some ladder) c" and d: "acl.num_spec_tokens c = d"
    using assms by (auto simp: controller_reaches_def)
  have "depth_ladder c = ladder"
    using acl_reach_config [OF r] normalize_ladder_id [OF parse_ladder_ok [OF p]] by simp
  with acl_reach_inv [OF r] p d show ?thesis by (auto simp: acl_inv_def)
qed

lemma adaptive_lens_ladder:
  assumes "adapts cfg" and "adaptive_spec_decode_query_lens cfg = Inr lens"
    and "parse_adaptive_spec_depth_ladder (ladder_env cfg) (cg_config.num_spec_tokens cfg) None = Inr ladder"
  shows "lens = map (\<lambda>d. d + (decode_query_len cfg - cg_config.num_spec_tokens cfg)) ladder"
  using assms
  by (auto simp: adapts_def adaptive_spec_decode_query_lens_def Let_def bindE_raiseIf split: option.splits if_splits)

lemma init_candidates_lens:
  assumes "init_candidates cfg = Inr st"
  shows "\<exists>lens. adaptive_spec_decode_query_lens cfg = Inr lens"
  using assms
proof (cases rule: init_candidates_cases)
  case (built modes adaptive)
  then show ?thesis by (auto simp: init_adaptive_spec_candidates_def bindE_eq_Inr)
qed simp

lemma ladder_depth_served:
  assumes p: "parse_adaptive_spec_depth_ladder env k None = Inr ladder" and d: "d \<in> set ladder"
  shows "graphs_serve env k d"
  unfolding graphs_serve_def
proof (intro allI impI, elim conjE)
  fix cfg st st' n l
  assume ok: "config_ok cfg" and ad: "adapts cfg" and env: "ladder_env cfg = env"
    and k: "cg_config.num_spec_tokens cfg = k" and init: "init_candidates cfg = Inr st" and cap: "capture st = Inr st'"
    and n: "1 \<le> n" "n \<le> max_captured_reqs cfg"
    and l: "resolve_effective_loras cfg l \<in> set (lora_capture_cases cfg)"
  obtain lens where lens: "adaptive_spec_decode_query_lens cfg = Inr lens" using init_candidates_lens [OF init] ..
  have "d + (decode_query_len cfg - k) \<in> set lens"
    using adaptive_lens_ladder [OF ad lens] p d env k by auto
  moreover have "separate_routine (cg_api cfg)" using ad by (simp add: adapts_def)
  ultimately show "let q = d + (decode_query_len cfg - k); d = dispatch cfg st' n (q * n) (Some q) l in
      cg_mode d = CG_FULL \<and> run_fullgraph st' d = Inr ()"
    using ladder_batch_full [OF ok init cap _ lens _ n l] by (simp add: Let_def)
qed

interpretation depths: shared_ladder "\<lambda>env k. parse_adaptive_spec_depth_ladder env k None" controller_reaches graphs_serve
  by unfold_locales (simp_all add: controller_reaches_ladder ladder_depth_served)



end
